(* ===== verification/Go_Prelude.thy ===== *)
theory Go_Prelude
  imports Main "HOL-Library.Word" "HOL-Library.List_Lexorder" "HOL-Library.Char_ord"
begin

text \<open>
  Shared vocabulary of the development: Go's time and 64-bit arithmetic, the functions of the
  strings and path/filepath packages that the modelled code calls, the contract that every
  operation of a component keeps its invariant (locale \<open>invariant_system\<close>), and the
  generic list and map lemmas the components use.

  Instants are counted in nanoseconds from Go's zero time (1 January of the year 1, UTC), so
  \<open>time_zero\<close> is the value of \<open>time.Time{}\<close>. Durations are nanoseconds. A Go string is its
  bytes (\<open>string\<close>, a list of \<open>char\<close>); where a function of the strings package leaves ASCII it
  consults the Unicode tables, which are the parameter \<open>unicode\<close> of the definitions using them.
\<close>

subsection \<open>Collections of facts\<close>

named_theorems row_simps \<open>how an operation rewrites one row of a table\<close>
named_theorems op_inv \<open>an operation keeps the invariant of its component\<close>

subsection \<open>Time and 64-bit integers\<close>

type_synonym time = int
type_synonym duration = int

abbreviation time_zero :: time where
  "time_zero \<equiv> 0"

definition second :: duration where
  "second = 10 ^ 9"

definition minute :: duration where
  "minute = 60 * second"

definition hour :: duration where
  "hour = 60 * minute"

lemmas time_units = second_def minute_def hour_def

text \<open>The value an \<open>int64\<close> holds after an operation whose exact result is \<open>x\<close>.\<close>

definition wrap64 :: "int \<Rightarrow> int" where
  "wrap64 x = (x + 2 ^ 63) mod 2 ^ 64 - 2 ^ 63"

lemma wrap64_id: "- (2 ^ 63) \<le> x \<Longrightarrow> x < 2 ^ 63 \<Longrightarrow> wrap64 x = x"
  by (simp add: wrap64_def)

lemma wrap64_range: "- (2 ^ 63) \<le> wrap64 x \<and> wrap64 x < 2 ^ 63"
proof -
  have "0 \<le> (x + 2 ^ 63) mod 2 ^ 64" and "(x + 2 ^ 63) mod 2 ^ 64 < (2 ^ 64 :: int)"
    by simp_all
  then show ?thesis unfolding wrap64_def by simp
qed

text \<open>\<open>Time.Sub\<close> saturates at the ends of the duration range.\<close>

definition time_sub :: "time \<Rightarrow> time \<Rightarrow> duration" where
  "time_sub t u = max (- (2 ^ 63)) (min (2 ^ 63 - 1) (t - u))"

lemma time_sub_less_iff:
  "- (2 ^ 63) < d \<Longrightarrow> d < 2 ^ 63 \<Longrightarrow> time_sub t u < d \<longleftrightarrow> t - u < d"
  unfolding time_sub_def by linarith

lemma time_sub_exact: "\<bar>t - u\<bar> < 2 ^ 63 \<Longrightarrow> time_sub t u = t - u"
  unfolding time_sub_def by linarith

text \<open>\<open>Time.Unix\<close> and \<open>time.Unix\<close>: whole seconds since 1970.\<close>

definition unix_of :: "time \<Rightarrow> int" where
  "unix_of t = t div second - 62135596800"

text \<open>The layout \<open>2006-01-02T15:04:05Z\<close> keeps whole seconds.\<close>

definition to_second :: "time \<Rightarrow> time" where
  "to_second t = t div second * second"

lemma to_second_le: "to_second t \<le> t" and to_second_gt: "t < to_second t + second"
proof -
  have "t = t div second * second + t mod second" by simp
  moreover have "0 \<le> t mod second" "t mod second < second" by (simp_all add: second_def)
  ultimately show "to_second t \<le> t" "t < to_second t + second" unfolding to_second_def by linarith+
qed

lemma to_second_mono: "s \<le> t \<Longrightarrow> to_second s \<le> to_second t"
  unfolding to_second_def by (intro mult_right_mono zdiv_mono1) (simp_all add: second_def)

definition of_unix :: "int \<Rightarrow> time" where
  "of_unix s = (s + 62135596800) * second"

lemma int_div_less_iff: "0 < b \<Longrightarrow> t div b < u \<longleftrightarrow> t < u * b" for t u b :: int
proof -
  assume b: "0 < b"
  have m: "t = t div b * b + t mod b" "0 \<le> t mod b" "t mod b < b" using b by simp_all
  show ?thesis
  proof
    assume "t div b < u"
    then have "(t div b + 1) * b \<le> u * b" using b by (intro mult_right_mono) simp_all
    then have "t div b * b + b \<le> u * b" by (simp only: distrib_right mult_1)
    then show "t < u * b" using m by linarith
  next
    assume "t < u * b"
    then have "t div b * b < u * b" using m by linarith
    then show "t div b < u" using b by simp
  qed
qed

lemma unix_of_less_iff: "unix_of t < s \<longleftrightarrow> t < of_unix s"
  using int_div_less_iff [of second t "s + 62135596800"]
  by (auto simp: unix_of_def of_unix_def second_def)

lemma unix_of_unix [simp]: "unix_of (of_unix s) = s"
  by (simp add: unix_of_def of_unix_def second_def)

text \<open>\<open>Duration.Round\<close> to a positive unit: half away from zero (overflow does not arise here).\<close>

definition duration_round :: "duration \<Rightarrow> duration \<Rightarrow> duration" where
  "duration_round d m =
     (if d < 0 then
        (let r = (- d) mod m in if r + r < m then d + r else d - (m - r))
      else
        (let r = d mod m in if r + r < m then d - r else d + (m - r)))"

subsection \<open>Strings\<close>

abbreviation byte_of :: "char \<Rightarrow> nat" where
  "byte_of \<equiv> of_char"

definition is_ascii :: "string \<Rightarrow> bool" where
  "is_ascii s = list_all (\<lambda>c. byte_of c < 128) s"

definition lower_byte :: "char \<Rightarrow> char" where
  "lower_byte c = (if 65 \<le> byte_of c \<and> byte_of c \<le> 90 then char_of (byte_of c + 32) else c)"

text \<open>\<open>utf8.RuneStart\<close>, and \<open>strings.TrimRight\<close> with a cutset of ASCII characters.\<close>

definition rune_start :: "char \<Rightarrow> bool" where
  "rune_start c = (\<not> (128 \<le> byte_of c \<and> byte_of c < 192))"

definition trim_right_set :: "string \<Rightarrow> string \<Rightarrow> string" where
  "trim_right_set s cs = rev (dropWhile (\<lambda>c. c \<in> set cs) (rev s))"

record unicode =
  uc_lower :: "string \<Rightarrow> string"
  uc_equal_fold :: "string \<Rightarrow> string \<Rightarrow> bool"
  uc_quote :: "string \<Rightarrow> string"

text \<open>Tables for examples that stay within ASCII, where they are never consulted.\<close>

definition ascii_uc :: unicode where
  "ascii_uc = \<lparr>uc_lower = (\<lambda>s. s), uc_equal_fold = (\<lambda>s t. s = t), uc_quote = (\<lambda>s. s)\<rparr>"

text \<open>
  \<open>strings.ToLower\<close> maps an ASCII string byte by byte and any other through the tables;
  \<open>strings.EqualFold\<close> compares byte by byte until either side leaves ASCII.
\<close>

definition to_lower :: "unicode \<Rightarrow> string \<Rightarrow> string" where
  "to_lower uc s = (if is_ascii s then map lower_byte s else uc_lower uc s)"

fun equal_fold :: "unicode \<Rightarrow> string \<Rightarrow> string \<Rightarrow> bool" where
  "equal_fold uc [] [] = True"
| "equal_fold uc [] (d # ds) = False"
| "equal_fold uc (c # cs) [] = False"
| "equal_fold uc (c # cs) (d # ds) =
     (if 128 \<le> byte_of c \<or> 128 \<le> byte_of d then uc_equal_fold uc (c # cs) (d # ds)
      else lower_byte c = lower_byte d \<and> equal_fold uc cs ds)"

text \<open>The UTF-8 encodings of the code points \<open>unicode.IsSpace\<close> accepts, by length.\<close>

definition space1 :: "char \<Rightarrow> bool" where
  "space1 c = (byte_of c \<in> {9, 10, 11, 12, 13, 32})"

definition space2 :: "char \<Rightarrow> char \<Rightarrow> bool" where
  "space2 c d = (byte_of c = 194 \<and> (byte_of d = 133 \<or> byte_of d = 160))"

definition space3 :: "char \<Rightarrow> char \<Rightarrow> char \<Rightarrow> bool" where
  "space3 c d e =
     (byte_of c = 225 \<and> byte_of d = 154 \<and> byte_of e = 128
      \<or> byte_of c = 226 \<and> byte_of d = 128
        \<and> (128 \<le> byte_of e \<and> byte_of e \<le> 138 \<or> byte_of e \<in> {168, 169, 175})
      \<or> byte_of c = 226 \<and> byte_of d = 129 \<and> byte_of e = 159
      \<or> byte_of c = 227 \<and> byte_of d = 128 \<and> byte_of e = 128)"

fun strip_lead :: "(char \<Rightarrow> bool) \<Rightarrow> (char \<Rightarrow> char \<Rightarrow> bool) \<Rightarrow> (char \<Rightarrow> char \<Rightarrow> char \<Rightarrow> bool)
    \<Rightarrow> string \<Rightarrow> string" where
  "strip_lead p1 p2 p3 [] = []"
| "strip_lead p1 p2 p3 [c] = (if p1 c then [] else [c])"
| "strip_lead p1 p2 p3 [c, d] =
     (if p1 c then strip_lead p1 p2 p3 [d] else if p2 c d then [] else [c, d])"
| "strip_lead p1 p2 p3 (c # d # e # s) =
     (if p1 c then strip_lead p1 p2 p3 (d # e # s)
      else if p2 c d then strip_lead p1 p2 p3 (e # s)
      else if p3 c d e then strip_lead p1 p2 p3 s
      else c # d # e # s)"

definition trim_left :: "string \<Rightarrow> string" where
  "trim_left s = strip_lead space1 space2 space3 s"

definition trim_right :: "string \<Rightarrow> string" where
  "trim_right s =
     rev (strip_lead space1 (\<lambda>d c. space2 c d) (\<lambda>e d c. space3 c d e) (rev s))"

definition trim_space :: "string \<Rightarrow> string" where
  "trim_space s = trim_right (trim_left s)"

lemma strip_lead_none:
  "list_all (\<lambda>c. \<not> p1 c \<and> (\<forall>d. \<not> p2 c d) \<and> (\<forall>d e. \<not> p3 c d e)) s \<Longrightarrow> strip_lead p1 p2 p3 s = s"
  by (cases "(p1, p2, p3, s)" rule: strip_lead.cases) auto

lemma trim_graph:
  assumes "list_all (\<lambda>c. 33 \<le> byte_of c \<and> byte_of c < (128 :: nat)) s"
  shows "trim_space s = s"
proof -
  have "trim_left s = s"
    unfolding trim_left_def
    by (rule strip_lead_none) (use assms in \<open>force simp: list_all_iff space1_def space2_def space3_def\<close>)
  moreover have "strip_lead space1 (\<lambda>d c. space2 c d) (\<lambda>e d c. space3 c d e) (rev s) = rev s"
    by (rule strip_lead_none) (use assms in \<open>force simp: list_all_iff space1_def space2_def space3_def\<close>)
  ultimately show ?thesis by (simp add: trim_space_def trim_right_def)
qed

lemma strip_lead_suffix: "\<exists>pre. s = pre @ strip_lead p1 p2 p3 s"
proof (induction p1 p2 p3 s rule: strip_lead.induct)
  case (4 p1 p2 p3 c d e s)
  have add: "\<exists>pre. xs = pre @ t \<Longrightarrow> \<exists>pre. ys @ xs = pre @ t" for xs ys t :: string
    by (metis append.assoc)
  show ?case
    using 4 add [of "d # e # s" _ "[c]"] add [of "e # s" _ "[c, d]"] add [of s _ "[c, d, e]"] by auto
qed (auto intro: exI [of _ "[]"])

lemma strip_lead_length: "length (strip_lead p1 p2 p3 s) \<le> length s"
  using strip_lead_suffix [of s p1 p2 p3] by (metis le_add2 length_append)

lemma strip_lead_same: "length (strip_lead p1 p2 p3 s) = length s \<Longrightarrow> strip_lead p1 p2 p3 s = s"
  using strip_lead_suffix [of s p1 p2 p3] by (metis add_eq_self_zero add.commute append_Nil length_0_conv length_append)

lemma trim_left_length: "length (trim_left s) \<le> length s"
  unfolding trim_left_def by (rule strip_lead_length)

lemma trim_right_length: "length (trim_right s) \<le> length s"
  using strip_lead_length [of _ _ _ "rev s"] by (simp add: trim_right_def)

lemma trim_length: "length (trim_space s) \<le> length s"
  unfolding trim_space_def by (rule order_trans [OF trim_right_length trim_left_length])

lemma trim_same:
  assumes "length (trim_space s) = length s"
  shows "trim_space s = s"
proof -
  have "length (trim_left s) = length s"
    using assms trim_left_length [of s] trim_right_length [of "trim_left s"] by (simp add: trim_space_def)
  then have l: "trim_left s = s" using strip_lead_same by (simp add: trim_left_def)
  then have "length (trim_right s) = length (rev s)" using assms by (simp add: trim_space_def)
  then have "strip_lead space1 (\<lambda>d c. space2 c d) (\<lambda>e d c. space3 c d e) (rev s) = rev s"
    using strip_lead_same by (simp add: trim_right_def)
  with l show ?thesis by (simp add: trim_space_def trim_right_def)
qed

lemma strip_lead_twice: "strip_lead p1 p2 p3 (strip_lead p1 p2 p3 s) = strip_lead p1 p2 p3 s"
  by (induction p1 p2 p3 s rule: strip_lead.induct) auto

lemma strip_lead_prefix:
  assumes "strip_lead p1 p2 p3 (s @ r) = s @ r"
  shows "strip_lead p1 p2 p3 s = s"
proof -
  have shorter: "strip_lead p1 p2 p3 x \<noteq> c # x" "strip_lead p1 p2 p3 x \<noteq> c # d # x" "strip_lead p1 p2 p3 x \<noteq> c # d # e # x" for x c d e
    using strip_lead_length [of p1 p2 p3 x] by auto
  consider "s = []" | c where "s = [c]" | c d where "s = [c, d]" | c d e x where "s = c # d # e # x"
    by (metis neq_Nil_conv)
  then show ?thesis
  proof cases
    case (2 c)
    then show ?thesis using assms shorter
      by (cases r rule: list.exhaust [case_names Nil Cons]; cases "tl r") (auto split: if_splits)
  next
    case (3 c d)
    then show ?thesis using assms shorter by (cases r) (auto split: if_splits)
  next
    case (4 c d e x)
    then show ?thesis using assms shorter [of "d # e # x @ r" c] shorter(2) [of "e # x @ r" c d] shorter(3) [of "x @ r" c d e] by (auto split: if_splits)
  qed simp
qed

lemma trim_space_twice [simp]: "trim_space (trim_space s) = trim_space s"
proof -
  define x where "x = trim_left s"
  define q2 q3 where "q2 = (\<lambda>d c. space2 c d)" and "q3 = (\<lambda>e d c. space3 c d e)"
  have right: "trim_right y = rev (strip_lead space1 q2 q3 (rev y))" for y by (simp add: trim_right_def q2_def q3_def)
  have left: "strip_lead space1 space2 space3 x = x" unfolding x_def trim_left_def by (rule strip_lead_twice)
  obtain pre where "rev x = pre @ strip_lead space1 q2 q3 (rev x)" using strip_lead_suffix by blast
  then have "x = trim_right x @ rev pre" unfolding right by (metis rev_append rev_rev_ident)
  then have "trim_left (trim_right x) = trim_right x" unfolding trim_left_def using strip_lead_prefix left by metis
  then show ?thesis by (simp add: trim_space_def x_def [symmetric]) (simp add: right strip_lead_twice)
qed

definition has_prefix :: "string \<Rightarrow> string \<Rightarrow> bool" where
  "has_prefix s p = (take (length p) s = p)"

definition trim_prefix :: "string \<Rightarrow> string \<Rightarrow> string" where
  "trim_prefix s p = (if has_prefix s p then drop (length p) s else s)"

text \<open>The verbs \<open>%d\<close> and \<open>%q\<close> of package fmt.\<close>

definition digit_char :: "nat \<Rightarrow> char" where
  "digit_char n = char_of (if n < 10 then 48 + n else 87 + n)"

fun show_nat :: "nat \<Rightarrow> string" where
  "show_nat n = (if n < 10 then [digit_char n] else show_nat (n div 10) @ [digit_char (n mod 10)])"

declare show_nat.simps [simp del]

definition show_int :: "int \<Rightarrow> string" where
  "show_int i = (if i < 0 then CHR ''-'' # show_nat (nat (- i)) else show_nat (nat i))"

definition quote_byte :: "char \<Rightarrow> string" where
  "quote_byte c =
     (let n = byte_of c in
      if n = 34 \<or> n = 92 then [char_of (92 :: nat), c]
      else if 32 \<le> n \<and> n < 127 then [c]
      else if 7 \<le> n \<and> n \<le> 13 then [char_of (92 :: nat), ''abtnvfr'' ! (n - 7)]
      else [char_of (92 :: nat), CHR ''x'', digit_char (n div 16), digit_char (n mod 16)])"

definition go_quote :: "unicode \<Rightarrow> string \<Rightarrow> string" where
  "go_quote uc s =
     (if is_ascii s then [char_of (34 :: nat)] @ concat (map quote_byte s) @ [char_of (34 :: nat)]
      else uc_quote uc s)"

fun str_join :: "string \<Rightarrow> string list \<Rightarrow> string" where
  "str_join sep [] = []"
| "str_join sep [x] = x"
| "str_join sep (x # y # zs) = x @ sep @ str_join sep (y # zs)"

text \<open>\<open>strings.Split\<close> on a one-byte separator.\<close>

fun split_on :: "char \<Rightarrow> string \<Rightarrow> string list" where
  "split_on c [] = [[]]"
| "split_on c (x # xs) =
     (if x = c then [] # split_on c xs
      else (case split_on c xs of [] \<Rightarrow> [[x]] | y # ys \<Rightarrow> (x # y) # ys))"

lemma split_on_ne [simp]: "split_on c s \<noteq> []"
  by (cases s) (auto split: list.split)

lemma split_on_append:
  "c \<notin> set x \<Longrightarrow> split_on c (x @ c # s) = x # split_on c s"
  by (induction x) (auto split: list.split)

lemma split_on_single: "c \<notin> set x \<Longrightarrow> split_on c x = [x]"
  by (induction x) auto


lemma split_str_join:
  "xs \<noteq> [] \<Longrightarrow> list_all (\<lambda>x. c \<notin> set x) xs \<Longrightarrow> split_on c (str_join [c] xs) = xs"
  by (induction "[c]" xs rule: str_join.induct) (simp_all add: split_on_append split_on_single)

lemma split_on_app: "split_on c (s @ c # t) = split_on c s @ split_on c t"
proof (induction c s rule: split_on.induct)
  case (2 c x xs)
  then show ?case by (cases "split_on c xs") auto
qed simp

lemma str_join_split: "str_join [c] (split_on c s) = s"
proof (induction c s rule: split_on.induct)
  case (2 c x xs)
  obtain y ys where y: "split_on c xs = y # ys" by (cases "split_on c xs") auto
  then show ?case using 2 by (cases ys) (cases "x = c"; auto)+
qed simp

lemma str_join_append:
  "xs \<noteq> [] \<Longrightarrow> str_join sep (xs @ ys) = str_join sep xs @ concat (map (\<lambda>y. sep @ y) ys)"
  by (induction sep xs arbitrary: ys rule: str_join.induct) (simp, induct_tac ys rule: induct_list012, auto)

text \<open>\<open>filepath.Ext\<close>: the suffix from the last dot of the last path element.\<close>

definition file_ext :: "string \<Rightarrow> string" where
  "file_ext p =
     (let r = takeWhile (\<lambda>c. c \<noteq> CHR ''/'') (rev p)
      in if CHR ''.'' \<in> set r then CHR ''.'' # rev (takeWhile (\<lambda>c. c \<noteq> CHR ''.'') r) else [])"

lemma lower_byte_idem [simp]: "lower_byte (lower_byte c) = lower_byte c"
  by (simp add: lower_byte_def)

lemma lower_byte_ascii: "byte_of c < 128 \<Longrightarrow> byte_of (lower_byte c) < 128"
  by (simp add: lower_byte_def)

lemma is_ascii_lower: "is_ascii s \<Longrightarrow> is_ascii (map lower_byte s)"
  by (simp add: is_ascii_def list_all_iff lower_byte_ascii)

lemma to_lower_ascii_idem: "is_ascii s \<Longrightarrow> to_lower uc (to_lower uc s) = to_lower uc s"
  by (simp add: to_lower_def is_ascii_lower)

lemma equal_fold_ascii:
  "is_ascii s \<Longrightarrow> is_ascii t \<Longrightarrow> equal_fold uc s t \<longleftrightarrow> to_lower uc s = to_lower uc t"
proof (induction uc s t rule: equal_fold.induct)
  case (4 uc c cs d ds)
  then show ?case by (auto simp: is_ascii_def to_lower_def)
qed (simp_all add: is_ascii_def to_lower_def)

lemma equal_fold_refl_ascii: "is_ascii s \<Longrightarrow> equal_fold uc s s"
  by (simp add: equal_fold_ascii)

subsection \<open>Operations and invariants\<close>

text \<open>
  The contract every stateful component of the program is checked against: each of its
  operations, called the way the program calls it (\<open>ok\<close>), keeps the component's invariant. A
  history of operations is a list, run from left to right, so any order in which callers
  interleave whole operations is a list of this kind.
\<close>

locale invariant_system =
  fixes apply_op :: "'op \<Rightarrow> 'st \<Rightarrow> 'st" and ok :: "'op \<Rightarrow> bool" and inv :: "'st \<Rightarrow> bool"
  assumes apply_op_inv: "inv s \<Longrightarrow> ok a \<Longrightarrow> inv (apply_op a s)"
begin

lemma run_inv: "inv s \<Longrightarrow> list_all ok ops \<Longrightarrow> inv (fold apply_op ops s)"
  by (induction ops arbitrary: s) (simp_all add: apply_op_inv)

lemma run_prefix_inv: "inv s \<Longrightarrow> list_all ok ops \<Longrightarrow> inv (fold apply_op (take n ops) s)"
  by (rule run_inv) (auto simp: list_all_iff dest: in_set_takeD)

end

subsection \<open>Lists and maps\<close>

lemma filter_upd_length:
  "length (filter p (map (\<lambda>x. if p x then f x else x) xs)) \<le> length (filter p xs)"
  by (induction xs) auto

lemma map_if_id: "(\<And>x. x \<in> set xs \<Longrightarrow> \<not> p x) \<Longrightarrow> map (\<lambda>x. if p x then f x else x) xs = xs"
  by (induction xs) auto

lemma filter_key_singleton:
  "distinct (map k xs) \<Longrightarrow> x \<in> set xs \<Longrightarrow> filter (\<lambda>y. k y = k x) xs = [x]"
proof (induction xs)
  case (Cons y ys)
  show ?case
  proof (cases "x = y")
    case True
    with Cons.prems(1) have "filter (\<lambda>z. k z = k x) ys = []"
      by (auto simp: filter_empty_conv image_iff)
    with True show ?thesis by simp
  next
    case False
    with Cons.prems have x: "x \<in> set ys" and "k y \<noteq> k x"
      by (auto simp: image_iff)
    with Cons.IH Cons.prems(1) show ?thesis by simp
  qed
qed simp

lemma filter_key_empty: "k0 \<notin> k ` set xs \<Longrightarrow> filter (\<lambda>y. k y = k0) xs = []"
  by (auto simp: filter_empty_conv image_iff)

lemma length_filter_key_le1: "distinct (map k xs) \<Longrightarrow> length (filter (\<lambda>y. k y = k0) xs) \<le> 1"
  by (cases "k0 \<in> k ` set xs") (auto simp: filter_key_singleton filter_key_empty)

lemma key_in_filter:
  "distinct (map k xs) \<Longrightarrow> x \<in> set xs \<Longrightarrow> k x \<in> k ` set (filter p xs) \<longleftrightarrow> p x"
  by (auto simp: distinct_map inj_on_def)

lemma length_filter_mono: "(\<And>x. p x \<Longrightarrow> q x) \<Longrightarrow> length (filter p xs) \<le> length (filter q xs)"
  by (induction xs) auto

lemma length_filter_keyed:
  "distinct (map k xs) \<Longrightarrow> (\<And>x. p x \<Longrightarrow> k x = k0) \<Longrightarrow> length (filter p xs) \<le> 1"
  using length_filter_mono [of p "\<lambda>x. k x = k0" xs] length_filter_key_le1 [of k xs k0] by simp

lemma count_if_upd:
  "(\<And>x. x \<in> set xs \<Longrightarrow> p x \<Longrightarrow> q (f x) \<longleftrightarrow> q x)
   \<Longrightarrow> length (filter q (map (\<lambda>x. if p x then f x else x) xs)) = length (filter q xs)"
  by (induction xs) auto

lemma find_append: "find P (xs @ ys) = (case find P xs of None \<Rightarrow> find P ys | Some x \<Rightarrow> Some x)"
  by (induction xs) auto

end
