(* ===== verification/Sql_Table.thy ===== *)
theory Sql_Table
  imports Go_Prelude
begin

text \<open>
  The SQLite table a repository works on, as the modelled code uses it: the rows of one table in
  rowid order, the AUTOINCREMENT sequence, and the outcomes the driver gives to the next
  statements. A statement is atomic (SQLite has one writer and the pool one connection): it
  changes the rows and reports the number affected, or it fails and changes nothing.
  \<open>Sql_Table\<close> also states the contract of a compare-and-swap UPDATE (locale
  \<open>cas_statement\<close>), which the download and the request repositories build on.
\<close>

subsection \<open>Statements\<close>

datatype db_error = DriverError | UniqueViolation

record 'r conn =
  rows :: "'r list"
  last_id :: int
  faults :: "bool list"

definition faulty :: "('r, 'm) conn_scheme \<Rightarrow> bool" where
  "faulty c = (faults c \<noteq> [] \<and> hd (faults c))"

definition next_fault :: "('r, 'm) conn_scheme \<Rightarrow> ('r, 'm) conn_scheme" where
  "next_fault c = c\<lparr>faults := tl (faults c)\<rparr>"

definition db_exec :: "('r list \<Rightarrow> 'r list \<times> nat) \<Rightarrow> ('r, 'm) conn_scheme
    \<Rightarrow> (db_error + nat) \<times> ('r, 'm) conn_scheme" where
  "db_exec st c =
     (if faulty c then (Inl DriverError, next_fault c)
      else (Inr (snd (st (rows c))), (next_fault c)\<lparr>rows := fst (st (rows c))\<rparr>))"

definition db_query :: "('r list \<Rightarrow> 'a) \<Rightarrow> ('r, 'm) conn_scheme
    \<Rightarrow> (db_error + 'a) \<times> ('r, 'm) conn_scheme" where
  "db_query q c =
     (if faulty c then (Inl DriverError, next_fault c) else (Inr (q (rows c)), next_fault c))"

definition db_insert :: "('r list \<Rightarrow> bool) \<Rightarrow> (int \<Rightarrow> 'r) \<Rightarrow> ('r, 'm) conn_scheme
    \<Rightarrow> (db_error + int) \<times> ('r, 'm) conn_scheme" where
  "db_insert violates mk c =
     (if faulty c then (Inl DriverError, next_fault c)
      else if violates (rows c) then (Inl UniqueViolation, next_fault c)
      else (Inr (last_id c + 1),
            (next_fault c)\<lparr>rows := rows c @ [mk (last_id c + 1)], last_id := last_id c + 1\<rparr>))"

text \<open>\<open>INSERT ... SELECT ... WHERE\<close>: no row and no constraint check when the guard fails.\<close>

definition db_insert_where :: "('r list \<Rightarrow> bool) \<Rightarrow> ('r list \<Rightarrow> bool) \<Rightarrow> (int \<Rightarrow> 'r)
    \<Rightarrow> ('r, 'm) conn_scheme \<Rightarrow> (db_error + int option) \<times> ('r, 'm) conn_scheme" where
  "db_insert_where guard violates mk c =
     (if \<not> faulty c \<and> \<not> guard (rows c) then (Inr None, next_fault c)
      else (case db_insert violates mk c of
              (Inl e, c') \<Rightarrow> (Inl e, c')
            | (Inr i, c') \<Rightarrow> (Inr (Some i), c')))"

definition sql_update :: "('r \<Rightarrow> bool) \<Rightarrow> ('r \<Rightarrow> 'r) \<Rightarrow> 'r list \<Rightarrow> 'r list \<times> nat" where
  "sql_update p f t = (map (\<lambda>r. if p r then f r else r) t, length (filter p t))"

definition sql_delete :: "('r \<Rightarrow> bool) \<Rightarrow> 'r list \<Rightarrow> 'r list \<times> nat" where
  "sql_delete p t = (filter (\<lambda>r. \<not> p r) t, length (filter p t))"

definition row_of :: "('r \<Rightarrow> int) \<Rightarrow> 'r list \<Rightarrow> int \<Rightarrow> 'r option" where
  "row_of key t i = find (\<lambda>r. key r = i) t"

definition coalesce :: "'a option \<Rightarrow> 'a \<Rightarrow> 'a" where
  "coalesce a b = (case a of None \<Rightarrow> b | Some x \<Rightarrow> x)"

lemma coalesce_simps [simp]: "coalesce None b = b" "coalesce (Some a) b = a"
  by (simp_all add: coalesce_def)

lemma next_fault_simps [simp]:
  "rows (next_fault c) = rows c" "last_id (next_fault c) = last_id c"
  "conn.more (next_fault c) = conn.more c"
  by (simp_all add: next_fault_def)

lemma faulty_no_faults [simp]: "faults c = [] \<Longrightarrow> \<not> faulty c"
  by (simp add: faulty_def)

lemma sql_update_simps [simp]:
  "fst (sql_update p f t) = map (\<lambda>r. if p r then f r else r) t"
  "snd (sql_update p f t) = length (filter p t)"
  by (simp_all add: sql_update_def)

lemma sql_delete_simps [simp]:
  "fst (sql_delete p t) = filter (\<lambda>r. \<not> p r) t" "snd (sql_delete p t) = length (filter p t)"
  by (simp_all add: sql_delete_def)

text \<open>A statement that fails, or that matches no row, leaves the rows alone.\<close>

lemma db_exec_failed: "db_exec st c = (Inl e, c') \<Longrightarrow> rows c' = rows c"
  by (auto simp: db_exec_def split: if_splits)

lemma db_query_rows: "rows (snd (db_query q c)) = rows c"
  by (simp add: db_query_def)

lemma db_insert_failed: "db_insert v mk c = (Inl e, c') \<Longrightarrow> rows c' = rows c"
  by (auto simp: db_insert_def split: if_splits)

lemma sql_update_none: "snd (sql_update p f t) = 0 \<Longrightarrow> fst (sql_update p f t) = t"
  by (auto simp: filter_empty_conv intro: map_if_id)

lemma row_of_Some: "row_of key t i = Some r \<Longrightarrow> r \<in> set t \<and> key r = i"
  by (auto simp: row_of_def find_Some_iff)

lemma row_of_None: "row_of key t i = None \<longleftrightarrow> i \<notin> key ` set t"
  by (auto simp: row_of_def find_None_iff)

lemma row_of_unique: "distinct (map key t) \<Longrightarrow> r \<in> set t \<Longrightarrow> row_of key t (key r) = Some r"
proof (induction t)
  case (Cons x xs)
  then show ?case by (cases "r = x") (auto simp: row_of_def image_iff)
qed simp

lemma row_of_iff:
  "distinct (map key t) \<Longrightarrow> row_of key t i = Some r \<longleftrightarrow> r \<in> set t \<and> key r = i"
  using row_of_Some row_of_unique by metis

subsection \<open>Keyed tables\<close>

text \<open>
  The rows are in the order of their ids, which are distinct and never past the sequence, so an id
  is never handed out twice.
\<close>

definition keyed :: "('r \<Rightarrow> int) \<Rightarrow> ('r, 'm) conn_scheme \<Rightarrow> bool" where
  "keyed key c \<longleftrightarrow> distinct (map key (rows c)) \<and> sorted (map key (rows c))
     \<and> (\<forall>r \<in> set (rows c). key r \<le> last_id c)"

lemma keyed_distinct: "keyed key c \<Longrightarrow> distinct (map key (rows c))"
  by (simp add: keyed_def)

lemma keyed_sorted: "keyed key c \<Longrightarrow> sorted (map key (rows c))"
  by (simp add: keyed_def)

lemma keyed_next_fault [simp]: "keyed key (next_fault c) = keyed key c"
  by (simp add: keyed_def)

lemma keyed_query: "keyed key c \<Longrightarrow> keyed key (snd (db_query q c))"
  by (simp add: db_query_def)

lemma keyed_update:
  assumes "\<And>r. key (f r) = key r" and "keyed key c"
  shows "keyed key (snd (db_exec (sql_update p f) c))"
proof -
  have "map key (map (\<lambda>r. if p r then f r else r) (rows c)) = map key (rows c)"
    by (simp add: assms(1))
  with assms show ?thesis by (auto simp: keyed_def db_exec_def simp del: map_map)
qed

lemma keyed_delete: "keyed key c \<Longrightarrow> keyed key (snd (db_exec (sql_delete p) c))"
  by (auto simp: keyed_def db_exec_def distinct_map_filter sorted_filter)

lemma keyed_insert:
  "(\<And>i. key (mk i) = i) \<Longrightarrow> keyed key c \<Longrightarrow> keyed key (snd (db_insert v mk c))"
  by (force simp: keyed_def db_insert_def sorted_append)

text \<open>A predicate on rows that a statement's new rows satisfy holds of the whole table after it.\<close>

definition all_rows :: "('r \<Rightarrow> bool) \<Rightarrow> ('r, 'm) conn_scheme \<Rightarrow> bool" where
  "all_rows P c \<longleftrightarrow> (\<forall>r \<in> set (rows c). P r)"

lemma all_rows_next_fault [simp]: "all_rows P (next_fault c) = all_rows P c"
  by (simp add: all_rows_def)

lemma all_rows_query: "all_rows P c \<Longrightarrow> all_rows P (snd (db_query q c))"
  by (simp add: db_query_def)

lemma all_rows_update:
  "(\<And>r. P r \<Longrightarrow> p r \<Longrightarrow> P (f r)) \<Longrightarrow> all_rows P c \<Longrightarrow> all_rows P (snd (db_exec (sql_update p f) c))"
  by (auto simp: all_rows_def db_exec_def)

lemma all_rows_delete: "all_rows P c \<Longrightarrow> all_rows P (snd (db_exec (sql_delete p) c))"
  by (auto simp: all_rows_def db_exec_def)

lemma all_rows_insert:
  "(\<And>i. P (mk i)) \<Longrightarrow> all_rows P c \<Longrightarrow> all_rows P (snd (db_insert v mk c))"
  by (auto simp: all_rows_def db_insert_def)

text \<open>A UNIQUE column: no two rows share its value.\<close>

definition unique_by :: "('r \<Rightarrow> 'k) \<Rightarrow> ('r, 'm) conn_scheme \<Rightarrow> bool" where
  "unique_by k c \<longleftrightarrow> distinct (map k (rows c))"

lemma unique_by_next_fault [simp]: "unique_by k (next_fault c) = unique_by k c"
  by (simp add: unique_by_def)

lemma unique_by_update:
  assumes "\<And>r. k (f r) = k r" and "unique_by k c"
  shows "unique_by k (snd (db_exec (sql_update p f) c))"
proof -
  have "map k (map (\<lambda>r. if p r then f r else r) (rows c)) = map k (rows c)"
    by (simp add: assms(1))
  with assms(2) show ?thesis by (simp add: unique_by_def db_exec_def del: map_map)
qed

lemma unique_by_delete: "unique_by k c \<Longrightarrow> unique_by k (snd (db_exec (sql_delete p) c))"
  by (auto simp: unique_by_def db_exec_def distinct_map inj_on_def)

lemma unique_by_query: "unique_by k c \<Longrightarrow> unique_by k (snd (db_query q c))"
  by (simp add: db_query_def)

lemma unique_by_insert:
  "(\<And>i. \<not> v (rows c) \<Longrightarrow> k (mk i) \<notin> k ` set (rows c)) \<Longrightarrow> unique_by k c
   \<Longrightarrow> unique_by k (snd (db_insert v mk c))"
  by (auto simp: unique_by_def db_insert_def)

text \<open>A guarded insert either leaves the table alone or is a plain insert under its guard.\<close>

lemma snd_db_insert_where:
  "snd (db_insert_where g v mk c) =
     (if \<not> faulty c \<and> \<not> g (rows c) then next_fault c else snd (db_insert v mk c))"
  by (simp add: db_insert_where_def split: prod.splits sum.splits)

subsection \<open>Compare-and-swap statements\<close>

text \<open>
  The contract of \<open>UPDATE ... SET <setf a> WHERE id = i AND <guard>\<close>: the SET clause leaves the
  primary key alone. Then the statement touches the row named \<open>i\<close> and no other, it reports one
  row affected exactly when that row exists and passes the guard, and zero otherwise.
\<close>

locale cas_statement =
  fixes key :: "'r \<Rightarrow> int" and setf :: "'a \<Rightarrow> 'r \<Rightarrow> 'r"
  assumes key_setf: "key (setf a r) = key r"
begin

lemma cas_affected:
  assumes "distinct (map key t)"
  shows "snd (sql_update (\<lambda>r. key r = i \<and> guard r) (setf a) t)
    = (case row_of key t i of None \<Rightarrow> 0 | Some r \<Rightarrow> if guard r then 1 else 0)"
proof (cases "row_of key t i")
  case None
  then have "filter (\<lambda>r. key r = i \<and> guard r) t = []"
    by (auto simp: row_of_None filter_empty_conv)
  with None show ?thesis by simp
next
  case (Some r)
  then have r: "r \<in> set t" "key r = i" by (auto dest: row_of_Some)
  have "filter (\<lambda>y. key y = i \<and> guard y) t = filter guard (filter (\<lambda>y. key y = i) t)"
    by (simp add: conj_commute)
  also have "\<dots> = filter guard [r]"
    using filter_key_singleton [OF assms r(1)] r(2) by simp
  finally show ?thesis using Some by simp
qed

lemma cas_row:
  "row_of key (fst (sql_update (\<lambda>r. key r = i \<and> guard r) (setf a) t)) j
    = (case row_of key t j of None \<Rightarrow> None
       | Some r \<Rightarrow> Some (if j = i \<and> guard r then setf a r else r))"
  by (induction t) (auto simp: row_of_def key_setf)

lemma cas_keyed:
  "keyed key c \<Longrightarrow> keyed key (snd (db_exec (sql_update (\<lambda>r. key r = i \<and> guard r) (setf a)) c))"
  by (rule keyed_update) (simp_all add: key_setf)

lemma cas_other_rows:
  "j \<noteq> i \<Longrightarrow> row_of key (fst (sql_update (\<lambda>r. key r = i \<and> guard r) (setf a) t)) j = row_of key t j"
  using cas_row [of i guard a t j] by (simp split: option.splits)

end

end
