(* ===== verification/Download_State.thy ===== *)
theory Download_State
  imports Go_Prelude
begin

text \<open>
  The download record and its state machine: \<open>internal/models/download_state.go\<close> (states, the
  transition table, the predicates on states) and the part of \<open>internal/models/download.go\<close>
  that decides when an existing download blocks a fresh grab of the same release.
\<close>

subsection \<open>States and transitions\<close>

datatype download_state =
  StateGrabbed | StateDownloading | StateCompleted | StateImportPending | StateImporting
| StateImported | StateFailed | StateImportFailed | StateImportBlocked
| StateImportExternal | StateImportHeld

fun state_string :: "download_state \<Rightarrow> string" where
  "state_string StateGrabbed = ''grabbed''"
| "state_string StateDownloading = ''downloading''"
| "state_string StateCompleted = ''completed''"
| "state_string StateImportPending = ''importPending''"
| "state_string StateImporting = ''importing''"
| "state_string StateImported = ''imported''"
| "state_string StateFailed = ''failed''"
| "state_string StateImportFailed = ''importFailed''"
| "state_string StateImportBlocked = ''importBlocked''"
| "state_string StateImportExternal = ''importExternal''"
| "state_string StateImportHeld = ''importHeld''"

fun valid_transitions :: "download_state \<Rightarrow> download_state list" where
  "valid_transitions StateGrabbed = [StateDownloading, StateCompleted, StateFailed]"
| "valid_transitions StateDownloading = [StateCompleted, StateFailed]"
| "valid_transitions StateCompleted = [StateImportPending, StateImportFailed]"
| "valid_transitions StateImportPending =
     [StateImporting, StateImportFailed, StateImportExternal, StateImportHeld]"
| "valid_transitions StateImporting = [StateImported, StateImportFailed, StateImportBlocked]"
| "valid_transitions StateImported = []"
| "valid_transitions StateFailed = []"
| "valid_transitions StateImportFailed = [StateImportPending, StateImportBlocked, StateImporting]"
| "valid_transitions StateImportBlocked = [StateImportPending, StateImportFailed]"
| "valid_transitions StateImportExternal = [StateImportPending]"
| "valid_transitions StateImportHeld =
     [StateImportExternal, StateImportFailed, StateImportBlocked, StateImportPending]"

definition can_transition_to :: "download_state \<Rightarrow> download_state \<Rightarrow> bool" where
  "can_transition_to s next = (next \<in> set (valid_transitions s))"

definition is_dead_for_regrab :: "download_state \<Rightarrow> bool" where
  "is_dead_for_regrab s = (s = StateFailed \<or> s = StateImportBlocked)"

definition is_dead_for_auto_regrab :: "download_state \<Rightarrow> bool" where
  "is_dead_for_auto_regrab s = (s = StateFailed)"

text \<open>
  \<open>AllStates\<close> sorts the keys of the transition table by their string, so the order in which the
  map is ranged over (\<open>keys\<close>) does not matter.
\<close>

definition all_states :: "download_state list \<Rightarrow> download_state list" where
  "all_states keys = sort_key state_string keys"

definition transition_error :: "download_state \<Rightarrow> download_state \<Rightarrow> string" where
  "transition_error s next =
     ''invalid download state transition: '' @ state_string s
     @ '' '' @ map char_of [226 :: nat, 134, 146] @ '' '' @ state_string next"

lemma can_transition_to_simps [simp]:
  "can_transition_to StateImported next \<longleftrightarrow> False"
  "can_transition_to StateFailed next \<longleftrightarrow> False"
  by (simp_all add: can_transition_to_def)

lemma no_self_transition: "\<not> can_transition_to s s"
  by (cases s) (simp_all add: can_transition_to_def)

lemma inj_state_string: "inj state_string"
proof (rule injI)
  fix s t :: download_state
  show "state_string s = state_string t \<Longrightarrow> s = t"
    by (cases s; cases t) simp_all
qed

text \<open>The table as a relation, and its reflexive transitive closure.\<close>

definition reaches :: "download_state \<Rightarrow> download_state \<Rightarrow> bool" where
  "reaches = can_transition_to\<^sup>*\<^sup>*"

lemma reaches_refl [simp]: "reaches s s"
  by (simp add: reaches_def)

lemma reaches_step: "can_transition_to s t \<Longrightarrow> reaches t u \<Longrightarrow> reaches s u"
  unfolding reaches_def by (rule converse_rtranclp_into_rtranclp)

lemma reaches_first:
  "t \<in> set (valid_transitions s) \<Longrightarrow> reaches t u \<Longrightarrow> reaches s u"
  by (rule reaches_step) (simp add: can_transition_to_def)

lemma stuck_reaches:
  "valid_transitions s = [] \<Longrightarrow> reaches s u \<Longrightarrow> u = s"
  unfolding reaches_def by (auto elim: converse_rtranclpE simp: can_transition_to_def)

text \<open>An attempt is never wedged by the table. Every state except \<open>failed\<close> has a path of
  allowed transitions to \<open>imported\<close>, and \<open>imported\<close> and \<open>failed\<close> are exactly the states with no
  way out.\<close>

theorem imported_reachable_unless_failed:
  "(reaches s StateImported \<longleftrightarrow> s \<noteq> StateFailed)
   \<and> ((\<forall>t. reaches s t \<longleftrightarrow> t = s) \<longleftrightarrow> s = StateImported \<or> s = StateFailed)"
proof -
  have imp: "reaches StateImporting StateImported"
    by (rule reaches_first [of StateImported]) simp_all
  then have pend: "reaches StateImportPending StateImported"
    by (rule reaches_first [rotated]) simp
  then have "s \<noteq> StateFailed \<Longrightarrow> reaches s StateImported"
  proof (cases s)
    case StateGrabbed
    have "reaches StateCompleted StateImported" using pend by (rule reaches_first [rotated]) simp
    then show ?thesis unfolding StateGrabbed by (rule reaches_first [rotated]) simp
  next
    case StateDownloading
    have "reaches StateCompleted StateImported" using pend by (rule reaches_first [rotated]) simp
    then show ?thesis unfolding StateDownloading by (rule reaches_first [rotated]) simp
  qed (use imp in \<open>auto intro: reaches_first [OF _ pend]\<close>)
  moreover have "\<not> reaches StateFailed StateImported"
    using stuck_reaches [of StateFailed StateImported] by auto
  moreover have "\<forall>t. reaches s t \<longleftrightarrow> t = s" if "s = StateImported \<or> s = StateFailed"
    using that stuck_reaches [of s] by (auto simp: reaches_def)
  ultimately show ?thesis by metis
qed

text \<open>\<open>AllStates\<close> lists every state once, sorted by name, whatever order the map is ranged over.\<close>

lemma all_states_complete_sorted:
  assumes "set keys = UNIV" and "distinct keys"
  shows "set (all_states keys) = UNIV \<and> distinct (all_states keys)
    \<and> sorted (map state_string (all_states keys)) \<and> length (all_states keys) = 11"
proof -
  have univ: "UNIV = {StateGrabbed, StateDownloading, StateCompleted, StateImportPending,
      StateImporting, StateImported, StateFailed, StateImportFailed, StateImportBlocked,
      StateImportExternal, StateImportHeld}"
    using download_state.exhaust by auto
  have "length keys = card (set keys)" using assms(2) by (rule distinct_card [symmetric])
  also have "\<dots> = 11" unfolding assms(1) univ by simp
  finally show ?thesis using assms by (simp add: all_states_def)
qed

subsection \<open>Downloads\<close>

text \<open>
  \<open>models.Download\<close>. The owner is 0 when the column is NULL, as both directions of the repository
  map it (\<open>downloadOwnerArg\<close> on the way in, COALESCE on the way out).
\<close>

record download =
  dl_id :: int
  dl_guid :: string
  dl_owner_user_id :: int
  dl_book_id :: "int option"
  dl_edition_id :: "int option"
  dl_indexer_id :: "int option"
  dl_download_client_id :: "int option"
  dl_title :: string
  dl_nzb_url :: string
  dl_size :: int
  dl_nzo_id :: "string option"
  dl_torrent_id :: "string option"
  dl_status :: download_state
  dl_protocol :: string
  dl_quality :: string
  dl_indexer_flags :: string
  dl_error_message :: string
  dl_added_at :: time
  dl_grabbed_at :: "time option"
  dl_completed_at :: "time option"
  dl_imported_at :: "time option"
  dl_dead_at :: "time option"
  dl_import_retry_count :: int
  dl_import_path :: string

text \<open>The receivers are pointers: \<open>None\<close> is a nil receiver.\<close>

definition is_orphaned_import :: "download option \<Rightarrow> bool" where
  "is_orphaned_import d =
     (case d of None \<Rightarrow> False
      | Some d \<Rightarrow> dl_status d = StateImported \<and> dl_book_id d = None)"

definition blocks_regrab :: "download option \<Rightarrow> bool" where
  "blocks_regrab d =
     (case d of None \<Rightarrow> False
      | Some r \<Rightarrow> \<not> is_dead_for_regrab (dl_status r) \<and> \<not> is_orphaned_import d)"

definition blocks_auto_regrab :: "download option \<Rightarrow> bool" where
  "blocks_auto_regrab d =
     (case d of None \<Rightarrow> False
      | Some r \<Rightarrow> \<not> is_dead_for_auto_regrab (dl_status r) \<and> \<not> is_orphaned_import d)"

definition dead_regrab_cooldown :: duration where
  "dead_regrab_cooldown = 6 * hour"

definition dead_since :: "download option \<Rightarrow> time" where
  "dead_since d =
     (case d of None \<Rightarrow> time_zero
      | Some d \<Rightarrow>
          (case dl_dead_at d of Some t \<Rightarrow> t
           | None \<Rightarrow>
               (case dl_completed_at d of Some t \<Rightarrow> t
                | None \<Rightarrow>
                    (case dl_grabbed_at d of Some t \<Rightarrow> t
                     | None \<Rightarrow> dl_added_at d))))"

text \<open>The scheduler's automatic grab is never more permissive than the manual one, and the
  two differ exactly on blocked imports.\<close>

theorem blocks_auto_regrab_iff:
  "blocks_auto_regrab d \<longleftrightarrow>
     blocks_regrab d \<or> (\<exists>r. d = Some r \<and> dl_status r = StateImportBlocked)"
  by (auto simp: blocks_auto_regrab_def blocks_regrab_def is_dead_for_regrab_def
      is_dead_for_auto_regrab_def is_orphaned_import_def split: option.splits)

end
