(* ===== verification/Download_Repo.thy ===== *)
theory Download_Repo
  imports Sql_Table Download_State
begin

text \<open>
  \<open>internal/db/downloads.go\<close>: the writes of \<open>DownloadRepo\<close> over the \<open>downloads\<close> table.
  Each Go method is one definition with the statements it runs, in order; \<open>now\<close> is the clock
  reading the method takes. \<open>UpdateStatus\<close> and \<open>SetErrorWithStatus\<close> read and then write, so they are split into
  those two halves, which lets \<open>Download_Status\<close> run other writers in between.
  \<open>dl_book_files\<close> holds the \<open>book_id\<close> of each \<open>book_files\<close> row.
\<close>

subsection \<open>State and results\<close>

record dl_db = "download conn" +
  dl_book_files :: "int list"

datatype dl_error =
  DbError db_error
| NoRows
| InvalidTransition download_state download_state

definition dead_stamp :: "download_state \<Rightarrow> time \<Rightarrow> time option" where
  "dead_stamp next now = (if is_dead_for_regrab next then Some now else None)"

definition dead_at_sql :: "download \<Rightarrow> time" where
  "dead_at_sql d =
     coalesce (dl_dead_at d) (coalesce (dl_completed_at d)
       (coalesce (dl_grabbed_at d) (dl_added_at d)))"

subsection \<open>Creating and claiming rows\<close>

text \<open>The row INSERT writes: the columns it names, and the schema's defaults for the rest.\<close>

definition created_row :: "download \<Rightarrow> time \<Rightarrow> int \<Rightarrow> download" where
  "created_row d now i = \<lparr>
     dl_id = i, dl_guid = dl_guid d, dl_owner_user_id = dl_owner_user_id d,
     dl_book_id = dl_book_id d, dl_edition_id = dl_edition_id d,
     dl_indexer_id = dl_indexer_id d, dl_download_client_id = dl_download_client_id d,
     dl_title = dl_title d, dl_nzb_url = dl_nzb_url d, dl_size = dl_size d,
     dl_nzo_id = dl_nzo_id d, dl_torrent_id = dl_torrent_id d, dl_status = dl_status d,
     dl_protocol = dl_protocol d, dl_quality = dl_quality d,
     dl_indexer_flags = dl_indexer_flags d, dl_error_message = dl_error_message d,
     dl_added_at = now, dl_grabbed_at = None, dl_completed_at = None, dl_imported_at = None,
     dl_dead_at = None, dl_import_retry_count = 0, dl_import_path = []\<rparr>"

definition dl_create :: "download \<Rightarrow> time \<Rightarrow> dl_db \<Rightarrow> (dl_error + download) \<times> dl_db" where
  "dl_create d now c =
     (case db_insert (\<lambda>t. dl_guid d \<in> dl_guid ` set t) (created_row d now) c of
        (Inl e, c') \<Rightarrow> (Inl (DbError e), c')
      | (Inr i, c') \<Rightarrow> (Inr (d\<lparr>dl_id := i, dl_added_at := now\<rparr>), c'))"

text \<open>\<open>regrabClaimSQL\<close>: the SET clause every claim shares.\<close>

definition claim_set :: "download \<times> time \<Rightarrow> download \<Rightarrow> download" where
  "claim_set a r = (case a of (d, now) \<Rightarrow> r\<lparr>
     dl_book_id := dl_book_id d, dl_edition_id := dl_edition_id d,
     dl_indexer_id := dl_indexer_id d, dl_download_client_id := dl_download_client_id d,
     dl_title := dl_title d, dl_nzb_url := dl_nzb_url d, dl_size := dl_size d,
     dl_nzo_id := None, dl_torrent_id := None, dl_status := StateGrabbed,
     dl_protocol := dl_protocol d, dl_quality := dl_quality d,
     dl_indexer_flags := dl_indexer_flags d, dl_owner_user_id := dl_owner_user_id d,
     dl_error_message := [], dl_import_path := [], dl_added_at := now,
     dl_grabbed_at := None, dl_completed_at := None, dl_imported_at := None,
     dl_dead_at := None, dl_import_retry_count := 0\<rparr>)"

text \<open>\<open>claimForRegrab\<close>: run the claim and, when it took the row, mirror the reset onto \<open>d\<close>.\<close>

definition claim_for_regrab :: "(download \<Rightarrow> bool) \<Rightarrow> download \<Rightarrow> time \<Rightarrow> dl_db
    \<Rightarrow> (dl_error + bool \<times> download) \<times> dl_db" where
  "claim_for_regrab accepts d now c =
     (case db_exec (sql_update (\<lambda>r. dl_id r = dl_id d \<and> accepts r) (claim_set (d, now))) c of
        (Inl e, c') \<Rightarrow> (Inl (DbError e), c')
      | (Inr n, c') \<Rightarrow>
          if n = 0 then (Inr (False, d), c')
          else (Inr (True, d\<lparr>dl_status := StateGrabbed, dl_nzo_id := None, dl_torrent_id := None,
                  dl_error_message := [], dl_added_at := now, dl_grabbed_at := None,
                  dl_completed_at := None, dl_imported_at := None, dl_dead_at := None,
                  dl_import_retry_count := 0, dl_import_path := []\<rparr>), c'))"

definition retry_failed :: "download \<Rightarrow> time \<Rightarrow> dl_db \<Rightarrow> (dl_error + bool \<times> download) \<times> dl_db" where
  "retry_failed d now c =
     claim_for_regrab
       (\<lambda>r. dl_status r \<in> {StateFailed, StateImportBlocked}
            \<or> dl_status r = StateImported \<and> dl_book_id r = None) d now c"

definition retry_imported :: "download \<Rightarrow> time \<Rightarrow> dl_db \<Rightarrow> (dl_error + bool \<times> download) \<times> dl_db" where
  "retry_imported d now c = claim_for_regrab (\<lambda>r. dl_status r = StateImported) d now c"

definition retry_dead_for_auto_grab ::
    "download \<Rightarrow> time \<Rightarrow> time \<Rightarrow> dl_db \<Rightarrow> (dl_error + bool \<times> download) \<times> dl_db" where
  "retry_dead_for_auto_grab d dead_before now c =
     claim_for_regrab
       (\<lambda>r. dl_status r = StateFailed \<and> dead_at_sql r \<le> dead_before
            \<or> dl_status r = StateImported \<and> dl_book_id r = None) d now c"

subsection \<open>Status writes\<close>

text \<open>The common tail of a guarded write: zero rows affected is an invalid transition.\<close>

definition cas_result :: "download_state \<Rightarrow> download_state \<Rightarrow> (db_error + nat) \<times> dl_db
    \<Rightarrow> (dl_error + unit) \<times> dl_db" where
  "cas_result current next res =
     (case res of
        (Inl e, c') \<Rightarrow> (Inl (DbError e), c')
      | (Inr n, c') \<Rightarrow>
          if n = 0 then (Inl (InvalidTransition current next), c') else (Inr (), c'))"

definition read_status :: "int \<Rightarrow> dl_db \<Rightarrow> (dl_error + download_state) \<times> dl_db" where
  "read_status i c =
     (case db_query (\<lambda>t. row_of dl_id t i) c of
        (Inl e, c') \<Rightarrow> (Inl (DbError e), c')
      | (Inr None, c') \<Rightarrow> (Inl NoRows, c')
      | (Inr (Some d), c') \<Rightarrow> (Inr (dl_status d), c'))"

definition status_set :: "download_state \<times> time \<Rightarrow> download \<Rightarrow> download" where
  "status_set a d = (case a of (next, now) \<Rightarrow>
     (case next of
        StateDownloading \<Rightarrow>
          d\<lparr>dl_status := next, dl_grabbed_at := Some (coalesce (dl_grabbed_at d) now)\<rparr>
      | StateCompleted \<Rightarrow>
          d\<lparr>dl_status := next, dl_completed_at := Some now,
            dl_grabbed_at := Some (coalesce (dl_grabbed_at d) now)\<rparr>
      | StateImported \<Rightarrow>
          d\<lparr>dl_status := next, dl_imported_at := Some now, dl_error_message := []\<rparr>
      | _ \<Rightarrow> d\<lparr>dl_status := next, dl_dead_at := dead_stamp next now\<rparr>))"

definition write_status :: "int \<Rightarrow> download_state \<Rightarrow> download_state \<Rightarrow> time \<Rightarrow> dl_db
    \<Rightarrow> (dl_error + unit) \<times> dl_db" where
  "write_status i current next now c =
     cas_result current next
       (db_exec (sql_update (\<lambda>d. dl_id d = i \<and> dl_status d = current) (status_set (next, now))) c)"

definition update_status :: "int \<Rightarrow> download_state \<Rightarrow> time \<Rightarrow> dl_db \<Rightarrow> (dl_error + unit) \<times> dl_db" where
  "update_status i next now c =
     (case read_status i c of
        (Inl e, c') \<Rightarrow> (Inl e, c')
      | (Inr current, c') \<Rightarrow>
          if \<not> can_transition_to current next then (Inl (InvalidTransition current next), c')
          else write_status i current next now c')"

definition set_error :: "int \<Rightarrow> string \<Rightarrow> time \<Rightarrow> dl_db \<Rightarrow> (db_error + nat) \<times> dl_db" where
  "set_error i msg now c =
     db_exec (sql_update (\<lambda>d. dl_id d = i)
       (\<lambda>d. d\<lparr>dl_status := StateFailed, dl_error_message := msg, dl_dead_at := Some now\<rparr>)) c"

definition error_set :: "download_state \<times> string \<times> time \<Rightarrow> download \<Rightarrow> download" where
  "error_set a d = (case a of (status, msg, now) \<Rightarrow>
     d\<lparr>dl_status := status, dl_error_message := msg, dl_dead_at := dead_stamp status now\<rparr>)"

definition write_error :: "int \<Rightarrow> download_state \<Rightarrow> download_state \<Rightarrow> string \<Rightarrow> time \<Rightarrow> dl_db
    \<Rightarrow> (dl_error + unit) \<times> dl_db" where
  "write_error i current status msg now c =
     cas_result current status
       (db_exec (sql_update (\<lambda>d. dl_id d = i \<and> dl_status d = current) (error_set (status, msg, now))) c)"

definition set_error_with_status :: "int \<Rightarrow> download_state \<Rightarrow> string \<Rightarrow> time \<Rightarrow> dl_db
    \<Rightarrow> (dl_error + unit) \<times> dl_db" where
  "set_error_with_status i status msg now c =
     (case read_status i c of
        (Inl e, c') \<Rightarrow> (Inl e, c')
      | (Inr current, c') \<Rightarrow>
          if current \<noteq> status \<and> \<not> can_transition_to current status
          then (Inl (InvalidTransition current status), c')
          else write_error i current status msg now c')"

text \<open>\<open>ResetImportRetry\<close>: (accepted, found).\<close>

definition reset_import_retry :: "int \<Rightarrow> dl_db \<Rightarrow> (dl_error + bool \<times> bool) \<times> dl_db" where
  "reset_import_retry i c =
     (case db_exec (sql_update
             (\<lambda>d. dl_id d = i \<and> dl_status d \<in> {StateImportFailed, StateImportBlocked})
             (\<lambda>d. d\<lparr>dl_import_retry_count := 0, dl_error_message := [], dl_dead_at := None,
                    dl_status := StateImportFailed\<rparr>)) c of
        (Inl e, c') \<Rightarrow> (Inl (DbError e), c')
      | (Inr n, c') \<Rightarrow>
          if n > 0 then (Inr (True, True), c')
          else (case db_query (\<lambda>t. row_of dl_id t i) c' of
                  (Inl e, c'') \<Rightarrow> (Inl (DbError e), c'')
                | (Inr None, c'') \<Rightarrow> (Inr (False, False), c'')
                | (Inr (Some d), c'') \<Rightarrow> (Inr (False, True), c'')))"

subsection \<open>Single column writes and deletes\<close>

definition upd_by_id :: "int \<Rightarrow> (download \<Rightarrow> download) \<Rightarrow> dl_db \<Rightarrow> (db_error + nat) \<times> dl_db" where
  "upd_by_id i f c = db_exec (sql_update (\<lambda>d. dl_id d = i) f) c"

definition set_grabbed_at :: "int \<Rightarrow> time \<Rightarrow> dl_db \<Rightarrow> (db_error + nat) \<times> dl_db" where
  "set_grabbed_at i t c = upd_by_id i (\<lambda>d. d\<lparr>dl_grabbed_at := Some t\<rparr>) c"

definition set_nzo_id :: "int \<Rightarrow> string \<Rightarrow> dl_db \<Rightarrow> (db_error + nat) \<times> dl_db" where
  "set_nzo_id i nzo c = upd_by_id i (\<lambda>d. d\<lparr>dl_nzo_id := Some nzo\<rparr>) c"

definition set_download_client_id :: "int \<Rightarrow> int \<Rightarrow> dl_db \<Rightarrow> (db_error + nat) \<times> dl_db" where
  "set_download_client_id i cl c = upd_by_id i (\<lambda>d. d\<lparr>dl_download_client_id := Some cl\<rparr>) c"

definition set_torrent_id :: "unicode \<Rightarrow> int \<Rightarrow> string \<Rightarrow> dl_db \<Rightarrow> (db_error + nat) \<times> dl_db" where
  "set_torrent_id uc i tid c = upd_by_id i (\<lambda>d. d\<lparr>dl_torrent_id := Some (to_lower uc tid)\<rparr>) c"

definition set_book_id :: "int \<Rightarrow> int \<Rightarrow> dl_db \<Rightarrow> (db_error + nat) \<times> dl_db" where
  "set_book_id i b c = upd_by_id i (\<lambda>d. d\<lparr>dl_book_id := Some b\<rparr>) c"

definition set_import_path :: "int \<Rightarrow> string \<Rightarrow> dl_db \<Rightarrow> (db_error + nat) \<times> dl_db" where
  "set_import_path i p c = upd_by_id i (\<lambda>d. d\<lparr>dl_import_path := p\<rparr>) c"

definition increment_import_retry_count :: "int \<Rightarrow> dl_db \<Rightarrow> (db_error + nat) \<times> dl_db" where
  "increment_import_retry_count i c =
     upd_by_id i (\<lambda>d. d\<lparr>dl_import_retry_count := dl_import_retry_count d + 1\<rparr>) c"

definition dl_delete :: "int \<Rightarrow> dl_db \<Rightarrow> (db_error + nat) \<times> dl_db" where
  "dl_delete i c = db_exec (sql_delete (\<lambda>d. dl_id d = i)) c"

definition delete_by_book :: "int \<Rightarrow> dl_db \<Rightarrow> (db_error + nat) \<times> dl_db" where
  "delete_by_book b c = db_exec (sql_delete (\<lambda>d. dl_book_id d = Some b)) c"

subsection \<open>Start-up recovery\<close>

definition interrupted_msg :: string where
  "interrupted_msg = ''import interrupted (process restart) '' @ map char_of [226 :: nat, 128, 148]
     @ '' re-queued for retry''"

definition wedged_msg :: string where
  "wedged_msg = ''import never started (process restart before scanner tick) ''
     @ map char_of [226 :: nat, 128, 148] @ '' re-queued for retry''"

definition interrupted_import_ids :: "dl_db \<Rightarrow> (db_error + int list) \<times> dl_db" where
  "interrupted_import_ids c =
     db_query (\<lambda>t. map dl_id (filter (\<lambda>d. dl_status d \<in> {StateImporting, StateImportPending}) t)) c"

text \<open>The loop over the ids: one guarded UPDATE each, the first failing one ends it.\<close>

fun recover_loop :: "(download \<Rightarrow> bool) \<Rightarrow> (download \<Rightarrow> download) \<Rightarrow> int list \<Rightarrow> int list \<Rightarrow> dl_db
    \<Rightarrow> (db_error option \<times> int list) \<times> dl_db" where
  "recover_loop guard f recovered [] c = ((None, recovered), c)"
| "recover_loop guard f recovered (i # ids) c =
     (case db_exec (sql_update (\<lambda>d. dl_id d = i \<and> guard d) f) c of
        (Inl e, c') \<Rightarrow> ((Some e, recovered), c')
      | (Inr n, c') \<Rightarrow> recover_loop guard f (recovered @ [i]) ids c')"

definition recover_interrupted_imports :: "dl_db \<Rightarrow> (db_error option \<times> int list) \<times> dl_db" where
  "recover_interrupted_imports c =
     (case interrupted_import_ids c of
        (Inl e, c') \<Rightarrow> ((Some e, []), c')
      | (Inr ids, c') \<Rightarrow>
          if ids = [] then ((None, []), c')
          else recover_loop (\<lambda>d. dl_status d \<in> {StateImporting, StateImportPending})
                 (\<lambda>d. d\<lparr>dl_status := StateImportFailed, dl_error_message := interrupted_msg\<rparr>)
                 [] ids c')"

definition no_book_files :: "int list \<Rightarrow> download \<Rightarrow> bool" where
  "no_book_files files d =
     (case dl_book_id d of None \<Rightarrow> True | Some b \<Rightarrow> b \<notin> set files)"

text \<open>The rows are in rowid order, so ORDER BY id keeps it; LIMIT applies when \<open>cap > 0\<close>.\<close>

definition wedged_completed_ids :: "int \<Rightarrow> int \<Rightarrow> dl_db \<Rightarrow> (db_error + int list) \<times> dl_db" where
  "wedged_completed_ids retry_limit cap c =
     db_query (\<lambda>t.
       let ids = sort (map dl_id (filter (\<lambda>d. dl_status d = StateCompleted
                   \<and> dl_import_retry_count d < retry_limit
                   \<and> no_book_files (dl_book_files c) d) t))
       in if cap > 0 then take (nat cap) ids else ids) c"

definition recover_wedged_completed :: "int \<Rightarrow> int \<Rightarrow> dl_db
    \<Rightarrow> (db_error option \<times> int list) \<times> dl_db" where
  "recover_wedged_completed retry_limit cap c =
     (case wedged_completed_ids retry_limit cap c of
        (Inl e, c') \<Rightarrow> ((Some e, []), c')
      | (Inr ids, c') \<Rightarrow>
          if ids = [] then ((None, []), c')
          else recover_loop (\<lambda>d. dl_status d = StateCompleted)
                 (\<lambda>d. d\<lparr>dl_status := StateImportPending, dl_error_message := wedged_msg,
                        dl_import_retry_count := dl_import_retry_count d + 1\<rparr>)
                 [] ids c')"

definition count_wedged_completed_over_retry_limit :: "int \<Rightarrow> dl_db \<Rightarrow> (db_error + nat) \<times> dl_db" where
  "count_wedged_completed_over_retry_limit retry_limit c =
     db_query (\<lambda>t. length (filter (\<lambda>d. dl_status d = StateCompleted
       \<and> dl_import_retry_count d \<ge> retry_limit \<and> no_book_files (dl_book_files c) d) t)) c"

subsection \<open>Retention\<close>

text \<open>\<open>trimTerminalSQL\<close>: a row that is imported or failed and old enough ...\<close>

definition trim_aged :: "time \<Rightarrow> download \<Rightarrow> bool" where
  "trim_aged cutoff d =
     (dl_status d \<in> {StateImported, StateFailed}
      \<and> coalesce (dl_imported_at d) (coalesce (dl_dead_at d) (coalesce (dl_completed_at d)
          (coalesce (dl_grabbed_at d) (dl_added_at d)))) < cutoff)"

definition same_job :: "download \<Rightarrow> download \<Rightarrow> bool" where
  "same_job d o' =
     (dl_torrent_id d \<noteq> None \<and> dl_torrent_id d \<noteq> Some [] \<and> dl_torrent_id o' = dl_torrent_id d
      \<or> dl_nzo_id d \<noteq> None \<and> dl_nzo_id d \<noteq> Some [] \<and> dl_nzo_id o' = dl_nzo_id d)"

text \<open>... and that no other row still needing its client job shares a job with.\<close>

definition trimmable :: "time \<Rightarrow> download list \<Rightarrow> download \<Rightarrow> bool" where
  "trimmable cutoff t d =
     (trim_aged cutoff d
      \<and> \<not> list_ex (\<lambda>o'. dl_id o' \<noteq> dl_id d \<and> same_job d o' \<and> \<not> trim_aged cutoff o') t)"

definition trim_batch :: "time \<Rightarrow> nat \<Rightarrow> download list \<Rightarrow> download list \<times> nat" where
  "trim_batch cutoff limit t =
     (let ids = take limit (map dl_id (filter (trimmable cutoff t) t))
      in sql_delete (\<lambda>d. dl_id d \<in> set ids) t)"

definition trim_batch_size :: "int \<Rightarrow> nat" where
  "trim_batch_size batch_size = (if batch_size \<le> 0 then 500 else nat batch_size)"

datatype trim_error = TrimDbError db_error | CtxDone

lemma trim_batch_size_pos: "0 < trim_batch_size b"
  by (simp add: trim_batch_size_def)

lemma sql_delete_length:
  "length (fst (sql_delete p t)) + snd (sql_delete p t) = length t"
  using sum_length_filter_compl [of p t] by simp

lemma trim_batch_length:
  "length (fst (trim_batch cutoff limit t)) + snd (trim_batch cutoff limit t) = length t"
  unfolding trim_batch_def Let_def by (rule sql_delete_length)

text \<open>
  The loop of \<open>TrimTerminal\<close>: \<open>ctx_done\<close> says, for each pause in turn, whether the context is
  cancelled by the end of it. It runs until a batch comes up short.
\<close>

function trim_loop :: "time \<Rightarrow> int \<Rightarrow> bool list \<Rightarrow> nat \<Rightarrow> dl_db
    \<Rightarrow> (trim_error option \<times> nat) \<times> dl_db" where
  "trim_loop cutoff batch_size ctx_done acc c =
     (case db_exec (trim_batch cutoff (trim_batch_size batch_size)) c of
        (Inl e, c') \<Rightarrow> ((Some (TrimDbError e), acc), c')
      | (Inr n, c') \<Rightarrow>
          if n < trim_batch_size batch_size then ((None, acc + n), c')
          else if ctx_done \<noteq> [] \<and> hd ctx_done then ((Some CtxDone, acc + n), c')
          else trim_loop cutoff batch_size (tl ctx_done) (acc + n) c')"
  by pat_completeness auto

termination
proof (relation "measure (\<lambda>(cutoff, b, ctx_done, acc, c). length (rows c))", goal_cases)
  case 1
  then show ?case by simp
next
  case (2 cutoff b ctx_done acc c res c' n)
  then have n: "n = snd (trim_batch cutoff (trim_batch_size b) (rows c))"
    and c': "rows c' = fst (trim_batch cutoff (trim_batch_size b) (rows c))"
    by (auto simp: db_exec_def split: if_splits)
  have "0 < n" using 2 trim_batch_size_pos [of b] by simp
  with n c' trim_batch_length [of cutoff "trim_batch_size b" "rows c"] show ?case by simp
qed

declare trim_loop.simps [simp del]

definition trim_terminal :: "time \<Rightarrow> int \<Rightarrow> bool list \<Rightarrow> dl_db
    \<Rightarrow> (trim_error option \<times> nat) \<times> dl_db" where
  "trim_terminal cutoff batch_size ctx_done c = trim_loop cutoff batch_size ctx_done 0 c"

end
