(* ===== verification/Download_Invariants.thy ===== *)
theory Download_Invariants
  imports Download_Repo
begin

text \<open>
  What every write of \<open>DownloadRepo\<close> keeps true of the downloads table, for any sequence of its
  operations: ids and guids stay unique, and each row's stamps agree with its status.
\<close>

subsection \<open>The invariant\<close>

definition manual_guid_prefix :: string where
  "manual_guid_prefix = ''manual-''"

definition manual_row :: "download \<Rightarrow> bool" where
  "manual_row d \<longleftrightarrow> has_prefix (dl_guid d) manual_guid_prefix"

text \<open>A row a manual import created enters at \<open>completed\<close> and has neither a grab nor a completion stamp (see
  \<open>Download_Manual\<close>); every other row has them once its status is past the state that sets them.\<close>

definition row_ok :: "download \<Rightarrow> bool" where
  "row_ok d \<longleftrightarrow>
     (dl_dead_at d \<noteq> None \<longleftrightarrow> is_dead_for_regrab (dl_status d))
     \<and> (\<not> manual_row d \<longrightarrow>
          (dl_status d \<notin> {StateGrabbed, StateFailed} \<longrightarrow> dl_grabbed_at d \<noteq> None)
          \<and> (dl_status d \<notin> {StateGrabbed, StateDownloading, StateFailed} \<longrightarrow> dl_completed_at d \<noteq> None))
     \<and> (dl_status d = StateImported \<longrightarrow> dl_imported_at d \<noteq> None \<and> dl_error_message d = [])
     \<and> 0 \<le> dl_import_retry_count d"

definition table_inv :: "dl_db \<Rightarrow> bool" where
  "table_inv c \<longleftrightarrow> keyed dl_id c \<and> unique_by dl_guid c \<and> all_rows row_ok c"

lemma manual_row_simps [simp]:
  "manual_row (d\<lparr>dl_nzo_id := n\<rparr>) = manual_row d" "manual_row (d\<lparr>dl_torrent_id := n\<rparr>) = manual_row d"
  "manual_row (d\<lparr>dl_download_client_id := k\<rparr>) = manual_row d" "manual_row (d\<lparr>dl_book_id := k\<rparr>) = manual_row d"
  "manual_row (d\<lparr>dl_import_path := s\<rparr>) = manual_row d" "manual_row (d\<lparr>dl_status := st\<rparr>) = manual_row d"
  "manual_row (d\<lparr>dl_dead_at := t\<rparr>) = manual_row d" "manual_row (d\<lparr>dl_error_message := s\<rparr>) = manual_row d"
  "manual_row (d\<lparr>dl_import_retry_count := j\<rparr>) = manual_row d" "manual_row (d\<lparr>dl_grabbed_at := t\<rparr>) = manual_row d"
  "manual_row (d\<lparr>dl_completed_at := t\<rparr>) = manual_row d" "manual_row (d\<lparr>dl_imported_at := t\<rparr>) = manual_row d"
  by (simp_all add: manual_row_def)

lemma row_ok_simps [simp]:
  "row_ok (d\<lparr>dl_nzo_id := n\<rparr>) = row_ok d"
  "row_ok (d\<lparr>dl_torrent_id := n\<rparr>) = row_ok d"
  "row_ok (d\<lparr>dl_download_client_id := k\<rparr>) = row_ok d"
  "row_ok (d\<lparr>dl_book_id := k\<rparr>) = row_ok d"
  "row_ok (d\<lparr>dl_import_path := s\<rparr>) = row_ok d"
  by (simp_all add: row_ok_def)

lemma table_inv_query: "table_inv c \<Longrightarrow> table_inv (snd (db_query q c))"
  by (simp add: table_inv_def keyed_query unique_by_query all_rows_query)

lemma table_inv_update:
  assumes "\<And>r. dl_id (f r) = dl_id r" and "\<And>r. dl_guid (f r) = dl_guid r"
    and "\<And>r. row_ok r \<Longrightarrow> p r \<Longrightarrow> row_ok (f r)" and "table_inv c"
  shows "table_inv (snd (db_exec (sql_update p f) c))"
  using assms by (simp add: table_inv_def keyed_update unique_by_update all_rows_update)

lemma table_inv_delete: "table_inv c \<Longrightarrow> table_inv (snd (db_exec (sql_delete p) c))"
  by (simp add: table_inv_def keyed_delete unique_by_delete all_rows_delete)

lemma snd_cas_result [simp]: "snd (cas_result cur next res) = snd res"
  by (auto simp: cas_result_def split: sum.splits prod.splits)

lemma claim_set_simps [simp]:
  "dl_id (claim_set a r) = dl_id r" "dl_guid (claim_set a r) = dl_guid r"
  by (simp_all add: claim_set_def split: prod.splits)

lemma status_set_simps [simp]:
  "dl_id (status_set a r) = dl_id r" "dl_guid (status_set a r) = dl_guid r"
  "dl_status (status_set a r) = fst a"
  by (simp_all add: status_set_def split: prod.splits download_state.splits)

lemma error_set_simps [simp]:
  "dl_id (error_set a r) = dl_id r" "dl_guid (error_set a r) = dl_guid r"
  "dl_status (error_set a r) = fst a"
  by (simp_all add: error_set_def split: prod.splits)

lemma row_ok_claim: "row_ok (claim_set a r)"
  by (simp add: row_ok_def claim_set_def is_dead_for_regrab_def split: prod.splits)

lemma row_ok_status:
  "row_ok d \<Longrightarrow> can_transition_to (dl_status d) next \<Longrightarrow> row_ok (status_set (next, now) d)"
  by (cases "dl_status d"; cases "next")
     (auto simp: row_ok_def can_transition_to_def status_set_def dead_stamp_def
        is_dead_for_regrab_def)

lemma row_ok_error:
  "row_ok d \<Longrightarrow> status \<in> {StateImportFailed, StateImportBlocked}
   \<Longrightarrow> dl_status d = status \<or> can_transition_to (dl_status d) status
   \<Longrightarrow> row_ok (error_set (status, msg, now) d)"
  by (cases "dl_status d")
     (auto simp: row_ok_def can_transition_to_def error_set_def dead_stamp_def
        is_dead_for_regrab_def)

subsection \<open>Each operation\<close>

lemma snd_dl_create:
  "snd (dl_create d now c) = snd (db_insert (\<lambda>t. dl_guid d \<in> dl_guid ` set t) (created_row d now) c)"
  by (simp add: dl_create_def split: sum.splits prod.splits)

lemma created_row_simps [simp]:
  "dl_id (created_row d now i) = i" "dl_guid (created_row d now i) = dl_guid d"
  "dl_status (created_row d now i) = dl_status d"
  by (simp_all add: created_row_def)

lemma create_inv [op_inv]:
  assumes "dl_status d = StateGrabbed \<or> dl_status d = StateCompleted \<and> manual_row d" and "table_inv c"
  shows "table_inv (snd (dl_create d now c))"
proof -
  have "row_ok (created_row d now i)" for i
    using assms(1) by (auto simp: row_ok_def is_dead_for_regrab_def manual_row_def) (simp_all add: created_row_def)
  with assms(2) show ?thesis
    by (simp add: snd_dl_create table_inv_def keyed_insert unique_by_insert all_rows_insert)
qed

lemma snd_claim:
  "snd (claim_for_regrab accepts d now c)
   = snd (db_exec (sql_update (\<lambda>r. dl_id r = dl_id d \<and> accepts r) (claim_set (d, now))) c)"
  by (simp add: claim_for_regrab_def split: sum.splits prod.splits)

lemma claim_inv [op_inv]: "table_inv c \<Longrightarrow> table_inv (snd (claim_for_regrab accepts d now c))"
  by (simp add: snd_claim table_inv_update row_ok_claim)

lemmas retry_defs = retry_failed_def retry_imported_def retry_dead_for_auto_grab_def

lemma retry_inv [op_inv]:
  "table_inv c \<Longrightarrow> table_inv (snd (retry_failed d now c))"
  "table_inv c \<Longrightarrow> table_inv (snd (retry_imported d now c))"
  "table_inv c \<Longrightarrow> table_inv (snd (retry_dead_for_auto_grab d bound now c))"
  by (simp_all add: retry_defs claim_inv)

lemma snd_read_status: "snd (read_status i c) = snd (db_query (\<lambda>t. row_of dl_id t i) c)"
  by (simp add: read_status_def split: sum.splits prod.splits option.splits)

lemma read_status_inv [op_inv]: "table_inv c \<Longrightarrow> table_inv (snd (read_status i c))"
  by (simp add: snd_read_status table_inv_query)

lemma write_status_inv [op_inv]:
  "can_transition_to current next \<Longrightarrow> table_inv c
   \<Longrightarrow> table_inv (snd (write_status i current next now c))"
  by (auto simp: write_status_def row_ok_status intro!: table_inv_update)

lemma write_error_inv [op_inv]:
  "status \<in> {StateImportFailed, StateImportBlocked}
   \<Longrightarrow> current = status \<or> can_transition_to current status \<Longrightarrow> table_inv c
   \<Longrightarrow> table_inv (snd (write_error i current status msg now c))"
  by (auto simp: write_error_def row_ok_error intro!: table_inv_update)

lemma update_status_inv [op_inv]:
  assumes "table_inv c"
  shows "table_inv (snd (update_status i next now c))"
proof -
  have "table_inv (snd (read_status i c))" using assms by (rule read_status_inv)
  then show ?thesis
    by (auto simp: update_status_def write_status_inv split: sum.splits prod.splits)
qed

lemma set_error_with_status_inv [op_inv]:
  assumes "status \<in> {StateImportFailed, StateImportBlocked}" and "table_inv c"
  shows "table_inv (snd (set_error_with_status i status msg now c))"
proof -
  have "table_inv (snd (read_status i c))" using assms(2) by (rule read_status_inv)
  with assms(1) show ?thesis
    by (auto simp: set_error_with_status_def write_error_inv split: sum.splits prod.splits)
qed

lemma set_error_inv [op_inv]: "table_inv c \<Longrightarrow> table_inv (snd (set_error i msg now c))"
  by (auto simp: set_error_def row_ok_def is_dead_for_regrab_def intro!: table_inv_update)

lemma snd_reset_import_retry:
  "snd (reset_import_retry i c) =
     (let res = db_exec (sql_update
             (\<lambda>d. dl_id d = i \<and> dl_status d \<in> {StateImportFailed, StateImportBlocked})
             (\<lambda>d. d\<lparr>dl_import_retry_count := 0, dl_error_message := [], dl_dead_at := None,
                    dl_status := StateImportFailed\<rparr>)) c
      in case fst res of Inl e \<Rightarrow> snd res
         | Inr n \<Rightarrow> if n > 0 then snd res else snd (db_query (\<lambda>t. row_of dl_id t i) (snd res)))"
  by (simp add: reset_import_retry_def Let_def split: sum.splits prod.splits option.splits)

lemma reset_import_retry_inv [op_inv]: "table_inv c \<Longrightarrow> table_inv (snd (reset_import_retry i c))"
  unfolding snd_reset_import_retry Let_def
  by (auto simp: row_ok_def is_dead_for_regrab_def intro!: table_inv_update table_inv_query
      split: sum.splits)

lemma upd_by_id_inv:
  "(\<And>r. dl_id (f r) = dl_id r) \<Longrightarrow> (\<And>r. dl_guid (f r) = dl_guid r)
   \<Longrightarrow> (\<And>r. row_ok r \<Longrightarrow> row_ok (f r)) \<Longrightarrow> table_inv c \<Longrightarrow> table_inv (snd (upd_by_id i f c))"
  by (simp add: upd_by_id_def table_inv_update)

lemma column_inv [op_inv]:
  assumes "table_inv c"
  shows "table_inv (snd (set_grabbed_at i t c))"
    and "table_inv (snd (set_nzo_id i nzo c))"
    and "table_inv (snd (set_download_client_id i cl c))"
    and "table_inv (snd (set_torrent_id uc i tid c))"
    and "table_inv (snd (set_book_id i b c))"
    and "table_inv (snd (set_import_path i p c))"
    and "table_inv (snd (increment_import_retry_count i c))"
  using assms
  by (auto simp: set_grabbed_at_def set_nzo_id_def set_download_client_id_def set_torrent_id_def
      set_book_id_def set_import_path_def increment_import_retry_count_def row_ok_def
      intro!: upd_by_id_inv)

lemma delete_inv [op_inv]:
  "table_inv c \<Longrightarrow> table_inv (snd (dl_delete i c))"
  "table_inv c \<Longrightarrow> table_inv (snd (delete_by_book b c))"
  by (simp_all add: dl_delete_def delete_by_book_def table_inv_delete)

lemma recover_loop_inv:
  assumes "\<And>r. dl_id (f r) = dl_id r" and "\<And>r. dl_guid (f r) = dl_guid r"
    and "\<And>r. row_ok r \<Longrightarrow> guard r \<Longrightarrow> row_ok (f r)"
  shows "table_inv c \<Longrightarrow> table_inv (snd (recover_loop guard f recovered ids c))"
proof (induction ids arbitrary: recovered c)
  case (Cons i ids)
  have "table_inv (snd (db_exec (sql_update (\<lambda>d. dl_id d = i \<and> guard d) f) c))"
    using assms Cons.prems by (intro table_inv_update) auto
  then show ?case by (auto simp: Cons.IH split: sum.splits prod.splits)
qed simp

lemma recover_interrupted_inv [op_inv]:
  assumes "table_inv c"
  shows "table_inv (snd (recover_interrupted_imports c))"
proof -
  have "table_inv (snd (interrupted_import_ids c))"
    using assms by (simp add: interrupted_import_ids_def table_inv_query)
  then show ?thesis
    by (auto simp: recover_interrupted_imports_def row_ok_def is_dead_for_regrab_def
        intro!: recover_loop_inv split: sum.splits prod.splits)
qed

lemma recover_wedged_inv [op_inv]:
  assumes "table_inv c"
  shows "table_inv (snd (recover_wedged_completed limit cap c))"
proof -
  have "table_inv (snd (wedged_completed_ids limit cap c))"
    using assms by (simp add: wedged_completed_ids_def table_inv_query)
  then show ?thesis
    by (auto simp: recover_wedged_completed_def row_ok_def is_dead_for_regrab_def
        intro!: recover_loop_inv split: sum.splits prod.splits)
qed

lemma trim_batch_inv:
  assumes "table_inv c"
  shows "table_inv (snd (db_exec (trim_batch cutoff n) c))"
proof -
  have "db_exec (trim_batch cutoff n) c
      = db_exec (sql_delete (\<lambda>d. dl_id d \<in> set (take n (map dl_id
          (filter (trimmable cutoff (rows c)) (rows c)))))) c"
    by (simp add: db_exec_def trim_batch_def Let_def)
  with assms show ?thesis by (simp only: table_inv_delete)
qed

lemma trim_loop_inv: "table_inv c \<Longrightarrow> table_inv (snd (trim_loop cutoff b ctx_done acc c))"
proof (induction cutoff b ctx_done acc c rule: trim_loop.induct)
  case (1 cutoff b ctx_done acc c)
  have "table_inv (snd (db_exec (trim_batch cutoff (trim_batch_size b)) c))"
    using "1.prems" by (rule trim_batch_inv)
  with "1.IH" show ?case
    by (subst trim_loop.simps) (auto split: sum.splits prod.splits)
qed

lemma trim_terminal_inv [op_inv]: "table_inv c \<Longrightarrow> table_inv (snd (trim_terminal cutoff b ctx_done c))"
  by (simp add: trim_terminal_def trim_loop_inv)

subsection \<open>Histories\<close>

text \<open>
  The writes of the repository as values. The callers of \<open>Create\<close> are the two grabs, which create a row in \<open>grabbed\<close>,
  and the manual import, which creates one of a manual guid in \<open>completed\<close>; those of \<open>SetErrorWithStatus\<close> pass one of
  the two import failures. \<open>dl_op_ok\<close> states both.
\<close>

datatype dl_op =
  OpCreate download
| OpRetryFailed download
| OpRetryImported download
| OpRetryDead download time
| OpUpdateStatus int download_state
| OpSetError int string
| OpSetErrorWithStatus int download_state string
| OpResetImportRetry int
| OpSetGrabbedAt int time
| OpSetNzoId int string
| OpSetClient int int
| OpSetTorrentId int string
| OpSetBook int int
| OpSetImportPath int string
| OpIncrementRetry int
| OpDelete int
| OpDeleteByBook int
| OpRecoverInterrupted
| OpRecoverWedged int int
| OpTrim time int "bool list"

fun dl_op_ok :: "time \<times> dl_op \<Rightarrow> bool" where
  "dl_op_ok (now, OpCreate d) = (dl_status d = StateGrabbed \<or> dl_status d = StateCompleted \<and> manual_row d)"
| "dl_op_ok (now, OpSetErrorWithStatus i s msg) = (s \<in> {StateImportFailed, StateImportBlocked})"
| "dl_op_ok (now, op) = True"

text \<open>One operation at the clock reading \<open>now\<close>; its result is the caller's business.\<close>

fun apply_dl_op :: "unicode \<Rightarrow> time \<times> dl_op \<Rightarrow> dl_db \<Rightarrow> dl_db" where
  "apply_dl_op uc (now, OpCreate d) c = snd (dl_create d now c)"
| "apply_dl_op uc (now, OpRetryFailed d) c = snd (retry_failed d now c)"
| "apply_dl_op uc (now, OpRetryImported d) c = snd (retry_imported d now c)"
| "apply_dl_op uc (now, OpRetryDead d b) c = snd (retry_dead_for_auto_grab d b now c)"
| "apply_dl_op uc (now, OpUpdateStatus i next) c = snd (update_status i next now c)"
| "apply_dl_op uc (now, OpSetError i msg) c = snd (set_error i msg now c)"
| "apply_dl_op uc (now, OpSetErrorWithStatus i s msg) c = snd (set_error_with_status i s msg now c)"
| "apply_dl_op uc (now, OpResetImportRetry i) c = snd (reset_import_retry i c)"
| "apply_dl_op uc (now, OpSetGrabbedAt i t) c = snd (set_grabbed_at i t c)"
| "apply_dl_op uc (now, OpSetNzoId i n) c = snd (set_nzo_id i n c)"
| "apply_dl_op uc (now, OpSetClient i k) c = snd (set_download_client_id i k c)"
| "apply_dl_op uc (now, OpSetTorrentId i t) c = snd (set_torrent_id uc i t c)"
| "apply_dl_op uc (now, OpSetBook i b) c = snd (set_book_id i b c)"
| "apply_dl_op uc (now, OpSetImportPath i p) c = snd (set_import_path i p c)"
| "apply_dl_op uc (now, OpIncrementRetry i) c = snd (increment_import_retry_count i c)"
| "apply_dl_op uc (now, OpDelete i) c = snd (dl_delete i c)"
| "apply_dl_op uc (now, OpDeleteByBook b) c = snd (delete_by_book b c)"
| "apply_dl_op uc (now, OpRecoverInterrupted) c = snd (recover_interrupted_imports c)"
| "apply_dl_op uc (now, OpRecoverWedged l k) c = snd (recover_wedged_completed l k c)"
| "apply_dl_op uc (now, OpTrim t b cs) c = snd (trim_terminal t b cs c)"

lemma apply_dl_op_inv: "table_inv c \<Longrightarrow> dl_op_ok a \<Longrightarrow> table_inv (apply_dl_op uc a c)"
  by (cases "(uc, a, c)" rule: apply_dl_op.cases) (simp_all add: op_inv)

interpretation dlh: invariant_system "apply_dl_op uc" dl_op_ok table_inv for uc
  by unfold_locales (rule apply_dl_op_inv)

definition empty_dl_db :: dl_db where
  "empty_dl_db = \<lparr>rows = [], last_id = 0, faults = [], dl_book_files = []\<rparr>"

lemma table_inv_empty: "table_inv (empty_dl_db\<lparr>faults := fs, dl_book_files := bf\<rparr>)"
  by (simp add: empty_dl_db_def table_inv_def keyed_def unique_by_def all_rows_def)

lemma table_invD:
  assumes "table_inv c"
  shows "distinct (map dl_id (rows c))" "distinct (map dl_guid (rows c))"
    "d \<in> set (rows c) \<Longrightarrow> row_ok d"
  using assms by (simp_all add: table_inv_def keyed_def unique_by_def all_rows_def)

text \<open>Concrete rows and tables, for the theorems' instances.\<close>

definition sample_download :: "int \<Rightarrow> string \<Rightarrow> download_state \<Rightarrow> download" where
  "sample_download i g s = \<lparr>
     dl_id = i, dl_guid = g, dl_owner_user_id = 7, dl_book_id = Some 3, dl_edition_id = None,
     dl_indexer_id = Some 1, dl_download_client_id = Some 2, dl_title = ''T'', dl_nzb_url = ''u'',
     dl_size = 10, dl_nzo_id = None, dl_torrent_id = None, dl_status = s,
     dl_protocol = ''torrent'', dl_quality = ''epub'', dl_indexer_flags = [],
     dl_error_message = [], dl_added_at = 100, dl_grabbed_at = Some 101,
     dl_completed_at = Some 102, dl_imported_at = None,
     dl_dead_at = (if is_dead_for_regrab s then Some 103 else None),
     dl_import_retry_count = 0, dl_import_path = []\<rparr>"

definition sample_db :: "download list \<Rightarrow> dl_db" where
  "sample_db ds = \<lparr>rows = ds, last_id = int (length ds), faults = [], dl_book_files = []\<rparr>"

lemma sample_db_simps [simp]:
  "rows (sample_db ds) = ds" "faults (sample_db ds) = []" "last_id (sample_db ds) = int (length ds)"
  "\<not> faulty (sample_db ds)" "dl_book_files (sample_db ds) = []"
  by (simp_all add: sample_db_def)

lemma sample_download_simps [simp]:
  "dl_id (sample_download i g s) = i" "dl_guid (sample_download i g s) = g"
  "dl_status (sample_download i g s) = s"
  by (simp_all add: sample_download_def)

end
