(* ===== verification/Download_Claims.thy ===== *)
theory Download_Claims
  imports Download_Invariants
begin

text \<open>
  The guarded UPDATEs of \<open>DownloadRepo\<close> meet the compare-and-swap contract; from it, what the
  three claims of an existing row (\<open>RetryFailed\<close>, \<open>RetryImported\<close>, \<open>RetryDeadForAutoGrab\<close>) do,
  and that they accept exactly the rows the predicates of \<open>models.Download\<close> let through.
\<close>

interpretation claim_cas: cas_statement dl_id claim_set
  by unfold_locales simp

interpretation status_cas: cas_statement dl_id status_set
  by unfold_locales simp

interpretation error_cas: cas_statement dl_id error_set
  by unfold_locales simp

subsection \<open>Claims\<close>

text \<open>The row a fresh \<open>Create\<close> of \<open>d\<close> under the id and guid of \<open>r\<close> would have inserted.\<close>

definition fresh_row :: "download \<Rightarrow> time \<Rightarrow> download \<Rightarrow> download" where
  "fresh_row d now r =
     created_row (d\<lparr>dl_guid := dl_guid r, dl_nzo_id := None, dl_torrent_id := None,
       dl_status := StateGrabbed, dl_error_message := []\<rparr>) now (dl_id r)"

lemma claim_set_fresh: "claim_set (d, now) r = fresh_row d now r"
  by (simp add: claim_set_def fresh_row_def created_row_def)

text \<open>What a claim promises: taken exactly when \<open>accepts\<close> holds of the stored row, a taken row is
  fresh, every other row is as before, and the caller's struct mirrors the stored row.\<close>

definition claim_contract :: "(download \<Rightarrow> bool) \<Rightarrow> download \<Rightarrow> time \<Rightarrow> dl_db
    \<Rightarrow> (dl_error + bool \<times> download) \<times> dl_db \<Rightarrow> bool" where
  "claim_contract accepts d now c res =
     (case row_of dl_id (rows c) (dl_id d) of
        Some r \<Rightarrow>
          if accepts r then
            (\<exists>d'. fst res = Inr (True, d') \<and> (dl_guid d = dl_guid r \<longrightarrow> d' = fresh_row d now r))
            \<and> (\<forall>j. row_of dl_id (rows (snd res)) j =
                 (if j = dl_id d then Some (fresh_row d now r) else row_of dl_id (rows c) j))
          else fst res = Inr (False, d) \<and> rows (snd res) = rows c
      | None \<Rightarrow> fst res = Inr (False, d) \<and> rows (snd res) = rows c)"

lemma claim_noop:
  assumes "keyed dl_id c" and "\<not> faulty c"
    and "\<And>r. row_of dl_id (rows c) (dl_id d) = Some r \<Longrightarrow> \<not> accepts r"
  shows "fst (claim_for_regrab accepts d now c) = Inr (False, d)
    \<and> rows (snd (claim_for_regrab accepts d now c)) = rows c"
proof -
  have "snd (sql_update (\<lambda>r. dl_id r = dl_id d \<and> accepts r) (claim_set (d, now)) (rows c)) = 0"
    using assms(3) by (simp add: claim_cas.cas_affected [OF keyed_distinct [OF assms(1)]]
      del: sql_update_simps split: option.splits)
  moreover from this
  have "fst (sql_update (\<lambda>r. dl_id r = dl_id d \<and> accepts r) (claim_set (d, now)) (rows c)) = rows c"
    by (rule sql_update_none)
  ultimately show ?thesis
    using assms(2) by (simp add: claim_for_regrab_def db_exec_def del: sql_update_simps)
qed

lemma claim_takes:
  assumes "keyed dl_id c" and "\<not> faulty c"
    and r: "row_of dl_id (rows c) (dl_id d) = Some r" "accepts r"
  shows "\<exists>d'. fst (claim_for_regrab accepts d now c) = Inr (True, d')
      \<and> (dl_guid d = dl_guid r \<longrightarrow> d' = fresh_row d now r)"
    and "row_of dl_id (rows (snd (claim_for_regrab accepts d now c))) j =
      (if j = dl_id d then Some (fresh_row d now r) else row_of dl_id (rows c) j)"
proof -
  have one: "snd (sql_update (\<lambda>r. dl_id r = dl_id d \<and> accepts r) (claim_set (d, now)) (rows c)) = 1"
    using r by (simp add: claim_cas.cas_affected [OF keyed_distinct [OF assms(1)]]
      del: sql_update_simps)
  have id: "dl_id r = dl_id d" using r(1) by (auto dest: row_of_Some)
  show "\<exists>d'. fst (claim_for_regrab accepts d now c) = Inr (True, d')
      \<and> (dl_guid d = dl_guid r \<longrightarrow> d' = fresh_row d now r)"
    using one assms(2) id
    by (simp add: claim_for_regrab_def db_exec_def fresh_row_def created_row_def
        del: sql_update_simps)
  show "row_of dl_id (rows (snd (claim_for_regrab accepts d now c))) j =
      (if j = dl_id d then Some (fresh_row d now r) else row_of dl_id (rows c) j)"
    using one assms(2) r
    by (simp add: claim_for_regrab_def db_exec_def claim_cas.cas_row claim_set_fresh
        del: sql_update_simps split: option.splits)
qed

lemma claim_contract_holds:
  assumes "keyed dl_id c" and "\<not> faulty c"
  shows "claim_contract accepts d now c (claim_for_regrab accepts d now c)"
proof (cases "row_of dl_id (rows c) (dl_id d)")
  case None
  with assms claim_noop [of c d accepts now] show ?thesis by (simp add: claim_contract_def)
next
  case (Some r)
  with assms claim_noop [of c d accepts now] claim_takes [of c d r accepts now]
  show ?thesis by (simp add: claim_contract_def)
qed

lemma dead_since_sql: "dead_since (Some d) = dead_at_sql d"
  by (simp add: dead_since_def dead_at_sql_def split: option.splits)

text \<open>C35: \<open>RetryFailed\<close> takes a row exactly when \<open>Download.BlocksRegrab\<close> lets it through (the
  states in its WHERE clause are the predicate's), the row it takes is indistinguishable from a
  fresh grab under the same id and guid, the caller's struct equals the stored row, and no other
  row changes.\<close>

theorem retry_failed_matches_predicate:
  assumes "keyed dl_id c" and "\<not> faulty c"
  shows "claim_contract (\<lambda>r. \<not> blocks_regrab (Some r)) d now c (retry_failed d now c)"
proof -
  have "(\<lambda>r. dl_status r \<in> {StateFailed, StateImportBlocked}
            \<or> dl_status r = StateImported \<and> dl_book_id r = None) = (\<lambda>r. \<not> blocks_regrab (Some r))"
    by (auto simp: blocks_regrab_def is_dead_for_regrab_def is_orphaned_import_def)
  then show ?thesis
    using claim_contract_holds [OF assms] unfolding retry_failed_def by simp
qed

theorem retry_failed_matches_predicate_witness:
  "claim_contract (\<lambda>r. \<not> blocks_regrab (Some r)) (sample_download 1 ''g'' StateGrabbed) 500
     (sample_db [sample_download 1 ''g'' StateImportBlocked])
     (retry_failed (sample_download 1 ''g'' StateGrabbed) 500
       (sample_db [sample_download 1 ''g'' StateImportBlocked]))
   \<and> \<not> blocks_regrab (Some (sample_download 1 ''g'' StateImportBlocked))"
  using retry_failed_matches_predicate
      [of "sample_db [sample_download 1 ''g'' StateImportBlocked]"]
  by (simp add: keyed_def blocks_regrab_def is_dead_for_regrab_def)

text \<open>C7: \<open>RetryDeadForAutoGrab\<close> takes a row exactly when \<open>Download.BlocksAutoRegrab\<close> lets it
  through and it is an orphaned import or has been dead, by \<open>Download.DeadSince\<close>, since the bound
  or before: the SQL and the Go predicates agree.\<close>

theorem retry_dead_matches_predicates:
  assumes "keyed dl_id c" and "\<not> faulty c"
  shows "claim_contract
      (\<lambda>r. \<not> blocks_auto_regrab (Some r)
        \<and> (is_orphaned_import (Some r) \<or> dead_since (Some r) \<le> dead_before))
      d now c (retry_dead_for_auto_grab d dead_before now c)"
proof -
  have "(\<lambda>r. dl_status r = StateFailed \<and> dead_at_sql r \<le> dead_before
            \<or> dl_status r = StateImported \<and> dl_book_id r = None)
      = (\<lambda>r. \<not> blocks_auto_regrab (Some r)
          \<and> (is_orphaned_import (Some r) \<or> dead_since (Some r) \<le> dead_before))"
    by (auto simp: blocks_auto_regrab_def is_dead_for_auto_regrab_def is_orphaned_import_def
        dead_since_sql)
  then show ?thesis
    using claim_contract_holds [OF assms] unfolding retry_dead_for_auto_grab_def by simp
qed

theorem retry_dead_matches_predicates_witness:
  "claim_contract
      (\<lambda>r. \<not> blocks_auto_regrab (Some r)
        \<and> (is_orphaned_import (Some r) \<or> dead_since (Some r) \<le> 103))
      (sample_download 1 ''g'' StateGrabbed) 500 (sample_db [sample_download 1 ''g'' StateFailed])
      (retry_dead_for_auto_grab (sample_download 1 ''g'' StateGrabbed) 103 500
        (sample_db [sample_download 1 ''g'' StateFailed]))
   \<and> dead_since (Some (sample_download 1 ''g'' StateFailed)) = 103"
  using retry_dead_matches_predicates [of "sample_db [sample_download 1 ''g'' StateFailed]"]
  by (simp add: keyed_def dead_since_def sample_download_def is_dead_for_regrab_def)

lemma retry_imported_contract:
  "keyed dl_id c \<Longrightarrow> \<not> faulty c
   \<Longrightarrow> claim_contract (\<lambda>r. dl_status r = StateImported) d now c (retry_imported d now c)"
  by (simp add: retry_imported_def claim_contract_holds)

text \<open>Two claims of one row, in either order: a row taken once is in \<open>grabbed\<close>, which no claim
  accepts, so at most one of them wins.\<close>

lemma fresh_row_blocks [simp]:
  "blocks_regrab (Some (fresh_row d now r))" "blocks_auto_regrab (Some (fresh_row d now r))"
  "dl_status (fresh_row d now r) = StateGrabbed"
  by (simp_all add: fresh_row_def blocks_regrab_def blocks_auto_regrab_def is_dead_for_regrab_def
      is_dead_for_auto_regrab_def is_orphaned_import_def)

lemma keyed_claim: "keyed dl_id c \<Longrightarrow> keyed dl_id (snd (claim_for_regrab accepts d now c))"
  by (simp add: snd_claim keyed_update)

text \<open>A dead row is claimed at most once. Of two grabs racing for the same release, the one
  whose UPDATE runs second is told it did not get the row.\<close>

theorem second_claim_refused:
  assumes "keyed dl_id c" and "faults c = []" and "dl_id d2 = dl_id d1"
    and "fst (retry_failed d1 now1 c) = Inr (True, d1')"
  shows "fst (retry_failed d2 now2 (snd (retry_failed d1 now1 c))) = Inr (False, d2)
    \<and> fst (retry_dead_for_auto_grab d2 b now2 (snd (retry_failed d1 now1 c))) = Inr (False, d2)"
proof -
  let ?c = "snd (retry_failed d1 now1 c)"
  have c1: "claim_contract (\<lambda>r. \<not> blocks_regrab (Some r)) d1 now1 c (retry_failed d1 now1 c)"
    using assms(1,2) by (intro retry_failed_matches_predicate) simp_all
  then obtain r where row: "row_of dl_id (rows ?c) (dl_id d1) = Some (fresh_row d1 now1 r)"
    using assms(4) by (auto simp: claim_contract_def split: option.splits if_splits)
  have k: "keyed dl_id ?c" and f: "\<not> faulty ?c"
    using assms(1,2)
    by (simp_all add: retry_failed_def keyed_claim)
       (simp add: snd_claim db_exec_def faulty_def next_fault_def)
  from row assms(3) have row2: "row_of dl_id (rows ?c) (dl_id d2) = Some (fresh_row d1 now1 r)"
    by simp
  have st: "dl_status (fresh_row d1 now1 r) = StateGrabbed" by simp
  show ?thesis
    using claim_noop [OF k f, of d2 _ now2] row2 st
    unfolding retry_failed_def [of d2] retry_dead_for_auto_grab_def by simp
qed

theorem second_claim_refused_witness:
  "\<exists>c d1'. fst (retry_failed (sample_download 1 ''g'' StateGrabbed) 500 c) = Inr (True, d1')
    \<and> fst (retry_failed (sample_download 1 ''h'' StateGrabbed) 501
        (snd (retry_failed (sample_download 1 ''g'' StateGrabbed) 500 c)))
      = Inr (False, sample_download 1 ''h'' StateGrabbed)"
proof -
  let ?c = "sample_db [sample_download 1 ''g'' StateFailed]"
  let ?d = "sample_download 1 ''g'' StateGrabbed"
  have "\<exists>d1'. fst (retry_failed ?d 500 ?c) = Inr (True, d1')"
    by (simp add: retry_failed_def claim_for_regrab_def db_exec_def)
  then obtain d1' where d1: "fst (retry_failed ?d 500 ?c) = Inr (True, d1')" by blast
  then show ?thesis
    using second_claim_refused [of ?c "sample_download 1 ''h'' StateGrabbed" ?d 500 d1' 501]
    by (intro exI [of _ ?c] exI [of _ d1']) (simp add: keyed_def)
qed

end
