(* ===== verification/Download_Status.thy ===== *)
theory Download_Status
  imports Download_Claims
begin

text \<open>
  \<open>UpdateStatus\<close> and \<open>SetErrorWithStatus\<close>: the outcome on every branch, and their read and write
  halves under interleaving with any other writer (\<open>dl_step\<close>).
\<close>

subsection \<open>Outcomes\<close>

lemma write_status_result:
  assumes "keyed dl_id c" and "\<not> faulty c"
  shows "fst (write_status i current next now c) =
      (if \<exists>d. row_of dl_id (rows c) i = Some d \<and> dl_status d = current then Inr ()
       else Inl (InvalidTransition current next))"
  using assms(2) status_cas.cas_affected [OF keyed_distinct [OF assms(1)], of i "\<lambda>d. dl_status d = current"]
  by (auto simp: write_status_def cas_result_def db_exec_def simp del: sql_update_simps(2)
      split: option.splits)

lemma write_status_rows:
  "\<not> faulty c \<Longrightarrow> row_of dl_id (rows (snd (write_status i current next now c))) j =
     (case row_of dl_id (rows c) j of None \<Rightarrow> None
      | Some d \<Rightarrow> Some (if j = i \<and> dl_status d = current then status_set (next, now) d else d))"
  by (simp add: write_status_def db_exec_def status_cas.cas_row del: sql_update_simps)

lemma write_error_result:
  assumes "keyed dl_id c" and "\<not> faulty c"
  shows "fst (write_error i current status msg now c) =
      (if \<exists>d. row_of dl_id (rows c) i = Some d \<and> dl_status d = current then Inr ()
       else Inl (InvalidTransition current status))"
  using assms(2) error_cas.cas_affected [OF keyed_distinct [OF assms(1)], of i "\<lambda>d. dl_status d = current"]
  by (auto simp: write_error_def cas_result_def db_exec_def simp del: sql_update_simps(2)
      split: option.splits)

lemma write_error_rows:
  "\<not> faulty c \<Longrightarrow> row_of dl_id (rows (snd (write_error i current status msg now c))) j =
     (case row_of dl_id (rows c) j of None \<Rightarrow> None
      | Some d \<Rightarrow> Some (if j = i \<and> dl_status d = current then error_set (status, msg, now) d else d))"
  by (simp add: write_error_def db_exec_def error_cas.cas_row del: sql_update_simps)

lemma write_faulty:
  "faulty c \<Longrightarrow> fst (write_status i current next now c) = Inl (DbError DriverError)
     \<and> rows (snd (write_status i current next now c)) = rows c"
  "faulty c \<Longrightarrow> fst (write_error i current status msg now c) = Inl (DbError DriverError)
     \<and> rows (snd (write_error i current status msg now c)) = rows c"
  by (simp_all add: write_status_def write_error_def cas_result_def db_exec_def)

text \<open>The table after a sole \<open>UpdateStatus\<close>, row by row.\<close>

definition status_contract :: "int \<Rightarrow> download_state \<Rightarrow> time \<Rightarrow> dl_db
    \<Rightarrow> (dl_error + unit) \<times> dl_db \<Rightarrow> bool" where
  "status_contract i next now c res =
     (case fst res of
        Inr _ \<Rightarrow> (\<exists>d. row_of dl_id (rows c) i = Some d \<and> can_transition_to (dl_status d) next
            \<and> (\<forall>j. row_of dl_id (rows (snd res)) j =
                 (if j = i then Some (status_set (next, now) d) else row_of dl_id (rows c) j)))
      | Inl NoRows \<Rightarrow> row_of dl_id (rows c) i = None \<and> rows (snd res) = rows c
      | Inl (InvalidTransition a b) \<Rightarrow> b = next \<and> \<not> can_transition_to a next
            \<and> (\<exists>d. row_of dl_id (rows c) i = Some d \<and> dl_status d = a) \<and> rows (snd res) = rows c
      | Inl (DbError e) \<Rightarrow> (faulty c \<or> faulty (next_fault c)) \<and> rows (snd res) = rows c)"

text \<open>\<open>UpdateStatus\<close> run on its own, on every branch: it succeeds exactly on a transition of the
  table, rewriting that row as \<open>status_set\<close> says and no other; a missing row, a forbidden
  transition and a failing statement are reported as such and change nothing.\<close>

theorem update_status_meets_contract:
  assumes "keyed dl_id c"
  shows "status_contract i next now c (update_status i next now c)"
proof (cases "faulty c")
  case True
  then show ?thesis by (simp add: status_contract_def update_status_def read_status_def db_query_def)
next
  case nf: False
  show ?thesis
  proof (cases "row_of dl_id (rows c) i")
    case None
    with nf show ?thesis
      by (simp add: status_contract_def update_status_def read_status_def db_query_def)
  next
    case (Some d)
    have "keyed dl_id (next_fault c)" using assms by simp
    with Some nf show ?thesis
      by (cases "faulty (next_fault c)")
         (auto simp: status_contract_def update_status_def read_status_def db_query_def
          write_faulty write_status_result write_status_rows split: option.splits)
  qed
qed

theorem update_status_meets_contract_witness:
  "status_contract 1 StateCompleted 900 (sample_db [sample_download 1 ''g'' StateDownloading])
     (update_status 1 StateCompleted 900 (sample_db [sample_download 1 ''g'' StateDownloading]))
   \<and> can_transition_to StateDownloading StateCompleted"
  using update_status_meets_contract
      [of "sample_db [sample_download 1 ''g'' StateDownloading]" 1 StateCompleted 900]
  by (simp add: keyed_def can_transition_to_def)

text \<open>What \<open>status_set\<close> stamps.\<close>

lemma status_set_stamps:
  "dl_grabbed_at d \<noteq> None \<Longrightarrow> dl_grabbed_at (status_set (next, now) d) = dl_grabbed_at d"
  "next \<in> {StateDownloading, StateCompleted} \<Longrightarrow> dl_grabbed_at (status_set (next, now) d) \<noteq> None"
  "dl_completed_at (status_set (next, now) d) =
     (if next = StateCompleted then Some now else dl_completed_at d)"
  "dl_imported_at (status_set (next, now) d) =
     (if next = StateImported then Some now else dl_imported_at d)"
  by (cases "next"; auto simp: status_set_def)+

subsection \<open>Interleaving\<close>

text \<open>A writer that has read a status and checked its transition, and has yet to write.\<close>

datatype dl_writer =
  StatusWriter int download_state download_state
| ErrorWriter int download_state download_state string

fun writer_id :: "dl_writer \<Rightarrow> int" where
  "writer_id (StatusWriter i cur next) = i"
| "writer_id (ErrorWriter i cur s msg) = i"

fun writer_from :: "dl_writer \<Rightarrow> download_state" where
  "writer_from (StatusWriter i cur next) = cur"
| "writer_from (ErrorWriter i cur s msg) = cur"

fun writer_to :: "dl_writer \<Rightarrow> download_state" where
  "writer_to (StatusWriter i cur next) = next"
| "writer_to (ErrorWriter i cur s msg) = s"

fun finish_write :: "dl_writer \<Rightarrow> time \<Rightarrow> dl_db \<Rightarrow> (dl_error + unit) \<times> dl_db" where
  "finish_write (StatusWriter i cur next) now c = write_status i cur next now c"
| "finish_write (ErrorWriter i cur s msg) now c = write_error i cur s msg now c"

fun writer_ok :: "dl_writer \<Rightarrow> bool" where
  "writer_ok (StatusWriter i cur next) = can_transition_to cur next"
| "writer_ok (ErrorWriter i cur s msg) =
     (s \<in> {StateImportFailed, StateImportBlocked} \<and> (cur = s \<or> can_transition_to cur s))"

record dl_sys =
  sys_db :: dl_db
  sys_pending :: "dl_writer list"

text \<open>
  One step of the system: a whole operation, the read half of a writer (which joins the pending
  ones when its check passes), or the write half of any pending writer.
\<close>

inductive dl_step :: "unicode \<Rightarrow> dl_sys \<Rightarrow> dl_sys \<Rightarrow> bool" for uc where
  step_op: "dl_op_ok a \<Longrightarrow> dl_step uc s (s\<lparr>sys_db := apply_dl_op uc a (sys_db s)\<rparr>)"
| step_read: "read_status i (sys_db s) = (Inr cur, c') \<Longrightarrow> writer_id w = i \<Longrightarrow> writer_from w = cur
    \<Longrightarrow> writer_ok w
    \<Longrightarrow> dl_step uc s (s\<lparr>sys_db := c', sys_pending := w # sys_pending s\<rparr>)"
| step_write: "w \<in> set (sys_pending s)
    \<Longrightarrow> dl_step uc s (s\<lparr>sys_db := snd (finish_write w now (sys_db s)),
          sys_pending := remove1 w (sys_pending s)\<rparr>)"

inductive_cases dl_stepE: "dl_step uc s t"

definition dl_reachable :: "unicode \<Rightarrow> dl_db \<Rightarrow> dl_sys \<Rightarrow> bool" where
  "dl_reachable uc c s = (dl_step uc)\<^sup>*\<^sup>* \<lparr>sys_db = c, sys_pending = []\<rparr> s"

definition sys_inv :: "dl_sys \<Rightarrow> bool" where
  "sys_inv s \<longleftrightarrow> table_inv (sys_db s) \<and> (\<forall>w \<in> set (sys_pending s). writer_ok w)"

lemma finish_write_inv: "writer_ok w \<Longrightarrow> table_inv c \<Longrightarrow> table_inv (snd (finish_write w now c))"
  by (cases w) (auto intro: write_status_inv write_error_inv)

lemma dl_step_inv: "dl_step uc s t \<Longrightarrow> sys_inv s \<Longrightarrow> sys_inv t"
proof (induction rule: dl_step.induct)
  case (step_read i s cur c' w)
  then have "table_inv (snd (read_status i (sys_db s)))"
    by (intro read_status_inv) (simp add: sys_inv_def)
  with step_read show ?case by (simp add: sys_inv_def)
qed (auto simp: sys_inv_def apply_dl_op_inv finish_write_inv dest: set_remove1_subset [THEN subsetD])

lemma dl_reachable_inv:
  assumes "dl_reachable uc c s" and "table_inv c"
  shows "sys_inv s"
  using assms(1) unfolding dl_reachable_def
proof (induction rule: rtranclp_induct)
  case base
  then show ?case using assms(2) by (simp add: sys_inv_def)
qed (rule dl_step_inv)

text \<open>C1: whatever order concurrent callers interleave their reads, writes and whole operations
  in, grabs and manual imports alike, the table keeps its invariant: ids and guids unique, \<open>dead_at\<close> set
  exactly on the rows that are dead, the import stamp and no error on imported rows, and the grab and
  completion stamps there once a row is past the state that sets them, unless a manual import created it.\<close>

theorem interleaved_table_inv:
  assumes "dl_reachable uc c s" and "table_inv c"
  shows "distinct (map dl_id (rows (sys_db s))) \<and> distinct (map dl_guid (rows (sys_db s)))
    \<and> list_all row_ok (rows (sys_db s))"
  using dl_reachable_inv [OF assms]
  by (simp add: sys_inv_def table_inv_def keyed_def unique_by_def all_rows_def list_all_iff)

theorem interleaved_table_inv_witness:
  "\<exists>s. dl_reachable ascii_uc empty_dl_db s \<and> length (rows (sys_db s)) = 1
     \<and> list_all row_ok (rows (sys_db s))"
proof -
  let ?op = "(5 :: int, OpCreate (sample_download 0 ''manual-g'' StateCompleted))"
  let ?s = "\<lparr>sys_db = apply_dl_op ascii_uc ?op empty_dl_db, sys_pending = []\<rparr>"
  have "dl_step ascii_uc \<lparr>sys_db = empty_dl_db, sys_pending = []\<rparr> ?s"
    using step_op [of ?op ascii_uc "\<lparr>sys_db = empty_dl_db, sys_pending = []\<rparr>"]
    by (simp add: manual_row_def manual_guid_prefix_def has_prefix_def sample_download_def)
  then have r: "dl_reachable ascii_uc empty_dl_db ?s" unfolding dl_reachable_def by blast
  have "table_inv empty_dl_db"
    using table_inv_empty [of "[]" "[]"] by (simp add: empty_dl_db_def)
  with r have "list_all row_ok (rows (sys_db ?s))" by (blast dest: interleaved_table_inv)
  moreover have "length (rows (sys_db ?s)) = 1"
    by (simp add: dl_create_def db_insert_def empty_dl_db_def faulty_def)
  ultimately show ?thesis using r by blast
qed

text \<open>C9: under any interleaving the write half of \<open>UpdateStatus\<close> and \<open>SetErrorWithStatus\<close> is a
  legal move or none. If the row still has the status the writer validated, it makes exactly that
  allowed transition; if anyone moved or deleted the row in between, the caller gets the
  invalid-transition error and the table is untouched.\<close>

theorem interleaved_write_is_legal:
  assumes "dl_reachable uc c s" and "table_inv c"
    and "w \<in> set (sys_pending s)" and "\<not> faulty (sys_db s)"
  shows "if \<exists>d. row_of dl_id (rows (sys_db s)) (writer_id w) = Some d \<and> dl_status d = writer_from w
    then fst (finish_write w now (sys_db s)) = Inr ()
      \<and> (writer_from w = writer_to w \<or> can_transition_to (writer_from w) (writer_to w))
      \<and> map_option dl_status
          (row_of dl_id (rows (snd (finish_write w now (sys_db s)))) (writer_id w)) = Some (writer_to w)
    else fst (finish_write w now (sys_db s)) = Inl (InvalidTransition (writer_from w) (writer_to w))
      \<and> (\<forall>j. row_of dl_id (rows (snd (finish_write w now (sys_db s)))) j
           = row_of dl_id (rows (sys_db s)) j)"
proof -
  have inv: "sys_inv s" using assms(1,2) by (rule dl_reachable_inv)
  then have k: "keyed dl_id (sys_db s)" and ok: "writer_ok w"
    using assms(3) by (auto simp: sys_inv_def table_inv_def)
  show ?thesis
    using k ok assms(4)
    by (cases w)
       (auto simp: write_status_result write_status_rows write_error_result write_error_rows
          split: option.splits)
qed

theorem interleaved_write_is_legal_witness:
  "\<exists>s w. dl_reachable ascii_uc (sample_db [sample_download 1 ''g'' StateDownloading]) s
     \<and> w \<in> set (sys_pending s)
     \<and> fst (finish_write w 900 (sys_db s)) = Inl (InvalidTransition StateDownloading StateCompleted)"
proof -
  let ?c = "sample_db [sample_download 1 ''g'' StateDownloading]"
  let ?w = "StatusWriter 1 StateDownloading StateCompleted"
  let ?s1 = "\<lparr>sys_db = snd (read_status 1 ?c), sys_pending = [?w]\<rparr>"
  let ?op = "(800 :: int, OpSetError 1 ''boom'')"
  let ?s2 = "\<lparr>sys_db = apply_dl_op ascii_uc ?op (snd (read_status 1 ?c)), sys_pending = [?w]\<rparr>"
  have read: "read_status 1 ?c = (Inr StateDownloading, snd (read_status 1 ?c))"
    by (simp add: read_status_def db_query_def row_of_def)
  have "dl_step ascii_uc \<lparr>sys_db = ?c, sys_pending = []\<rparr> ?s1"
    using step_read [of 1 "\<lparr>sys_db = ?c, sys_pending = []\<rparr>" StateDownloading "snd (read_status 1 ?c)" ?w ascii_uc]
      read by (simp add: can_transition_to_def)
  moreover have "dl_step ascii_uc ?s1 ?s2" using step_op [of ?op ascii_uc ?s1] by simp
  ultimately have r: "dl_reachable ascii_uc ?c ?s2" unfolding dl_reachable_def by simp
  have inv: "table_inv ?c"
    by (simp add: table_inv_def keyed_def unique_by_def all_rows_def row_ok_def
        sample_download_def is_dead_for_regrab_def)
  have rows2: "rows (sys_db ?s2) = [(sample_download 1 ''g'' StateDownloading)
      \<lparr>dl_status := StateFailed, dl_error_message := ''boom'', dl_dead_at := Some 800\<rparr>]"
    and "faults (sys_db ?s2) = []"
    by (simp_all add: read_status_def db_query_def row_of_def set_error_def db_exec_def
        next_fault_def)
  then have "fst (finish_write ?w 900 (sys_db ?s2)) = Inl (InvalidTransition StateDownloading StateCompleted)"
    using interleaved_write_is_legal [OF r inv, of ?w 900] by (simp add: row_of_def)
  with r show ?thesis by (intro exI [of _ ?s2] exI [of _ ?w]) simp
qed

end
