(* ===== verification/Download_Sweeps.thy ===== *)
theory Download_Sweeps
  imports Download_Invariants "HOL-Library.Sublist"
begin

text \<open>
  The sweeps of \<open>DownloadRepo\<close>: the two start-up recoveries, characterised as one map over the
  table also when a statement fails half way, and the retention trim, whose batches add up to
  one filter.
\<close>

subsection \<open>Recovery\<close>

lemma rows_next [simp]: "rows ((next_fault c)\<lparr>rows := t\<rparr>) = t"
  by simp

lemma recover_loop_rows:
  assumes f: "\<And>d. dl_id (f d) = dl_id d"
  shows "distinct ids \<Longrightarrow> (\<forall>d \<in> set (rows c). dl_id d \<in> set ids \<longrightarrow> guard d)
    \<Longrightarrow> \<exists>did. prefix did ids
      \<and> snd (fst (recover_loop guard f acc ids c)) = acc @ did
      \<and> rows (snd (recover_loop guard f acc ids c))
          = map (\<lambda>d. if dl_id d \<in> set did then f d else d) (rows c)
      \<and> (fst (fst (recover_loop guard f acc ids c)) = None \<longleftrightarrow> did = ids)
      \<and> (faults c = [] \<longrightarrow> did = ids)"
proof (induction ids arbitrary: acc c)
  case (Cons i ids)
  show ?case
  proof (cases "faulty c")
    case True
    then show ?thesis by (intro exI [of _ "[]"]) (auto simp: db_exec_def)
  next
    case False
    define c' where "c' = snd (db_exec (sql_update (\<lambda>d. dl_id d = i \<and> guard d) f) c)"
    have rows: "rows c' = map (\<lambda>d. if dl_id d = i then f d else d) (rows c)"
      using Cons.prems(2) False by (auto simp: c'_def db_exec_def)
    have "\<forall>d \<in> set (rows c'). dl_id d \<in> set ids \<longrightarrow> guard d"
      using Cons.prems f by (auto simp: rows)
    then obtain did where did: "prefix did ids"
      "snd (fst (recover_loop guard f (acc @ [i]) ids c')) = (acc @ [i]) @ did"
      "rows (snd (recover_loop guard f (acc @ [i]) ids c'))
          = map (\<lambda>d. if dl_id d \<in> set did then f d else d) (rows c')"
      "fst (fst (recover_loop guard f (acc @ [i]) ids c')) = None \<longleftrightarrow> did = ids"
      "faults c' = [] \<longrightarrow> did = ids"
      using Cons.IH [of c' "acc @ [i]"] Cons.prems(1) by auto
    have step: "recover_loop guard f acc (i # ids) c = recover_loop guard f (acc @ [i]) ids c'"
      using False by (simp add: c'_def db_exec_def)
    have "i \<notin> set did" using did(1) Cons.prems(1) by (auto dest: set_mono_prefix)
    then have "map (\<lambda>d. if dl_id d \<in> set did then f d else d) (rows c')
        = map (\<lambda>d. if dl_id d \<in> set (i # did) then f d else d) (rows c)"
      using f by (auto simp: rows)
    moreover have "faults c = [] \<longrightarrow> faults c' = []"
      using False by (simp add: c'_def db_exec_def next_fault_def)
    ultimately show ?thesis
      unfolding step using did by (intro exI [of _ "i # did"]) simp
  qed
qed simp

lemma recover_loop_effect:
  assumes run: "recover_loop guard f [] ids c = ((e, r), c')" and f: "\<And>d. dl_id (f d) = dl_id d"
    and ids: "distinct ids" and g: "\<And>d. d \<in> set (rows c) \<Longrightarrow> dl_id d \<in> set ids \<Longrightarrow> guard d"
  shows "prefix r ids" and "rows c' = map (\<lambda>d. if dl_id d \<in> set r then f d else d) (rows c)"
    and "e = None \<longleftrightarrow> r = ids" and "faults c = [] \<Longrightarrow> r = ids"
  using recover_loop_rows [of f ids c guard "[]"] f ids g by (auto simp: run)

text \<open>C32: start-up recovery moves rows out of the states a crash leaves them stuck in and touches
  no other row. The ids it reports are exactly the rows it moved, in table order, also when a
  statement fails half way; without an error no row is left importing or pending.\<close>

theorem recover_interrupted_effect:
  assumes "table_inv c" and "recover_interrupted_imports c = ((e, ids), c')"
  shows "rows c' = map (\<lambda>d. if dl_id d \<in> set ids
        then d\<lparr>dl_status := StateImportFailed, dl_error_message := interrupted_msg\<rparr> else d) (rows c)
    \<and> prefix ids (map dl_id (filter (\<lambda>d. dl_status d \<in> {StateImporting, StateImportPending}) (rows c)))
    \<and> (e = None \<longrightarrow> (\<forall>d \<in> set (rows c'). dl_status d \<notin> {StateImporting, StateImportPending}))
    \<and> (faults c = [] \<longrightarrow> e = None)"
proof -
  let ?stuck = "\<lambda>d. dl_status d \<in> {StateImporting, StateImportPending}"
  let ?f = "\<lambda>d. d\<lparr>dl_status := StateImportFailed, dl_error_message := interrupted_msg\<rparr>"
  let ?ids = "map dl_id (filter ?stuck (rows c))"
  note dist = table_invD(1) [OF assms(1)]
  show ?thesis
  proof (cases "faulty c")
    case True
    then show ?thesis using assms(2)
      by (auto simp: recover_interrupted_imports_def interrupted_import_ids_def db_query_def)
  next
    case False
    have g: "?stuck d" if "d \<in> set (rows (next_fault c))" "dl_id d \<in> set ?ids" for d
      using key_in_filter [OF dist, of d ?stuck] that by simp
    have d: "distinct ?ids" using dist by (simp add: distinct_map_filter)
    have run: "recover_loop ?stuck ?f [] ?ids (next_fault c) = ((e, ids), c')"
      using False assms(2)
      by (cases "?ids = []")
         (auto simp: recover_interrupted_imports_def interrupted_import_ids_def db_query_def)
    note eff = recover_loop_effect [OF run _ d g]
    have rows: "rows c' = map (\<lambda>d. if dl_id d \<in> set ids then ?f d else d) (rows c)"
      using eff(2) by simp
    have "e = None \<longleftrightarrow> ids = ?ids" by (rule eff(3)) simp
    moreover have "faults c = [] \<longrightarrow> ids = ?ids" using eff(4) by (simp add: next_fault_def)
    moreover have "\<forall>d \<in> set (rows c'). \<not> ?stuck d" if "ids = ?ids"
      unfolding rows that using key_in_filter [OF dist, of _ ?stuck] by auto
    moreover have "prefix ids ?ids" by (rule eff(1)) simp
    ultimately show ?thesis using rows by blast
  qed
qed

theorem recover_interrupted_effect_witness:
  "\<exists>c'. recover_interrupted_imports (sample_db [sample_download 1 ''g'' StateImporting,
        sample_download 2 ''h'' StateImported\<lparr>dl_imported_at := Some 104\<rparr>]) = ((None, [1]), c')
     \<and> (\<forall>d \<in> set (rows c'). dl_status d \<notin> {StateImporting, StateImportPending})"
proof -
  let ?c = "sample_db [sample_download 1 ''g'' StateImporting,
        sample_download 2 ''h'' StateImported\<lparr>dl_imported_at := Some 104\<rparr>]"
  let ?c' = "snd (recover_interrupted_imports ?c)"
  have "table_inv ?c"
    by (simp add: table_inv_def keyed_def unique_by_def all_rows_def row_ok_def
        sample_download_def is_dead_for_regrab_def)
  moreover have "recover_interrupted_imports ?c = ((None, [1]), ?c')"
    by (simp add: recover_interrupted_imports_def interrupted_import_ids_def db_query_def
        db_exec_def faulty_def next_fault_def)
  ultimately show ?thesis using recover_interrupted_effect [of ?c None "[1]" ?c'] by blast
qed

text \<open>The reconciliation of wedged completed rows re-queues, lowest ids first and at most
  \<open>cap\<close> of them, rows that are completed, below the retry limit and without a file on disk, and
  charges each of them one retry; it touches no other row.\<close>

theorem recover_wedged_effect:
  assumes "table_inv c" and "recover_wedged_completed retry_limit cap c = ((e, ids), c')"
  shows "rows c' = map (\<lambda>d. if dl_id d \<in> set ids
        then d\<lparr>dl_status := StateImportPending, dl_error_message := wedged_msg,
               dl_import_retry_count := dl_import_retry_count d + 1\<rparr> else d) (rows c)
    \<and> (\<forall>d \<in> set (rows c). dl_id d \<in> set ids \<longrightarrow> dl_status d = StateCompleted
        \<and> dl_import_retry_count d < retry_limit \<and> no_book_files (dl_book_files c) d)
    \<and> sorted ids \<and> distinct ids \<and> (0 < cap \<longrightarrow> int (length ids) \<le> cap)
    \<and> (faults c = [] \<and> cap \<le> 0 \<longrightarrow> (\<forall>d \<in> set (rows c). dl_status d = StateCompleted
        \<and> dl_import_retry_count d < retry_limit \<and> no_book_files (dl_book_files c) d
        \<longrightarrow> dl_id d \<in> set ids))"
proof -
  let ?w = "\<lambda>d. dl_status d = StateCompleted \<and> dl_import_retry_count d < retry_limit
      \<and> no_book_files (dl_book_files c) d"
  let ?f = "\<lambda>d. d\<lparr>dl_status := StateImportPending, dl_error_message := wedged_msg,
               dl_import_retry_count := dl_import_retry_count d + 1\<rparr>"
  let ?all = "sort (map dl_id (filter ?w (rows c)))"
  let ?ids = "if cap > 0 then take (nat cap) ?all else ?all"
  note dist = table_invD(1) [OF assms(1)]
  show ?thesis
  proof (cases "faulty c")
    case True
    then show ?thesis using assms(2)
      by (auto simp: recover_wedged_completed_def wedged_completed_ids_def db_query_def Let_def)
  next
    case False
    have w: "?w d" if "d \<in> set (rows c)" "dl_id d \<in> set ?ids" for d
      using key_in_filter [OF dist, of d ?w] that by (auto dest!: in_set_takeD split: if_splits)
    then have g: "dl_status d = StateCompleted"
      if "d \<in> set (rows (next_fault c))" "dl_id d \<in> set ?ids" for d
      using that by simp
    have d: "distinct ?ids" using dist by (simp add: distinct_map_filter distinct_take)
    have run: "recover_loop (\<lambda>d. dl_status d = StateCompleted) ?f [] ?ids (next_fault c)
        = ((e, ids), c')"
      using False assms(2)
      by (cases "?ids = []")
         (auto simp: recover_wedged_completed_def wedged_completed_ids_def db_query_def Let_def
           split: if_splits)
    note eff = recover_loop_effect [OF run _ d g]
    have rows: "rows c' = map (\<lambda>d. if dl_id d \<in> set ids then ?f d else d) (rows c)"
      using eff(2) by simp
    have srt: "sorted ?ids" and len: "0 < cap \<longrightarrow> int (length ?ids) \<le> cap"
      by (auto intro: sorted_wrt_take)
    have "prefix ids ?ids" by (rule eff(1)) simp
    then obtain rest where rest: "?ids = ids @ rest" by (auto simp: prefix_def)
    have "sorted ids \<and> distinct ids \<and> (0 < cap \<longrightarrow> int (length ids) \<le> cap)"
      using srt d len unfolding rest by (auto simp: sorted_append)
    moreover have sub: "set ids \<subseteq> set ?ids" unfolding rest by simp
    moreover have "?w d" if "d \<in> set (rows c)" "dl_id d \<in> set ids" for d
      by (rule w [OF that(1) subsetD [OF sub that(2)]])
    moreover have "dl_id d \<in> set ids"
      if "faults c = [] \<and> cap \<le> 0" "d \<in> set (rows c)" "?w d" for d
    proof -
      have "ids = ?ids" using that(1) eff(4) by (simp add: next_fault_def)
      then show ?thesis using that by simp
    qed
    ultimately show ?thesis using rows by blast
  qed
qed

theorem recover_wedged_effect_witness:
  "\<exists>c'. recover_wedged_completed 3 1 (sample_db [sample_download 1 ''g'' StateCompleted,
        sample_download 2 ''h'' StateCompleted]) = ((None, [1]), c')
     \<and> map dl_import_retry_count (rows c') = [1, 0]"
proof -
  let ?c = "sample_db [sample_download 1 ''g'' StateCompleted, sample_download 2 ''h'' StateCompleted]"
  let ?c' = "snd (recover_wedged_completed 3 1 ?c)"
  have "table_inv ?c"
    by (simp add: table_inv_def keyed_def unique_by_def all_rows_def row_ok_def
        sample_download_def is_dead_for_regrab_def)
  moreover have "recover_wedged_completed 3 1 ?c = ((None, [1]), ?c')"
    by (simp add: recover_wedged_completed_def wedged_completed_ids_def db_query_def
        db_exec_def faulty_def next_fault_def sample_download_def no_book_files_def)
  ultimately show ?thesis using recover_wedged_effect [of ?c 3 1 None "[1]" ?c']
    by (intro exI [of _ ?c']) (simp add: sample_download_def)
qed

subsection \<open>Retention\<close>

lemma trimmable_aged: "trimmable cutoff t d \<Longrightarrow> trim_aged cutoff d"
  by (simp add: trimmable_def)

text \<open>Deleting rows of \<open>t\<close> that are themselves aged does not change which rows are trimmable.\<close>

lemma trimmable_stable:
  assumes "\<And>d. d \<in> set t \<Longrightarrow> gone d \<Longrightarrow> trim_aged cutoff d"
  shows "trimmable cutoff (filter (\<lambda>d. \<not> gone d) t) d = trimmable cutoff t d"
  using assms by (auto simp: trimmable_def list_ex_iff)

lemma trim_batch_rows:
  fixes cutoff :: time and n :: nat and t :: "download list"
  assumes "distinct (map dl_id t)"
  defines "ids \<equiv> take n (map dl_id (filter (trimmable cutoff t) t))"
  shows "fst (trim_batch cutoff n t) = filter (\<lambda>d. dl_id d \<notin> set ids) t"
    and "snd (trim_batch cutoff n t) = min n (length (filter (trimmable cutoff t) t))"
    and "\<And>d. d \<in> set t \<Longrightarrow> dl_id d \<in> set ids \<Longrightarrow> trimmable cutoff t d"
proof -
  have sub: "set ids \<subseteq> dl_id ` set (filter (trimmable cutoff t) t)"
    unfolding ids_def using set_take_subset by fastforce
  then show tr: "\<And>d. d \<in> set t \<Longrightarrow> dl_id d \<in> set ids \<Longrightarrow> trimmable cutoff t d"
    using key_in_filter [OF assms(1), of _ "trimmable cutoff t"] by blast
  show "fst (trim_batch cutoff n t) = filter (\<lambda>d. dl_id d \<notin> set ids) t"
    by (simp add: trim_batch_def Let_def ids_def)
  have "inj_on dl_id (set t)" and "distinct t" using assms(1) by (simp_all add: distinct_map)
  have "distinct ids" using assms(1) by (simp add: ids_def distinct_map_filter distinct_take)
  have "set ids \<subseteq> dl_id ` set t" using sub by auto
  then have "dl_id ` {d \<in> set t. dl_id d \<in> set ids} = set ids" by auto
  then have "card {d \<in> set t. dl_id d \<in> set ids} = card (set ids)"
    using \<open>inj_on dl_id (set t)\<close> card_image [of dl_id "{d \<in> set t. dl_id d \<in> set ids}"]
    by (auto simp: inj_on_def)
  moreover have "{d \<in> set t. dl_id d \<in> set ids} = {d. dl_id d \<in> set ids} \<inter> set t" by blast
  ultimately have "length (filter (\<lambda>d. dl_id d \<in> set ids) t) = length ids"
    using distinct_length_filter [OF \<open>distinct t\<close>, of "\<lambda>d. dl_id d \<in> set ids"]
      distinct_card [OF \<open>distinct ids\<close>] by simp
  moreover have "length ids = min n (length (filter (trimmable cutoff t) t))"
    by (simp add: ids_def)
  moreover have "snd (trim_batch cutoff n t) = length (filter (\<lambda>d. dl_id d \<in> set ids) t)"
    unfolding trim_batch_def Let_def ids_def by (simp only: sql_delete_simps)
  ultimately show "snd (trim_batch cutoff n t) = min n (length (filter (trimmable cutoff t) t))"
    by (simp only:)
qed

lemma filter_disj_length:
  "length (filter (\<lambda>d. p d \<or> q d) t) = length (filter p t) + length (filter q (filter (\<lambda>d. \<not> p d) t))"
  by (induction t) auto

lemma trim_loop_outcome:
  "distinct (map dl_id (rows c)) \<Longrightarrow> trim_loop cutoff b ctx_done acc c = ((e, n), c')
   \<Longrightarrow> \<exists>del. rows c' = filter (\<lambda>d. \<not> del d) (rows c)
     \<and> (\<forall>d \<in> set (rows c). del d \<longrightarrow> trimmable cutoff (rows c) d)
     \<and> n = acc + length (filter del (rows c))
     \<and> (e = None \<longrightarrow> (\<forall>d \<in> set (rows c). del d \<longleftrightarrow> trimmable cutoff (rows c) d))
     \<and> (faults c = [] \<and> ctx_done = [] \<longrightarrow> e = None)"
proof (induction cutoff b ctx_done acc c arbitrary: e n c' rule: trim_loop.induct)
  case (1 cutoff b ctx_done acc c)
  let ?k = "trim_batch_size b" and ?t = "rows c"
  define ids where "ids = take ?k (map dl_id (filter (trimmable cutoff ?t) ?t))"
  let ?d1 = "\<lambda>d. dl_id d \<in> set ids"
  define c1 where "c1 = snd (db_exec (trim_batch cutoff ?k) c)"
  note batch = trim_batch_rows [OF "1.prems"(1), where cutoff = cutoff and n = ?k, folded ids_def]
  show ?case
  proof (cases "faulty c")
    case True
    then show ?thesis using "1.prems"(2)
      by (intro exI [of _ "\<lambda>d. False"]) (subst (asm) trim_loop.simps, auto simp: db_exec_def)
  next
    case False
    let ?m = "snd (trim_batch cutoff ?k ?t)"
    have ex: "db_exec (trim_batch cutoff ?k) c = (Inr ?m, c1)"
      using False by (simp add: c1_def db_exec_def)
    have rows1: "rows c1 = filter (\<lambda>d. \<not> ?d1 d) ?t"
      using False batch(1) by (simp add: c1_def db_exec_def)
    have m: "?m = length (filter ?d1 ?t)"
      by (simp add: trim_batch_def Let_def ids_def)
    have run: "trim_loop cutoff b ctx_done acc c =
        (if ?m < ?k then ((None, acc + ?m), c1)
         else if ctx_done \<noteq> [] \<and> hd ctx_done then ((Some CtxDone, acc + ?m), c1)
         else trim_loop cutoff b (tl ctx_done) (acc + ?m) c1)"
      using ex by (subst trim_loop.simps) simp
    consider (short) "?m < ?k" | (ctx) "\<not> ?m < ?k" "ctx_done \<noteq> [] \<and> hd ctx_done"
      | (more) "\<not> ?m < ?k" "\<not> (ctx_done \<noteq> [] \<and> hd ctx_done)" by blast
    then show ?thesis
    proof cases
      case short
      then have "ids = map dl_id (filter (trimmable cutoff ?t) ?t)"
        using batch(2) by (simp add: ids_def)
      then have all: "\<forall>d \<in> set ?t. ?d1 d \<longleftrightarrow> trimmable cutoff ?t d" using batch(3) by auto
      have "e = None" and "n = acc + ?m" and "c' = c1"
        using short run "1.prems"(2) by simp_all
      with all rows1 m show ?thesis by (intro exI [of _ ?d1]) simp
    next
      case ctx
      then have "e = Some CtxDone" and "n = acc + ?m" and "c' = c1" and "ctx_done \<noteq> []"
        using run "1.prems"(2) by simp_all
      with batch(3) rows1 m show ?thesis by (intro exI [of _ ?d1]) simp
    next
      case more
      have dist1: "distinct (map dl_id (rows c1))"
        using "1.prems"(1) by (simp add: rows1 distinct_map_filter)
      have run1: "trim_loop cutoff b (tl ctx_done) (acc + ?m) c1 = ((e, n), c')"
        using "1.prems"(2) unfolding run by (simp only: more if_False)
      obtain del where del: "rows c' = filter (\<lambda>d. \<not> del d) (rows c1)"
        "\<forall>d \<in> set (rows c1). del d \<longrightarrow> trimmable cutoff (rows c1) d"
        "n = acc + ?m + length (filter del (rows c1))"
        "e = None \<longrightarrow> (\<forall>d \<in> set (rows c1). del d \<longleftrightarrow> trimmable cutoff (rows c1) d)"
        "faults c1 = [] \<and> tl ctx_done = [] \<longrightarrow> e = None"
        using "1.IH" [OF ex [symmetric] refl _ _ dist1 run1] more by blast
      have st: "trimmable cutoff (rows c1) d = trimmable cutoff ?t d" for d
        unfolding rows1 by (rule trimmable_stable) (auto dest: batch(3) trimmable_aged)
      let ?del = "\<lambda>d. ?d1 d \<or> del d"
      have "n = acc + length (filter ?del ?t)"
        using filter_disj_length [of ?d1 del ?t] del(3) m by (simp only: rows1 add.assoc)
      moreover have "faults c = [] \<longrightarrow> faults c1 = []"
        by (simp add: c1_def db_exec_def next_fault_def)
      ultimately show ?thesis
        using del st batch(3)
        by (intro exI [of _ ?del]) (auto simp: rows1)
    qed
  qed
qed

text \<open>C28: retention deletes only trimmable rows and reports how many it deleted, also when it is
  cancelled or a batch fails. When it finishes, which it does unless it is cancelled or a
  statement fails, the table is the old one less exactly the rows trimmable in the old one,
  whatever the batch size.\<close>

theorem trim_terminal_effect:
  assumes "table_inv c" and "trim_terminal cutoff b ctx_done c = ((e, n), c')"
  shows "(\<exists>del. rows c' = filter (\<lambda>d. \<not> del d) (rows c) \<and> n = length (filter del (rows c))
      \<and> (\<forall>d \<in> set (rows c). del d \<longrightarrow> trimmable cutoff (rows c) d))
    \<and> (e = None \<longrightarrow> rows c' = filter (\<lambda>d. \<not> trimmable cutoff (rows c) d) (rows c))
    \<and> (faults c = [] \<and> ctx_done = [] \<longrightarrow> e = None)"
proof -
  obtain del where del: "rows c' = filter (\<lambda>d. \<not> del d) (rows c)"
    "\<forall>d \<in> set (rows c). del d \<longrightarrow> trimmable cutoff (rows c) d"
    "n = length (filter del (rows c))"
    "e = None \<longrightarrow> (\<forall>d \<in> set (rows c). del d \<longleftrightarrow> trimmable cutoff (rows c) d)"
    "faults c = [] \<and> ctx_done = [] \<longrightarrow> e = None"
    using trim_loop_outcome [OF table_invD(1) [OF assms(1)] assms(2) [unfolded trim_terminal_def]]
    by auto
  then have "e = None \<longrightarrow> rows c' = filter (\<lambda>d. \<not> trimmable cutoff (rows c) d) (rows c)"
    by (auto intro: filter_cong)
  with del show ?thesis by blast
qed

theorem trim_terminal_effect_witness:
  "\<exists>c'. trim_terminal 200 0 [] (sample_db [sample_download 1 ''g'' StateFailed,
        sample_download 2 ''h'' StateCompleted]) = ((None, 1), c')
     \<and> map dl_id (rows c') = [2]"
proof -
  let ?c = "sample_db [sample_download 1 ''g'' StateFailed, sample_download 2 ''h'' StateCompleted]"
  let ?c' = "snd (trim_terminal 200 0 [] ?c)"
  have "table_inv ?c"
    by (simp add: table_inv_def keyed_def unique_by_def all_rows_def row_ok_def
        sample_download_def is_dead_for_regrab_def)
  moreover have "trim_terminal 200 0 [] ?c = ((None, 1), ?c')"
    by (simp add: trim_terminal_def trim_loop.simps [of _ _ "[]"] db_exec_def trim_batch_def Let_def
        trim_batch_size_def trimmable_def trim_aged_def same_job_def sample_download_def
        is_dead_for_regrab_def faulty_def)
  ultimately show ?thesis using trim_terminal_effect [of ?c 200 0 "[]" None 1 ?c']
    by (intro exI [of _ ?c'])
       (simp add: trimmable_def trim_aged_def same_job_def sample_download_def is_dead_for_regrab_def)
qed

end
