(* ===== verification/Download_Queries.thy ===== *)
theory Download_Queries
  imports Download_Sweeps Download_Status
begin

text \<open>
  The reads of \<open>DownloadRepo\<close>: scoping (\<open>internal/db/scope.go\<close>), the queue view, lookups by key
  and the batched lookup by client job id. ORDER BY added_at DESC is a stable sort here; SQLite
  leaves the order of equal keys open.
\<close>

subsection \<open>Scoped lists\<close>

text \<open>\<open>QueryScope\<close>: the conjunct added to a WHERE clause; user 0 adds none.\<close>

definition query_scope :: "int \<Rightarrow> (download \<Rightarrow> bool) \<Rightarrow> download \<Rightarrow> bool" where
  "query_scope user_id cond d = (cond d \<and> (user_id = 0 \<or> dl_owner_user_id d = user_id))"

definition newest_first :: "download list \<Rightarrow> download list" where
  "newest_first ds = sort_key (\<lambda>d. - dl_added_at d) ds"

definition select_downloads :: "(download \<Rightarrow> bool) \<Rightarrow> dl_db \<Rightarrow> (db_error + download list) \<times> dl_db" where
  "select_downloads cond c = db_query (\<lambda>t. newest_first (filter cond t)) c"

definition dl_list :: "dl_db \<Rightarrow> (db_error + download list) \<times> dl_db" where
  "dl_list c = select_downloads (\<lambda>d. True) c"

definition list_by_user :: "int \<Rightarrow> dl_db \<Rightarrow> (db_error + download list) \<times> dl_db" where
  "list_by_user user_id c = select_downloads (query_scope user_id (\<lambda>d. True)) c"

definition active_where :: "time \<Rightarrow> download \<Rightarrow> bool" where
  "active_where since d =
     (dl_status d \<noteq> StateImported
      \<or> since \<le> coalesce (dl_imported_at d) (coalesce (dl_completed_at d) (dl_added_at d)))"

definition list_active :: "time \<Rightarrow> dl_db \<Rightarrow> (db_error + download list) \<times> dl_db" where
  "list_active since c = select_downloads (active_where since) c"

definition list_active_by_user :: "int \<Rightarrow> time \<Rightarrow> dl_db \<Rightarrow> (db_error + download list) \<times> dl_db" where
  "list_active_by_user user_id since c = select_downloads (query_scope user_id (active_where since)) c"

definition list_by_status :: "download_state \<Rightarrow> dl_db \<Rightarrow> (db_error + download list) \<times> dl_db" where
  "list_by_status status c = select_downloads (\<lambda>d. dl_status d = status) c"

definition list_by_status_and_user :: "download_state \<Rightarrow> int \<Rightarrow> dl_db
    \<Rightarrow> (db_error + download list) \<times> dl_db" where
  "list_by_status_and_user status user_id c =
     select_downloads (query_scope user_id (\<lambda>d. dl_status d = status)) c"

definition status_in :: "download_state list \<Rightarrow> download \<Rightarrow> bool" where
  "status_in statuses d = (dl_status d \<in> set statuses)"

definition list_by_statuses :: "download_state list \<Rightarrow> dl_db \<Rightarrow> (db_error + download list) \<times> dl_db" where
  "list_by_statuses statuses c =
     (if statuses = [] then (Inr [], c) else select_downloads (status_in statuses) c)"

definition count_by_statuses :: "int \<Rightarrow> download_state list \<Rightarrow> dl_db \<Rightarrow> (db_error + nat) \<times> dl_db" where
  "count_by_statuses user_id statuses c =
     (if statuses = [] then (Inr 0, c)
      else db_query (\<lambda>t. length (filter (query_scope user_id (status_in statuses)) t)) c)"

definition has_import_in_flight :: "int \<Rightarrow> int \<Rightarrow> dl_db \<Rightarrow> (db_error + bool) \<times> dl_db" where
  "has_import_in_flight book_id user_id c =
     db_query (\<lambda>t. length (filter (query_scope user_id (\<lambda>d. dl_book_id d = Some book_id
       \<and> dl_status d \<in> {StateGrabbed, StateDownloading, StateCompleted, StateImportPending,
           StateImporting})) t) > 0) c"

subsection \<open>Lookups\<close>

text \<open>The first row of a query without ORDER BY: the rows come in rowid order.\<close>

definition get_by :: "(download \<Rightarrow> bool) \<Rightarrow> dl_db \<Rightarrow> (db_error + download option) \<times> dl_db" where
  "get_by cond c = db_query (\<lambda>t. find cond t) c"

definition get_by_guid :: "string \<Rightarrow> dl_db \<Rightarrow> (db_error + download option) \<times> dl_db" where
  "get_by_guid guid c = get_by (\<lambda>d. dl_guid d = guid) c"

definition get_by_id :: "int \<Rightarrow> dl_db \<Rightarrow> (db_error + download option) \<times> dl_db" where
  "get_by_id i c = get_by (\<lambda>d. dl_id d = i) c"

definition get_by_nzo_id :: "string \<Rightarrow> dl_db \<Rightarrow> (db_error + download option) \<times> dl_db" where
  "get_by_nzo_id nzo c = get_by (\<lambda>d. dl_nzo_id d = Some nzo) c"

definition get_by_torrent_id :: "unicode \<Rightarrow> string \<Rightarrow> dl_db \<Rightarrow> (db_error + download option) \<times> dl_db" where
  "get_by_torrent_id uc tid c = get_by (\<lambda>d. dl_torrent_id d = Some (to_lower uc tid)) c"

text \<open>\<open>GetOwnerByID\<close>: the owner (0 for NULL) and whether the row exists.\<close>

definition get_owner_by_id :: "int \<Rightarrow> dl_db \<Rightarrow> (db_error + int \<times> bool) \<times> dl_db" where
  "get_owner_by_id i c =
     db_query (\<lambda>t. case row_of dl_id t i of None \<Rightarrow> (0, False) | Some d \<Rightarrow> (dl_owner_user_id d, True)) c"

subsection \<open>The batched lookup\<close>

definition keep_first :: "download \<Rightarrow> (string \<Rightarrow> download option) \<Rightarrow> string \<Rightarrow> download option" where
  "keep_first d out =
     (case dl_nzo_id d of None \<Rightarrow> out
      | Some k \<Rightarrow> (case out k of None \<Rightarrow> out(k \<mapsto> d) | Some d' \<Rightarrow> out))"

definition nzo_chunk :: nat where
  "nzo_chunk = 500"

function nzo_loop :: "string list \<Rightarrow> (string \<Rightarrow> download option) \<Rightarrow> dl_db
    \<Rightarrow> (db_error + (string \<Rightarrow> download option)) \<times> dl_db" where
  "nzo_loop ids out c =
     (if ids = [] then (Inr out, c)
      else let args = filter (\<lambda>i. i \<noteq> []) (take nzo_chunk ids) in
        if args = [] then nzo_loop (drop nzo_chunk ids) out c
        else (case db_query (\<lambda>t. sort_key dl_id (filter (\<lambda>d. \<exists>k \<in> set args. dl_nzo_id d = Some k) t)) c of
                (Inl e, c') \<Rightarrow> (Inl e, c')
              | (Inr ds, c') \<Rightarrow> nzo_loop (drop nzo_chunk ids) (fold keep_first ds out) c'))"
  by pat_completeness auto

termination
  by (relation "measure (\<lambda>(ids, out, c). length ids)") (auto simp: nzo_chunk_def)

declare nzo_loop.simps [simp del]

definition list_by_nzo_ids :: "string list \<Rightarrow> dl_db
    \<Rightarrow> (db_error + (string \<Rightarrow> download option)) \<times> dl_db" where
  "list_by_nzo_ids ids c = nzo_loop ids Map.empty c"

lemma fold_keep_first:
  "fold keep_first ds out k =
     (case out k of Some d \<Rightarrow> Some d | None \<Rightarrow> find (\<lambda>d. dl_nzo_id d = Some k) ds)"
  by (induction ds arbitrary: out) (auto simp: keep_first_def split: option.splits)

lemma find_filter: "(\<And>x. p x \<Longrightarrow> q x) \<Longrightarrow> find p (filter q xs) = find p xs"
  by (induction xs) auto

lemma find_filter_none: "(\<And>x. p x \<Longrightarrow> \<not> q x) \<Longrightarrow> find p (filter q xs) = None"
  by (induction xs) auto

lemma nzo_loop_spec:
  assumes "sorted (map dl_id (rows c))" and "faults c = []"
  shows "\<exists>m. fst (nzo_loop ids out c) = Inr m
    \<and> (\<forall>k. m k = (case out k of Some d \<Rightarrow> Some d
        | None \<Rightarrow> if k \<in> set ids \<and> k \<noteq> [] then find (\<lambda>d. dl_nzo_id d = Some k) (rows c) else None))"
  using assms
proof (induction ids out c rule: nzo_loop.induct)
  case (1 ids out c)
  let ?args = "filter (\<lambda>i. i \<noteq> []) (take nzo_chunk ids)"
  let ?rest = "drop nzo_chunk ids"
  have ids: "k \<in> set ids \<and> k \<noteq> [] \<longleftrightarrow> k \<in> set ?args \<or> k \<in> set ?rest \<and> k \<noteq> []" for k :: string
  proof -
    have "set ids = set (take nzo_chunk ids) \<union> set ?rest"
      by (metis append_take_drop_id set_append)
    then show ?thesis by auto
  qed
  show ?case
  proof (cases "ids = []")
    case True
    then show ?thesis by (subst nzo_loop.simps) (simp split: option.split)
  next
    case ne: False
    show ?thesis
    proof (cases "?args = []")
      case True
      then have run: "nzo_loop ids out c = nzo_loop ?rest out c"
        using ne by (subst nzo_loop.simps) simp
      have eq: "k \<in> set ids \<and> k \<noteq> [] \<longleftrightarrow> k \<in> set ?rest \<and> k \<noteq> []" for k :: string
        using ids [of k] True by simp
      show ?thesis
        unfolding run eq by (rule "1.IH"(1) [OF ne refl True "1.prems"])
    next
      case False
      let ?q = "\<lambda>d. \<exists>k \<in> set ?args. dl_nzo_id d = Some k"
      have sortd: "sort_key dl_id (filter ?q (rows c)) = filter ?q (rows c)"
        using "1.prems"(1) by (intro sort_key_id_if_sorted sorted_filter)
      have q: "db_query (\<lambda>t. sort_key dl_id (filter ?q t)) c = (Inr (filter ?q (rows c)), next_fault c)"
        using "1.prems" sortd by (simp add: db_query_def)
      then have run: "nzo_loop ids out c
          = nzo_loop ?rest (fold keep_first (filter ?q (rows c)) out) (next_fault c)"
        using ne False by (subst nzo_loop.simps) (simp add: Let_def)
      have pre: "sorted (map dl_id (rows (next_fault c)))" "faults (next_fault c) = []"
        using "1.prems" by (simp_all add: next_fault_def)
      obtain m where m: "fst (nzo_loop ids out c) = Inr m"
        "\<And>k. m k = (case fold keep_first (filter ?q (rows c)) out k of Some d \<Rightarrow> Some d
          | None \<Rightarrow> if k \<in> set ?rest \<and> k \<noteq> [] then find (\<lambda>d. dl_nzo_id d = Some k) (rows c) else None)"
        using "1.IH"(2) [OF ne refl False q [symmetric] refl pre]
        unfolding next_fault_simps run [symmetric] by blast
      have hit: "find (\<lambda>d. dl_nzo_id d = Some k) (filter ?q (rows c)) =
          (if k \<in> set ?args then find (\<lambda>d. dl_nzo_id d = Some k) (rows c) else None)" for k
        by (cases "k \<in> set ?args") (auto intro: find_filter find_filter_none)
      have "m k = (case out k of Some d \<Rightarrow> Some d | None \<Rightarrow>
          if k \<in> set ids \<and> k \<noteq> [] then find (\<lambda>d. dl_nzo_id d = Some k) (rows c) else None)" for k
        unfolding m(2) fold_keep_first hit ids by (auto split: option.split)
      with m(1) show ?thesis by blast
    qed
  qed
qed

text \<open>The batched lookup is the single lookup, id by id: whatever the number of ids and
  however they fall into chunks, the map holds under each non-blank id asked for the row
  \<open>GetByNzoID\<close> returns (the lowest id when several rows share a job), and nothing else.\<close>

theorem list_by_nzo_ids_pointwise:
  assumes "keyed dl_id c" and "faults c = []"
  shows "\<exists>m. fst (list_by_nzo_ids ids c) = Inr m
    \<and> (\<forall>k. k \<in> set ids \<and> k \<noteq> [] \<longrightarrow> Inr (m k) = fst (get_by_nzo_id k c))
    \<and> (\<forall>k. k \<notin> set ids \<or> k = [] \<longrightarrow> m k = None)"
  using nzo_loop_spec [OF keyed_sorted [OF assms(1)] assms(2), of ids Map.empty] assms(2)
  by (auto simp: list_by_nzo_ids_def get_by_nzo_id_def get_by_def db_query_def)

theorem list_by_nzo_ids_pointwise_witness:
  "\<exists>m d. fst (list_by_nzo_ids [[], ''n1'', ''n1'']
      (sample_db [(sample_download 1 ''g'' StateFailed)\<lparr>dl_nzo_id := Some ''n1''\<rparr>,
                  (sample_download 2 ''h'' StateGrabbed)\<lparr>dl_nzo_id := Some ''n1''\<rparr>])) = Inr m
    \<and> m ''n1'' = Some d \<and> dl_id d = 1"
  using list_by_nzo_ids_pointwise [of "sample_db
      [(sample_download 1 ''g'' StateFailed)\<lparr>dl_nzo_id := Some ''n1''\<rparr>,
       (sample_download 2 ''h'' StateGrabbed)\<lparr>dl_nzo_id := Some ''n1''\<rparr>]" "[[], ''n1'', ''n1'']"]
  by (auto simp: keyed_def get_by_nzo_id_def get_by_def db_query_def)

text \<open>The queue view hides nothing a user can still act on: a row is missing from
  \<open>ListActive\<close> only if it is imported and finished before the bound, a user's view is the
  rows of it they own, and the polling queries agree with it: whenever a book has an import in
  flight for the user, the user's queue shows a row of that book.\<close>

theorem list_active_complete:
  assumes "faults c = []"
  shows "\<exists>ds. fst (list_active_by_user u since c) = Inr ds
    \<and> (\<forall>d \<in> set (rows c). d \<notin> set ds \<longrightarrow>
         (u \<noteq> 0 \<and> dl_owner_user_id d \<noteq> u)
         \<or> (dl_status d = StateImported
            \<and> coalesce (dl_imported_at d) (coalesce (dl_completed_at d) (dl_added_at d)) < since))
    \<and> (\<forall>d \<in> set ds. d \<in> set (rows c) \<and> (u = 0 \<or> dl_owner_user_id d = u))
    \<and> sorted (map (\<lambda>d. - dl_added_at d) ds)
    \<and> (\<forall>b. fst (has_import_in_flight b u c) = Inr True \<longrightarrow> (\<exists>d \<in> set ds. dl_book_id d = Some b))"
proof -
  let ?ds = "newest_first (filter (query_scope u (active_where since)) (rows c))"
  have ds: "fst (list_active_by_user u since c) = Inr ?ds"
    using assms by (simp add: list_active_by_user_def select_downloads_def db_query_def)
  have mem: "d \<in> set ?ds \<longleftrightarrow> d \<in> set (rows c) \<and> query_scope u (active_where since) d" for d
    by (auto simp: newest_first_def)
  have "\<exists>d \<in> set ?ds. dl_book_id d = Some b" if "fst (has_import_in_flight b u c) = Inr True" for b
    using that assms unfolding Bex_def mem
    by (auto simp: has_import_in_flight_def db_query_def query_scope_def active_where_def
        filter_empty_conv)
  moreover have "sorted (map (\<lambda>d. - dl_added_at d) ?ds)" by (simp add: newest_first_def)
  moreover have "(u \<noteq> 0 \<and> dl_owner_user_id d \<noteq> u) \<or> (dl_status d = StateImported
      \<and> coalesce (dl_imported_at d) (coalesce (dl_completed_at d) (dl_added_at d)) < since)"
    if "d \<in> set (rows c)" "d \<notin> set ?ds" for d
    using that unfolding mem query_scope_def active_where_def by linarith
  moreover have "d \<in> set (rows c) \<and> (u = 0 \<or> dl_owner_user_id d = u)" if "d \<in> set ?ds" for d
    using that unfolding mem query_scope_def by blast
  ultimately show ?thesis using ds by blast
qed

theorem list_active_complete_witness:
  "\<exists>ds. fst (list_active_by_user 7 0 (sample_db [sample_download 1 ''g'' StateFailed])) = Inr ds
    \<and> sorted (map (\<lambda>d. - dl_added_at d) ds) \<and> map dl_id ds = [1]"
proof -
  let ?c = "sample_db [sample_download 1 ''g'' StateFailed]"
  obtain ds where ds: "fst (list_active_by_user 7 0 ?c) = Inr ds" "sorted (map (\<lambda>d. - dl_added_at d) ds)"
    using list_active_complete [of ?c 7 0] unfolding sample_db_simps by blast
  moreover have "fst (list_active_by_user 7 0 ?c) = Inr [sample_download 1 ''g'' StateFailed]"
    by (simp add: list_active_by_user_def select_downloads_def db_query_def newest_first_def
        query_scope_def active_where_def sample_download_def)
  ultimately show ?thesis by auto
qed

end
