(* ===== verification/Download_Manual.thy ===== *)
theory Download_Manual
  imports Download_Status
begin

text \<open>
  The synthetic row of a manual import (\<open>createManualDownload\<close> in
  \<open>internal/api/manual_import.go\<close>), which enters the state machine at \<open>completed\<close>, and what the
  repository keeps of it.
\<close>

text \<open>\<open>guid\<close> is the random part; every field the literal leaves out is the zero value.\<close>

definition create_manual_download :: "string \<Rightarrow> int \<Rightarrow> string \<Rightarrow> int \<Rightarrow> time \<Rightarrow> time \<Rightarrow> dl_db
    \<Rightarrow> (dl_error + download) \<times> dl_db" where
  "create_manual_download guid book_id title owner now created c =
     dl_create \<lparr>
       dl_id = 0, dl_guid = manual_guid_prefix @ guid, dl_owner_user_id = owner,
       dl_book_id = Some book_id, dl_edition_id = None, dl_indexer_id = None,
       dl_download_client_id = None, dl_title = title, dl_nzb_url = [], dl_size = 0,
       dl_nzo_id = None, dl_torrent_id = None, dl_status = StateCompleted, dl_protocol = [],
       dl_quality = [], dl_indexer_flags = [], dl_error_message = [], dl_added_at = time_zero,
       dl_grabbed_at = None, dl_completed_at = Some now, dl_imported_at = None,
       dl_dead_at = None, dl_import_retry_count = 0, dl_import_path = []\<rparr> created c"

text \<open>A run of status updates of one row, each of which succeeds.\<close>

lemma update_status_ok:
  assumes "keyed dl_id c" and "faults c = []" and "row_of dl_id (rows c) i = Some d"
    and "can_transition_to (dl_status d) next"
  shows "fst (update_status i next now c) = Inr ()"
    and "row_of dl_id (rows (snd (update_status i next now c))) i = Some (status_set (next, now) d)"
    and "keyed dl_id (snd (update_status i next now c))"
    and "faults (snd (update_status i next now c)) = []"
proof -
  have c: "keyed dl_id (next_fault c)" "\<not> faulty (next_fault c)" "\<not> faulty c"
    using assms(1,2) by simp (simp_all add: next_fault_def faulty_def assms(2))
  have upd: "update_status i next now c = write_status i (dl_status d) next now (next_fault c)"
    using c(3) assms(3,4) by (simp add: update_status_def read_status_def db_query_def)
  show "fst (update_status i next now c) = Inr ()"
    unfolding upd using write_status_result [OF c(1,2)] assms(3) by simp
  show "row_of dl_id (rows (snd (update_status i next now c))) i = Some (status_set (next, now) d)"
    unfolding upd using write_status_rows [OF c(2)] assms(3) by simp
  show "keyed dl_id (snd (update_status i next now c))"
    unfolding upd using c(1) by (simp add: write_status_def status_cas.cas_keyed)
  show "faults (snd (update_status i next now c)) = []"
    unfolding upd using assms(2) by (simp add: write_status_def db_exec_def next_fault_def)
qed

fun update_statuses :: "int \<Rightarrow> (download_state \<times> time) list \<Rightarrow> dl_db \<Rightarrow> dl_db" where
  "update_statuses i [] c = c"
| "update_statuses i ((next, now) # us) c = update_statuses i us (snd (update_status i next now c))"

fun legal_path :: "download_state \<Rightarrow> (download_state \<times> time) list \<Rightarrow> bool" where
  "legal_path s [] = True"
| "legal_path s ((next, now) # us) = (can_transition_to s next \<and> legal_path next us)"

lemma update_statuses_row:
  assumes "keyed dl_id c" and "faults c = []" and "row_of dl_id (rows c) i = Some d"
    and "legal_path (dl_status d) us"
  shows "row_of dl_id (rows (update_statuses i us c)) i = Some (fold status_set us d)"
  using assms
proof (induction us arbitrary: c d)
  case (Cons u us)
  obtain nxt now where u: "u = (nxt, now)" by (cases u)
  have tr: "can_transition_to (dl_status d) nxt" and lp: "legal_path nxt us"
    using Cons.prems(4) unfolding u by simp_all
  note ok = update_status_ok [OF Cons.prems(1,2,3) tr]
  show ?case
    using Cons.IH [OF ok(3,4,2)] lp unfolding u by simp
qed simp

text \<open>Out of \<open>completed\<close>, nothing on the way to \<open>imported\<close> re-enters a stamping state.\<close>

fun past_completion :: "download_state \<Rightarrow> bool" where
  "past_completion s = (s \<notin> {StateGrabbed, StateDownloading})"

lemma past_completion_step:
  "past_completion s \<Longrightarrow> can_transition_to s next \<Longrightarrow> past_completion next \<and> next \<noteq> StateCompleted"
  by (cases s) (auto simp: can_transition_to_def)

lemma legal_path_stamps:
  "past_completion (dl_status d) \<Longrightarrow> legal_path (dl_status d) us
   \<Longrightarrow> dl_grabbed_at (fold status_set us d) = dl_grabbed_at d
     \<and> dl_completed_at (fold status_set us d) = dl_completed_at d"
proof (induction us arbitrary: d)
  case (Cons u us)
  obtain nxt now where u: "u = (nxt, now)" by (cases u)
  with Cons.prems have tr: "can_transition_to (dl_status d) nxt" and lp: "legal_path nxt us"
    by simp_all
  from past_completion_step [OF Cons.prems(1) tr]
  have p: "past_completion nxt" "nxt \<notin> {StateGrabbed, StateDownloading, StateCompleted}" by auto
  have "dl_grabbed_at (status_set (nxt, now) d) = dl_grabbed_at d
      \<and> dl_completed_at (status_set (nxt, now) d) = dl_completed_at d"
    using p(2) by (cases nxt) (simp_all add: status_set_def)
  then show ?case using Cons.IH [of "status_set (nxt, now) d"] p(1) lp unfolding u by simp
qed simp

text \<open>A manual import's completion time is lost. The handler answers with a record that says
  when it completed, but the stored row has neither a completion nor a grab time, and however
  the import then proceeds through the state machine, up to and including \<open>imported\<close>, both stay
  empty.\<close>

theorem manual_import_never_stamped:
  assumes "keyed dl_id c" and "faults c = []"
    and "manual_guid_prefix @ guid \<notin> dl_guid ` set (rows c)"
    and "legal_path StateCompleted us"
  shows "\<exists>d c' r. create_manual_download guid book_id title owner now created c = (Inr d, c')
    \<and> dl_completed_at d = Some now
    \<and> row_of dl_id (rows (update_statuses (dl_id d) us c')) (dl_id d) = Some r
    \<and> dl_completed_at r = None \<and> dl_grabbed_at r = None"
proof -
  define d0 where "d0 = \<lparr>
       dl_id = 0, dl_guid = manual_guid_prefix @ guid, dl_owner_user_id = owner,
       dl_book_id = Some book_id, dl_edition_id = None, dl_indexer_id = None,
       dl_download_client_id = None, dl_title = title, dl_nzb_url = [], dl_size = 0,
       dl_nzo_id = None, dl_torrent_id = None, dl_status = StateCompleted, dl_protocol = [],
       dl_quality = [], dl_indexer_flags = [], dl_error_message = [], dl_added_at = time_zero,
       dl_grabbed_at = None, dl_completed_at = Some now, dl_imported_at = None,
       dl_dead_at = None, dl_import_retry_count = 0, dl_import_path = []\<rparr>"
  let ?i = "last_id c + 1"
  let ?r = "created_row d0 created ?i"
  define c' where "c' = (next_fault c)\<lparr>rows := rows c @ [?r], last_id := ?i\<rparr>"
  have cr: "create_manual_download guid book_id title owner now created c
      = (Inr (d0\<lparr>dl_id := ?i, dl_added_at := created\<rparr>), c')"
    using assms(2,3)
    by (simp add: create_manual_download_def dl_create_def db_insert_def d0_def c'_def)
  have "?i \<notin> dl_id ` set (rows c)" using assms(1) by (force simp: keyed_def)
  then have row: "row_of dl_id (rows c') ?i = Some ?r"
    using row_of_unique [of dl_id "rows c'" ?r] keyed_distinct [OF assms(1)] by (simp add: c'_def)
  have k: "keyed dl_id c'" "faults c' = []"
    using assms(1,2) \<open>?i \<notin> dl_id ` set (rows c)\<close>
    by (force simp: keyed_def c'_def sorted_append, simp add: c'_def next_fault_def)
  have st: "dl_status ?r = StateCompleted" by (simp add: d0_def)
  have "row_of dl_id (rows (update_statuses ?i us c')) ?i = Some (fold status_set us ?r)"
    using update_statuses_row [OF k row] assms(4) st by simp
  moreover have "dl_grabbed_at (fold status_set us ?r) = None
      \<and> dl_completed_at (fold status_set us ?r) = None"
    using legal_path_stamps [of ?r us] assms(4) st by (simp add: created_row_def)
  ultimately show ?thesis
    by (intro exI [of _ "d0\<lparr>dl_id := ?i, dl_added_at := created\<rparr>"] exI [of _ c']
        exI [of _ "fold status_set us ?r"]) (simp add: cr d0_def)
qed

theorem manual_import_never_stamped_witness:
  "\<exists>d c' r. create_manual_download ''x'' 3 ''T'' 7 500 501 (sample_db []) = (Inr d, c')
    \<and> dl_completed_at d = Some 500
    \<and> row_of dl_id (rows (update_statuses (dl_id d)
          [(StateImportPending, 502), (StateImporting, 503), (StateImported, 504)] c')) (dl_id d) = Some r
    \<and> dl_completed_at r = None \<and> dl_grabbed_at r = None"
  using manual_import_never_stamped [of "sample_db []" "''x''"
      "[(StateImportPending, 502), (StateImporting, 503), (StateImported, 504)]" 3 "''T''" 7 500 501]
  by (simp add: keyed_def can_transition_to_def)

end
