(* ===== verification/Requests.thy ===== *)
theory Requests
  imports Sql_Table
begin

text \<open>
  \<open>internal/db/requests.go\<close> over \<open>models.LibraryRequest\<close>: the requester queue with its cap of
  pending requests, its claims and the daily quota of automatic approvals. The columns joined
  in from other tables (user names, the status of the book) are left out; the per-author
  progress takes the books as an argument. The claim token is the argument \<open>token\<close>, \<open>None\<close> when
  the random source fails.
\<close>

subsection \<open>Rows\<close>

datatype request_status =
  RequestStatusPending | RequestStatusApproving | RequestStatusApproved | RequestStatusDeclined

record library_request =
  rq_id :: int
  rq_owner :: int
  rq_kind :: string
  rq_foreign_id :: string
  rq_media_type :: string
  rq_title :: string
  rq_author_name :: string
  rq_payload_json :: string
  rq_status :: request_status
  rq_decline_reason :: string
  rq_decided_by :: "int option"
  rq_result_book :: "int option"
  rq_result_author :: "int option"
  rq_created_at :: time
  rq_updated_at :: time
  rq_decided_at :: "time option"
  rq_claimed_at :: "int option"
  rq_claim_token :: "string option"
  rq_created_via :: string
  rq_created_by :: "int option"

type_synonym rq_db = "library_request conn"

datatype rq_error =
  RequestExists | RequestNotPending | RequestCapReached | RequestAutoApproveQuota
| RqDb db_error | RqClaimToken | RqReload

definition request_claim_ttl :: duration where
  "request_claim_ttl = 5 * minute"

text \<open>\<open>Time.UnixMilli\<close>; the Unix epoch is 62135596800 s after the zero time.\<close>

definition unix_milli :: "time \<Rightarrow> int" where
  "unix_milli t = (t - 62135596800 * second) div 1000000"

definition nullable_id :: "int \<Rightarrow> int option" where
  "nullable_id i = (if i = 0 then None else Some i)"

definition awaiting :: "library_request \<Rightarrow> bool" where
  "awaiting r = (rq_status r \<in> {RequestStatusPending, RequestStatusApproving})"

definition pending_count :: "int \<Rightarrow> library_request list \<Rightarrow> nat" where
  "pending_count owner t = length (filter (\<lambda>r. rq_owner r = owner \<and> awaiting r) t)"

definition pending_below_cap :: "int \<Rightarrow> int \<Rightarrow> library_request list \<Rightarrow> bool" where
  "pending_below_cap owner max_pending t = (int (pending_count owner t) < max_pending)"

definition effective_cap :: "int \<Rightarrow> int" where
  "effective_cap max_pending = (if max_pending \<le> 0 then 2 ^ 31 - 1 else max_pending)"

definition rq_key :: "library_request \<Rightarrow> int \<times> string \<times> string" where
  "rq_key r = (rq_owner r, rq_kind r, rq_foreign_id r)"

subsection \<open>Creating and reading\<close>

definition request_row :: "library_request \<Rightarrow> time \<Rightarrow> int \<Rightarrow> library_request" where
  "request_row req now i = \<lparr>
     rq_id = i, rq_owner = rq_owner req, rq_kind = rq_kind req,
     rq_foreign_id = rq_foreign_id req, rq_media_type = rq_media_type req,
     rq_title = rq_title req, rq_author_name = rq_author_name req,
     rq_payload_json = rq_payload_json req, rq_status = RequestStatusPending,
     rq_decline_reason = [], rq_decided_by = None, rq_result_book = None,
     rq_result_author = None, rq_created_at = now, rq_updated_at = now, rq_decided_at = None,
     rq_claimed_at = None, rq_claim_token = None, rq_created_via = rq_created_via req,
     rq_created_by = rq_created_by req\<rparr>"

definition rq_create :: "library_request \<Rightarrow> int \<Rightarrow> time \<Rightarrow> rq_db
    \<Rightarrow> (rq_error + library_request) \<times> rq_db" where
  "rq_create req max_pending now c =
     (case db_insert_where (pending_below_cap (rq_owner req) (effective_cap max_pending))
             (\<lambda>t. rq_key req \<in> rq_key ` set t) (request_row req now) c of
        (Inl UniqueViolation, c') \<Rightarrow> (Inl RequestExists, c')
      | (Inl e, c') \<Rightarrow> (Inl (RqDb e), c')
      | (Inr None, c') \<Rightarrow> (Inl RequestCapReached, c')
      | (Inr (Some i), c') \<Rightarrow>
          (Inr (req\<lparr>rq_id := i, rq_status := RequestStatusPending, rq_created_at := now,
                    rq_updated_at := now\<rparr>), c'))"

definition get_for_owner :: "int \<Rightarrow> string \<Rightarrow> string \<Rightarrow> rq_db
    \<Rightarrow> (db_error + library_request option) \<times> rq_db" where
  "get_for_owner owner kind fid c =
     db_query (find (\<lambda>r. rq_owner r = owner \<and> rq_kind r = kind \<and> rq_foreign_id r = fid)) c"

definition rq_get_by_id :: "int \<Rightarrow> rq_db \<Rightarrow> (db_error + library_request option) \<times> rq_db" where
  "rq_get_by_id i c = db_query (\<lambda>t. row_of rq_id t i) c"

text \<open>One page, newest first, and the total; LIMIT and OFFSET with the defaults of \<open>list\<close>.\<close>

definition newest_requests :: "library_request list \<Rightarrow> library_request list" where
  "newest_requests t = sort_key (\<lambda>r. (- rq_created_at r)) (rev t)"

definition rq_page :: "int \<Rightarrow> int \<Rightarrow> 'a list \<Rightarrow> 'a list" where
  "rq_page limit offset xs =
     take (nat (if limit \<le> 0 then 50 else limit)) (drop (nat (if offset < 0 then 0 else offset)) xs)"

definition rq_list :: "(library_request \<Rightarrow> bool) \<Rightarrow> int \<Rightarrow> int \<Rightarrow> rq_db
    \<Rightarrow> (db_error + library_request list \<times> nat) \<times> rq_db" where
  "rq_list cond limit offset c =
     (case db_query (\<lambda>t. length (filter cond t)) c of
        (Inl e, c') \<Rightarrow> (Inl e, c')
      | (Inr n, c') \<Rightarrow>
          (case db_query (\<lambda>t. rq_page limit offset (newest_requests (filter cond t))) c' of
             (Inl e, c'') \<Rightarrow> (Inl e, c'')
           | (Inr page, c'') \<Rightarrow> (Inr (page, n), c'')))"

definition list_by_owner :: "int \<Rightarrow> int \<Rightarrow> int \<Rightarrow> rq_db
    \<Rightarrow> (db_error + library_request list \<times> nat) \<times> rq_db" where
  "list_by_owner owner limit offset c = rq_list (\<lambda>r. rq_owner r = owner) limit offset c"

text \<open>\<open>ListAll\<close> with no status, with \<open>pending\<close> (which covers running approvals), or another.\<close>

definition list_all_requests :: "request_status option \<Rightarrow> int \<Rightarrow> int \<Rightarrow> rq_db
    \<Rightarrow> (db_error + library_request list \<times> nat) \<times> rq_db" where
  "list_all_requests status limit offset c =
     (case status of
        None \<Rightarrow> rq_list (\<lambda>r. True) limit offset c
      | Some RequestStatusPending \<Rightarrow> rq_list awaiting limit offset c
      | Some s \<Rightarrow> rq_list (\<lambda>r. rq_status r = s) limit offset c)"

text \<open>\<open>fillAuthorProgress\<close>: books are (author id, imported); excluded ones are already out.\<close>

definition author_progress :: "(int \<times> bool) list \<Rightarrow> library_request \<Rightarrow> nat \<times> nat" where
  "author_progress books r =
     (case rq_result_author r of
        None \<Rightarrow> (0, 0)
      | Some a \<Rightarrow>
          if rq_kind r \<noteq> ''author'' then (0, 0)
          else (length (filter (\<lambda>b. fst b = a) books),
                length (filter (\<lambda>b. fst b = a \<and> snd b) books)))"

definition count_pending_by_owner :: "int \<Rightarrow> rq_db \<Rightarrow> (db_error + nat) \<times> rq_db" where
  "count_pending_by_owner owner c = db_query (pending_count owner) c"

definition count_pending :: "rq_db \<Rightarrow> (db_error + nat) \<times> rq_db" where
  "count_pending c = db_query (\<lambda>t. length (filter awaiting t)) c"

subsection \<open>Claims\<close>

definition claimable :: "int \<Rightarrow> library_request \<Rightarrow> bool" where
  "claimable stale r =
     (rq_status r = RequestStatusPending
      \<or> rq_status r = RequestStatusApproving \<and> coalesce (rq_claimed_at r) 0 < stale)"

definition approving_set :: "time \<times> string \<times> int \<Rightarrow> library_request \<Rightarrow> library_request" where
  "approving_set a r = (case a of (now, token, admin) \<Rightarrow>
     r\<lparr>rq_status := RequestStatusApproving, rq_claimed_at := Some (unix_milli now),
       rq_claim_token := Some token, rq_decided_by := nullable_id admin, rq_updated_at := now\<rparr>)"

text \<open>\<open>claimPending\<close>: \<open>extra\<close> is the appended predicate; it sees the table its subquery counts.\<close>

definition claim_pending :: "duration \<Rightarrow> int \<Rightarrow> int \<Rightarrow> (library_request list \<Rightarrow> library_request \<Rightarrow> bool)
    \<Rightarrow> string option \<Rightarrow> time \<Rightarrow> rq_db \<Rightarrow> (rq_error + library_request) \<times> rq_db" where
  "claim_pending ttl i admin extra token now c =
     (case token of
        None \<Rightarrow> (Inl RqClaimToken, c)
      | Some tok \<Rightarrow>
          (case db_exec (\<lambda>t. sql_update (\<lambda>r. rq_id r = i \<and> (claimable (unix_milli (now - ttl)) r \<and> extra t r))
                  (approving_set (now, tok, admin)) t) c of
             (Inl e, c') \<Rightarrow> (Inl (RqDb e), c')
           | (Inr n, c') \<Rightarrow>
               if n \<noteq> 1 then (Inl RequestNotPending, c')
               else (case rq_get_by_id i c' of
                       (Inr (Some r), c'') \<Rightarrow> (Inr (r\<lparr>rq_claim_token := Some tok\<rparr>), c'')
                     | (_, c'') \<Rightarrow> (Inl RqReload, c''))))"

definition rq_claim :: "duration \<Rightarrow> int \<Rightarrow> int \<Rightarrow> string option \<Rightarrow> time \<Rightarrow> rq_db
    \<Rightarrow> (rq_error + library_request) \<times> rq_db" where
  "rq_claim ttl i admin token now c = claim_pending ttl i admin (\<lambda>t r. True) token now c"

definition auto_approved :: "int \<Rightarrow> time \<Rightarrow> library_request \<Rightarrow> bool" where
  "auto_approved owner since r =
     (rq_owner r = owner \<and> rq_status r = RequestStatusApproved \<and> rq_decided_by r = None
      \<and> (case rq_decided_at r of None \<Rightarrow> False | Some t \<Rightarrow> since \<le> t))"

definition auto_approved_count :: "int \<Rightarrow> time \<Rightarrow> library_request list \<Rightarrow> nat" where
  "auto_approved_count owner since t = length (filter (auto_approved owner since) t)"

definition count_auto_approved_since :: "int \<Rightarrow> time \<Rightarrow> rq_db \<Rightarrow> (db_error + nat) \<times> rq_db" where
  "count_auto_approved_since owner since c = db_query (auto_approved_count owner since) c"

definition claim_auto_approve :: "duration \<Rightarrow> int \<Rightarrow> int \<Rightarrow> time \<Rightarrow> int \<Rightarrow> string option \<Rightarrow> time \<Rightarrow> rq_db
    \<Rightarrow> (rq_error + library_request) \<times> rq_db" where
  "claim_auto_approve ttl i owner since quota token now c =
     (case claim_pending ttl i 0
             (\<lambda>t r. rq_owner r = owner \<and> int (auto_approved_count owner since t) < quota) token now c of
        (Inl RequestNotPending, c') \<Rightarrow>
          (case count_auto_approved_since owner since c' of
             (Inr n, c'') \<Rightarrow>
               (Inl (if quota \<le> int n then RequestAutoApproveQuota else RequestNotPending), c'')
           | (Inl e, c'') \<Rightarrow> (Inl RequestNotPending, c''))
      | res \<Rightarrow> res)"

text \<open>The guarded writes of a claim's holder: zero rows is \<open>ErrRequestNotPending\<close>.\<close>

definition holds_claim :: "string \<Rightarrow> library_request \<Rightarrow> bool" where
  "holds_claim token r = (rq_status r = RequestStatusApproving \<and> rq_claim_token r = Some token)"

definition one_row :: "(db_error + nat) \<times> rq_db \<Rightarrow> (rq_error + unit) \<times> rq_db" where
  "one_row res =
     (case res of
        (Inl e, c) \<Rightarrow> (Inl (RqDb e), c)
      | (Inr n, c) \<Rightarrow> (if n \<noteq> 1 then Inl RequestNotPending else Inr (), c))"

definition renew_set :: "time \<Rightarrow> library_request \<Rightarrow> library_request" where
  "renew_set now r = r\<lparr>rq_claimed_at := Some (unix_milli now)\<rparr>"

definition renew_claim :: "int \<Rightarrow> string \<Rightarrow> time \<Rightarrow> rq_db \<Rightarrow> (rq_error + unit) \<times> rq_db" where
  "renew_claim i token now c =
     one_row (db_exec (sql_update (\<lambda>r. rq_id r = i \<and> holds_claim token r) (renew_set now)) c)"

definition complete_set :: "int option \<times> int option \<times> time \<Rightarrow> library_request \<Rightarrow> library_request" where
  "complete_set a r = (case a of (book, author, now) \<Rightarrow>
     r\<lparr>rq_status := RequestStatusApproved, rq_result_book := book, rq_result_author := author,
       rq_decided_at := Some now, rq_updated_at := now, rq_claimed_at := None,
       rq_claim_token := None\<rparr>)"

definition complete_claim :: "int \<Rightarrow> string \<Rightarrow> int option \<Rightarrow> int option \<Rightarrow> time \<Rightarrow> rq_db
    \<Rightarrow> (rq_error + unit) \<times> rq_db" where
  "complete_claim i token book author now c =
     one_row (db_exec (sql_update (\<lambda>r. rq_id r = i \<and> holds_claim token r)
       (complete_set (book, author, now))) c)"

definition release_set :: "time \<Rightarrow> library_request \<Rightarrow> library_request" where
  "release_set now r =
     r\<lparr>rq_status := RequestStatusPending, rq_decided_by := None, rq_claimed_at := None,
       rq_claim_token := None, rq_updated_at := now\<rparr>"

definition release_claim :: "int \<Rightarrow> string \<Rightarrow> time \<Rightarrow> rq_db \<Rightarrow> (db_error + nat) \<times> rq_db" where
  "release_claim i token now c =
     db_exec (sql_update (\<lambda>r. rq_id r = i \<and> holds_claim token r) (release_set now)) c"

definition decline_set :: "string \<times> int \<times> time \<Rightarrow> library_request \<Rightarrow> library_request" where
  "decline_set a r = (case a of (reason, admin, now) \<Rightarrow>
     r\<lparr>rq_status := RequestStatusDeclined, rq_decline_reason := reason,
       rq_decided_by := nullable_id admin, rq_decided_at := Some now, rq_updated_at := now\<rparr>)"

definition decline :: "int \<Rightarrow> int \<Rightarrow> string \<Rightarrow> time \<Rightarrow> rq_db \<Rightarrow> (rq_error + unit) \<times> rq_db" where
  "decline i admin reason now c =
     one_row (db_exec (sql_update (\<lambda>r. rq_id r = i \<and> rq_status r = RequestStatusPending)
       (decline_set (reason, admin, now))) c)"

definition reopen_set :: "string \<times> string \<times> string \<times> int option \<times> time
    \<Rightarrow> library_request \<Rightarrow> library_request" where
  "reopen_set a r = (case a of (media, payload, via, by, now) \<Rightarrow>
     r\<lparr>rq_status := RequestStatusPending, rq_media_type := media, rq_payload_json := payload,
       rq_decided_by := None, rq_decided_at := None, rq_result_book := None,
       rq_result_author := None, rq_decline_reason := [], rq_created_at := now,
       rq_updated_at := now, rq_created_via := via, rq_created_by := by\<rparr>)"

definition reopen :: "int \<Rightarrow> int \<Rightarrow> string \<Rightarrow> string \<Rightarrow> string \<Rightarrow> int option \<Rightarrow> int \<Rightarrow> time \<Rightarrow> rq_db
    \<Rightarrow> (rq_error + unit) \<times> rq_db" where
  "reopen i owner media payload via by max_pending now c =
     (case db_exec (\<lambda>t. sql_update (\<lambda>r. rq_id r = i
               \<and> (rq_owner r = owner \<and> rq_status r = RequestStatusApproved
                  \<and> pending_below_cap owner (effective_cap max_pending) t))
             (reopen_set (media, payload, via, by, now)) t) c of
        (Inl e, c') \<Rightarrow> (Inl (RqDb e), c')
      | (Inr n, c') \<Rightarrow>
          if n = 1 then (Inr (), c')
          else (case db_query (find (\<lambda>r. rq_id r = i \<and> rq_owner r = owner)) c' of
                  (Inr (Some r), c'') \<Rightarrow>
                    (Inl (if rq_status r = RequestStatusApproved then RequestCapReached
                          else RequestNotPending), c'')
                | (_, c'') \<Rightarrow> (Inl RequestNotPending, c'')))"

definition delete_pending_for_owner :: "int \<Rightarrow> int \<Rightarrow> rq_db \<Rightarrow> (rq_error + unit) \<times> rq_db" where
  "delete_pending_for_owner i owner c =
     one_row (db_exec (sql_delete (\<lambda>r. rq_id r = i \<and> rq_owner r = owner
       \<and> rq_status r = RequestStatusPending)) c)"

end
