(* ===== verification/Request_Claims.thy ===== *)
theory Request_Claims
  imports Requests
begin

text \<open>
  What the requester queue keeps under any history of its operations (unique requests, the cap of
  pending ones, claim columns that match the status), that a claim excludes every other approval
  until it goes stale, and what the quota of automatic approvals does and does not bound.
\<close>

interpretation approving_cas: cas_statement rq_id approving_set
  by unfold_locales (simp add: approving_set_def split: prod.split)

interpretation complete_cas: cas_statement rq_id complete_set
  by unfold_locales (simp add: complete_set_def split: prod.split)

interpretation release_cas: cas_statement rq_id release_set
  by unfold_locales (simp add: release_set_def)

interpretation renew_cas: cas_statement rq_id renew_set
  by unfold_locales (simp add: renew_set_def)

interpretation decline_cas: cas_statement rq_id decline_set
  by unfold_locales (simp add: decline_set_def split: prod.split)

interpretation reopen_cas: cas_statement rq_id reopen_set
  by unfold_locales (simp add: reopen_set_def split: prod.split)

lemmas rq_set_defs = approving_set_def complete_set_def release_set_def renew_set_def
  decline_set_def reopen_set_def

lemma rq_key_sets [simp]:
  "rq_key (approving_set a r) = rq_key r" "rq_key (complete_set b r) = rq_key r"
  "rq_key (release_set now r) = rq_key r" "rq_key (renew_set now r) = rq_key r"
  "rq_key (decline_set d r) = rq_key r" "rq_key (reopen_set e r) = rq_key r"
  by (simp_all add: rq_key_def rq_set_defs split: prod.split)

lemma rq_owner_sets [simp]:
  "rq_owner (approving_set a r) = rq_owner r" "rq_owner (complete_set b r) = rq_owner r"
  "rq_owner (release_set now r) = rq_owner r" "rq_owner (renew_set now r) = rq_owner r"
  "rq_owner (decline_set d r) = rq_owner r" "rq_owner (reopen_set e r) = rq_owner r"
  by (simp_all add: rq_set_defs split: prod.split)

lemma snd_one_row [simp]: "snd (one_row res) = snd res"
  by (simp add: one_row_def split: prod.splits sum.splits)

lemma db_exec_table: "db_exec (\<lambda>t. sql_update (p t) f t) c = db_exec (sql_update (p (rows c)) f) c"
  by (simp add: db_exec_def)

subsection \<open>The invariant\<close>

definition rq_row_ok :: "library_request \<Rightarrow> bool" where
  "rq_row_ok r \<longleftrightarrow>
     (rq_claim_token r \<noteq> None \<longleftrightarrow> rq_status r = RequestStatusApproving)
     \<and> (rq_claimed_at r \<noteq> None \<longleftrightarrow> rq_status r = RequestStatusApproving)
     \<and> (rq_decided_at r \<noteq> None \<longleftrightarrow> rq_status r \<in> {RequestStatusApproved, RequestStatusDeclined})
     \<and> (rq_status r = RequestStatusPending \<longrightarrow> rq_decided_by r = None)
     \<and> (rq_result_book r \<noteq> None \<or> rq_result_author r \<noteq> None \<longrightarrow> rq_status r = RequestStatusApproved)
     \<and> (rq_decline_reason r \<noteq> [] \<longrightarrow> rq_status r = RequestStatusDeclined)"

definition rq_inv :: "int \<Rightarrow> rq_db \<Rightarrow> bool" where
  "rq_inv m c \<longleftrightarrow> keyed rq_id c \<and> unique_by rq_key c \<and> all_rows rq_row_ok c
     \<and> (\<forall>u. int (pending_count u (rows c)) \<le> m)"

lemma rq_inv_keyed: "rq_inv m c \<Longrightarrow> keyed rq_id c"
  by (simp add: rq_inv_def)

lemma rq_inv_next_fault [simp]: "rq_inv m (next_fault c) = rq_inv m c"
  by (simp add: rq_inv_def)

lemma rq_inv_query: "rq_inv m c \<Longrightarrow> rq_inv m (snd (db_query q c))"
  by (simp add: db_query_def)

lemma pending_count_update:
  "(\<And>r. p r \<Longrightarrow> awaiting (f r) \<Longrightarrow> awaiting r) \<Longrightarrow> (\<And>r. rq_owner (f r) = rq_owner r)
   \<Longrightarrow> pending_count u (map (\<lambda>r. if p r then f r else r) t) \<le> pending_count u t"
  by (induction t) (auto simp: pending_count_def)

lemma pending_count_update_plus:
  "(\<And>r. rq_owner (f r) = rq_owner r)
   \<Longrightarrow> pending_count u (map (\<lambda>r. if p r then f r else r) t)
       \<le> pending_count u t + length (filter (\<lambda>r. rq_owner r = u \<and> p r) t)"
  by (induction t) (auto simp: pending_count_def)

lemma pending_count_delete: "pending_count u (filter p t) \<le> pending_count u t"
  by (induction t) (auto simp: pending_count_def)

lemma rq_inv_update:
  assumes "\<And>r. rq_id (f r) = rq_id r" and "\<And>r. rq_key (f r) = rq_key r"
    and "\<And>r. rq_row_ok r \<Longrightarrow> p r \<Longrightarrow> rq_row_ok (f r)"
    and "\<And>u. int (pending_count u (map (\<lambda>r. if p r then f r else r) (rows c))) \<le> m"
    and "rq_inv m c"
  shows "rq_inv m (snd (db_exec (sql_update p f) c))"
proof -
  have "int (pending_count u (rows (snd (db_exec (sql_update p f) c)))) \<le> m" for u
    using assms(4) [of u] assms(5) by (simp add: db_exec_def rq_inv_def)
  then show ?thesis
    using assms by (simp add: rq_inv_def keyed_update unique_by_update all_rows_update)
qed

lemma rq_inv_guarded:
  assumes "\<And>r. rq_id (f r) = rq_id r" and "\<And>r. rq_key (f r) = rq_key r"
    and "\<And>r. rq_row_ok r \<Longrightarrow> p r \<Longrightarrow> rq_row_ok (f r)"
    and "\<And>r. p r \<Longrightarrow> awaiting r" and "rq_inv m c"
  shows "rq_inv m (snd (db_exec (sql_update p f) c))"
proof (rule rq_inv_update [OF assms(1-3) _ assms(5)])
  fix u
  have "rq_owner (f r) = rq_owner r" for r using assms(2) [of r] by (simp add: rq_key_def)
  then have "pending_count u (map (\<lambda>r. if p r then f r else r) (rows c)) \<le> pending_count u (rows c)"
    using assms(4) by (intro pending_count_update) auto
  also have "int (pending_count u (rows c)) \<le> m" using assms(5) by (simp add: rq_inv_def)
  finally show "int (pending_count u (map (\<lambda>r. if p r then f r else r) (rows c))) \<le> m" by simp
qed

subsection \<open>Each operation\<close>

lemma snd_rq_create:
  "snd (rq_create req max_pending now c) =
     snd (db_insert_where (pending_below_cap (rq_owner req) (effective_cap max_pending))
       (\<lambda>t. rq_key req \<in> rq_key ` set t) (request_row req now) c)"
  by (simp add: rq_create_def split: prod.splits sum.splits option.splits db_error.splits)

lemma rq_create_inv [op_inv]:
  assumes "effective_cap max_pending = m" and "rq_inv m c"
  shows "rq_inv m (snd (rq_create req max_pending now c))"
proof -
  let ?ins = "db_insert (\<lambda>t. rq_key req \<in> rq_key ` set t) (request_row req now)"
  have ok: "rq_row_ok (request_row req now i)" and aw: "awaiting (request_row req now i)" for i
    by (simp_all add: rq_row_ok_def request_row_def awaiting_def)
  have own: "rq_owner (request_row req now i) = rq_owner req"
    and key: "rq_key (request_row req now i) = rq_key req"
    and id: "rq_id (request_row req now i) = i" for i
    by (simp_all add: request_row_def rq_key_def)
  have "rq_inv m (snd (?ins c))" if "pending_below_cap (rq_owner req) m (rows c)"
  proof -
    have "int (pending_count u (rows (snd (?ins c)))) \<le> m" for u
      using assms(2) that aw own
      by (auto simp: rq_inv_def db_insert_def pending_below_cap_def pending_count_def)
    then show ?thesis
      using assms(2) ok key id
      by (simp add: rq_inv_def keyed_insert unique_by_insert all_rows_insert)
  qed
  then show ?thesis
    using assms by (auto simp: snd_rq_create snd_db_insert_where db_insert_def)
qed

lemma claimable_awaiting: "claimable stale r \<Longrightarrow> awaiting r"
  by (auto simp: claimable_def awaiting_def)

lemma snd_claim_pending:
  "snd (claim_pending ttl i admin extra token now c) = (case token of None \<Rightarrow> c | Some tok \<Rightarrow>
     let res = db_exec (sql_update (\<lambda>r. rq_id r = i
             \<and> (claimable (unix_milli (now - ttl)) r \<and> extra (rows c) r)) (approving_set (now, tok, admin))) c
     in if fst res = Inr 1 then snd (rq_get_by_id i (snd res)) else snd res)"
proof (cases token)
  case None
  then show ?thesis by (simp add: claim_pending_def)
next
  case (Some tok)
  let ?e = "db_exec (sql_update (\<lambda>r. rq_id r = i
             \<and> (claimable (unix_milli (now - ttl)) r \<and> extra (rows c) r)) (approving_set (now, tok, admin))) c"
  obtain res c1 where e: "?e = (res, c1)" by fastforce
  show ?thesis
    unfolding Some claim_pending_def option.case Let_def
    by (subst db_exec_table, unfold e, cases res; cases "rq_get_by_id i c1") (auto split: sum.splits option.splits)
qed

lemma claim_pending_inv: "rq_inv m c \<Longrightarrow> rq_inv m (snd (claim_pending ttl i admin extra token now c))"
  unfolding snd_claim_pending Let_def rq_get_by_id_def
  by (auto simp: approving_cas.key_setf claimable_awaiting rq_row_ok_def approving_set_def
      claimable_def rq_key_def intro!: rq_inv_guarded rq_inv_query split: option.split)

lemma rq_claim_inv [op_inv]: "rq_inv m c \<Longrightarrow> rq_inv m (snd (rq_claim ttl i admin token now c))"
  by (simp add: rq_claim_def claim_pending_inv)

lemma claim_auto_inv [op_inv]:
  assumes "rq_inv m c"
  shows "rq_inv m (snd (claim_auto_approve ttl i owner since quota token now c))"
proof -
  let ?x = "\<lambda>t r. rq_owner r = owner \<and> int (auto_approved_count owner since t) < quota"
  have "rq_inv m (snd (claim_pending ttl i 0 ?x token now c))"
    using assms by (rule claim_pending_inv)
  then show ?thesis
    by (cases "claim_pending ttl i 0 ?x token now c")
       (auto simp: claim_auto_approve_def count_auto_approved_since_def db_query_def
          split: sum.splits rq_error.splits prod.splits)
qed

lemma holder_inv [op_inv]:
  "rq_inv m c \<Longrightarrow> rq_inv m (snd (renew_claim i token now c))"
  "rq_inv m c \<Longrightarrow> rq_inv m (snd (complete_claim i token book author now c))"
  "rq_inv m c \<Longrightarrow> rq_inv m (snd (release_claim i token now c))"
  by (auto simp: renew_claim_def complete_claim_def release_claim_def holds_claim_def awaiting_def
      rq_row_ok_def rq_set_defs rq_key_def intro!: rq_inv_guarded)

lemma decline_inv [op_inv]: "rq_inv m c \<Longrightarrow> rq_inv m (snd (decline i admin reason now c))"
  by (auto simp: decline_def awaiting_def rq_row_ok_def rq_set_defs rq_key_def
      intro!: rq_inv_guarded)

lemma snd_reopen:
  "rq_inv m (snd (reopen i owner media payload via by max_pending now c))
   = rq_inv m (snd (db_exec (sql_update (\<lambda>r. rq_id r = i
               \<and> (rq_owner r = owner \<and> rq_status r = RequestStatusApproved
                  \<and> pending_below_cap owner (effective_cap max_pending) (rows c)))
             (reopen_set (media, payload, via, by, now))) c))"
proof -
  let ?e = "db_exec (sql_update (\<lambda>r. rq_id r = i
               \<and> (rq_owner r = owner \<and> rq_status r = RequestStatusApproved
                  \<and> pending_below_cap owner (effective_cap max_pending) (rows c)))
             (reopen_set (media, payload, via, by, now))) c"
  obtain res c1 where e: "?e = (res, c1)" by fastforce
  show ?thesis
    unfolding reopen_def
    by (subst db_exec_table, unfold e, cases res) (simp_all add: db_query_def split: option.split)
qed

lemma reopen_inv [op_inv]:
  assumes "effective_cap max_pending = m" and "rq_inv m c"
  shows "rq_inv m (snd (reopen i owner media payload via by max_pending now c))"
proof -
  let ?p = "\<lambda>r. rq_id r = i \<and> (rq_owner r = owner \<and> rq_status r = RequestStatusApproved
                  \<and> pending_below_cap owner m (rows c))"
  let ?f = "reopen_set (media, payload, via, by, now)"
  have "int (pending_count u (map (\<lambda>r. if ?p r then ?f r else r) (rows c))) \<le> m" for u
  proof -
    have one: "length (filter (\<lambda>r. rq_owner r = u \<and> ?p r) (rows c)) \<le> 1"
      using assms(2) by (intro length_filter_keyed [of rq_id _ _ i]) (auto simp: rq_inv_def keyed_def)
    have le: "int (pending_count u (rows c)) \<le> m" using assms(2) by (simp add: rq_inv_def)
    have plus: "pending_count u (map (\<lambda>r. if ?p r then ?f r else r) (rows c))
        \<le> pending_count u (rows c) + length (filter (\<lambda>r. rq_owner r = u \<and> ?p r) (rows c))"
      by (rule pending_count_update_plus) simp
    show ?thesis
    proof (cases "u = owner \<and> pending_below_cap owner m (rows c)")
      case True
      then have "int (pending_count u (rows c)) < m" by (simp add: pending_below_cap_def)
      with plus one show ?thesis by linarith
    next
      case False
      then have "filter (\<lambda>r. rq_owner r = u \<and> ?p r) (rows c) = []" by (auto simp: filter_empty_conv)
      with plus le show ?thesis by simp
    qed
  qed
  then have "rq_inv m (snd (db_exec (sql_update ?p ?f) c))"
    using assms(2) by (intro rq_inv_update)
      (auto simp: rq_key_def rq_row_ok_def reopen_set_def)
  then show ?thesis unfolding snd_reopen assms(1) .
qed

lemma delete_pending_inv [op_inv]: "rq_inv m c \<Longrightarrow> rq_inv m (snd (delete_pending_for_owner i owner c))"
proof -
  assume inv: "rq_inv m c"
  let ?p = "\<lambda>r. rq_id r = i \<and> rq_owner r = owner \<and> rq_status r = RequestStatusPending"
  have "int (pending_count u (filter (\<lambda>r. \<not> ?p r) (rows c))) \<le> m" for u
    using pending_count_delete [of u "\<lambda>r. \<not> ?p r" "rows c"] inv
    unfolding rq_inv_def by (meson of_nat_le_iff order_trans)
  then show ?thesis
    using inv keyed_delete [of rq_id c ?p] unique_by_delete [of rq_key c ?p]
      all_rows_delete [of rq_row_ok c ?p]
    by (simp add: delete_pending_for_owner_def rq_inv_def) (simp add: db_exec_def)
qed

subsection \<open>Histories\<close>

datatype rq_op =
  RqCreate library_request int
| RqClaim int int "string option"
| RqClaimAuto int int time int "string option"
| RqRenew int string
| RqComplete int string "int option" "int option"
| RqRelease int string
| RqDecline int int string
| RqReopen int int string string string "int option" int
| RqWithdraw int int

text \<open>Every create and reopen carries the one configured cap.\<close>

fun rq_op_ok :: "int \<Rightarrow> time \<times> rq_op \<Rightarrow> bool" where
  "rq_op_ok m (now, RqCreate req k) = (effective_cap k = m)"
| "rq_op_ok m (now, RqReopen i u a b v by k) = (effective_cap k = m)"
| "rq_op_ok m (now, op) = True"

fun apply_rq_op :: "duration \<Rightarrow> time \<times> rq_op \<Rightarrow> rq_db \<Rightarrow> rq_db" where
  "apply_rq_op ttl (now, RqCreate req k) c = snd (rq_create req k now c)"
| "apply_rq_op ttl (now, RqClaim i admin tok) c = snd (rq_claim ttl i admin tok now c)"
| "apply_rq_op ttl (now, RqClaimAuto i u since q tok) c = snd (claim_auto_approve ttl i u since q tok now c)"
| "apply_rq_op ttl (now, RqRenew i tok) c = snd (renew_claim i tok now c)"
| "apply_rq_op ttl (now, RqComplete i tok b a) c = snd (complete_claim i tok b a now c)"
| "apply_rq_op ttl (now, RqRelease i tok) c = snd (release_claim i tok now c)"
| "apply_rq_op ttl (now, RqDecline i admin why) c = snd (decline i admin why now c)"
| "apply_rq_op ttl (now, RqReopen i u media payload via by k) c =
     snd (reopen i u media payload via by k now c)"
| "apply_rq_op ttl (now, RqWithdraw i u) c = snd (delete_pending_for_owner i u c)"

lemma apply_rq_op_inv: "rq_inv m c \<Longrightarrow> rq_op_ok m a \<Longrightarrow> rq_inv m (apply_rq_op ttl a c)"
  by (cases "(ttl, a, c)" rule: apply_rq_op.cases) (simp_all add: op_inv)

interpretation rqh: invariant_system "apply_rq_op ttl" "rq_op_ok m" "rq_inv m" for ttl m
  by unfold_locales (rule apply_rq_op_inv)

definition empty_rq_db :: rq_db where
  "empty_rq_db = \<lparr>rows = [], last_id = 0, faults = []\<rparr>"

lemma rq_inv_empty: "0 \<le> m \<Longrightarrow> rq_inv m (empty_rq_db\<lparr>faults := fs\<rparr>)"
  by (simp add: empty_rq_db_def rq_inv_def keyed_def unique_by_def all_rows_def pending_count_def)

text \<open>C10: no order of concurrent creates, reopens, claims, releases and withdrawals, with
  statements failing anywhere, takes an owner past their cap of requests awaiting a decision,
  gives two requests the same owner, kind and foreign id, or leaves a row whose claim columns,
  decision columns and results disagree with its status.\<close>

theorem request_history_safe:
  assumes "0 \<le> m" and "list_all (rq_op_ok m) ops"
  shows "let c = fold (apply_rq_op ttl) ops (empty_rq_db\<lparr>faults := fs\<rparr>)
    in int (pending_count u (rows c)) \<le> m \<and> distinct (map rq_key (rows c))
      \<and> list_all rq_row_ok (rows c)"
  using rqh.run_inv [OF rq_inv_empty [OF assms(1)] assms(2), of ttl fs]
  by (simp add: Let_def rq_inv_def unique_by_def all_rows_def list_all_iff)

definition sample_request :: "int \<Rightarrow> string \<Rightarrow> library_request" where
  "sample_request owner fid = request_row \<lparr>
     rq_id = 0, rq_owner = owner, rq_kind = ''book'', rq_foreign_id = fid, rq_media_type = ''ebook'',
     rq_title = ''T'', rq_author_name = ''A'', rq_payload_json = ''{}'',
     rq_status = RequestStatusPending, rq_decline_reason = [], rq_decided_by = None,
     rq_result_book = None, rq_result_author = None, rq_created_at = 0, rq_updated_at = 0,
     rq_decided_at = None, rq_claimed_at = None, rq_claim_token = None, rq_created_via = [],
     rq_created_by = None\<rparr> 0 0"

theorem request_history_safe_witness:
  "\<exists>ops. length ops = 2
    \<and> list_all (rq_op_ok 1) ops
    \<and> int (pending_count 7 (rows (fold (apply_rq_op request_claim_ttl) ops (empty_rq_db\<lparr>faults := []\<rparr>)))) \<le> 1"
proof -
  let ?ops = "[(1 :: int, RqCreate (sample_request 7 ''x'') 1), (2, RqCreate (sample_request 7 ''y'') 1)]"
  have ok: "list_all (rq_op_ok 1) ?ops" by (simp add: effective_cap_def)
  then show ?thesis
    using request_history_safe [of 1 ?ops request_claim_ttl "[]" 7]
    by (intro exI [of _ ?ops]) (simp add: Let_def del: apply_rq_op.simps)
qed

subsection \<open>A claim is exclusive until it goes stale\<close>

text \<open>What \<open>Claim\<close> does on every branch of a table with no failing statement.\<close>

definition claim_ok :: "duration \<Rightarrow> int \<Rightarrow> int \<Rightarrow> string \<Rightarrow> time \<Rightarrow> rq_db
    \<Rightarrow> (rq_error + library_request) \<times> rq_db \<Rightarrow> bool" where
  "claim_ok ttl i admin token now c res =
     (case row_of rq_id (rows c) i of
        Some r \<Rightarrow>
          if claimable (unix_milli (now - ttl)) r
          then fst res = Inr (approving_set (now, token, admin) r)
            \<and> (\<forall>j. row_of rq_id (rows (snd res)) j =
                 (if j = i then Some (approving_set (now, token, admin) r) else row_of rq_id (rows c) j))
          else fst res = Inl RequestNotPending \<and> rows (snd res) = rows c
      | None \<Rightarrow> fst res = Inl RequestNotPending \<and> rows (snd res) = rows c)"

text \<open>\<open>Claim\<close> is a compare and swap. It takes the row exactly when it is pending or its claim
  was not renewed within the TTL, answers with the row as it now stands, carrying the new token,
  and otherwise reports that the request is not pending and changes nothing.\<close>

theorem claim_takes_pending_or_stale:
  assumes "keyed rq_id c" and "faults c = []"
  shows "claim_ok ttl i admin token now c (rq_claim ttl i admin (Some token) now c)"
proof -
  let ?g = "claimable (unix_milli (now - ttl))" and ?f = "approving_set (now, token, admin)"
  let ?st = "sql_update (\<lambda>r. rq_id r = i \<and> (?g r \<and> True)) ?f"
  have n: "snd (?st (rows c)) = (case row_of rq_id (rows c) i of None \<Rightarrow> 0 | Some r \<Rightarrow> if ?g r then 1 else 0)"
    using approving_cas.cas_affected [OF keyed_distinct [OF assms(1)], of i "\<lambda>r. ?g r \<and> True"]
    by (simp del: sql_update_simps split: option.split)
  have r: "row_of rq_id (fst (?st (rows c))) j = (case row_of rq_id (rows c) j of None \<Rightarrow> None
       | Some r \<Rightarrow> Some (if j = i \<and> (?g r \<and> True) then ?f r else r))" for j
    by (rule approving_cas.cas_row)
  have same: "fst (?st (rows c)) = rows c" if "snd (?st (rows c)) = 0"
    using that by (rule sql_update_none)
  have nf: "\<not> faulty c" "\<not> faulty ((next_fault c)\<lparr>rows := t\<rparr>)" for t
    using assms(2) by (simp_all add: faulty_def next_fault_def)
  have tok: "(?f r)\<lparr>rq_claim_token := Some token\<rparr> = ?f r" for r
    by (simp add: approving_set_def)
  show ?thesis
    using n r same nf tok
    by (auto simp: claim_ok_def rq_claim_def claim_pending_def db_exec_def rq_get_by_id_def
        db_query_def simp del: sql_update_simps split: option.split)
qed

theorem claim_takes_pending_or_stale_witness:
  "claim_ok request_claim_ttl 1 9 ''tok'' (10 ^ 20) (empty_rq_db\<lparr>rows := [(sample_request 7 ''x'')\<lparr>rq_id := 1\<rparr>],
      last_id := 1\<rparr>)
    (rq_claim request_claim_ttl 1 9 (Some ''tok'') (10 ^ 20)
      (empty_rq_db\<lparr>rows := [(sample_request 7 ''x'')\<lparr>rq_id := 1\<rparr>], last_id := 1\<rparr>))"
  by (rule claim_takes_pending_or_stale) (simp_all add: keyed_def empty_rq_db_def)

text \<open>An operation of someone else: it does not present the token, and when it tries to claim,
  the claim stamped \<open>at\<close> is not yet stale for it.\<close>

fun others_op :: "duration \<Rightarrow> string \<Rightarrow> int \<Rightarrow> time \<times> rq_op \<Rightarrow> bool" where
  "others_op ttl token at (now, RqClaim i admin tok) = (unix_milli (now - ttl) \<le> at)"
| "others_op ttl token at (now, RqClaimAuto i u since q tok) = (unix_milli (now - ttl) \<le> at)"
| "others_op ttl token at (now, RqRenew i tok) = (tok \<noteq> token)"
| "others_op ttl token at (now, RqComplete i tok b a) = (tok \<noteq> token)"
| "others_op ttl token at (now, RqRelease i tok) = (tok \<noteq> token)"
| "others_op ttl token at (now, op) = True"

definition claim_held :: "int \<Rightarrow> string \<Rightarrow> int \<Rightarrow> library_request \<Rightarrow> rq_db \<Rightarrow> bool" where
  "claim_held i token at r c \<longleftrightarrow> row_of rq_id (rows c) i = Some r \<and> holds_claim token r
     \<and> rq_claimed_at r = Some at \<and> i \<le> last_id c"

lemma row_of_append: "row_of k (xs @ ys) i = (case row_of k xs i of None \<Rightarrow> row_of k ys i | Some r \<Rightarrow> Some r)"
  by (induction xs) (auto simp: row_of_def)

lemma row_of_map_keep:
  "(\<And>r. k (f r) = k r) \<Longrightarrow> row_of k t i = Some r \<Longrightarrow> \<not> p r
   \<Longrightarrow> row_of k (map (\<lambda>r. if p r then f r else r) t) i = Some r"
  by (induction t) (auto simp: row_of_def split: if_splits)

lemma row_of_filter_keep: "row_of k t i = Some r \<Longrightarrow> p r \<Longrightarrow> row_of k (filter p t) i = Some r"
  by (induction t) (auto simp: row_of_def split: if_splits)

lemma held_exec_update:
  "claim_held i token at r c \<Longrightarrow> (\<And>r. rq_id (f r) = rq_id r) \<Longrightarrow> \<not> p r
   \<Longrightarrow> claim_held i token at r (snd (db_exec (sql_update p f) c))"
  by (auto simp: claim_held_def db_exec_def row_of_map_keep)

lemma held_query: "claim_held i token at r c \<Longrightarrow> claim_held i token at r (snd (db_query q c))"
  by (simp add: claim_held_def db_query_def)

lemma held_claim_pending:
  assumes "claim_held i token at r c" and "unix_milli (now - ttl) \<le> at"
  shows "claim_held i token at r (snd (claim_pending ttl k admin extra tok now c))"
proof -
  have "\<not> claimable (unix_milli (now - ttl)) r"
    using assms by (auto simp: claim_held_def claimable_def holds_claim_def)
  with assms(1) show ?thesis
    unfolding snd_claim_pending Let_def rq_get_by_id_def
    by (auto intro!: held_exec_update held_query simp: approving_cas.key_setf split: option.split)
qed

lemma held_claim_auto:
  assumes "claim_held i token at r c" and "unix_milli (now - ttl) \<le> at"
  shows "claim_held i token at r (snd (claim_auto_approve ttl k owner since quota tok now c))"
proof -
  let ?x = "\<lambda>t r. rq_owner r = owner \<and> int (auto_approved_count owner since t) < quota"
  have "claim_held i token at r (snd (claim_pending ttl k 0 ?x tok now c))"
    using assms by (rule held_claim_pending)
  then show ?thesis
    by (cases "claim_pending ttl k 0 ?x tok now c")
       (auto simp: claim_auto_approve_def count_auto_approved_since_def db_query_def claim_held_def
          split: sum.splits rq_error.splits prod.splits)
qed

lemma held_reopen:
  assumes "claim_held i token at r c"
  shows "claim_held i token at r (snd (reopen k owner media payload via by m now c))"
proof -
  let ?p = "\<lambda>t r. rq_id r = k \<and> (rq_owner r = owner
       \<and> rq_status r = RequestStatusApproved \<and> pending_below_cap owner (effective_cap m) t)"
  let ?e = "db_exec (sql_update (?p (rows c)) (reopen_set (media, payload, via, by, now))) c"
  have "claim_held i token at r (snd ?e)"
    using assms
    by (intro held_exec_update) (auto simp: claim_held_def holds_claim_def reopen_cas.key_setf)
  moreover obtain res c1 where e: "?e = (res, c1)" by fastforce
  ultimately have "claim_held i token at r c1" by simp
  then show ?thesis
    unfolding reopen_def
    by (subst db_exec_table, unfold e, cases res)
       (simp_all add: db_query_def claim_held_def split: option.split)
qed

lemma held_step:
  assumes "claim_held i token at r c" and "others_op ttl token at a"
  shows "claim_held i token at r (apply_rq_op ttl a c)"
  using assms
proof (cases "(ttl, a, c)" rule: apply_rq_op.cases)
  case (1 ttl' now req k c')
  with assms show ?thesis
    by (auto simp: snd_rq_create snd_db_insert_where db_insert_def claim_held_def row_of_append
        split: option.split)
next
  case (9 ttl' now k u c')
  with assms show ?thesis
    by (auto simp: delete_pending_for_owner_def db_exec_def claim_held_def holds_claim_def
        intro!: row_of_filter_keep)
qed (auto simp: rq_claim_def renew_claim_def complete_claim_def release_claim_def decline_def
      claim_held_def [of _ _ _ _ c] holds_claim_def
      intro!: held_exec_update held_claim_pending held_claim_auto held_reopen
      simp: complete_cas.key_setf release_cas.key_setf renew_cas.key_setf decline_cas.key_setf)

text \<open>C4: a claim excludes every other approval. While the others' clocks are within the TTL of
  its last stamp, nothing they do (claim, decline, withdraw, reopen, complete or release with
  their own tokens, in any number and order, with statements failing) changes the claimed row,
  and its holder's \<open>Complete\<close> then succeeds and approves it.\<close>

theorem claim_excludes_others:
  assumes "keyed rq_id c" and "row_of rq_id (rows c) i = Some r"
    and "holds_claim token r" and "rq_claimed_at r = Some at"
    and "list_all (others_op ttl token at) ops" and "c' = fold (apply_rq_op ttl) ops c"
  shows "row_of rq_id (rows c') i = Some r
    \<and> (keyed rq_id c' \<and> \<not> faulty c' \<longrightarrow> fst (complete_claim i token book author now c') = Inr ()
        \<and> row_of rq_id (rows (snd (complete_claim i token book author now c'))) i
          = Some (complete_set (book, author, now) r))"
proof -
  have "i \<le> last_id c" using assms(1,2) by (auto simp: keyed_def dest!: row_of_Some)
  with assms(2-4) have "claim_held i token at r c" by (simp add: claim_held_def)
  with assms(5) have held: "claim_held i token at r c'"
    unfolding assms(6) by (induction ops arbitrary: c) (simp_all add: held_step)
  then have row: "row_of rq_id (rows c') i = Some r" by (simp add: claim_held_def)
  moreover have "fst (complete_claim i token book author now c') = Inr ()
      \<and> row_of rq_id (rows (snd (complete_claim i token book author now c'))) i
        = Some (complete_set (book, author, now) r)" if k: "keyed rq_id c'" "\<not> faulty c'"
    using k(2) row assms(3)
      complete_cas.cas_affected [OF keyed_distinct [OF k(1)], of i "holds_claim token"]
      complete_cas.cas_row [of i "holds_claim token" "(book, author, now)" "rows c'" i]
    by (simp add: complete_claim_def one_row_def db_exec_def del: sql_update_simps)
  ultimately show ?thesis by blast
qed

theorem claim_excludes_others_witness:
  "\<exists>c r ops c'. row_of rq_id (rows c) 1 = Some r \<and> length ops = 3
    \<and> c' = fold (apply_rq_op request_claim_ttl) ops c
    \<and> fst (complete_claim 1 ''tok'' (Some 4) None (10 ^ 20) c') = Inr ()"
proof -
  let ?r = "approving_set (10 ^ 20, ''tok'', 9) ((sample_request 7 ''x'')\<lparr>rq_id := 1\<rparr>)"
  let ?c = "empty_rq_db\<lparr>rows := [?r], last_id := 1\<rparr>"
  let ?ops = "[(10 ^ 20 + minute, RqClaim 1 8 (Some ''other'')), (10 ^ 20, RqDecline 1 8 ''no''),
     (10 ^ 20, RqRelease 1 ''other'')]"
  let ?at = "unix_milli (10 ^ 20)" and ?c' = "fold (apply_rq_op request_claim_ttl) ?ops ?c"
  have inv: "rq_inv 5 ?c"
    by (simp add: rq_inv_def keyed_def unique_by_def all_rows_def empty_rq_db_def rq_row_ok_def
        pending_count_def approving_set_def sample_request_def request_row_def awaiting_def)
  have "list_all (others_op request_claim_ttl ''tok'' ?at) ?ops"
    by (simp add: unix_milli_def request_claim_ttl_def time_units)
  moreover have "row_of rq_id (rows ?c) 1 = Some ?r" "holds_claim ''tok'' ?r" "rq_claimed_at ?r = Some ?at"
    by (simp_all add: row_of_def approving_set_def holds_claim_def)
  moreover have "keyed rq_id ?c" using inv by (rule rq_inv_keyed)
  ultimately have "keyed rq_id ?c' \<and> \<not> faulty ?c' \<longrightarrow> fst (complete_claim 1 ''tok'' (Some 4) None (10 ^ 20) ?c') = Inr ()"
    using claim_excludes_others [of ?c 1 ?r "''tok''" ?at request_claim_ttl ?ops ?c' "Some 4" None "10 ^ 20"]
    by blast
  moreover have "rq_inv 5 ?c'" by (rule rqh.run_inv [OF inv]) simp
  moreover have "\<not> faulty ?c'"
    by (simp add: rq_claim_def claim_pending_def db_exec_def empty_rq_db_def decline_def release_claim_def
        faulty_def next_fault_def rq_get_by_id_def db_query_def row_of_def approving_set_def
        claimable_def holds_claim_def unix_milli_def request_claim_ttl_def time_units)
  ultimately have "fst (complete_claim 1 ''tok'' (Some 4) None (10 ^ 20) ?c') = Inr ()"
    using rq_inv_keyed by blast
  moreover have "row_of rq_id (rows ?c) 1 = Some ?r" by (simp add: row_of_def approving_set_def)
  ultimately show ?thesis
    by (intro exI [of _ ?c] exI [of _ ?r] exI [of _ ?ops] exI [of _ ?c']) (simp del: fold_simps)
qed

subsection \<open>The automatic approval quota\<close>

lemma claim_pending_success:
  assumes "fst (claim_pending ttl i admin extra token now c) = Inr r'"
  shows "\<exists>r \<in> set (rows c). rq_id r = i \<and> extra (rows c) r"
proof (cases token)
  case None
  with assms show ?thesis by (simp add: claim_pending_def)
next
  case (Some tok)
  let ?p = "\<lambda>r. rq_id r = i \<and> (claimable (unix_milli (now - ttl)) r \<and> extra (rows c) r)"
  have "filter ?p (rows c) \<noteq> []"
    using assms by (auto simp: Some claim_pending_def db_exec_def split: if_splits)
  then show ?thesis by (auto simp: filter_empty_conv)
qed

text \<open>An automatic approval is only ever claimed while fewer than \<open>quota\<close> of the owner's
  requests have been approved automatically since the bound, and only for the owner's own
  request.\<close>

theorem auto_claim_within_quota:
  assumes "fst (claim_auto_approve ttl i owner since quota token now c) = Inr r'"
  shows "int (auto_approved_count owner since (rows c)) < quota
    \<and> (\<exists>r \<in> set (rows c). rq_id r = i \<and> rq_owner r = owner)"
proof -
  let ?x = "\<lambda>t r. rq_owner r = owner \<and> int (auto_approved_count owner since t) < quota"
  have "fst (claim_pending ttl i 0 ?x token now c) = Inr r'"
    using assms by (cases "claim_pending ttl i 0 ?x token now c")
      (auto simp: claim_auto_approve_def split: sum.splits rq_error.splits prod.splits)
  from claim_pending_success [OF this] show ?thesis by blast
qed

definition two_pending :: rq_db where
  "two_pending = \<lparr>rows = [(sample_request 7 ''x'')\<lparr>rq_id := 1\<rparr>, (sample_request 7 ''y'')\<lparr>rq_id := 2\<rparr>],
     last_id = 2, faults = []\<rparr>"

theorem auto_claim_within_quota_witness:
  "\<exists>r'. fst (claim_auto_approve request_claim_ttl 1 7 0 1 (Some ''a'') 100 two_pending) = Inr r'
    \<and> int (auto_approved_count 7 0 (rows two_pending)) < 1"
proof -
  have "\<exists>r'. fst (claim_auto_approve request_claim_ttl 1 7 0 1 (Some ''a'') 100 two_pending) = Inr r'"
    by (simp add: two_pending_def claim_auto_approve_def claim_pending_def db_exec_def faulty_def
        next_fault_def rq_get_by_id_def db_query_def row_of_def sample_request_def request_row_def
        claimable_def approving_set_def auto_approved_count_def auto_approved_def)
  then obtain r' where
    r': "fst (claim_auto_approve request_claim_ttl 1 7 0 1 (Some ''a'') 100 two_pending) = Inr r'" by blast
  then show ?thesis using auto_claim_within_quota [OF r'] by blast
qed

text \<open>But the quota is not a bound on how many requests approve themselves. It counts the
  finished approvals only, not the ones still running, so a burst of creates whose claims all
  precede the first completion passes it: with a quota of one, two requests of one owner are
  both claimed and both approved automatically.\<close>

theorem auto_approve_quota_overrun:
  "let c1 = snd (claim_auto_approve request_claim_ttl 1 7 0 1 (Some ''a'') 100 two_pending);
       res2 = claim_auto_approve request_claim_ttl 2 7 0 1 (Some ''b'') 101 c1;
       c3 = snd (complete_claim 1 ''a'' (Some 4) None 102 (snd res2));
       c4 = snd (complete_claim 2 ''b'' (Some 5) None 103 c3)
   in \<not> isl (fst res2) \<and> auto_approved_count 7 0 (rows c4) = 2"
  by code_simp

end
