(* ===== verification/Quality.thy ===== *)
theory Quality
  imports Go_Prelude
begin

text \<open>
  Quality profiles: the format tokens and their media types (\<open>internal/indexer/release.go\<close>,
  \<open>searcher.go\<close>), the two ordered lists a profile holds and the ranks compiled from them, and the
  decision whether a release may replace an owned ebook (\<open>internal/indexer/quality_order.go\<close>,
  \<open>internal/models/settings.go\<close>).
\<close>

subsection \<open>Format tokens\<close>

definition media_ebook :: string where
  "media_ebook = ''ebook''"

definition media_audiobook :: string where
  "media_audiobook = ''audiobook''"

definition format_tokens :: "string list" where
  "format_tokens = [''epub'', ''azw3'', ''azw'', ''mobi'', ''pdf'', ''djvu'', ''cbr'', ''cbz'', ''fb2'', ''lit'',
     ''rtf'', ''txt'', ''m4b'', ''m4a'', ''flac'', ''mp3'', ''ogg'']"

definition is_audiobook_format :: "string \<Rightarrow> bool" where
  "is_audiobook_format f = (f \<in> {''m4b'', ''m4a'', ''mp3'', ''flac'', ''ogg''})"

text \<open>\<open>strings.ToLower(strings.TrimSpace(s))\<close>, as every use of a token normalises it.\<close>

definition norm_token :: "unicode \<Rightarrow> string \<Rightarrow> string" where
  "norm_token uc s = to_lower uc (trim_space s)"

definition media_type_for_format :: "unicode \<Rightarrow> string \<Rightarrow> string" where
  "media_type_for_format uc token =
     (let t = norm_token uc token in
      if t \<notin> set format_tokens then []
      else if is_audiobook_format t then media_audiobook else media_ebook)"

lemma media_types [simp]:
  "media_ebook \<noteq> []" "media_audiobook \<noteq> []" "media_ebook \<noteq> media_audiobook"
  "[] \<noteq> media_ebook" "[] \<noteq> media_audiobook" "media_audiobook \<noteq> media_ebook"
  by (simp_all add: media_ebook_def media_audiobook_def)

lemma format_tokens_plain:
  "list_all (\<lambda>t. trim_space t = t \<and> is_ascii t \<and> map lower_byte t = t) format_tokens"
  by code_simp

lemma format_token_norm:
  "t \<in> set format_tokens \<Longrightarrow> norm_token uc t = t \<and> is_ascii t \<and> to_lower uc t = t"
  using format_tokens_plain by (auto simp: list_all_iff norm_token_def to_lower_def)

lemma media_type_cases:
  "media_type_for_format uc t \<in> {[], media_ebook, media_audiobook}"
  by (simp add: media_type_for_format_def Let_def)

lemma media_type_known:
  "media_type_for_format uc t \<noteq> [] \<longleftrightarrow> norm_token uc t \<in> set format_tokens"
  by (simp add: media_type_for_format_def Let_def)

lemma media_type_norm: "media_type_for_format uc t \<noteq> []
  \<Longrightarrow> norm_token uc (norm_token uc t) = norm_token uc t
    \<and> media_type_for_format uc (norm_token uc t) = media_type_for_format uc t"
  using format_token_norm [of "norm_token uc t" uc]
  by (simp add: media_type_for_format_def Let_def split: if_splits)

subsection \<open>Profiles and their lists\<close>

record quality_item =
  qi_quality :: string
  qi_allowed :: bool

record quality_profile =
  qp_name :: string
  qp_upgrade_allowed :: bool
  qp_cutoff :: string
  qp_items :: "quality_item list"
  qp_edition_preference :: string

definition profile_list :: "unicode \<Rightarrow> quality_profile option \<Rightarrow> string \<Rightarrow> quality_item list" where
  "profile_list uc p mt =
     (case p of None \<Rightarrow> []
      | Some p \<Rightarrow>
          if mt = [] then []
          else filter (\<lambda>it. media_type_for_format uc (qi_quality it) = mt) (qp_items p))"

text \<open>
  \<open>profileRanks\<close>: per media type the rank of each ticked token. The loop index counts up from 0
  and the rank is the length less the index, which is the length of the suffix still to go.
\<close>

fun add_ranks :: "unicode \<Rightarrow> quality_item list \<Rightarrow> (string \<Rightarrow> nat option) \<Rightarrow> string \<Rightarrow> nat option" where
  "add_ranks uc [] m = m"
| "add_ranks uc (it # its) m =
     (if \<not> qi_allowed it then add_ranks uc its m
      else
        (let q = norm_token uc (qi_quality it) in
         if m q = None then add_ranks uc its (m(q \<mapsto> length (it # its))) else add_ranks uc its m))"

type_synonym profile_ranks = "(string \<Rightarrow> (string \<Rightarrow> nat option) option) option"

definition new_profile_ranks :: "unicode \<Rightarrow> quality_profile option \<Rightarrow> profile_ranks" where
  "new_profile_ranks uc p =
     (if p = None then None
      else Some (\<lambda>mt.
        if mt = media_ebook \<or> mt = media_audiobook then
          (let list = profile_list uc p mt in
           if list = [] then None else Some (add_ranks uc list (\<lambda>_. None)))
        else None))"

definition has_opinion :: "profile_ranks \<Rightarrow> string \<Rightarrow> bool" where
  "has_opinion pr mt = (case pr of None \<Rightarrow> False | Some ranks \<Rightarrow> ranks mt \<noteq> None)"

definition rank_in :: "(string \<Rightarrow> (string \<Rightarrow> nat option) option) \<Rightarrow> string \<Rightarrow> string \<Rightarrow> nat" where
  "rank_in ranks mt f =
     (case ranks mt of None \<Rightarrow> 0 | Some m \<Rightarrow> (case m f of None \<Rightarrow> 0 | Some r \<Rightarrow> r))"

definition format_score :: "unicode \<Rightarrow> profile_ranks \<Rightarrow> string list \<Rightarrow> string \<Rightarrow> nat" where
  "format_score uc pr formats mt =
     (case pr of None \<Rightarrow> 0
      | Some ranks \<Rightarrow>
          if mt = [] then 0
          else fold (\<lambda>f best.
            let format = norm_token uc f in
            if media_type_for_format uc format \<noteq> mt then best
            else if rank_in ranks mt format > best then rank_in ranks mt format else best) formats 0)"

subsection \<open>Upgrades\<close>

text \<open>The loop over the owned files: \<open>None\<close> is its \<open>return false\<close>.\<close>

fun existing_best :: "unicode \<Rightarrow> profile_ranks \<Rightarrow> string list \<Rightarrow> nat \<Rightarrow> nat option" where
  "existing_best uc ranks [] best = Some best"
| "existing_best uc ranks (path # paths) best =
     (let format = norm_token uc (trim_prefix (file_ext path) ''.'');
          rank = format_score uc ranks [format] media_ebook in
      if media_type_for_format uc format \<noteq> media_ebook then None
      else if rank = 0 then None
      else existing_best uc ranks paths (if rank > best then rank else best))"

definition ebook_upgrade_eligible :: "unicode \<Rightarrow> quality_profile option \<Rightarrow> string list \<Rightarrow> string list \<Rightarrow> bool" where
  "ebook_upgrade_eligible uc profile existing_paths candidate_formats =
     (case profile of None \<Rightarrow> False
      | Some p \<Rightarrow>
          if \<not> qp_upgrade_allowed p \<or> existing_paths = [] then False
          else
            let ranks = new_profile_ranks uc profile in
            if \<not> has_opinion ranks media_ebook then False
            else
              let cutoff = norm_token uc (qp_cutoff p) in
              if media_type_for_format uc cutoff \<noteq> media_ebook then False
              else
                let cutoff_rank = format_score uc ranks [cutoff] media_ebook in
                if cutoff_rank = 0 then False
                else
                  (case existing_best uc ranks existing_paths 0 of None \<Rightarrow> False
                   | Some best \<Rightarrow>
                       if best \<ge> cutoff_rank then False
                       else
                         let known = filter (\<lambda>f. media_type_for_format uc f = media_ebook)
                                       (map (norm_token uc) candidate_formats);
                             candidate_best = format_score uc ranks known media_ebook
                         in candidate_best \<ge> cutoff_rank \<and> candidate_best > best))"

subsection \<open>Ranks follow the stored order\<close>

text \<open>The rank of a token in a list: what is left of the list from its first ticked entry on.\<close>

fun list_rank :: "unicode \<Rightarrow> quality_item list \<Rightarrow> string \<Rightarrow> nat" where
  "list_rank uc [] k = 0"
| "list_rank uc (it # its) k =
     (if qi_allowed it \<and> norm_token uc (qi_quality it) = k then length (it # its) else list_rank uc its k)"

lemma add_ranks_lookup:
  "add_ranks uc its m k = (case m k of Some r \<Rightarrow> Some r
     | None \<Rightarrow> if list_rank uc its k = 0 then None else Some (list_rank uc its k))"
  by (induction its arbitrary: m) (auto simp: Let_def split: option.splits)

lemma list_rank_le: "list_rank uc its k \<le> length its"
  by (induction its) auto

lemma list_rank_pos_iff:
  "0 < list_rank uc its k \<longleftrightarrow> (\<exists>it \<in> set its. qi_allowed it \<and> norm_token uc (qi_quality it) = k)"
  by (induction its) auto

lemma rank_in_new:
  "mt \<in> {media_ebook, media_audiobook} \<Longrightarrow> new_profile_ranks uc p = Some ranks
   \<Longrightarrow> rank_in ranks mt k = list_rank uc (profile_list uc p mt) k"
  by (auto simp: new_profile_ranks_def rank_in_def Let_def add_ranks_lookup split: if_splits)

lemma has_opinion_iff:
  "mt \<in> {media_ebook, media_audiobook}
   \<Longrightarrow> has_opinion (new_profile_ranks uc p) mt \<longleftrightarrow> profile_list uc p mt \<noteq> []"
  by (cases p) (auto simp: has_opinion_def new_profile_ranks_def Let_def profile_list_def)

definition token_rank :: "unicode \<Rightarrow> quality_profile option \<Rightarrow> string \<Rightarrow> string \<Rightarrow> nat" where
  "token_rank uc p mt f =
     (if media_type_for_format uc (norm_token uc f) = mt
      then list_rank uc (profile_list uc p mt) (norm_token uc f) else 0)"

lemma fold_max_if:
  "fold (\<lambda>f best. if \<not> P f then best else if g f > best then g f else best) fs (b :: nat)
   = fold max (map (\<lambda>f. if P f then g f else 0) fs) b"
  by (induction fs arbitrary: b) (auto simp: max_def)

lemma fold_max_less_iff: "n < fold max xs (b :: nat) \<longleftrightarrow> n < b \<or> (\<exists>x \<in> set xs. n < x)"
  by (induction xs arbitrary: b) auto

lemma format_score_max:
  assumes "mt \<in> {media_ebook, media_audiobook}"
  shows "format_score uc (new_profile_ranks uc p) fs mt = fold max (map (token_rank uc p mt) fs) 0"
proof (cases "new_profile_ranks uc p")
  case None
  then have "p = None" by (simp add: new_profile_ranks_def split: if_splits)
  then have z: "token_rank uc p mt = (\<lambda>f. 0)" by (auto simp: token_rank_def profile_list_def)
  have "fold max (map (\<lambda>f. 0) fs) (0 :: nat) = 0" by (induction fs) simp_all
  with None z show ?thesis by (simp add: format_score_def)
next
  case (Some ranks)
  have "mt \<noteq> []" using assms by auto
  with Some show ?thesis
    unfolding format_score_def Let_def token_rank_def rank_in_new [OF assms Some, symmetric]
    by (simp add: fold_max_if)
qed

lemma format_score_less_iff:
  "mt \<in> {media_ebook, media_audiobook}
   \<Longrightarrow> n < format_score uc (new_profile_ranks uc p) fs mt \<longleftrightarrow> (\<exists>f \<in> set fs. n < token_rank uc p mt f)"
  by (simp add: format_score_max fold_max_less_iff)

lemma format_score_single:
  "mt \<in> {media_ebook, media_audiobook}
   \<Longrightarrow> format_score uc (new_profile_ranks uc p) [f] mt = token_rank uc p mt f"
  by (simp add: format_score_max)

text \<open>A profile's stored order is its ranking. Of two tokens ticked in one list of a profile,
  the one whose first ticked entry comes first outranks the other, and a token that is not
  ticked in the list ranks below every ticked one, with score 0.\<close>

theorem format_score_order:
  assumes "profile_list uc p mt = pre @ it # post" and "mt \<in> {media_ebook, media_audiobook}"
    and "qi_allowed it" and "norm_token uc (qi_quality it) = f" and "f \<in> set format_tokens"
    and "\<forall>x \<in> set pre. \<not> (qi_allowed x \<and> norm_token uc (qi_quality x) \<in> {f, g})"
    and "g \<in> set format_tokens" and "g \<noteq> f"
  shows "format_score uc (new_profile_ranks uc p) [g] mt < format_score uc (new_profile_ranks uc p) [f] mt
    \<and> (format_score uc (new_profile_ranks uc p) [g] mt = 0
       \<longleftrightarrow> \<not> (\<exists>x \<in> set (profile_list uc p mt). qi_allowed x \<and> norm_token uc (qi_quality x) = g))"
proof -
  have skip: "list_rank uc (pre @ xs) k = list_rank uc xs k" if "k \<in> {f, g}" for xs k
    using assms(6) that by (induction pre) auto
  have nf: "norm_token uc f = f" and ng: "norm_token uc g = g"
    using format_token_norm assms(5,7) by auto
  have mem: "it \<in> set (profile_list uc p mt)" using assms(1) by simp
  then have "media_type_for_format uc (qi_quality it) = mt"
    by (auto simp: profile_list_def split: option.splits if_splits)
  then have mf: "media_type_for_format uc f = mt"
    using assms(4,5) nf by (simp add: media_type_for_format_def Let_def)
  have rf: "token_rank uc p mt f = Suc (length post)"
    using assms(1,3,4) skip [of f "it # post"] nf mf by (simp add: token_rank_def)
  have lg: "list_rank uc (profile_list uc p mt) g \<le> length post"
    using assms(1,4,8) skip [of g "it # post"] list_rank_le [of uc post g] by simp
  have rg: "token_rank uc p mt g = 0 \<longleftrightarrow> \<not> 0 < list_rank uc (profile_list uc p mt) g"
  proof (cases "0 < list_rank uc (profile_list uc p mt) g")
    case True
    then obtain x where x: "x \<in> set (profile_list uc p mt)" "norm_token uc (qi_quality x) = g"
      by (auto simp: list_rank_pos_iff)
    then have "media_type_for_format uc (qi_quality x) = mt"
      by (auto simp: profile_list_def split: option.splits if_splits)
    then have "media_type_for_format uc g = mt"
      using x(2) ng assms(7) by (simp add: media_type_for_format_def Let_def)
    with True ng show ?thesis by (simp add: token_rank_def)
  qed (simp add: token_rank_def ng)
  have "token_rank uc p mt g \<le> list_rank uc (profile_list uc p mt) g"
    by (simp add: token_rank_def ng)
  with lg rf rg show ?thesis
    unfolding format_score_single [OF assms(2)] list_rank_pos_iff by auto
qed

definition sample_profile :: quality_profile where
  "sample_profile = \<lparr>qp_name = ''Std'', qp_upgrade_allowed = True, qp_cutoff = ''epub'',
     qp_items = [\<lparr>qi_quality = ''epub'', qi_allowed = True\<rparr>, \<lparr>qi_quality = ''m4b'', qi_allowed = True\<rparr>,
       \<lparr>qi_quality = ''pdf'', qi_allowed = True\<rparr>, \<lparr>qi_quality = ''mobi'', qi_allowed = False\<rparr>],
     qp_edition_preference = []\<rparr>"

theorem format_score_order_witness:
  "format_score ascii_uc (new_profile_ranks ascii_uc (Some sample_profile)) [''pdf''] media_ebook
   < format_score ascii_uc (new_profile_ranks ascii_uc (Some sample_profile)) [''epub''] media_ebook"
proof -
  have "profile_list ascii_uc (Some sample_profile) media_ebook
      = [] @ \<lparr>qi_quality = ''epub'', qi_allowed = True\<rparr>
          # [\<lparr>qi_quality = ''pdf'', qi_allowed = True\<rparr>, \<lparr>qi_quality = ''mobi'', qi_allowed = False\<rparr>]"
    by code_simp
  moreover have "norm_token ascii_uc ''epub'' = ''epub''" by code_simp
  ultimately show ?thesis
    using format_score_order [of ascii_uc "Some sample_profile" media_ebook "[]"
        "\<lparr>qi_quality = ''epub'', qi_allowed = True\<rparr>" _ "''epub''" "''pdf''"]
    by (simp add: format_tokens_def)
qed

subsection \<open>Properties of the upgrade decision\<close>

definition path_format :: "unicode \<Rightarrow> string \<Rightarrow> string" where
  "path_format uc path = norm_token uc (trim_prefix (file_ext path) ''.'')"

lemma existing_best_Some:
  "existing_best uc (new_profile_ranks uc p) paths b = Some best \<Longrightarrow>
     b \<le> best \<and> (\<forall>path \<in> set paths. media_type_for_format uc (path_format uc path) = media_ebook
       \<and> 0 < token_rank uc p media_ebook (path_format uc path)
       \<and> token_rank uc p media_ebook (path_format uc path) \<le> best)"
proof (induction paths arbitrary: b)
  case (Cons path paths)
  let ?r = "token_rank uc p media_ebook (path_format uc path)"
  have ok: "media_type_for_format uc (path_format uc path) = media_ebook" "0 < ?r"
    and rest: "existing_best uc (new_profile_ranks uc p) paths (if ?r > b then ?r else b) = Some best"
    using Cons.prems by (auto simp: Let_def path_format_def format_score_single split: if_splits)
  from Cons.IH [OF rest] ok show ?case by (auto split: if_splits)
qed simp

lemma eligible_iff:
  "ebook_upgrade_eligible uc (Some p) paths cands \<longleftrightarrow>
     qp_upgrade_allowed p \<and> paths \<noteq> []
     \<and> media_type_for_format uc (norm_token uc (qp_cutoff p)) = media_ebook
     \<and> 0 < token_rank uc (Some p) media_ebook (norm_token uc (qp_cutoff p))
     \<and> (\<exists>best. existing_best uc (new_profile_ranks uc (Some p)) paths 0 = Some best
         \<and> best < token_rank uc (Some p) media_ebook (norm_token uc (qp_cutoff p))
         \<and> token_rank uc (Some p) media_ebook (norm_token uc (qp_cutoff p))
           \<le> format_score uc (new_profile_ranks uc (Some p))
               (filter (\<lambda>f. media_type_for_format uc f = media_ebook) (map (norm_token uc) cands)) media_ebook)"
proof -
  have "0 < token_rank uc (Some p) media_ebook f \<Longrightarrow> profile_list uc (Some p) media_ebook \<noteq> []" for f
    by (auto simp: token_rank_def split: if_splits)
  then show ?thesis
    unfolding ebook_upgrade_eligible_def Let_def
    by (auto simp: has_opinion_iff format_score_single split: option.splits)
qed

text \<open>C38: a grab made as an upgrade really is one. The profile allows upgrades; every owned file is
  of a ticked ebook format; and the release carries an ebook format that ranks at or above the
  cutoff and strictly above every owned file.\<close>

theorem upgrade_is_real:
  assumes "ebook_upgrade_eligible uc (Some p) paths cands"
  shows "qp_upgrade_allowed p \<and> paths \<noteq> []
    \<and> (\<exists>f \<in> norm_token uc ` set cands. media_type_for_format uc f = media_ebook
        \<and> token_rank uc (Some p) media_ebook (norm_token uc (qp_cutoff p)) \<le> token_rank uc (Some p) media_ebook f
        \<and> (\<forall>path \<in> set paths. media_type_for_format uc (path_format uc path) = media_ebook
            \<and> 0 < token_rank uc (Some p) media_ebook (path_format uc path)
            \<and> token_rank uc (Some p) media_ebook (path_format uc path) < token_rank uc (Some p) media_ebook f))"
proof -
  let ?cut = "token_rank uc (Some p) media_ebook (norm_token uc (qp_cutoff p))"
  let ?known = "filter (\<lambda>f. media_type_for_format uc f = media_ebook) (map (norm_token uc) cands)"
  obtain best where best: "existing_best uc (new_profile_ranks uc (Some p)) paths 0 = Some best"
      "best < ?cut" "?cut \<le> format_score uc (new_profile_ranks uc (Some p)) ?known media_ebook"
    and ok: "qp_upgrade_allowed p" "paths \<noteq> []"
    using assms unfolding eligible_iff by blast
  have "?cut - 1 < format_score uc (new_profile_ranks uc (Some p)) ?known media_ebook"
    using best(2,3) by linarith
  then obtain f where f: "f \<in> set ?known" "?cut - 1 < token_rank uc (Some p) media_ebook f"
    by (auto simp: format_score_less_iff)
  then have "?cut \<le> token_rank uc (Some p) media_ebook f" by linarith
  moreover have "token_rank uc (Some p) media_ebook (path_format uc path) < token_rank uc (Some p) media_ebook f"
    if "path \<in> set paths" for path
    using existing_best_Some [OF best(1)] that best(2) f(2) by fastforce
  ultimately show ?thesis
    using ok f(1) existing_best_Some [OF best(1)] by (intro conjI bexI [of _ f]) auto
qed

text \<open>Upgrades end. Once an owned file's format ranks at or above the cutoff (as the file an
  upgrade brings in does), or any owned file is of a kind the profile cannot compare, no release
  is an upgrade any more; so a book is never upgraded back and forth.\<close>

theorem no_upgrade_at_cutoff:
  assumes "path \<in> set paths"
    and "token_rank uc (Some p) media_ebook (norm_token uc (qp_cutoff p))
          \<le> token_rank uc (Some p) media_ebook (path_format uc path)
      \<or> token_rank uc (Some p) media_ebook (path_format uc path) = 0
      \<or> media_type_for_format uc (path_format uc path) \<noteq> media_ebook"
  shows "\<not> ebook_upgrade_eligible uc (Some p) paths cands"
proof
  assume el: "ebook_upgrade_eligible uc (Some p) paths cands"
  obtain best where best: "existing_best uc (new_profile_ranks uc (Some p)) paths 0 = Some best"
      "best < token_rank uc (Some p) media_ebook (norm_token uc (qp_cutoff p))"
    using el unfolding eligible_iff by blast
  from existing_best_Some [OF best(1)] assms(1)
  have "media_type_for_format uc (path_format uc path) = media_ebook"
    "0 < token_rank uc (Some p) media_ebook (path_format uc path)"
    "token_rank uc (Some p) media_ebook (path_format uc path) \<le> best" by auto
  with assms(2) best(2) show False by simp
qed

theorem upgrade_is_real_witness:
  "ebook_upgrade_eligible ascii_uc (Some sample_profile) [''/b/x.pdf''] [''mp3'', ''EPUB'']
   \<and> (\<exists>f \<in> norm_token ascii_uc ` set [''mp3'', ''EPUB'']. media_type_for_format ascii_uc f = media_ebook
        \<and> token_rank ascii_uc (Some sample_profile) media_ebook (path_format ascii_uc ''/b/x.pdf'')
          < token_rank ascii_uc (Some sample_profile) media_ebook f)"
proof -
  have el: "ebook_upgrade_eligible ascii_uc (Some sample_profile) [''/b/x.pdf''] [''mp3'', ''EPUB'']"
    by code_simp
  then show ?thesis using upgrade_is_real [OF el] by auto
qed

theorem no_upgrade_at_cutoff_witness:
  "\<not> ebook_upgrade_eligible ascii_uc (Some sample_profile) [''/b/x.pdf'', ''/b/x.epub''] [''EPUB'']"
proof (rule no_upgrade_at_cutoff [of "''/b/x.epub''"])
  show "token_rank ascii_uc (Some sample_profile) media_ebook (norm_token ascii_uc (qp_cutoff sample_profile))
          \<le> token_rank ascii_uc (Some sample_profile) media_ebook (path_format ascii_uc ''/b/x.epub'')
      \<or> token_rank ascii_uc (Some sample_profile) media_ebook (path_format ascii_uc ''/b/x.epub'') = 0
      \<or> media_type_for_format ascii_uc (path_format ascii_uc ''/b/x.epub'') \<noteq> media_ebook"
    by code_simp
qed simp

end
