(* ===== verification/Decision.thy ===== *)
theory Decision
  imports Complex_Main Quality
begin

text \<open>
  The release decision engine (\<open>internal/decision/decision.go\<close>, \<open>specs.go\<close>, \<open>edition_spec.go\<close>)
  with the blocklist scopes (\<open>internal/models/blocklist.go\<close>). Every Go specification is a function
  from a release and the wanted book to the pair its \<open>IsSatisfiedBy\<close> returns; the contract of that
  interface is the locale \<open>release_spec\<close>. The pack detector, the narration parser and regexp are
  arguments; a volume factor is a rational or one of the special floats.
\<close>

subsection \<open>Releases and books\<close>

datatype float64 = Finite rat | NotANumber | Infinite bool

record release =
  rl_guid :: string
  rl_indexer_id :: int
  rl_title :: string
  rl_size :: int
  rl_age_minutes :: int
  rl_protocol :: string
  rl_language :: string
  rl_format :: string
  rl_formats :: "string list"
  rl_media_type :: string
  rl_volume_factor :: "float64 option"

record book =
  bk_id :: int
  bk_title :: string
  bk_file_path :: string
  bk_ebook_path :: string
  bk_audiobook_path :: string

type_synonym verdict = "bool \<times> string"
type_synonym spec = "release \<Rightarrow> book \<Rightarrow> verdict"

text \<open>"(true, \"\") when the release passes, or (false, reason) when it should be rejected."\<close>

locale release_spec =
  fixes sat :: spec
  assumes reason_iff: "snd (sat r b) = [] \<longleftrightarrow> fst (sat r b)"
begin

lemma pass: "fst (sat r b) \<Longrightarrow> sat r b = (True, [])"
  using reason_iff [of r b] by (cases "sat r b") simp

lemma reject_reason: "\<not> fst (sat r b) \<Longrightarrow> snd (sat r b) \<noteq> []"
  using reason_iff [of r b] by simp

end

subsection \<open>The engine\<close>

record decision =
  dc_release :: release
  dc_approved :: bool
  dc_rejected :: bool
  dc_rejection :: string

fun first_rejection :: "spec list \<Rightarrow> release \<Rightarrow> book \<Rightarrow> string option" where
  "first_rejection [] r b = None"
| "first_rejection (s # ss) r b =
     (case s r b of (ok, reason) \<Rightarrow> if ok then first_rejection ss r b else Some reason)"

definition decide :: "spec list \<Rightarrow> book \<Rightarrow> release \<Rightarrow> decision" where
  "decide specs b r =
     (case first_rejection specs r b of
        None \<Rightarrow> \<lparr>dc_release = r, dc_approved = True, dc_rejected = False, dc_rejection = []\<rparr>
      | Some reason \<Rightarrow>
          \<lparr>dc_release = r, dc_approved = False, dc_rejected = True, dc_rejection = reason\<rparr>)"

definition evaluate :: "spec list \<Rightarrow> release list \<Rightarrow> book \<Rightarrow> decision list" where
  "evaluate specs rs b = map (decide specs b) rs"

definition approved :: "decision list \<Rightarrow> decision list" where
  "approved ds = filter dc_approved ds"

subsection \<open>Quality and edition\<close>

definition searched_media_type :: "unicode \<Rightarrow> string \<Rightarrow> release \<Rightarrow> string" where
  "searched_media_type uc mt r =
     (case find (\<lambda>c. c = media_ebook \<or> c = media_audiobook)
             [mt, rl_media_type r, media_type_for_format uc (rl_format r)] of
        None \<Rightarrow> [] | Some c \<Rightarrow> c)"

definition tokens_of_media_type :: "unicode \<Rightarrow> string list \<Rightarrow> string \<Rightarrow> string list" where
  "tokens_of_media_type uc formats mt = filter (\<lambda>f. media_type_for_format uc f = mt) formats"

text \<open>The list and the tokens a release is judged on.\<close>

definition judged_on :: "unicode \<Rightarrow> quality_profile \<Rightarrow> string \<Rightarrow> string list
    \<Rightarrow> quality_item list \<times> string list" where
  "judged_on uc p mt formats =
     (if mt = [] then (qp_items p, formats)
      else
        let judged = tokens_of_media_type uc formats mt in
        if judged = [] then
          let mt' = media_type_for_format uc (hd formats)
          in (profile_list uc (Some p) mt', tokens_of_media_type uc formats mt')
        else (profile_list uc (Some p) mt, judged))"

definition quality_rejection :: "unicode \<Rightarrow> quality_profile \<Rightarrow> string list \<Rightarrow> string" where
  "quality_rejection uc p judged =
     (if length judged > 1 then ''formats'' else ''format'') @ '' '' @ go_quote uc (str_join ''+'' judged)
     @ '' not in quality profile '' @ go_quote uc (qp_name p)"

definition quality_allowed :: "unicode \<Rightarrow> quality_profile option \<Rightarrow> string \<Rightarrow> spec" where
  "quality_allowed uc profile mt r b =
     (case profile of None \<Rightarrow> (True, [])
      | Some p \<Rightarrow>
          if qp_items p = [] then (True, [])
          else if rl_formats r = [] \<and> rl_format r = [] then (True, [])
          else
            let formats = (if rl_formats r = [] then [rl_format r] else rl_formats r);
                (items, judged) = judged_on uc p (searched_media_type uc mt r) formats
            in if judged = [] \<or> items = [] then (True, [])
               else if list_ex (\<lambda>f. list_ex (\<lambda>it. qi_allowed it \<and> equal_fold uc (qi_quality it) f) items) judged
               then (True, [])
               else (False, quality_rejection uc p judged))"

text \<open>\<open>narration\<close> is the edition type \<open>indexer.ParseNarration\<close> reads off the release title.\<close>

definition edition_allowed :: "(string \<Rightarrow> string list \<Rightarrow> string list \<Rightarrow> string) \<Rightarrow> quality_profile option
    \<Rightarrow> string \<Rightarrow> string \<Rightarrow> string list \<Rightarrow> spec" where
  "edition_allowed narration profile media title authors r b =
     (case profile of None \<Rightarrow> (True, [])
      | Some p \<Rightarrow>
          if qp_edition_preference p \<noteq> ''require_unabridged'' then (True, [])
          else
            let mt = (if media \<noteq> media_ebook \<and> media \<noteq> media_audiobook then rl_media_type r else media)
            in if mt \<noteq> media_audiobook then (True, [])
               else if narration (rl_title r) [title] authors = ''abridged''
               then (False, ''abridged edition, the quality profile requires unabridged'')
               else (True, []))"

definition ebook_upgrade :: "unicode \<Rightarrow> quality_profile option \<Rightarrow> string list \<Rightarrow> spec" where
  "ebook_upgrade uc profile existing r b =
     (let formats = (if rl_formats r = [] \<and> rl_format r \<noteq> [] then [rl_format r] else rl_formats r) in
      if ebook_upgrade_eligible uc profile existing formats then (True, [])
      else (False, ''not an upgrade of the ebook the book already has''))"

subsection \<open>Delay, size and language\<close>

record delay_profile =
  dp_usenet_delay :: int
  dp_torrent_delay :: int
  dp_enable_usenet :: bool
  dp_enable_torrent :: bool

definition em_dash :: string where
  "em_dash = map char_of [226 :: nat, 128, 148]"

definition delay_profile_spec :: "delay_profile option \<Rightarrow> spec" where
  "delay_profile_spec profile r b =
     (case profile of None \<Rightarrow> (True, [])
      | Some p \<Rightarrow>
          if rl_protocol r = ''usenet'' then
            (if \<not> dp_enable_usenet p then (False, ''usenet disabled in delay profile'')
             else if dp_usenet_delay p > 0 \<and> rl_age_minutes r < dp_usenet_delay p then
               (False, ''usenet delay not met '' @ em_dash @ '' ''
                  @ show_int (dp_usenet_delay p - rl_age_minutes r) @ '' min remaining'')
             else (True, []))
          else if rl_protocol r = ''torrent'' then
            (if \<not> dp_enable_torrent p then (False, ''torrent disabled in delay profile'')
             else if dp_torrent_delay p > 0 \<and> rl_age_minutes r < dp_torrent_delay p then
               (False, ''torrent delay not met '' @ em_dash @ '' ''
                  @ show_int (dp_torrent_delay p - rl_age_minutes r) @ '' min remaining'')
             else (True, []))
          else (True, []))"

definition size_limit_spec :: "int \<Rightarrow> int \<Rightarrow> spec" where
  "size_limit_spec min_bytes max_bytes r b =
     (if min_bytes > 0 \<and> rl_size r < min_bytes then
        (False, ''release size '' @ show_int (rl_size r) @ '' B below minimum '' @ show_int min_bytes @ '' B'')
      else if max_bytes > 0 \<and> rl_size r > max_bytes then
        (False, ''release size '' @ show_int (rl_size r) @ '' B above maximum '' @ show_int max_bytes @ '' B'')
      else (True, []))"

definition language_filter_spec :: "unicode \<Rightarrow> string list \<Rightarrow> spec" where
  "language_filter_spec uc langs r b =
     (if langs = [] \<or> rl_language r = [] then (True, [])
      else if list_ex (\<lambda>a. to_lower uc a = to_lower uc (rl_language r)) langs then (True, [])
      else (False, ''release language '' @ go_quote uc (rl_language r) @ '' not in allowed list''))"

subsection \<open>Blocklist and library\<close>

record blocklist_entry =
  bl_book_id :: "int option"
  bl_guid :: string
  bl_scope :: string

definition effective_scope :: "blocklist_entry \<Rightarrow> string" where
  "effective_scope e =
     (if bl_scope e = ''release'' \<or> bl_scope e = [] \<and> bl_book_id e = None then ''release'' else ''book'')"

definition blocks_book :: "blocklist_entry \<Rightarrow> int \<Rightarrow> bool" where
  "blocks_book e book_id = (effective_scope e = ''release'' \<or> bl_book_id e = Some book_id)"

definition new_blocklisted_spec :: "blocklist_entry list \<Rightarrow> string \<Rightarrow> blocklist_entry list" where
  "new_blocklisted_spec entries = fold (\<lambda>e m. m(bl_guid e := m (bl_guid e) @ [e])) entries (\<lambda>_. [])"

definition blocklisted_spec :: "(string \<Rightarrow> blocklist_entry list) \<Rightarrow> spec" where
  "blocklisted_spec entries r b =
     (if list_ex (\<lambda>e. blocks_book e (bk_id b)) (entries (rl_guid r))
      then (False, ''release is blocklisted'') else (True, []))"

definition already_imported_spec :: spec where
  "already_imported_spec r b =
     (if rl_media_type r = media_ebook then
        (if bk_ebook_path b \<noteq> [] then (False, ''ebook already imported'') else (True, []))
      else if rl_media_type r = media_audiobook then
        (if bk_audiobook_path b \<noteq> [] then (False, ''audiobook already imported'') else (True, []))
      else if bk_file_path b \<noteq> [] then (False, ''book already imported'') else (True, []))"

subsection \<open>Custom formats, freeleech and packs\<close>

record custom_condition =
  cc_type :: string
  cc_pattern :: string
  cc_negate :: bool

text \<open>\<open>regex p s\<close> is the match of \<open>(?i)p\<close> on \<open>s\<close>, \<open>None\<close> when \<open>p\<close> does not compile.\<close>

definition match_condition :: "unicode \<Rightarrow> (string \<Rightarrow> string \<Rightarrow> bool option) \<Rightarrow> release
    \<Rightarrow> custom_condition \<Rightarrow> bool" where
  "match_condition uc regex r c =
     (if cc_type c = ''releaseTitle'' \<or> cc_type c = ''releaseGroup''
      then (case regex (cc_pattern c) (rl_title r) of None \<Rightarrow> False | Some m \<Rightarrow> m)
      else if cc_type c = ''format'' then equal_fold uc (rl_format r) (cc_pattern c)
      else if cc_type c = ''protocol'' then equal_fold uc (rl_protocol r) (cc_pattern c)
      else False)"

definition matches_all :: "unicode \<Rightarrow> (string \<Rightarrow> string \<Rightarrow> bool option) \<Rightarrow> release
    \<Rightarrow> custom_condition list \<Rightarrow> bool" where
  "matches_all uc regex r cs = list_all (\<lambda>c. match_condition uc regex r c \<noteq> cc_negate c) cs"

fun score_from :: "nat \<Rightarrow> (custom_condition list \<Rightarrow> bool) \<Rightarrow> custom_condition list list \<Rightarrow> nat" where
  "score_from i m [] = 0"
| "score_from i m (cf # cfs) = (if m cf then i + 1 else 0) + score_from (i + 1) m cfs"

definition custom_format_score :: "unicode \<Rightarrow> (string \<Rightarrow> string \<Rightarrow> bool option)
    \<Rightarrow> custom_condition list list \<Rightarrow> release \<Rightarrow> nat" where
  "custom_format_score uc regex formats r = score_from 0 (matches_all uc regex r) formats"

definition custom_format_score_spec :: spec where
  "custom_format_score_spec r b = (True, [])"

definition freeleech_hold :: string where
  "freeleech_hold = ''freeleech hold''"

definition times_sign :: string where
  "times_sign = map char_of [195 :: nat, 151]"

text \<open>\<open>show_g\<close> is the verb \<open>%g\<close>.\<close>

definition freeleech_only_spec :: "(float64 \<Rightarrow> string) \<Rightarrow> (int \<times> bool) list \<Rightarrow> spec" where
  "freeleech_only_spec show_g ids r b =
     (if ids = [] \<or> map_of ids (rl_indexer_id r) \<noteq> Some True then (True, [])
      else if rl_protocol r \<noteq> ''torrent'' then (True, [])
      else (case rl_volume_factor r of
              None \<Rightarrow> (False, freeleech_hold @ '': indexer did not report downloadvolumefactor'')
            | Some f \<Rightarrow>
                if f = Finite 0 then (True, [])
                else (False, freeleech_hold @ '': costs '' @ show_g f @ times_sign @ '' ratio (not freeleech)'')))"

text \<open>\<open>marker_for title book_title series siblings\<close> is \<open>indexer.MultiBookPackMarkerFor\<close>.\<close>

type_synonym pack_marker = "string \<Rightarrow> string \<Rightarrow> string \<Rightarrow> string list \<Rightarrow> string"

definition multi_book_pack :: string where
  "multi_book_pack = ''multi-book pack''"

definition pack_marker_of :: "pack_marker \<Rightarrow> string \<Rightarrow> string list \<Rightarrow> release \<Rightarrow> book \<Rightarrow> string" where
  "pack_marker_of marker_for series siblings r b =
     (let marker = marker_for (rl_title r) (bk_title b) series siblings in
      if marker = [] then []
      else if marker_for (bk_title b) [] series siblings \<noteq> [] then []
      else marker)"

definition multi_book_pack_spec :: "unicode \<Rightarrow> pack_marker \<Rightarrow> string \<Rightarrow> string list \<Rightarrow> spec" where
  "multi_book_pack_spec uc marker_for series siblings r b =
     (let marker = pack_marker_of marker_for series siblings r b in
      if marker = [] then (True, [])
      else (False, multi_book_pack @ '': release is titled '' @ go_quote uc marker
              @ '', and a download is linked to one book '' @ em_dash
              @ '' Bindery cannot split a pack across book records''))"

subsection \<open>The specifications meet the contract\<close>

lemma quality_rejection_ne [simp]: "quality_rejection uc p judged \<noteq> []"
  by (simp add: quality_rejection_def)

interpretation quality_sp: release_spec "quality_allowed uc profile mt" for uc profile mt
  by unfold_locales (simp add: quality_allowed_def Let_def split: option.split prod.split)

interpretation edition_sp: release_spec "edition_allowed narration profile media title authors"
  for narration profile media title authors
  by unfold_locales (simp add: edition_allowed_def Let_def split: option.split)

interpretation upgrade_sp: release_spec "ebook_upgrade uc profile existing" for uc profile existing
  by unfold_locales (simp add: ebook_upgrade_def Let_def)

interpretation delay_sp: release_spec "delay_profile_spec profile" for profile
  by unfold_locales (simp add: delay_profile_spec_def split: option.split)

interpretation size_sp: release_spec "size_limit_spec lo hi" for lo hi
  by unfold_locales (simp add: size_limit_spec_def)

interpretation language_sp: release_spec "language_filter_spec uc langs" for uc langs
  by unfold_locales (simp add: language_filter_spec_def)

interpretation blocklist_sp: release_spec "blocklisted_spec entries" for entries
  by unfold_locales (simp add: blocklisted_spec_def)

interpretation imported_sp: release_spec already_imported_spec
  by unfold_locales (simp add: already_imported_spec_def)

interpretation score_sp: release_spec custom_format_score_spec
  by unfold_locales (simp add: custom_format_score_spec_def)

interpretation freeleech_sp: release_spec "freeleech_only_spec show_g ids" for show_g ids
  by unfold_locales (simp add: freeleech_only_spec_def freeleech_hold_def split: option.split)

interpretation pack_sp: release_spec "multi_book_pack_spec uc marker_for series siblings"
  for uc marker_for series siblings
  by unfold_locales (simp add: multi_book_pack_spec_def multi_book_pack_def Let_def)

text \<open>The specifications of the package, as a Go value of the interface type holds one of them.\<close>

datatype spec_value =
  QualityAllowed "quality_profile option" string
| EditionAllowed "quality_profile option" string string "string list"
| EbookUpgrade "quality_profile option" "string list"
| DelayProfileSpec "delay_profile option"
| SizeLimitSpec int int
| LanguageFilterSpec "string list"
| BlocklistedSpec "blocklist_entry list"
| AlreadyImportedSpec
| CustomFormatScoreSpec
| FreeleechOnlySpec "(int \<times> bool) list"
| MultiBookPackSpec string "string list"

record library_fns =
  fn_unicode :: unicode
  fn_narration :: "string \<Rightarrow> string list \<Rightarrow> string list \<Rightarrow> string"
  fn_show_g :: "float64 \<Rightarrow> string"
  fn_pack :: pack_marker

fun is_satisfied_by :: "library_fns \<Rightarrow> spec_value \<Rightarrow> spec" where
  "is_satisfied_by l (QualityAllowed p mt) = quality_allowed (fn_unicode l) p mt"
| "is_satisfied_by l (EditionAllowed p mt t as) = edition_allowed (fn_narration l) p mt t as"
| "is_satisfied_by l (EbookUpgrade p ex) = ebook_upgrade (fn_unicode l) p ex"
| "is_satisfied_by l (DelayProfileSpec p) = delay_profile_spec p"
| "is_satisfied_by l (SizeLimitSpec lo hi) = size_limit_spec lo hi"
| "is_satisfied_by l (LanguageFilterSpec ls) = language_filter_spec (fn_unicode l) ls"
| "is_satisfied_by l (BlocklistedSpec es) = blocklisted_spec (new_blocklisted_spec es)"
| "is_satisfied_by l AlreadyImportedSpec = already_imported_spec"
| "is_satisfied_by l CustomFormatScoreSpec = custom_format_score_spec"
| "is_satisfied_by l (FreeleechOnlySpec ids) = freeleech_only_spec (fn_show_g l) ids"
| "is_satisfied_by l (MultiBookPackSpec s ts) = multi_book_pack_spec (fn_unicode l) (fn_pack l) s ts"

lemma spec_values_conform: "snd (is_satisfied_by l v r b) = [] \<longleftrightarrow> fst (is_satisfied_by l v r b)"
  by (cases v) (simp_all only: is_satisfied_by.simps quality_sp.reason_iff edition_sp.reason_iff
      upgrade_sp.reason_iff delay_sp.reason_iff size_sp.reason_iff language_sp.reason_iff
      blocklist_sp.reason_iff imported_sp.reason_iff score_sp.reason_iff freeleech_sp.reason_iff
      pack_sp.reason_iff)

interpretation any_sp: release_spec "is_satisfied_by l v" for l v
  by unfold_locales (rule spec_values_conform)

subsection \<open>What the engine decides\<close>

lemma first_rejection_None: "first_rejection specs r b = None \<longleftrightarrow> (\<forall>s \<in> set specs. fst (s r b))"
  by (induction specs) (auto split: prod.splits)

lemma first_rejection_Some:
  "first_rejection specs r b = Some reason \<longleftrightarrow>
     (\<exists>pre s post. specs = pre @ s # post \<and> (\<forall>x \<in> set pre. fst (x r b)) \<and> \<not> fst (s r b)
        \<and> reason = snd (s r b))"
proof (induction specs)
  case (Cons s specs)
  show ?case
  proof (cases "fst (s r b)")
    case True
    then have "first_rejection (s # specs) r b = first_rejection specs r b"
      by (cases "s r b") simp
    moreover have "(\<exists>pre s' post. s # specs = pre @ s' # post \<and> (\<forall>x \<in> set pre. fst (x r b))
          \<and> \<not> fst (s' r b) \<and> reason = snd (s' r b))
        \<longleftrightarrow> (\<exists>pre s' post. specs = pre @ s' # post \<and> (\<forall>x \<in> set pre. fst (x r b))
          \<and> \<not> fst (s' r b) \<and> reason = snd (s' r b))" (is "?A \<longleftrightarrow> ?B")
    proof
      assume ?A
      then obtain pre s' post where h: "s # specs = pre @ s' # post" "\<forall>x \<in> set pre. fst (x r b)"
        "\<not> fst (s' r b)" "reason = snd (s' r b)" by blast
      with True obtain pre' where "pre = s # pre'" "specs = pre' @ s' # post"
        by (cases pre) auto
      with h show ?B by auto
    next
      assume ?B
      with True show ?A by (metis append_Cons set_ConsD)
    qed
    ultimately show ?thesis using Cons.IH by simp
  next
    case False
    then have "first_rejection (s # specs) r b = Some (snd (s r b))" by (cases "s r b") simp
    moreover have "(\<exists>pre s' post. s # specs = pre @ s' # post \<and> (\<forall>x \<in> set pre. fst (x r b))
          \<and> \<not> fst (s' r b) \<and> reason = snd (s' r b)) \<longleftrightarrow> reason = snd (s r b)"
      (is "?A \<longleftrightarrow> _")
    proof
      assume "reason = snd (s r b)"
      with False show ?A by (intro exI [of _ "[]"] exI [of _ s] exI [of _ specs]) simp
    qed (use False in \<open>auto simp: Cons_eq_append_conv\<close>)
    ultimately show ?thesis by auto
  qed
qed simp

lemma decide_approved: "dc_approved (decide (map (is_satisfied_by l) vs) b r) \<longleftrightarrow> (\<forall>v \<in> set vs. fst (is_satisfied_by l v r b))"
  using first_rejection_None [of "map (is_satisfied_by l) vs" r b]
  by (cases "first_rejection (map (is_satisfied_by l) vs) r b") (simp_all add: decide_def)

lemma decide_release [simp]: "dc_release (decide specs b r) = r"
  by (simp add: decide_def split: option.split)

text \<open>The engine judges every release exactly once and in order. A release is approved if and
  only if every specification passes it; a rejected one carries the reason of the first
  specification that refused it, and for the package's own specifications that reason is never
  empty.\<close>

theorem evaluate_decides:
  "map dc_release (evaluate (map (is_satisfied_by l) vs) rs b) = rs
   \<and> (\<forall>d \<in> set (evaluate (map (is_satisfied_by l) vs) rs b).
        (dc_approved d \<longleftrightarrow> (\<forall>v \<in> set vs. fst (is_satisfied_by l v (dc_release d) b)))
        \<and> dc_rejected d = (\<not> dc_approved d)
        \<and> (if dc_approved d then dc_rejection d = []
           else dc_rejection d \<noteq> [] \<and> (\<exists>pre v post. vs = pre @ v # post
              \<and> (\<forall>x \<in> set pre. fst (is_satisfied_by l x (dc_release d) b))
              \<and> is_satisfied_by l v (dc_release d) b = (False, dc_rejection d))))"
proof -
  have one: "dc_release (decide (map (is_satisfied_by l) vs) b r) = r
      \<and> (dc_approved (decide (map (is_satisfied_by l) vs) b r)
         \<longleftrightarrow> (\<forall>v \<in> set vs. fst (is_satisfied_by l v r b)))
      \<and> dc_rejected (decide (map (is_satisfied_by l) vs) b r)
         = (\<not> dc_approved (decide (map (is_satisfied_by l) vs) b r))
      \<and> (if dc_approved (decide (map (is_satisfied_by l) vs) b r)
         then dc_rejection (decide (map (is_satisfied_by l) vs) b r) = []
         else dc_rejection (decide (map (is_satisfied_by l) vs) b r) \<noteq> []
           \<and> (\<exists>pre v post. vs = pre @ v # post \<and> (\<forall>x \<in> set pre. fst (is_satisfied_by l x r b))
              \<and> is_satisfied_by l v r b = (False, dc_rejection (decide (map (is_satisfied_by l) vs) b r))))"
    for r
  proof (cases "first_rejection (map (is_satisfied_by l) vs) r b")
    case None
    then show ?thesis by (simp add: decide_def) (simp add: first_rejection_None)
  next
    case (Some reason)
    then obtain pre s post where split: "map (is_satisfied_by l) vs = pre @ s # post"
      "\<forall>x \<in> set pre. fst (x r b)" "\<not> fst (s r b)" "reason = snd (s r b)"
      unfolding first_rejection_Some by blast
    then obtain pre' v post' where v: "vs = pre' @ v # post'" "pre = map (is_satisfied_by l) pre'"
      "s = is_satisfied_by l v"
      by (auto simp: map_eq_append_conv map_eq_Cons_conv)
    have "reason \<noteq> []" using split(3,4) any_sp.reject_reason [of l v r b] v(3) by simp
    moreover have "is_satisfied_by l v r b = (False, reason)"
      using split(3,4) v(3) by (cases "is_satisfied_by l v r b") simp
    moreover have "\<forall>x \<in> set pre'. fst (is_satisfied_by l x r b)" using split(2) v(2) by simp
    moreover have "decide (map (is_satisfied_by l) vs) b r
        = \<lparr>dc_release = r, dc_approved = False, dc_rejected = True, dc_rejection = reason\<rparr>"
      by (simp add: decide_def Some)
    ultimately show ?thesis using v(1) by (simp del: is_satisfied_by.simps) (metis append_Cons in_set_conv_decomp fst_conv)
  qed
  show ?thesis
  proof (intro conjI ballI)
    show "map dc_release (evaluate (map (is_satisfied_by l) vs) rs b) = rs"
      by (simp add: evaluate_def comp_def)
  next
    fix d
    assume "d \<in> set (evaluate (map (is_satisfied_by l) vs) rs b)"
    then obtain r where d: "d = decide (map (is_satisfied_by l) vs) b r"
      by (auto simp: evaluate_def)
    show "dc_approved d \<longleftrightarrow> (\<forall>v \<in> set vs. fst (is_satisfied_by l v (dc_release d) b))"
      and "dc_rejected d = (\<not> dc_approved d)"
      and "if dc_approved d then dc_rejection d = []
           else dc_rejection d \<noteq> [] \<and> (\<exists>pre v post. vs = pre @ v # post
              \<and> (\<forall>x \<in> set pre. fst (is_satisfied_by l x (dc_release d) b))
              \<and> is_satisfied_by l v (dc_release d) b = (False, dc_rejection d))"
      using one [of r] unfolding d decide_release by blast+
  qed
qed

lemma approved_passes:
  assumes "d \<in> set (approved (evaluate (map (is_satisfied_by l) vs) rs b))" and "v \<in> set vs"
  shows "fst (is_satisfied_by l v (dc_release d) b)"
  using assms by (auto simp: approved_def evaluate_def decide_approved)

lemma new_blocklisted_filter:
  "new_blocklisted_spec entries guid = filter (\<lambda>e. bl_guid e = guid) entries"
proof -
  have "fold (\<lambda>e m. m(bl_guid e := m (bl_guid e) @ [e])) entries m guid
      = m guid @ filter (\<lambda>e. bl_guid e = guid) entries" for m
    by (induction entries arbitrary: m) auto
  then show ?thesis by (simp add: new_blocklisted_spec_def)
qed

text \<open>What an automatic grab can never do. If the specifications include a blocklist and a
  freeleech policy, then no approved release carries the guid of an entry that is release scoped
  or scoped to the wanted book, and an approved torrent from an indexer under the policy has a
  reported volume factor of exactly zero: an unreported one is held.\<close>

theorem approved_is_safe:
  assumes "d \<in> set (approved (evaluate (map (is_satisfied_by l) vs) rs b))"
    and "BlocklistedSpec entries \<in> set vs" and "FreeleechOnlySpec ids \<in> set vs"
  shows "dc_release d \<in> set rs
    \<and> (\<forall>e \<in> set entries. bl_guid e = rl_guid (dc_release d) \<longrightarrow>
         effective_scope e \<noteq> ''release'' \<and> bl_book_id e \<noteq> Some (bk_id b))
    \<and> (map_of ids (rl_indexer_id (dc_release d)) = Some True \<and> rl_protocol (dc_release d) = ''torrent''
         \<longrightarrow> rl_volume_factor (dc_release d) = Some (Finite 0))"
proof -
  let ?r = "dc_release d"
  have bl: "fst (blocklisted_spec (new_blocklisted_spec entries) ?r b)"
    using approved_passes [OF assms(1,2)] by simp
  have fl: "fst (freeleech_only_spec (fn_show_g l) ids ?r b)"
    using approved_passes [OF assms(1,3)] by simp
  have "?r \<in> set rs" using assms(1) by (auto simp: approved_def evaluate_def decide_def split: option.splits)
  moreover have "\<forall>e \<in> set entries. bl_guid e = rl_guid ?r \<longrightarrow>
         effective_scope e \<noteq> ''release'' \<and> bl_book_id e \<noteq> Some (bk_id b)"
    using bl by (auto simp: blocklisted_spec_def new_blocklisted_filter list_ex_iff blocks_book_def
        split: if_splits)
  moreover have "map_of ids (rl_indexer_id ?r) = Some True \<and> rl_protocol ?r = ''torrent''
         \<longrightarrow> rl_volume_factor ?r = Some (Finite 0)"
    using fl by (auto simp: freeleech_only_spec_def split: if_splits option.splits)
  ultimately show ?thesis by blast
qed

subsection \<open>The quality filter and the ranker\<close>

lemma tokens_same: "(\<And>f. f \<in> set fs \<Longrightarrow> media_type_for_format uc f = mt) \<Longrightarrow> tokens_of_media_type uc fs mt = fs"
  by (simp add: tokens_of_media_type_def)

lemma judged_on_own_type:
  assumes "fs \<noteq> []" and "\<And>f. f \<in> set fs \<Longrightarrow> media_type_for_format uc f = mt" and "s \<noteq> []"
  shows "judged_on uc p s fs = (profile_list uc (Some p) mt, fs)"
proof (cases "s = mt")
  case True
  with assms tokens_same [of fs uc mt] show ?thesis by (simp add: judged_on_def Let_def)
next
  case False
  then have "tokens_of_media_type uc fs s = []"
    using assms(2) by (auto simp: tokens_of_media_type_def filter_empty_conv)
  with assms tokens_same [of fs uc mt] show ?thesis by (simp add: judged_on_def Let_def)
qed

lemma searched_media_type_ne:
  "media_type_for_format uc (rl_format r) \<noteq> [] \<Longrightarrow> searched_media_type uc mt r \<noteq> []"
  using media_type_cases [of uc "rl_format r"] by (auto simp: searched_media_type_def)

text \<open>A profile's entries for the other media type never decide about a release. For a release
  whose formats are all of one media type, the verdict under a mixed profile is the verdict under
  the profile cut down to that media type, whatever was searched for.\<close>

theorem quality_ignores_other_media:
  assumes "mt \<noteq> []" and "media_type_for_format uc (rl_format r) = mt"
    and "\<forall>f \<in> set (rl_formats r). media_type_for_format uc f = mt"
  shows "fst (quality_allowed uc (Some p) searched r b)
    = fst (quality_allowed uc (Some (p\<lparr>qp_items := profile_list uc (Some p) mt\<rparr>)) searched r b)"
proof -
  let ?q = "p\<lparr>qp_items := profile_list uc (Some p) mt\<rparr>"
  let ?fs = "if rl_formats r = [] then [rl_format r] else rl_formats r"
  have ne: "rl_format r \<noteq> [] \<or> rl_formats r \<noteq> []"
  proof (rule ccontr)
    assume "\<not> ?thesis"
    then have "media_type_for_format uc [] = mt" using assms(2) by simp
    moreover have "media_type_for_format uc [] = []"
      by (simp add: media_type_for_format_def Let_def norm_token_def trim_space_def trim_left_def
          trim_right_def to_lower_def is_ascii_def format_tokens_def)
    ultimately show False using assms(1) by simp
  qed
  have s: "searched_media_type uc searched r \<noteq> []"
    using assms(1,2) by (intro searched_media_type_ne) simp
  have j: "judged_on uc x (searched_media_type uc searched r) ?fs = (profile_list uc (Some x) mt, ?fs)" for x
    using assms s by (intro judged_on_own_type) (auto split: if_splits)
  have list: "profile_list uc (Some ?q) mt = profile_list uc (Some p) mt"
    by (simp add: profile_list_def)
  show ?thesis
    using ne j [of p] j [of ?q] list
    by (auto simp: quality_allowed_def Let_def profile_list_def split: if_splits)
qed

text \<open>The filter and the ranker agree, as both read the one list. For a release of known tokens
  that carries something of the searched kind, under a profile whose tokens are plain ASCII
  without surrounding space: \<open>QualityAllowed\<close> passes it exactly when the profile has no opinion
  on that kind or the ranker gives it a positive score.\<close>

theorem quality_agrees_with_ranker:
  assumes "mt \<in> {media_ebook, media_audiobook}" and "set (rl_formats r) \<subseteq> set format_tokens"
    and "tokens_of_media_type uc (rl_formats r) mt \<noteq> []"
    and "\<forall>it \<in> set (qp_items p). is_ascii (qi_quality it) \<and> trim_space (qi_quality it) = qi_quality it"
  shows "fst (quality_allowed uc (Some p) mt r b) \<longleftrightarrow>
    \<not> has_opinion (new_profile_ranks uc (Some p)) mt
    \<or> 0 < format_score uc (new_profile_ranks uc (Some p)) (rl_formats r) mt"
proof -
  let ?list = "profile_list uc (Some p) mt" and ?judged = "tokens_of_media_type uc (rl_formats r) mt"
  have fne: "rl_formats r \<noteq> []" using assms(3) by (auto simp: tokens_of_media_type_def)
  have mtne: "mt \<noteq> []" using assms(1) by auto
  have s: "searched_media_type uc mt r = mt" using assms(1) by (auto simp: searched_media_type_def)
  have j: "judged_on uc p mt (rl_formats r) = (?list, ?judged)"
    using assms(3) mtne by (simp add: judged_on_def Let_def)
  have fold_iff: "equal_fold uc (qi_quality it) f \<longleftrightarrow> norm_token uc (qi_quality it) = f"
    if "it \<in> set ?list" "f \<in> set format_tokens" for it f
  proof -
    have "it \<in> set (qp_items p)" using that(1) mtne by (simp add: profile_list_def)
    with assms(4) format_token_norm [OF that(2), of uc] show ?thesis
      by (simp add: equal_fold_ascii norm_token_def)
  qed
  have rank: "0 < token_rank uc (Some p) mt f \<longleftrightarrow> f \<in> set ?judged
      \<and> (\<exists>it \<in> set ?list. qi_allowed it \<and> norm_token uc (qi_quality it) = f)" if "f \<in> set (rl_formats r)" for f
  proof -
    have nf: "norm_token uc f = f" using that assms(2) format_token_norm by blast
    show ?thesis
      unfolding token_rank_def nf using that
      by (simp add: tokens_of_media_type_def list_rank_pos_iff)
  qed
  have sub: "set ?judged \<subseteq> set (rl_formats r)" by (auto simp: tokens_of_media_type_def)
  have score: "0 < format_score uc (new_profile_ranks uc (Some p)) (rl_formats r) mt \<longleftrightarrow>
      (\<exists>f \<in> set ?judged. \<exists>it \<in> set ?list. qi_allowed it \<and> norm_token uc (qi_quality it) = f)"
    unfolding format_score_less_iff [OF assms(1)] using rank sub by blast
  have ex: "list_ex (\<lambda>f. list_ex (\<lambda>it. qi_allowed it \<and> equal_fold uc (qi_quality it) f) ?list) ?judged
      \<longleftrightarrow> (\<exists>f \<in> set ?judged. \<exists>it \<in> set ?list. qi_allowed it \<and> norm_token uc (qi_quality it) = f)"
    unfolding list_ex_iff using fold_iff sub assms(2) by blast
  have items: "qp_items p = [] \<Longrightarrow> ?list = []" by (simp add: profile_list_def)
  have "fst (quality_allowed uc (Some p) mt r b) \<longleftrightarrow> qp_items p = [] \<or> ?list = []
      \<or> list_ex (\<lambda>f. list_ex (\<lambda>it. qi_allowed it \<and> equal_fold uc (qi_quality it) f) ?list) ?judged"
    using fne assms(3) s j by (simp add: quality_allowed_def Let_def del: list_ex_iff)
  then show ?thesis
    unfolding has_opinion_iff [OF assms(1)] score ex using items by blast
qed

subsection \<open>Custom format scores\<close>

lemma score_from_nth:
  "j < length cfs \<Longrightarrow> m (cfs ! j) \<Longrightarrow> (\<forall>k < length cfs. k \<noteq> j \<longrightarrow> \<not> m (cfs ! k))
   \<Longrightarrow> score_from i m cfs = i + j + 1"
proof (induction cfs arbitrary: i j)
  case (Cons cf cfs)
  have none: "score_from i' m xs = 0" if "\<forall>k < length xs. \<not> m (xs ! k)" for i' xs
    using that by (induction xs arbitrary: i') fastforce+
  show ?case
  proof (cases j)
    case 0
    with Cons.prems have "\<forall>k < length cfs. \<not> m (cfs ! k)" by auto
    with 0 Cons.prems show ?thesis by (simp add: none)
  next
    case (Suc j')
    have "\<not> m cf" using Cons.prems(3) [rule_format, of 0] Suc by simp
    moreover have "score_from (Suc i) m cfs = Suc i + j' + 1"
    proof (rule Cons.IH)
      show "\<forall>k < length cfs. k \<noteq> j' \<longrightarrow> \<not> m (cfs ! k)"
        using Cons.prems(3) Suc by fastforce
    qed (use Cons.prems Suc in simp_all)
    ultimately show ?thesis using Suc by simp
  qed
qed simp

text \<open>Custom formats further down the list weigh more. A release matching only the format at
  position \<open>i\<close> scores \<open>i + 1\<close>, so of two releases that match one format each, the one matching the
  later format scores higher.\<close>

theorem later_formats_score_higher:
  assumes "i < j" and "j < length formats"
    and "\<forall>k < length formats. matches_all uc regex r1 (formats ! k) \<longleftrightarrow> k = i"
    and "\<forall>k < length formats. matches_all uc regex r2 (formats ! k) \<longleftrightarrow> k = j"
  shows "custom_format_score uc regex formats r1 = i + 1
    \<and> custom_format_score uc regex formats r1 < custom_format_score uc regex formats r2"
proof -
  have "custom_format_score uc regex formats r1 = i + 1"
    unfolding custom_format_score_def using assms by (subst score_from_nth [of i]) auto
  moreover have "custom_format_score uc regex formats r2 = j + 1"
    unfolding custom_format_score_def using assms by (subst score_from_nth [of j]) auto
  ultimately show ?thesis using assms(1) by simp
qed

subsection \<open>Instances\<close>

definition sample_release :: "string \<Rightarrow> string list \<Rightarrow> release" where
  "sample_release guid fs = \<lparr>rl_guid = guid, rl_indexer_id = 4, rl_title = ''A - T'', rl_size = 100,
     rl_age_minutes = 5, rl_protocol = ''torrent'', rl_language = [],
     rl_format = (if fs = [] then [] else hd fs), rl_formats = fs, rl_media_type = [],
     rl_volume_factor = Some (Finite 0)\<rparr>"

definition sample_book :: book where
  "sample_book = \<lparr>bk_id = 3, bk_title = ''T'', bk_file_path = [], bk_ebook_path = [], bk_audiobook_path = []\<rparr>"

definition sample_fns :: library_fns where
  "sample_fns = \<lparr>fn_unicode = ascii_uc, fn_narration = (\<lambda>t ts as. []), fn_show_g = (\<lambda>f. ''0.5''),
     fn_pack = (\<lambda>t b s ts. [])\<rparr>"

theorem evaluate_decides_witness:
  "map dc_approved (evaluate (map (is_satisfied_by sample_fns) [SizeLimitSpec 0 50, AlreadyImportedSpec])
      [sample_release ''g'' [''epub'']] sample_book) = [False]
   \<and> map dc_release (evaluate (map (is_satisfied_by sample_fns) [SizeLimitSpec 0 50, AlreadyImportedSpec])
      [sample_release ''g'' [''epub'']] sample_book) = [sample_release ''g'' [''epub'']]"
  using evaluate_decides [of sample_fns "[SizeLimitSpec 0 50, AlreadyImportedSpec]"
      "[sample_release ''g'' [''epub'']]" sample_book]
  by (simp add: evaluate_def decide_approved) (simp add: size_limit_spec_def sample_release_def)

theorem approved_is_safe_witness:
  "\<exists>d. d \<in> set (approved (evaluate (map (is_satisfied_by sample_fns)
        [BlocklistedSpec [\<lparr>bl_book_id = Some 9, bl_guid = ''g'', bl_scope = ''book''\<rparr>], FreeleechOnlySpec [(4, True)]])
        [sample_release ''g'' [''epub'']] sample_book))
     \<and> rl_volume_factor (dc_release d) = Some (Finite 0)"
proof -
  let ?vs = "[BlocklistedSpec [\<lparr>bl_book_id = Some 9, bl_guid = ''g'', bl_scope = ''book''\<rparr>],
      FreeleechOnlySpec [(4, True)]]"
  let ?r = "sample_release ''g'' [''epub'']"
  let ?d = "decide (map (is_satisfied_by sample_fns) ?vs) sample_book ?r"
  have "dc_approved ?d"
    unfolding decide_approved
    by (simp add: blocklisted_spec_def new_blocklisted_filter blocks_book_def effective_scope_def
        sample_book_def freeleech_only_spec_def sample_release_def)
  then have d: "?d \<in> set (approved (evaluate (map (is_satisfied_by sample_fns) ?vs) [?r] sample_book))"
    by (simp add: approved_def evaluate_def)
  have "rl_volume_factor (dc_release ?d) = Some (Finite 0)"
    using approved_is_safe [OF d, of "[\<lparr>bl_book_id = Some 9, bl_guid = ''g'', bl_scope = ''book''\<rparr>]" "[(4, True)]"]
    by (simp add: sample_release_def)
  with d show ?thesis by blast
qed

theorem quality_ignores_other_media_witness:
  "fst (quality_allowed ascii_uc (Some sample_profile) ''ebook'' (sample_release ''g'' [''pdf'']) sample_book)
   = fst (quality_allowed ascii_uc
       (Some (sample_profile\<lparr>qp_items := profile_list ascii_uc (Some sample_profile) media_ebook\<rparr>))
       ''ebook'' (sample_release ''g'' [''pdf'']) sample_book)"
proof (rule quality_ignores_other_media)
  have "media_type_for_format ascii_uc ''pdf'' = media_ebook" by code_simp
  then show "media_type_for_format ascii_uc (rl_format (sample_release ''g'' [''pdf''])) = media_ebook"
    and "\<forall>f \<in> set (rl_formats (sample_release ''g'' [''pdf''])). media_type_for_format ascii_uc f = media_ebook"
    by (simp_all add: sample_release_def)
qed simp

theorem quality_agrees_with_ranker_witness:
  "fst (quality_allowed ascii_uc (Some sample_profile) media_ebook (sample_release ''g'' [''mobi'']) sample_book)
   \<longleftrightarrow> \<not> has_opinion (new_profile_ranks ascii_uc (Some sample_profile)) media_ebook
    \<or> 0 < format_score ascii_uc (new_profile_ranks ascii_uc (Some sample_profile)) [''mobi''] media_ebook"
proof -
  have f: "rl_formats (sample_release ''g'' [''mobi'']) = [''mobi'']" by (simp add: sample_release_def)
  have "tokens_of_media_type ascii_uc [''mobi''] media_ebook = [''mobi'']" by code_simp
  moreover have "list_all (\<lambda>it. is_ascii (qi_quality it) \<and> trim_space (qi_quality it) = qi_quality it)
      (qp_items sample_profile)" by code_simp
  ultimately show ?thesis
    using quality_agrees_with_ranker [of media_ebook "sample_release ''g'' [''mobi'']" ascii_uc sample_profile sample_book]
    unfolding f by (simp add: list_all_iff format_tokens_def)
qed

theorem later_formats_score_higher_witness:
  "custom_format_score ascii_uc (\<lambda>p s. None)
     [[\<lparr>cc_type = ''format'', cc_pattern = ''epub'', cc_negate = False\<rparr>],
      [\<lparr>cc_type = ''format'', cc_pattern = ''pdf'', cc_negate = False\<rparr>]] (sample_release ''g'' [''epub''])
   < custom_format_score ascii_uc (\<lambda>p s. None)
     [[\<lparr>cc_type = ''format'', cc_pattern = ''epub'', cc_negate = False\<rparr>],
      [\<lparr>cc_type = ''format'', cc_pattern = ''pdf'', cc_negate = False\<rparr>]] (sample_release ''g'' [''pdf''])"
proof -
  let ?fs = "[[\<lparr>cc_type = ''format'', cc_pattern = ''epub'', cc_negate = False\<rparr>],
      [\<lparr>cc_type = ''format'', cc_pattern = ''pdf'', cc_negate = False\<rparr>]]"
  have "\<forall>k < length ?fs. matches_all ascii_uc (\<lambda>p s. None) (sample_release ''g'' [''epub'']) (?fs ! k) \<longleftrightarrow> k = 0"
    by (simp add: less_Suc_eq matches_all_def match_condition_def sample_release_def lower_byte_def)
  moreover have "\<forall>k < length ?fs. matches_all ascii_uc (\<lambda>p s. None) (sample_release ''g'' [''pdf'']) (?fs ! k) \<longleftrightarrow> k = 1"
    by (simp add: less_Suc_eq matches_all_def match_condition_def sample_release_def lower_byte_def)
  ultimately show ?thesis
    using later_formats_score_higher [of 0 1 ?fs ascii_uc "\<lambda>p s. None" "sample_release ''g'' [''epub'']"
        "sample_release ''g'' [''pdf'']"] by simp
qed

end
