(* ===== verification/Go_Strconv.thy ===== *)
theory Go_Strconv
  imports Go_Prelude
begin

text \<open>
  Decimal and hexadecimal text: the conversions of strconv and encoding/hex that the code uses, with
  the round trips between printing and parsing.
\<close>

subsection \<open>Decimal digits\<close>

definition dec_digit :: "char \<Rightarrow> bool" where
  "dec_digit c = (48 \<le> byte_of c \<and> byte_of c \<le> 57)"

definition digits_value :: "string \<Rightarrow> int" where
  "digits_value ds = foldl (\<lambda>n c. n * 10 + (int (byte_of c) - 48)) 0 ds"

lemma digit_char_digit: "n < 10 \<Longrightarrow> dec_digit (digit_char n) \<and> byte_of (digit_char n) = 48 + n"
  by (simp add: digit_char_def dec_digit_def)

lemma show_nat_digits: "list_all dec_digit (show_nat n) \<and> show_nat n \<noteq> []"
  by (induction n rule: show_nat.induct) (subst show_nat.simps, simp add: digit_char_digit)+

lemma digits_value_append: "digits_value (ds @ [c]) = digits_value ds * 10 + (int (byte_of c) - 48)"
  by (simp add: digits_value_def)

lemma digits_value_show: "digits_value (show_nat n) = int n"
proof (induction n rule: show_nat.induct)
  case (1 n)
  show ?case
  proof (cases "n < 10")
    case True
    then show ?thesis
      by (subst show_nat.simps) (simp add: digits_value_def digit_char_digit)
  next
    case False
    then have "digits_value (show_nat (n div 10)) = int (n div 10)" by (rule 1)
    moreover have "show_nat n = show_nat (n div 10) @ [digit_char (n mod 10)]"
      using False by (subst show_nat.simps) simp
    moreover have "int (byte_of (digit_char (n mod 10))) - 48 = int (n mod 10)"
      by (simp add: digit_char_digit)
    ultimately show ?thesis by (simp only: digits_value_append) (simp add: zdiv_int zmod_int)
  qed
qed

lemma take_digits:
  "list_all dec_digit ds \<Longrightarrow> \<not> dec_digit c \<Longrightarrow> takeWhile dec_digit (ds @ c # s) = ds"
  "list_all dec_digit ds \<Longrightarrow> \<not> dec_digit c \<Longrightarrow> dropWhile dec_digit (ds @ c # s) = c # s"
  by (induction ds) auto

lemma dec_digit_byte: "dec_digit c \<Longrightarrow> 0 \<le> int (byte_of c) - 48 \<and> int (byte_of c) - 48 < 10"
  by (simp add: dec_digit_def)

lemma digits_value_nonneg: "list_all dec_digit ds \<Longrightarrow> 0 \<le> digits_value ds"
proof (induction ds rule: rev_induct)
  case (snoc c ds)
  then have "0 \<le> digits_value ds" "0 \<le> int (byte_of c) - 48" using dec_digit_byte [of c] by auto
  then show ?case unfolding digits_value_append by linarith
qed (simp add: digits_value_def)

subsection \<open>\<open>strconv.ParseInt(s, 10, 64)\<close> and \<open>strconv.Atoi\<close>\<close>

text \<open>An optional sign, at least one digit, nothing else, and the value within an int64.\<close>

definition parse_int :: "string \<Rightarrow> int option" where
  "parse_int s =
     (let neg = (s \<noteq> [] \<and> hd s = CHR ''-'');
          ds = (if s \<noteq> [] \<and> (hd s = CHR ''-'' \<or> hd s = CHR ''+'') then tl s else s)
      in if ds = [] \<or> \<not> list_all dec_digit ds then None
         else
           (let v = (if neg then - digits_value ds else digits_value ds)
            in if - (2 ^ 63) \<le> v \<and> v < 2 ^ 63 then Some v else None))"

lemma show_nat_head: "show_nat n \<noteq> [] \<and> dec_digit (hd (show_nat n)) \<and> list_all dec_digit (show_nat n)"
  using show_nat_digits [of n] by (cases "show_nat n") auto

lemma not_sign: "dec_digit c \<Longrightarrow> c \<noteq> CHR ''-'' \<and> c \<noteq> CHR ''+''"
  by (auto simp: dec_digit_def)

lemma parse_show_nat: "int n < 2 ^ 63 \<Longrightarrow> parse_int (show_nat n) = Some (int n)"
  using show_nat_head [of n] not_sign by (simp add: parse_int_def digits_value_show)

lemma parse_show_int:
  assumes "- (2 ^ 63) \<le> i" and "i < 2 ^ 63"
  shows "parse_int (show_int i) = Some i"
proof (cases "i < 0")
  case True
  then show ?thesis
    using assms show_nat_head [of "nat (- i)"] by (simp add: parse_int_def show_int_def digits_value_show)
next
  case False
  then show ?thesis using assms parse_show_nat [of "nat i"] by (simp add: show_int_def)
qed

lemma show_int_chars: "c \<in> set (show_int i) \<Longrightarrow> dec_digit c \<or> c = CHR ''-''"
  using show_nat_head by (auto simp: show_int_def list_all_iff split: if_splits)

subsection \<open>Hexadecimal\<close>

text \<open>\<open>hex.EncodeToString\<close>: lower case.\<close>

definition hex_encode :: "string \<Rightarrow> string" where
  "hex_encode bs = concat (map (\<lambda>b. [digit_char (byte_of b div 16), digit_char (byte_of b mod 16)]) bs)"

definition hex_digit :: "char \<Rightarrow> bool" where
  "hex_digit c \<longleftrightarrow> dec_digit c \<or> 97 \<le> byte_of c \<and> byte_of c \<le> 102 \<or> 65 \<le> byte_of c \<and> byte_of c \<le> 70"

text \<open>Whether \<open>hex.DecodeString\<close> succeeds.\<close>

definition hex_decodes :: "string \<Rightarrow> bool" where
  "hex_decodes s \<longleftrightarrow> even (length s) \<and> list_all hex_digit s"

definition lower_hex :: "char \<Rightarrow> bool" where
  "lower_hex c \<longleftrightarrow> dec_digit c \<or> 97 \<le> byte_of c \<and> byte_of c \<le> 102"

lemma digit_char_lower_hex: "n < 16 \<Longrightarrow> lower_hex (digit_char n)"
  by (simp add: lower_hex_def dec_digit_def digit_char_def take_bit_eq_mod)

lemma byte_lt: "byte_of c < (256 :: nat)"
  by simp

lemma hex_encode_lower: "list_all lower_hex (hex_encode bs)"
proof -
  have "byte_of b div 16 < (16 :: nat)" for b :: char using byte_lt [of b] by linarith
  then show ?thesis by (auto simp: hex_encode_def list_all_iff digit_char_lower_hex)
qed

lemma length_hex_encode: "length (hex_encode bs) = 2 * length bs"
  by (induction bs) (simp_all add: hex_encode_def)

end
