(* ===== verification/Cooldown.thy ===== *)
theory Cooldown
  imports Go_Strconv
begin

text \<open>
  Rate-limit cooldowns (\<open>internal/indexer/cooldown.go\<close>, \<open>IsRateLimitError\<close> of
  \<open>internal/indexer/newznab/types.go\<close>): when an indexer says to stop, until when it is left alone.
  An error is what \<open>errors.As\<close> finds in its chain and its text. A level missing from the Go map
  reads as 0, so levels are a total function. \<open>now\<close> is the clock reading.
\<close>

subsection \<open>Errors and hints\<close>

record go_error =
  er_text :: string
  er_indexer_code :: "int option"
  er_http :: "(int \<times> duration) option"

definition is_rate_limit_error :: "go_error \<Rightarrow> bool" where
  "is_rate_limit_error e =
     (case er_indexer_code e of
        Some code \<Rightarrow> 500 \<le> code \<and> code \<le> 599
      | None \<Rightarrow>
          (case er_http e of
             Some (status, retry_after) \<Rightarrow> status = 429 \<or> status = 503 \<and> retry_after > 0
           | None \<Rightarrow> False))"

text \<open>The pieces of the retry hint expression, matched at the head of the text.\<close>

definition re_space :: "char \<Rightarrow> bool" where
  "re_space c = (byte_of c \<in> {9, 10, 12, 13, 32})"

fun eat_word :: "string \<Rightarrow> string \<Rightarrow> string option" where
  "eat_word [] s = Some s"
| "eat_word (w # ws) [] = None"
| "eat_word (w # ws) (c # s) = (if lower_byte c = w then eat_word ws s else None)"

definition eat_spaces1 :: "string \<Rightarrow> string option" where
  "eat_spaces1 s = (case s of [] \<Rightarrow> None | c # r \<Rightarrow> if re_space c then Some (dropWhile re_space r) else None)"

text \<open>
  The unit group: the word and its length, or \<open>Some None\<close> for the spelling with U+017F, which
  case folding matches but the switch on the lower-cased word does not know.
\<close>

definition long_s :: string where
  "long_s = map char_of [197 :: nat, 191]"

definition match_unit :: "string \<Rightarrow> duration option option" where
  "match_unit s =
     (if eat_word ''second'' s \<noteq> None then Some (Some second)
      else if has_prefix s long_s \<and> eat_word ''econd'' (drop 2 s) \<noteq> None then Some None
      else if eat_word ''minute'' s \<noteq> None then Some (Some minute)
      else if eat_word ''hour'' s \<noteq> None then Some (Some hour)
      else if eat_word ''day'' s \<noteq> None then Some (Some (24 * hour))
      else None)"

definition match_hint :: "string \<Rightarrow> (string \<times> duration option) option" where
  "match_hint s =
     Option.bind (eat_word ''retry'' s) (\<lambda>s1.
     Option.bind (eat_spaces1 s1) (\<lambda>s2.
     Option.bind (eat_word ''in'' s2) (\<lambda>s3.
     Option.bind (eat_spaces1 s3) (\<lambda>s4.
       let ds = takeWhile dec_digit s4 in
       if ds = [] then None
       else map_option (\<lambda>u. (ds, u)) (match_unit (dropWhile re_space (dropWhile dec_digit s4)))))))"

text \<open>\<open>FindStringSubmatch\<close>: the leftmost match.\<close>

fun find_hint :: "string \<Rightarrow> (string \<times> duration option) option" where
  "find_hint [] = None"
| "find_hint (c # s) = (case match_hint (c # s) of Some m \<Rightarrow> Some m | None \<Rightarrow> find_hint s)"

definition parse_retry_hint :: "string \<Rightarrow> duration option" where
  "parse_retry_hint desc =
     (case find_hint desc of
        None \<Rightarrow> None
      | Some (ds, unit) \<Rightarrow>
          if digits_value ds > 2 ^ 63 - 1 then None
          else (case unit of None \<Rightarrow> None | Some u \<Rightarrow> Some (wrap64 (digits_value ds * u))))"

subsection \<open>State and operations\<close>

record indexer =
  ix_id :: int
  ix_updated_at :: time
  ix_daily_query_limit :: "int option"

record cooldown_entry =
  ce_until :: time
  ce_reason :: string
  ce_recorded_at :: time

record indexer_cooldowns =
  cd_entries :: "int \<Rightarrow> cooldown_entry option"
  cd_levels :: "int \<Rightarrow> nat"

definition no_cooldowns :: indexer_cooldowns where
  "no_cooldowns = \<lparr>cd_entries = (\<lambda>_. None), cd_levels = (\<lambda>_. 0)\<rparr>"

definition min_rate_limit_cooldown :: duration where
  "min_rate_limit_cooldown = minute"

definition max_rate_limit_cooldown :: duration where
  "max_rate_limit_cooldown = 24 * hour"

definition cooldown_ladder :: "duration list" where
  "cooldown_ladder = [hour, 3 * hour, 6 * hour, 12 * hour, 24 * hour]"

text \<open>The server's own deadline: a Retry-After header, else the clause in the text.\<close>

definition hinted :: "go_error \<Rightarrow> duration option" where
  "hinted e =
     (case er_http e of
        Some (status, retry_after) \<Rightarrow>
          if retry_after > 0 then Some retry_after else parse_retry_hint (er_text e)
      | None \<Rightarrow> parse_retry_hint (er_text e))"

definition holding :: "time \<Rightarrow> cooldown_entry option \<Rightarrow> bool" where
  "holding now held = (case held of None \<Rightarrow> False | Some h \<Rightarrow> now < ce_until h)"

definition clamp_cooldown :: "duration \<Rightarrow> duration" where
  "clamp_cooldown d = max (min d max_rate_limit_cooldown) min_rate_limit_cooldown"

text \<open>The entry recorded for a hold of \<open>d\<close>, which never shortens a running one.\<close>

definition record_hold :: "int \<Rightarrow> go_error \<Rightarrow> time \<Rightarrow> duration \<Rightarrow> indexer_cooldowns \<Rightarrow> indexer_cooldowns" where
  "record_hold i e now d c =
     (let until = now + clamp_cooldown d;
          until' = (case cd_entries c i of
                      Some h \<Rightarrow> if now < ce_until h \<and> ce_until h > until then ce_until h else until
                    | None \<Rightarrow> until)
      in c\<lparr>cd_entries := (cd_entries c)(i \<mapsto>
             \<lparr>ce_until = until', ce_reason = er_text e, ce_recorded_at = now\<rparr>)\<rparr>)"

definition note_limit :: "indexer \<Rightarrow> go_error \<Rightarrow> time \<Rightarrow> indexer_cooldowns \<Rightarrow> bool \<times> indexer_cooldowns" where
  "note_limit idx e now c =
     (let i = ix_id idx in
      if i = 0 \<or> \<not> is_rate_limit_error e then (False, c)
      else (case hinted e of
              Some d \<Rightarrow> (True, record_hold i e now d c)
            | None \<Rightarrow>
                if holding now (cd_entries c i) then (True, c)
                else
                  let level = min (cd_levels c i) (length cooldown_ladder - 1) in
                  (True, record_hold i e now (cooldown_ladder ! level)
                           (c\<lparr>cd_levels := (cd_levels c)(i := level + 1)\<rparr>))))"

definition current :: "indexer \<Rightarrow> time \<Rightarrow> indexer_cooldowns
    \<Rightarrow> cooldown_entry option \<times> indexer_cooldowns" where
  "current idx now c =
     (let i = ix_id idx in
      if i = 0 then (None, c)
      else (case cd_entries c i of
              None \<Rightarrow> (None, c)
            | Some e \<Rightarrow>
                if ix_updated_at idx \<noteq> time_zero \<and> ix_updated_at idx > ce_recorded_at e then
                  (None, c\<lparr>cd_entries := (cd_entries c)(i := None), cd_levels := (cd_levels c)(i := 0)\<rparr>)
                else if \<not> now < ce_until e then (None, c\<lparr>cd_entries := (cd_entries c)(i := None)\<rparr>)
                else (Some e, c)))"

text \<open>\<open>active\<close>: the rounded time left and the indexer's message, the parts of the sentence shown.\<close>

definition active :: "indexer \<Rightarrow> time \<Rightarrow> indexer_cooldowns
    \<Rightarrow> (duration \<times> string) option \<times> indexer_cooldowns" where
  "active idx now c =
     (case current idx now c of
        (None, c') \<Rightarrow> (None, c')
      | (Some e, c') \<Rightarrow>
          (let remaining = duration_round (time_sub (ce_until e) now) minute in
           (Some (if remaining < minute then minute else remaining, ce_reason e), c')))"

definition relax :: "indexer \<Rightarrow> indexer_cooldowns \<Rightarrow> indexer_cooldowns" where
  "relax idx c =
     (if ix_id idx = 0 then c
      else if cd_levels c (ix_id idx) > 0
      then c\<lparr>cd_levels := (cd_levels c)(ix_id idx := cd_levels c (ix_id idx) - 1)\<rparr> else c)"

text \<open>\<open>Searcher.Cooldown\<close>.\<close>

definition cooldown :: "indexer \<Rightarrow> time \<Rightarrow> indexer_cooldowns \<Rightarrow> (time \<times> string \<times> bool) \<times> indexer_cooldowns" where
  "cooldown idx now c =
     (case current idx now c of
        (None, c') \<Rightarrow> ((time_zero, [], False), c')
      | (Some e, c') \<Rightarrow> ((ce_until e, ce_reason e, True), c'))"

subsection \<open>Holds are bounded\<close>

datatype cd_op = CdNote indexer go_error | CdCurrent indexer | CdRelax indexer

fun apply_cd_op :: "time \<times> cd_op \<Rightarrow> indexer_cooldowns \<Rightarrow> indexer_cooldowns" where
  "apply_cd_op (now, CdNote idx e) c = snd (note_limit idx e now c)"
| "apply_cd_op (now, CdCurrent idx) c = snd (current idx now c)"
| "apply_cd_op (now, CdRelax idx) c = relax idx c"

definition hold_ok :: "time \<Rightarrow> cooldown_entry \<Rightarrow> bool" where
  "hold_ok t h \<longleftrightarrow> ce_recorded_at h \<le> t
     \<and> ce_recorded_at h + minute \<le> ce_until h \<and> ce_until h \<le> ce_recorded_at h + 24 * hour"

definition cd_inv :: "time \<Rightarrow> indexer_cooldowns \<Rightarrow> bool" where
  "cd_inv t c \<longleftrightarrow> (\<forall>i h. cd_entries c i = Some h \<longrightarrow> hold_ok t h)
     \<and> (\<forall>i. cd_levels c i \<le> length cooldown_ladder) \<and> cd_entries c 0 = None"

lemma clamp_cooldown_bounds: "minute \<le> clamp_cooldown d" "clamp_cooldown d \<le> 24 * hour"
  by (simp_all add: clamp_cooldown_def min_rate_limit_cooldown_def max_rate_limit_cooldown_def time_units)

lemma hold_ok_mono: "hold_ok t h \<Longrightarrow> t \<le> u \<Longrightarrow> hold_ok u h"
  by (simp add: hold_ok_def)

lemma cd_inv_mono: "cd_inv t c \<Longrightarrow> t \<le> u \<Longrightarrow> cd_inv u c"
  unfolding cd_inv_def using hold_ok_mono by blast

lemma record_hold_ok:
  assumes "cd_inv t c" and "t \<le> now" and "i \<noteq> 0"
  shows "cd_inv now (record_hold i e now d c)"
proof -
  have "hold_ok now \<lparr>ce_until = (case cd_entries c i of
        Some h \<Rightarrow> if now < ce_until h \<and> ce_until h > now + clamp_cooldown d then ce_until h
                  else now + clamp_cooldown d
      | None \<Rightarrow> now + clamp_cooldown d), ce_reason = r, ce_recorded_at = now\<rparr>" for r
    using assms(1,2) clamp_cooldown_bounds [of d]
    by (auto simp: cd_inv_def hold_ok_def split: option.split) fastforce+
  moreover have "cd_inv now c" using assms(1,2) by (rule cd_inv_mono)
  ultimately show ?thesis
    using assms(3) by (auto simp: record_hold_def Let_def cd_inv_def)
qed

lemma note_inv:
  assumes "cd_inv t c" and "t \<le> now"
  shows "cd_inv now (snd (note_limit idx e now c))"
proof -
  have lv: "cd_inv t (c\<lparr>cd_levels := (cd_levels c)(i := min (cd_levels c i) (length cooldown_ladder - 1) + 1)\<rparr>)"
    for i
    using assms(1) by (auto simp: cd_inv_def cooldown_ladder_def)
  show ?thesis
    using cd_inv_mono [OF assms] record_hold_ok [OF assms] record_hold_ok [OF lv assms(2)]
    by (simp add: note_limit_def Let_def split: option.split)
qed

lemma current_inv: "cd_inv t c \<Longrightarrow> t \<le> now \<Longrightarrow> cd_inv now (snd (current idx now c))"
  by (drule (1) cd_inv_mono) (auto simp: current_def Let_def cd_inv_def split: option.split)

lemma relax_inv: "cd_inv t c \<Longrightarrow> t \<le> now \<Longrightarrow> cd_inv now (relax idx c)"
  by (drule (1) cd_inv_mono) (auto simp: relax_def cd_inv_def intro: order_trans [OF diff_le_self])

lemma apply_cd_op_inv: "cd_inv t c \<Longrightarrow> t \<le> fst a \<Longrightarrow> cd_inv (fst a) (apply_cd_op a c)"
  by (cases "(a, c)" rule: apply_cd_op.cases) (simp_all add: note_inv current_inv relax_inv)

lemma cd_history_inv:
  "cd_inv t c \<Longrightarrow> sorted (t # map fst ops) \<Longrightarrow> cd_inv (last (t # map fst ops)) (fold apply_cd_op ops c)"
proof (induction ops arbitrary: t c)
  case (Cons a ops)
  then have "cd_inv (fst a) (apply_cd_op a c)" by (intro apply_cd_op_inv) auto
  with Cons.IH [of "fst a" "apply_cd_op a c"] Cons.prems(2) show ?case by auto
qed simp

text \<open>No indexer can bench itself for more than a day, or with no effect. In any history of
  rate limits, searches and edits on a clock that does not run backwards, every hold ends between
  one minute and 24 hours after the refusal that last set it, so 24 hours after an indexer's last
  refusal it is not held, whatever it sent.\<close>

theorem cooldown_bounded:
  assumes "sorted (t0 # map fst ops)" and "last (t0 # map fst ops) \<le> now"
  shows "\<forall>h. fst (current idx now (fold apply_cd_op ops no_cooldowns)) = Some h \<longrightarrow>
      now < ce_until h \<and> ce_recorded_at h + minute \<le> ce_until h
      \<and> ce_until h \<le> ce_recorded_at h + 24 * hour \<and> now < ce_recorded_at h + 24 * hour"
proof -
  have "cd_inv t0 no_cooldowns" by (simp add: cd_inv_def no_cooldowns_def)
  from cd_history_inv [OF this assms(1)]
  show ?thesis by (fastforce simp: current_def Let_def cd_inv_def hold_ok_def split: option.splits if_splits)
qed

definition ix4 :: indexer where
  "ix4 = \<lparr>ix_id = 4, ix_updated_at = 0, ix_daily_query_limit = None\<rparr>"

definition limit_error :: "string \<Rightarrow> go_error" where
  "limit_error text = \<lparr>er_text = text, er_indexer_code = Some 500, er_http = None\<rparr>"

theorem cooldown_bounded_witness:
  "\<exists>h. fst (current ix4 hour (fold apply_cd_op [(0, CdNote ix4 (limit_error ''Retry in 90 days''))] no_cooldowns)) = Some h
    \<and> ce_until h \<le> 24 * hour"
proof -
  let ?ops = "[(0 :: int, CdNote ix4 (limit_error ''Retry in 90 days''))]"
  have "map_option ce_recorded_at (fst (current ix4 hour (fold apply_cd_op ?ops no_cooldowns))) = Some 0"
    by code_simp
  then obtain h where h: "fst (current ix4 hour (fold apply_cd_op ?ops no_cooldowns)) = Some h" "ce_recorded_at h = 0"
    by blast
  moreover have "ce_until h \<le> ce_recorded_at h + 24 * hour"
    using cooldown_bounded [of 0 ?ops hour ix4] h(1) by (simp add: time_units)
  ultimately show ?thesis by auto
qed

subsection \<open>Bursts, rungs and running holds\<close>

lemma note_unhinted_holding:
  "ix_id idx \<noteq> 0 \<Longrightarrow> is_rate_limit_error e \<Longrightarrow> hinted e = None \<Longrightarrow> holding now (cd_entries c (ix_id idx))
   \<Longrightarrow> note_limit idx e now c = (True, c)"
  by (simp add: note_limit_def)

lemma ladder_bounds: "k < length cooldown_ladder \<Longrightarrow> clamp_cooldown (cooldown_ladder ! k) = cooldown_ladder ! k"
  by (auto simp: cooldown_ladder_def less_Suc_eq clamp_cooldown_def min_rate_limit_cooldown_def
      max_rate_limit_cooldown_def time_units)

lemma note_unhinted_fresh:
  assumes "ix_id idx \<noteq> 0" and "is_rate_limit_error e" and "hinted e = None"
    and "\<not> holding now (cd_entries c (ix_id idx))"
  defines "k \<equiv> min (cd_levels c (ix_id idx)) 4"
  shows "snd (note_limit idx e now c) = \<lparr>cd_entries = (cd_entries c)(ix_id idx \<mapsto>
       \<lparr>ce_until = now + cooldown_ladder ! k, ce_reason = er_text e, ce_recorded_at = now\<rparr>),
     cd_levels = (cd_levels c)(ix_id idx := k + 1)\<rparr>"
proof -
  have k: "min (cd_levels c (ix_id idx)) (length cooldown_ladder - 1) = k" "k < length cooldown_ladder"
    by (simp_all add: k_def cooldown_ladder_def)
  show ?thesis
    using assms(1-4) k(1) ladder_bounds [OF k(2)]
    by (simp add: note_limit_def record_hold_def holding_def Let_def split: option.splits)
qed

text \<open>One burst costs one rung. When an indexer that is not held sends rate limits without a
  deadline of its own, the first one holds it for the step of the ladder its level names (an hour
  the first time, then 3, 6, 12 and 24, where it stays) and moves the level up by one; all
  further ones that arrive during that hold, however many, change nothing.\<close>

theorem one_burst_one_rung:
  assumes "ix_id idx \<noteq> 0" and "\<not> holding t0 (cd_entries c (ix_id idx))"
    and "\<forall>(t, e) \<in> set ((t0, e0) # burst). is_rate_limit_error e \<and> hinted e = None"
    and "\<forall>(t, e) \<in> set burst. t < t0 + cooldown_ladder ! min (cd_levels c (ix_id idx)) 4"
  shows "let c' = fold (\<lambda>(t, e) c. snd (note_limit idx e t c)) ((t0, e0) # burst) c in
    cd_entries c' (ix_id idx) = Some \<lparr>ce_until = t0 + cooldown_ladder ! min (cd_levels c (ix_id idx)) 4,
      ce_reason = er_text e0, ce_recorded_at = t0\<rparr>
    \<and> cd_levels c' (ix_id idx) = min (cd_levels c (ix_id idx)) 4 + 1"
proof -
  let ?u = "t0 + cooldown_ladder ! min (cd_levels c (ix_id idx)) 4"
  define c1 where "c1 = snd (note_limit idx e0 t0 c)"
  have first: "cd_entries c1 (ix_id idx) = Some \<lparr>ce_until = ?u, ce_reason = er_text e0, ce_recorded_at = t0\<rparr>"
    "cd_levels c1 (ix_id idx) = min (cd_levels c (ix_id idx)) 4 + 1"
    using note_unhinted_fresh [OF assms(1) _ _ assms(2), of e0] assms(3) by (simp_all add: c1_def)
  have step: "snd (note_limit idx e t c1) = c1" if "(t, e) \<in> set burst" for t e
    using note_unhinted_holding [OF assms(1), of e t c1] assms(3,4) that first(1)
    by (fastforce simp: holding_def)
  have "fold (\<lambda>(t, e) c. snd (note_limit idx e t c)) xs c1 = c1" if "set xs \<subseteq> set burst" for xs
    using that
  proof (induction xs)
    case (Cons x xs)
    then show ?case using step by (cases x) simp
  qed simp
  then show ?thesis using first by (simp add: Let_def c1_def)
qed

theorem one_burst_one_rung_witness:
  "map_option ce_until (cd_entries (fold (\<lambda>(t, e) c. snd (note_limit ix4 e t c))
      [(5, limit_error ''slow''), (6, limit_error ''down''), (7, limit_error ''now'')] no_cooldowns) 4) = Some (5 + hour)"
proof -
  have h: "hinted (limit_error s) = None" if "find_hint s = None" for s
    using that by (simp add: hinted_def limit_error_def parse_retry_hint_def)
  have "find_hint ''slow'' = None" "find_hint ''down'' = None" "find_hint ''now'' = None" by code_simp+
  then show ?thesis
    using one_burst_one_rung [of ix4 5 no_cooldowns "limit_error ''slow''"
        "[(6, limit_error ''down''), (7, limit_error ''now'')]"] h
    by (simp add: Let_def ix4_def no_cooldowns_def holding_def is_rate_limit_error_def limit_error_def
        cooldown_ladder_def time_units)
qed

text \<open>A running hold is never shortened, and never dropped, by another refusal, whatever
  deadline that one names.\<close>

theorem note_never_shortens:
  assumes "cd_entries c (ix_id idx) = Some h" and "now < ce_until h"
  shows "\<exists>h'. cd_entries (snd (note_limit other e now c)) (ix_id idx) = Some h' \<and> ce_until h \<le> ce_until h'"
  using assms by (auto simp: note_limit_def record_hold_def holding_def Let_def split: option.split)

theorem note_never_shortens_witness:
  "\<exists>h'. cd_entries (snd (note_limit ix4 (limit_error ''retry in 1 second'') 10
      (no_cooldowns\<lparr>cd_entries := [4 \<mapsto> \<lparr>ce_until = 5 * hour, ce_reason = [], ce_recorded_at = 0\<rparr>]\<rparr>))) (ix_id ix4) = Some h'
    \<and> 5 * hour \<le> ce_until h'"
  using note_never_shortens [of "no_cooldowns\<lparr>cd_entries := [4 \<mapsto> \<lparr>ce_until = 5 * hour, ce_reason = [], ce_recorded_at = 0\<rparr>]\<rparr>"
      ix4 "\<lparr>ce_until = 5 * hour, ce_reason = [], ce_recorded_at = 0\<rparr>" 10 ix4 "limit_error ''retry in 1 second''"]
  by (simp add: ix4_def time_units)

subsection \<open>The retry hint\<close>

lemma eat_word_append: "map lower_byte w = w \<Longrightarrow> eat_word w (w @ s) = Some s"
  by (induction w) auto

lemma eat_word_head: "lower_byte c \<noteq> w \<Longrightarrow> eat_word (w # ws) (c # s) = None"
  by simp

lemma find_hint_skip:
  "list_all (\<lambda>c. lower_byte c \<noteq> CHR ''r'') pre \<Longrightarrow> find_hint (pre @ s) = find_hint s"
  by (induction pre) (simp_all add: match_hint_def)

lemma drop_digits_space: "list_all dec_digit ds \<Longrightarrow> ds \<noteq> [] \<Longrightarrow> dropWhile re_space (ds @ s) = ds @ s"
  by (cases ds) (auto simp: dec_digit_def re_space_def)

text \<open>The hint parser reads back what an indexer's message says. For any number of minutes whose
  nanoseconds fit an int64, a message of the form "... retry in N minutes ..." (no r before the
  clause, anything after it) parses to N minutes.\<close>

theorem retry_hint_roundtrip:
  assumes "list_all (\<lambda>c. lower_byte c \<noteq> CHR ''r'') pre" and "int n * minute < 2 ^ 63"
  shows "parse_retry_hint (pre @ ''retry in '' @ show_nat n @ '' minutes'' @ post) = Some (int n * minute)"
proof -
  have ds: "list_all dec_digit (show_nat n)" "show_nat n \<noteq> []" using show_nat_digits by auto
  have sp: "\<not> dec_digit CHR '' ''" by (simp add: dec_digit_def)
  have cut: "takeWhile dec_digit (show_nat n @ CHR '' '' # x) = show_nat n"
    "dropWhile dec_digit (show_nat n @ CHR '' '' # x) = CHR '' '' # x"
    "dropWhile re_space (show_nat n @ x) = show_nat n @ x" for x
    using take_digits [OF ds(1) sp] drop_digits_space [OF ds] by auto
  have blank: "re_space CHR '' ''" "\<not> re_space CHR ''i''" "\<not> re_space CHR ''m''"
    by (simp_all add: re_space_def)
  have unit: "match_unit (''minutes'' @ post) = Some (Some minute)"
    by (simp add: match_unit_def lower_byte_def long_s_def has_prefix_def)
  have "match_hint (''retry in '' @ show_nat n @ '' minutes'' @ post) = Some (show_nat n, Some minute)"
    using ds(2) unit cut blank by (simp add: match_hint_def lower_byte_def eat_spaces1_def)
  then have "find_hint (pre @ ''retry in '' @ show_nat n @ '' minutes'' @ post) = Some (show_nat n, Some minute)"
    using find_hint_skip [OF assms(1)] by simp
  moreover have "int n \<le> 2 ^ 63 - 1" using assms(2) by (simp add: time_units)
  moreover have "wrap64 (int n * minute) = int n * minute"
    using assms(2) by (intro wrap64_id) (simp_all add: time_units)
  ultimately show ?thesis by (simp add: parse_retry_hint_def digits_value_show)
qed

theorem retry_hint_roundtrip_witness:
  "parse_retry_hint (''Limit. '' @ ''retry in '' @ show_nat 485 @ '' minutes'' @ ''.'') = Some (int 485 * minute)"
proof (rule retry_hint_roundtrip)
  show "list_all (\<lambda>c. lower_byte c \<noteq> CHR ''r'') ''Limit. ''" by code_simp
qed (simp add: time_units)

end
