(* ===== verification/Quota.thy ===== *)
theory Quota
  imports Cooldown
begin

text \<open>
  The daily query cap: \<open>internal/indexer/quota.go\<close> over the store of
  \<open>internal/db/indexer_query_counts.go\<close>. The buckets of one indexer are an association list, in the
  order the Go map is ranged over; a missing indexer is an empty list and a missing last flush
  the zero time. One record holds the in-memory tally and the stored table with the outcomes of
  its next statements. The mutex makes each operation atomic, except \<open>flush\<close>, which marks under
  the lock and writes outside it (\<open>flush_mark\<close>, \<open>flush_write\<close>).
\<close>

subsection \<open>Buckets\<close>

type_synonym buckets = "(time \<times> int) list"

definition quota_window :: duration where
  "quota_window = 24 * hour"

definition quota_flush_interval :: duration where
  "quota_flush_interval = 30 * second"

definition trunc_hour :: "time \<Rightarrow> time" where
  "trunc_hour t = t - t mod hour"

definition bucket :: "buckets \<Rightarrow> time \<Rightarrow> int" where
  "bucket b h = (case map_of b h of None \<Rightarrow> 0 | Some n \<Rightarrow> n)"

fun bump :: "time \<Rightarrow> int \<Rightarrow> buckets \<Rightarrow> buckets" where
  "bump h d [] = [(h, d)]"
| "bump h d ((h', n) # b) = (if h' = h then (h', n + d) # b else (h', n) # bump h d b)"

definition bucket_sum :: "time \<Rightarrow> buckets \<Rightarrow> int" where
  "bucket_sum k b = sum_list (map snd (filter (\<lambda>(h, n). k \<le> h) b))"

lemma bucket_bump: "bucket (bump h d b) k = bucket b k + (if k = h then d else 0)"
  by (induction h d b rule: bump.induct) (auto simp: bucket_def)

lemma bucket_sum_bump: "bucket_sum k (bump h d b) = bucket_sum k b + (if k \<le> h then d else 0)"
  by (induction h d b rule: bump.induct) (auto simp: bucket_sum_def)

lemma bucket_sum_filter: "k0 \<le> k \<Longrightarrow> bucket_sum k (filter (\<lambda>(h, n). k0 \<le> h) b) = bucket_sum k b"
  by (induction b) (auto simp: bucket_sum_def)

lemma trunc_hour_mono: "t \<le> u \<Longrightarrow> trunc_hour t \<le> trunc_hour u"
proof -
  have "trunc_hour x = hour * (x div hour)" for x
    unfolding trunc_hour_def by (simp add: minus_mod_eq_mult_div)
  moreover assume "t \<le> u"
  then have "t div hour \<le> u div hour" by (intro zdiv_mono1) (simp_all add: time_units)
  ultimately show ?thesis by (simp add: time_units)
qed

lemma trunc_hour_le: "trunc_hour t \<le> t \<and> t < trunc_hour t + hour"
  by (simp add: trunc_hour_def time_units)

subsection \<open>The store\<close>

record quota_sys =
  qt_loaded :: bool
  qt_counts :: "int \<Rightarrow> buckets"
  qt_flushed :: "int \<Rightarrow> buckets"
  qt_last_flush :: "int \<Rightarrow> time"
  st_rows :: "int \<Rightarrow> buckets"
  st_faults :: "bool list"

definition store_fails :: "quota_sys \<Rightarrow> bool" where
  "store_fails s = (st_faults s \<noteq> [] \<and> hd (st_faults s))"

definition next_call :: "quota_sys \<Rightarrow> quota_sys" where
  "next_call s = s\<lparr>st_faults := tl (st_faults s)\<rparr>"

definition load_query_counts :: "time \<Rightarrow> quota_sys \<Rightarrow> (int \<Rightarrow> buckets) option \<times> quota_sys" where
  "load_query_counts since s =
     (if store_fails s then None
      else Some (\<lambda>i. filter (\<lambda>(h, n). trunc_hour since \<le> h) (st_rows s i)), next_call s)"

definition add_query_count :: "int \<Rightarrow> time \<Rightarrow> int \<Rightarrow> quota_sys \<Rightarrow> bool \<times> quota_sys" where
  "add_query_count i hour_start delta s =
     (if delta \<le> 0 then (True, s)
      else if store_fails s then (False, next_call s)
      else (True, (next_call s)\<lparr>st_rows :=
              (st_rows s)(i := bump (trunc_hour hour_start) delta (st_rows s i))\<rparr>))"

definition prune_query_counts :: "time \<Rightarrow> quota_sys \<Rightarrow> bool \<times> quota_sys" where
  "prune_query_counts before s =
     (if store_fails s then (False, next_call s)
      else (True, (next_call s)\<lparr>st_rows :=
              (\<lambda>i. filter (\<lambda>(h, n). trunc_hour before \<le> h) (st_rows s i))\<rparr>))"

definition query_usage :: "int list \<Rightarrow> time \<Rightarrow> quota_sys \<Rightarrow> (int \<times> int) list option \<times> quota_sys" where
  "query_usage ids since s =
     (if store_fails s then None
      else Some (map (\<lambda>i. (i, bucket_sum (trunc_hour since) (st_rows s i)))
             (filter (\<lambda>i. filter (\<lambda>(h, n). trunc_hour since \<le> h) (st_rows s i) \<noteq> []) ids)), next_call s)"

subsection \<open>The tally\<close>

definition quota_limit :: "indexer \<Rightarrow> int option" where
  "quota_limit idx =
     (case ix_daily_query_limit idx of None \<Rightarrow> None | Some n \<Rightarrow> if n \<le> 0 then None else Some n)"

definition load :: "time \<Rightarrow> quota_sys \<Rightarrow> quota_sys" where
  "load now s =
     (if qt_loaded s then s
      else (case load_query_counts (now - quota_window) s of
              (None, s') \<Rightarrow> s'
            | (Some stored, s') \<Rightarrow> s'\<lparr>qt_loaded := True, qt_counts := stored, qt_flushed := stored\<rparr>))"

definition used_locked :: "int \<Rightarrow> time \<Rightarrow> quota_sys \<Rightarrow> int \<times> quota_sys" where
  "used_locked i now s =
     (let cutoff = trunc_hour (now - quota_window);
          aged = filter (\<lambda>(h, n). h < cutoff) (qt_counts s i)
      in (bucket_sum cutoff (qt_counts s i),
          s\<lparr>qt_counts := (qt_counts s)(i := filter (\<lambda>(h, n). cutoff \<le> h) (qt_counts s i)),
            qt_flushed := (qt_flushed s)(i := filter (\<lambda>(h, n). h \<notin> fst ` set aged) (qt_flushed s i))\<rparr>))"

definition frees_up_locked :: "int \<Rightarrow> time \<Rightarrow> quota_sys \<Rightarrow> duration" where
  "frees_up_locked i now s =
     (if qt_counts s i = [] then 0
      else
        let oldest = Min (set (map fst (qt_counts s i)));
            d = time_sub (oldest + (quota_window + hour)) now
        in duration_round (if d < minute then minute else d) minute)"

text \<open>\<open>hold\<close>: the used count, the limit and when it frees up, when the cap is reached.\<close>

definition quota_hold :: "indexer \<Rightarrow> time \<Rightarrow> quota_sys \<Rightarrow> (int \<times> int \<times> duration) option \<times> quota_sys" where
  "quota_hold idx now s =
     (case quota_limit idx of
        None \<Rightarrow> (None, s)
      | Some limit \<Rightarrow>
          if ix_id idx = 0 then (None, s)
          else
            let (used, s') = used_locked (ix_id idx) now (load now s)
            in if used < limit then (None, s')
               else (Some (used, limit, frees_up_locked (ix_id idx) now s'), s'))"

text \<open>\<open>budget\<close>: the ticket (indexer and limit), or nothing when there is no cap.\<close>

definition quota_budget :: "indexer \<Rightarrow> (int \<times> int) option" where
  "quota_budget idx =
     (case quota_limit idx of
        None \<Rightarrow> None
      | Some limit \<Rightarrow> if ix_id idx = 0 then None else Some (ix_id idx, limit))"

definition take_ticket :: "int \<times> int \<Rightarrow> time \<Rightarrow> quota_sys \<Rightarrow> bool \<times> quota_sys" where
  "take_ticket t now s =
     (case t of (i, limit) \<Rightarrow>
        let (used, s') = used_locked i now (load now s)
        in if used \<ge> limit then (False, s')
           else (True, s'\<lparr>qt_counts := (qt_counts s')(i := bump (trunc_hour now) 1 (qt_counts s' i))\<rparr>))"

text \<open>The part of \<open>flush\<close> under the lock: the outstanding deltas, marked as written.\<close>

definition pending_deltas :: "int \<Rightarrow> quota_sys \<Rightarrow> buckets" where
  "pending_deltas i s =
     filter (\<lambda>(h, d). d > 0)
       (map (\<lambda>(h, n). (h, n - bucket (qt_flushed s i) h)) (qt_counts s i))"

definition flush_mark :: "indexer \<Rightarrow> bool \<Rightarrow> time \<Rightarrow> quota_sys \<Rightarrow> buckets \<times> quota_sys" where
  "flush_mark idx force now s =
     (let i = ix_id idx; pending = pending_deltas i s in
      if i = 0 \<or> quota_limit idx = None then ([], s)
      else if \<not> force \<and> time_sub now (qt_last_flush s i) < quota_flush_interval then ([], s)
      else if pending = [] then ([], s)
      else (pending, s\<lparr>qt_last_flush := (qt_last_flush s)(i := now),
              qt_flushed := (qt_flushed s)(i := fold (\<lambda>(h, d) b. bump h d b) pending (qt_flushed s i))\<rparr>))"

fun flush_write :: "int \<Rightarrow> buckets \<Rightarrow> quota_sys \<Rightarrow> quota_sys" where
  "flush_write i [] s = s"
| "flush_write i ((h, d) # pending) s =
     (case add_query_count i h d s of
        (True, s') \<Rightarrow> flush_write i pending s'
      | (False, s') \<Rightarrow>
          flush_write i pending
            (s'\<lparr>qt_flushed := (qt_flushed s')(i := bump h (- d) (qt_flushed s' i))\<rparr>))"

definition flush :: "indexer \<Rightarrow> bool \<Rightarrow> time \<Rightarrow> quota_sys \<Rightarrow> quota_sys" where
  "flush idx force now s =
     (let (pending, s') = flush_mark idx force now s in
      if pending = [] then s'
      else snd (prune_query_counts (now - quota_window) (flush_write (ix_id idx) pending s')))"

subsection \<open>The cap is exact\<close>

text \<open>A run of the component: takes of any ticket, checks and flushes; the log, latest first,
  records which requests of which indexer were admitted when.\<close>

datatype q_op = QTake int int | QHold indexer | QFlush indexer bool

fun run_q :: "time \<times> q_op \<Rightarrow> quota_sys \<times> (int \<times> time) list \<Rightarrow> quota_sys \<times> (int \<times> time) list" where
  "run_q (now, QTake i limit) (s, log) =
     (case take_ticket (i, limit) now s of (ok, s') \<Rightarrow> (s', if ok then (i, now) # log else log))"
| "run_q (now, QHold idx) (s, log) = (snd (quota_hold idx now s), log)"
| "run_q (now, QFlush idx force) (s, log) = (flush idx force now s, log)"

definition admitted :: "int \<Rightarrow> (int \<times> time) list \<Rightarrow> time list" where
  "admitted i log = map snd (filter (\<lambda>(j, t). j = i) log)"

fun spaced :: "nat \<Rightarrow> time list \<Rightarrow> bool" where
  "spaced L [] = True"
| "spaced L (u # l) = (spaced L l \<and> length (filter (\<lambda>v. u - quota_window \<le> v) (u # l)) \<le> L)"

text \<open>\<open>l\<close> are the requests admitted since the stored counts were last read, latest first.\<close>

definition tally_inv :: "int \<Rightarrow> nat \<Rightarrow> time \<Rightarrow> quota_sys \<Rightarrow> time list \<Rightarrow> bool" where
  "tally_inv i L t s l \<longleftrightarrow> spaced L l
     \<and> (\<forall>k \<ge> trunc_hour (t - quota_window).
          int (length (filter (\<lambda>u. k \<le> trunc_hour u) l)) \<le> bucket_sum k (qt_counts s i))"

lemma tally_inv_later: "tally_inv i L t s l \<Longrightarrow> t \<le> u \<Longrightarrow> tally_inv i L u s l"
  using trunc_hour_mono [of "t - quota_window" "u - quota_window"]
  by (auto simp: tally_inv_def)

lemma used_locked_simps [simp]:
  "qt_loaded (snd (used_locked j now s)) = qt_loaded s"
  "fst (used_locked j now s) = bucket_sum (trunc_hour (now - quota_window)) (qt_counts s j)"
  "qt_counts (snd (used_locked j now s)) i =
     (if i = j then filter (\<lambda>(h, n). trunc_hour (now - quota_window) \<le> h) (qt_counts s j) else qt_counts s i)"
  by (simp_all add: used_locked_def Let_def)

lemma load_loaded [simp]: "qt_loaded s \<Longrightarrow> load now s = s"
  by (simp add: load_def)

lemma tally_inv_used:
  "tally_inv i L t s l \<Longrightarrow> t \<le> now \<Longrightarrow> tally_inv i L now (snd (used_locked j now s)) l"
  by (drule (1) tally_inv_later) (auto simp: tally_inv_def bucket_sum_filter)

lemma flush_write_counts: "qt_counts (flush_write i p s) = qt_counts s \<and> qt_loaded (flush_write i p s) = qt_loaded s"
  by (induction i p s rule: flush_write.induct)
     (auto simp: add_query_count_def next_call_def split: prod.splits bool.splits if_splits)

lemma flush_counts: "qt_counts (flush idx force now s) = qt_counts s \<and> qt_loaded (flush idx force now s) = qt_loaded s"
  by (auto simp: flush_def flush_mark_def prune_query_counts_def next_call_def flush_write_counts Let_def
      split: prod.splits)

lemma quota_hold_snd:
  "snd (quota_hold idx now s) = s \<or> snd (quota_hold idx now s) = snd (used_locked (ix_id idx) now (load now s))"
  by (cases "used_locked (ix_id idx) now (load now s)")
     (auto simp: quota_hold_def Let_def split: option.splits)

lemma take_ticket_cases:
  "take_ticket (j, limit) now s =
    (let s0 = load now s; s' = snd (used_locked j now s0) in
     if bucket_sum (trunc_hour (now - quota_window)) (qt_counts s0 j) \<ge> limit then (False, s')
     else (True, s'\<lparr>qt_counts := (qt_counts s')(j := bump (trunc_hour now) 1 (qt_counts s' j))\<rparr>))"
  using used_locked_simps(2) [of j now "load now s"]
  by (cases "used_locked j now (load now s)") (simp add: take_ticket_def Let_def)

text \<open>One request on a tally that counts the list \<open>l\<close>.\<close>

lemma tally_take:
  assumes inv: "tally_inv i L t (load now s) l" and "t \<le> now" and "j = i \<longrightarrow> limit \<le> int L"
    and take: "take_ticket (j, limit) now s = (ok, s')"
  shows "tally_inv i L now s' (if ok \<and> j = i then now # l else l)"
proof -
  let ?s' = "snd (used_locked j now (load now s))" and ?cut = "trunc_hour (now - quota_window)"
  have used: "tally_inv i L now ?s' l" using inv assms(2) by (rule tally_inv_used)
  show ?thesis
  proof (cases "bucket_sum ?cut (qt_counts (load now s) j) \<ge> limit")
    case True
    then show ?thesis using used take by (auto simp: take_ticket_cases Let_def)
  next
    case False
    then have s': "ok" "s' = ?s'\<lparr>qt_counts := (qt_counts ?s')(j := bump (trunc_hour now) 1 (qt_counts ?s' j))\<rparr>"
      using take by (auto simp: take_ticket_cases Let_def)
    show ?thesis
    proof (cases "j = i")
      case False
      with used s' show ?thesis by (simp add: tally_inv_def)
    next
      case True
      have lt: "bucket_sum ?cut (qt_counts (load now s) i) < int L" using False assms(3) True by simp
      have later: "int (length (filter (\<lambda>u. ?cut \<le> trunc_hour u) l)) \<le> bucket_sum ?cut (qt_counts (load now s) i)"
        using tally_inv_later [OF inv assms(2)] by (simp add: tally_inv_def)
      have "length (filter (\<lambda>v. now - quota_window \<le> v) l) \<le> length (filter (\<lambda>u. ?cut \<le> trunc_hour u) l)"
        by (rule length_filter_mono) (rule trunc_hour_mono)
      with later lt have "Suc (length (filter (\<lambda>v. now - quota_window \<le> v) l)) \<le> L"
        by linarith
      then have sp: "spaced L (now # l)"
        using inv by (simp add: tally_inv_def quota_window_def time_units)
      have "int (length (filter (\<lambda>u. k \<le> trunc_hour u) (now # l)))
          \<le> bucket_sum k (bump (trunc_hour now) 1 (qt_counts ?s' i))" if "?cut \<le> k" for k
        using used that by (simp add: tally_inv_def bucket_sum_bump)
      then show ?thesis
        using True sp s' by (simp add: tally_inv_def del: filter.simps)
    qed
  qed
qed

text \<open>The whole log: the requests counted since the counts were read, and those counted before, which are none when the
  counts were there from the start (\<open>b\<close>) or are not yet.\<close>

definition nonneg :: "buckets \<Rightarrow> bool" where
  "nonneg b \<longleftrightarrow> list_all (\<lambda>(h, n). 0 \<le> n) b"

definition quota_inv :: "bool \<Rightarrow> int \<Rightarrow> nat \<Rightarrow> time \<Rightarrow> quota_sys \<times> (int \<times> time) list \<Rightarrow> bool" where
  "quota_inv b i L t sl \<longleftrightarrow> (case sl of (s, log) \<Rightarrow>
     nonneg (st_rows s i) \<and> (b \<longrightarrow> qt_loaded s) \<and>
     (\<exists>l l0. admitted i log = l @ l0 \<and> tally_inv i L t s l \<and> spaced L l0 \<and> (b \<or> \<not> qt_loaded s \<longrightarrow> l0 = [])))"

lemma quota_invI:
  "admitted i log = l @ l0 \<Longrightarrow> tally_inv i L t s l \<Longrightarrow> spaced L l0 \<Longrightarrow> (b \<or> \<not> qt_loaded s \<Longrightarrow> l0 = []) \<Longrightarrow>
    nonneg (st_rows s i) \<Longrightarrow> (b \<Longrightarrow> qt_loaded s) \<Longrightarrow> quota_inv b i L t (s, log)"
  unfolding quota_inv_def by blast

lemma quota_invE:
  assumes "quota_inv b i L t (s, log)"
  obtains l l0 where "admitted i log = l @ l0" "tally_inv i L t s l" "spaced L l0" "b \<or> \<not> qt_loaded s \<Longrightarrow> l0 = []"
    "nonneg (st_rows s i)" "b \<Longrightarrow> qt_loaded s"
  using assms unfolding quota_inv_def by blast

lemma nonneg_sum: "nonneg b \<Longrightarrow> 0 \<le> bucket_sum k b"
  unfolding bucket_sum_def nonneg_def list_all_iff by (intro sum_list_nonneg) auto

lemma nonneg_bump: "nonneg b \<Longrightarrow> 0 < d \<Longrightarrow> nonneg (bump h d b)"
  by (induction h d b rule: bump.induct) (auto simp: nonneg_def)

lemma nonneg_filter: "nonneg b \<Longrightarrow> nonneg (filter p b)"
  by (auto simp: nonneg_def list_all_iff)

lemma nonneg_flush_write: "nonneg (st_rows s j) \<Longrightarrow> nonneg (st_rows (flush_write i p s) j)"
proof (induction p arbitrary: s)
  case (Cons hd p)
  obtain h d where hd: "hd = (h, d)" by fastforce
  obtain ok s1 where add: "add_query_count i h d s = (ok, s1)" by (rule prod.exhaust)
  have "nonneg (st_rows s1 j)"
    using Cons.prems add by (auto simp: add_query_count_def next_call_def not_le intro: nonneg_bump split: if_splits)
  then show ?case using Cons.IH by (cases ok) (simp_all add: hd add)
qed simp

lemma nonneg_flush: "nonneg (st_rows s j) \<Longrightarrow> nonneg (st_rows (flush idx force now s) j)"
  by (auto simp: flush_def flush_mark_def prune_query_counts_def next_call_def nonneg_flush_write nonneg_filter Let_def
      split: prod.splits)

lemma nonneg_used [simp]: "st_rows (snd (used_locked j now s)) = st_rows s"
  by (simp add: used_locked_def Let_def)

lemma load_simps [simp]: "st_rows (load now s) = st_rows s" "qt_loaded s \<Longrightarrow> qt_loaded (load now s)"
  by (auto simp: load_def load_query_counts_def next_call_def)

text \<open>A read of the stored counts that succeeds late starts a new list.\<close>

lemma quota_inv_load:
  assumes "quota_inv b i L t (s, log)"
  shows "quota_inv b i L t (load now s, log)"
  using assms
proof (rule quota_invE)
  fix l l0
  assume l: "admitted i log = l @ l0" "tally_inv i L t s l" "spaced L l0" "b \<or> \<not> qt_loaded s \<Longrightarrow> l0 = []"
    "nonneg (st_rows s i)" "b \<Longrightarrow> qt_loaded s"
  show ?thesis
  proof (cases "qt_loaded s \<or> store_fails s")
    case True
    then have "qt_counts (load now s) = qt_counts s" "qt_loaded (load now s) = qt_loaded s"
      by (auto simp: load_def load_query_counts_def next_call_def)
    with l show ?thesis by (intro quota_invI [of i log l l0]) (simp_all add: tally_inv_def)
  next
    case False
    then have s': "qt_loaded (load now s)" "nonneg (qt_counts (load now s) i)"
      using l(5) by (auto simp: load_def load_query_counts_def next_call_def nonneg_filter)
    then have "tally_inv i L t (load now s) []" by (simp add: tally_inv_def nonneg_sum)
    moreover have "l0 = []" "\<not> b" "spaced L l" using l(2,4,6) False by (auto simp: tally_inv_def)
    ultimately show ?thesis using l(1,5) s'(1) by (intro quota_invI [of i log "[]" l]) simp_all
  qed
qed

lemma quota_inv_used:
  assumes "quota_inv b i L t (s, log)" and "t \<le> now"
  shows "quota_inv b i L now (snd (used_locked j now s), log)"
  using assms(1) by (rule quota_invE) (rule quota_invI, auto intro: tally_inv_used [OF _ assms(2)])

lemma quota_inv_later:
  assumes "quota_inv b i L t (s, log)" and "t \<le> now"
  shows "quota_inv b i L now (s, log)"
  using assms(1) by (rule quota_invE) (rule quota_invI, auto intro: tally_inv_later [OF _ assms(2)])

lemma quota_inv_flush:
  assumes "quota_inv b i L t (s, log)"
  shows "quota_inv b i L t (flush idx force now s, log)"
  using assms by (rule quota_invE) (rule quota_invI, auto simp: flush_counts nonneg_flush tally_inv_def)

lemma quota_inv_take:
  assumes "quota_inv b i L t (s, log)" and "t \<le> now" and "j = i \<longrightarrow> limit \<le> int L"
  shows "quota_inv b i L now (run_q (now, QTake j limit) (s, log))"
proof -
  obtain ok s' where take: "take_ticket (j, limit) now s = (ok, s')" by (rule prod.exhaust)
  obtain l l0 where l: "admitted i log = l @ l0" "tally_inv i L t (load now s) l" "spaced L l0"
      "b \<or> \<not> qt_loaded (load now s) \<longrightarrow> l0 = []" "nonneg (st_rows s i)" "b \<longrightarrow> qt_loaded (load now s)"
    using quota_inv_load [OF assms(1), of now] by (auto simp: quota_inv_def)
  have s': "st_rows s' = st_rows s" "qt_loaded s' = qt_loaded (load now s)"
    using take by (auto simp: take_ticket_cases Let_def split: if_splits)
  have "tally_inv i L now s' (if ok \<and> j = i then now # l else l)" by (rule tally_take [OF l(2) assms(2,3) take])
  moreover have run: "run_q (now, QTake j limit) (s, log) = (s', if ok then (j, now) # log else log)" by (simp add: take)
  moreover have "admitted i (if ok then (j, now) # log else log) = (if ok \<and> j = i then now # l else l) @ l0"
    using l(1) by (simp add: admitted_def)
  ultimately have "\<exists>l l0. admitted i (if ok then (j, now) # log else log) = l @ l0 \<and> tally_inv i L now s' l \<and> spaced L l0
      \<and> (b \<or> \<not> qt_loaded s' \<longrightarrow> l0 = [])"
    using l(3,4) s'(2) by metis
  then show ?thesis
    unfolding quota_inv_def run prod.case using l(5,6) s' by metis
qed

lemma tally_step:
  assumes "quota_inv b i L t sl" and "t \<le> fst a"
    and "case snd a of QTake j limit \<Rightarrow> j = i \<longrightarrow> limit \<le> int L | _ \<Rightarrow> True"
  shows "quota_inv b i L (fst a) (run_q a sl)"
proof (cases "(a, sl)" rule: run_q.cases)
  case (1 now j limit s log)
  with assms quota_inv_take show ?thesis by simp
next
  case (2 now idx s log)
  have "quota_inv b i L now (s, log)" using assms(1,2) 2 quota_inv_later by fastforce
  moreover have "quota_inv b i L now (snd (used_locked (ix_id idx) now (load now s)), log)"
    using assms(1,2) 2 quota_inv_used quota_inv_load by fastforce
  ultimately show ?thesis using 2 quota_hold_snd [of idx now s] by auto
next
  case (3 now idx force s log)
  then show ?thesis using quota_inv_flush [OF quota_inv_later] assms(1,2) by simp
qed

lemma spaced_window:
  "spaced L l \<Longrightarrow> length (filter (\<lambda>v. t - quota_window \<le> v \<and> v \<le> t) l) \<le> L"
proof (induction l)
  case (Cons u l)
  show ?case
  proof (cases "u \<le> t")
    case True
    have "length (filter (\<lambda>v. t - quota_window \<le> v \<and> v \<le> t) (u # l))
        \<le> length (filter (\<lambda>v. u - quota_window \<le> v) (u # l))"
      using True by (intro length_filter_mono) linarith
    with Cons.prems show ?thesis by (simp del: filter.simps)
  qed (use Cons in simp)
qed simp

text \<open>C5: the daily cap. In any history of one process on a clock that does not run backwards, with requests, checks and
  flushes in any order and the store failing at will, no 24 hours see more admitted requests of an indexer than its cap once
  the stored counts have been read. While they cannot be read the process counts on its own, and a read that succeeds late
  replaces that tally: over such a history no 24 hours see more than twice the cap.\<close>

theorem quota_never_exceeded:
  assumes "sorted (map fst ops)" and "nonneg (qt_counts s i)" and "nonneg (st_rows s i)"
    and "\<forall>a \<in> set ops. case snd a of QTake j limit \<Rightarrow> j = i \<longrightarrow> limit \<le> int L | _ \<Rightarrow> True"
  shows "length (filter (\<lambda>v. t - quota_window \<le> v \<and> v \<le> t)
      (admitted i (snd (fold run_q ops (s, []))))) \<le> (if qt_loaded s then L else 2 * L)"
proof -
  have run: "\<exists>u. quota_inv b i L u (fold run_q xs sl)"
    if "quota_inv b i L t0 sl" "sorted (t0 # map fst xs)" "set xs \<subseteq> set ops" for b xs t0 sl
    using that
  proof (induction xs arbitrary: t0 sl)
    case (Cons a xs)
    then have "quota_inv b i L (fst a) (run_q a sl)" using assms(4) by (intro tally_step) auto
    with Cons show ?case by auto
  qed auto
  have "quota_inv (qt_loaded s) i L (case ops of [] \<Rightarrow> 0 | a # _ \<Rightarrow> fst a) (s, [])"
    using assms(2,3) nonneg_sum by (simp add: quota_inv_def tally_inv_def admitted_def)
  then obtain u where "quota_inv (qt_loaded s) i L u (fold run_q ops (s, []))"
    using run [of "qt_loaded s" "case ops of [] \<Rightarrow> 0 | a # _ \<Rightarrow> fst a" "(s, [])" ops] assms(1)
    by (cases ops) (auto simp del: run_q.simps)
  then obtain l l0 where "admitted i (snd (fold run_q ops (s, []))) = l @ l0" "spaced L l" "spaced L l0"
      "qt_loaded s \<longrightarrow> l0 = []"
    by (auto simp: quota_inv_def tally_inv_def split: prod.splits)
  then show ?thesis using spaced_window [of L l t] spaced_window [of L l0 t] by auto
qed

definition fresh_quota :: "bool list \<Rightarrow> quota_sys" where
  "fresh_quota fs = \<lparr>qt_loaded = False, qt_counts = (\<lambda>_. []), qt_flushed = (\<lambda>_. []),
     qt_last_flush = (\<lambda>_. time_zero), st_rows = (\<lambda>_. []), st_faults = fs\<rparr>"

text \<open>A cap of 2, a store whose first read fails: the second read forgets the first request, and three are let through.\<close>

theorem quota_never_exceeded_witness:
  "length (filter (\<lambda>v. 5 * hour - quota_window \<le> v \<and> v \<le> 5 * hour)
      (admitted 4 (snd (fold run_q [(hour, QTake 4 2), (2 * hour, QTake 4 2), (3 * hour, QTake 4 2)]
        (load 0 (fresh_quota []), []))))) \<le> 2 \<and>
   length (filter (\<lambda>v. 5 * hour - quota_window \<le> v \<and> v \<le> 5 * hour)
      (admitted 4 (snd (fold run_q [(hour, QTake 4 2), (2 * hour, QTake 4 2), (3 * hour, QTake 4 2), (4 * hour, QTake 4 2)]
        (fresh_quota [True], []))))) \<in> {3..4}"
proof
  let ?s = "load 0 (fresh_quota [])"
  have "qt_loaded ?s" "nonneg (qt_counts ?s 4)" "nonneg (st_rows ?s 4)"
    by (simp_all add: load_def load_query_counts_def fresh_quota_def store_fails_def next_call_def nonneg_def)
  then show "length (filter (\<lambda>v. 5 * hour - quota_window \<le> v \<and> v \<le> 5 * hour)
      (admitted 4 (snd (fold run_q [(hour, QTake 4 2), (2 * hour, QTake 4 2), (3 * hour, QTake 4 2)] (?s, []))))) \<le> 2"
    using quota_never_exceeded [of "[(hour, QTake 4 2), (2 * hour, QTake 4 2), (3 * hour, QTake 4 2)]" ?s 4 2 "5 * hour"]
    by (simp add: time_units)
  have "length (filter (\<lambda>v. 5 * hour - quota_window \<le> v \<and> v \<le> 5 * hour)
      (admitted 4 (snd (fold run_q [(hour, QTake 4 2), (2 * hour, QTake 4 2), (3 * hour, QTake 4 2), (4 * hour, QTake 4 2)]
        (fresh_quota [True], []))))) = 3" by code_simp
  then show "length (filter (\<lambda>v. 5 * hour - quota_window \<le> v \<and> v \<le> 5 * hour)
      (admitted 4 (snd (fold run_q [(hour, QTake 4 2), (2 * hour, QTake 4 2), (3 * hour, QTake 4 2), (4 * hour, QTake 4 2)]
        (fresh_quota [True], []))))) \<in> {3..4}" by simp
qed

subsection \<open>Flushing\<close>

lemma bucket_fold_bump:
  "bucket (fold (\<lambda>(h, d) b. bump h d b) p b) k = bucket b k + sum_list (map snd (filter (\<lambda>(h, d). h = k) p))"
  by (induction p arbitrary: b) (auto simp: bucket_bump)

lemma flush_write_conserves:
  "list_all (\<lambda>(h, d). 0 < d \<and> trunc_hour h = h) p \<Longrightarrow>
     bucket (st_rows (flush_write i p s) i) k - bucket (qt_flushed (flush_write i p s) i) k
     = bucket (st_rows s i) k - bucket (qt_flushed s i) k + sum_list (map snd (filter (\<lambda>(h, d). h = k) p))"
proof (induction p arbitrary: s)
  case (Cons hd p)
  obtain h d where hd: "hd = (h, d)" by fastforce
  define s1 where "s1 = (if store_fails s
      then (next_call s)\<lparr>qt_flushed := (qt_flushed s)(i := bump h (- d) (qt_flushed s i))\<rparr>
      else (next_call s)\<lparr>st_rows := (st_rows s)(i := bump h d (st_rows s i))\<rparr>)"
  have d: "0 < d" "trunc_hour h = h" and p: "list_all (\<lambda>(h, d). 0 < d \<and> trunc_hour h = h) p"
    using Cons.prems by (simp_all add: hd)
  have "flush_write i (hd # p) s = flush_write i p s1"
    using d by (simp add: hd s1_def add_query_count_def next_call_def)
  moreover have "bucket (st_rows s1 i) k - bucket (qt_flushed s1 i) k
      = bucket (st_rows s i) k - bucket (qt_flushed s i) k + (if h = k then d else 0)"
    by (simp add: s1_def next_call_def bucket_bump)
  ultimately show ?case using Cons.IH [OF p, of s1] by (simp add: hd)
qed simp

text \<open>A flush writes each counted request once, whatever fails. For every hour still in the
  window, what is stored and what is recorded as written change by the same amount, and the tally
  itself does not change: a failed write stays owed and a successful one is never sent again.\<close>

theorem flush_conserves:
  assumes "\<forall>h \<in> set (map fst (qt_counts s (ix_id idx))). trunc_hour h = h"
    and "trunc_hour (now - quota_window) \<le> k"
  shows "bucket (st_rows (flush idx force now s) (ix_id idx)) k
      - bucket (qt_flushed (flush idx force now s) (ix_id idx)) k
    = bucket (st_rows s (ix_id idx)) k - bucket (qt_flushed s (ix_id idx)) k
    \<and> qt_counts (flush idx force now s) = qt_counts s"
proof -
  let ?i = "ix_id idx"
  have prune: "bucket (st_rows (snd (prune_query_counts (now - quota_window) s')) j) k = bucket (st_rows s' j) k
      \<and> qt_flushed (snd (prune_query_counts (now - quota_window) s')) = qt_flushed s'" for s' j
  proof -
    have "map_of (filter (\<lambda>(h, n). trunc_hour (now - quota_window) \<le> h) b) k = map_of b k" for b :: buckets
      using assms(2) by (induction b) auto
    then show ?thesis by (simp add: prune_query_counts_def next_call_def bucket_def)
  qed
  obtain p s1 where m: "flush_mark idx force now s = (p, s1)" by fastforce
  show ?thesis
  proof (cases "p = []")
    case True
    then have "s1 = s" using m by (auto simp: flush_mark_def Let_def split: if_splits)
    with True m show ?thesis by (simp add: flush_def)
  next
    case False
    then have p: "p = pending_deltas ?i s" and s1: "st_rows s1 = st_rows s"
      "qt_flushed s1 ?i = fold (\<lambda>(h, d) b. bump h d b) p (qt_flushed s ?i)"
      using m by (auto simp: flush_mark_def Let_def split: if_splits)
    have "list_all (\<lambda>(h, d). 0 < d \<and> trunc_hour h = h) p"
      using assms(1) by (auto simp: p pending_deltas_def list_all_iff)
    from flush_write_conserves [OF this, of ?i s1 k] show ?thesis
      using False m prune flush_counts [of idx force now s]
      by (simp add: flush_def s1 bucket_fold_bump)
  qed
qed

theorem flush_conserves_witness:
  "let s = (load 0 (fresh_quota []))\<lparr>qt_counts := (\<lambda>i. [(hour, 3)])\<rparr>;
       s' = flush (ix4\<lparr>ix_daily_query_limit := Some 9\<rparr>) True hour s
   in bucket (st_rows s' 4) hour - bucket (qt_flushed s' 4) hour = 0 \<and> bucket (st_rows s' 4) hour = 3"
proof -
  let ?s = "(load 0 (fresh_quota []))\<lparr>qt_counts := (\<lambda>i. [(hour, 3)])\<rparr>"
  let ?ix = "ix4\<lparr>ix_daily_query_limit := Some 9\<rparr>"
  have "bucket (st_rows (flush ?ix True hour ?s) (ix_id ?ix)) hour
      - bucket (qt_flushed (flush ?ix True hour ?s) (ix_id ?ix)) hour
    = bucket (st_rows ?s (ix_id ?ix)) hour - bucket (qt_flushed ?s (ix_id ?ix)) hour"
    using flush_conserves [of ?s ?ix hour hour True] by (simp add: trunc_hour_def quota_window_def time_units)
  moreover have "bucket (st_rows (flush ?ix True hour ?s) 4) hour = 3" by code_simp
  moreover have "bucket (st_rows ?s 4) hour = 0" "bucket (qt_flushed ?s 4) hour = 0" by code_simp+
  ultimately show ?thesis by (simp add: Let_def ix4_def)
qed

text \<open>Requests counted while the stored counts cannot be read are forgotten when a later read
  succeeds. With a cap of one and a store whose first read fails, the first request is admitted
  and counted, the second one reads the (empty) store successfully, which replaces the tally, and
  is admitted too; the first is neither counted nor ever written.\<close>

theorem late_load_forgets:
  "let (ok1, s1) = take_ticket (4, 1) hour (fresh_quota [True]);
       (ok2, s2) = take_ticket (4, 1) (hour + minute) s1;
       s3 = flush (ix4\<lparr>ix_daily_query_limit := Some 1\<rparr>) True (hour + 2 * minute) s2
   in ok1 \<and> ok2 \<and> bucket (st_rows s3 4) hour = 1"
  by code_simp

end
