(* ===== verification/Login_Limiter.thy ===== *)
theory Login_Limiter
  imports Go_Prelude
begin

text \<open>
  The failed-login limiter, \<open>internal/auth/ratelimit.go\<close>. The bucket map is an association list
  in the order the Go map happens to be ranged over; as Go leaves that order and the order of
  equal elements under \<open>sort.Slice\<close> open, every tie-break of an eviction is the one of some list.
  \<open>grp\<close> stands for \<open>LoginAddressGroup\<close>, which parses the address with net/netip.
\<close>

subsection \<open>The bucket map\<close>

type_synonym events = "(string \<times> time list) list"

definition ev :: "events \<Rightarrow> string \<Rightarrow> time list" where
  "ev es k = (case map_of es k of None \<Rightarrow> [] | Some ts \<Rightarrow> ts)"

definition has_key :: "events \<Rightarrow> string \<Rightarrow> bool" where
  "has_key es k = (k \<in> fst ` set es)"

fun put :: "string \<Rightarrow> time list \<Rightarrow> events \<Rightarrow> events" where
  "put k ts [] = [(k, ts)]"
| "put k ts ((k', ts') # es) = (if k' = k then (k, ts) # es else (k', ts') # put k ts es)"

definition del :: "string \<Rightarrow> events \<Rightarrow> events" where
  "del k es = filter (\<lambda>(k', ts). k' \<noteq> k) es"

lemma ev_put [simp]: "ev (put k ts es) j = (if j = k then ts else ev es j)"
  by (induction k ts es rule: put.induct) (auto simp: ev_def)

lemma ev_del [simp]: "ev (del k es) j = (if j = k then [] else ev es j)"
proof -
  have "map_of (del k es) j = (if j = k then None else map_of es j)"
    by (induction es) (auto simp: del_def)
  then show ?thesis by (simp add: ev_def)
qed

lemma has_key_put [simp]: "has_key (put k ts es) j \<longleftrightarrow> j = k \<or> has_key es j"
  by (induction k ts es rule: put.induct) (auto simp: has_key_def)

lemma has_key_del [simp]: "has_key (del k es) j \<longleftrightarrow> j \<noteq> k \<and> has_key es j"
  by (auto simp: has_key_def del_def)

lemma length_put: "length (put k ts es) = (if has_key es k then length es else length es + 1)"
  by (induction k ts es rule: put.induct) (auto simp: has_key_def)

lemma keys_put: "fst ` set (put k ts es) = insert k (fst ` set es)"
  by (induction k ts es rule: put.induct) auto

lemma distinct_put: "distinct (map fst es) \<Longrightarrow> distinct (map fst (put k ts es))"
proof (induction k ts es rule: put.induct)
  case (2 k ts k' ts' es)
  then show ?case using keys_put [of k ts es] by auto
qed simp

lemma distinct_del: "distinct (map fst es) \<Longrightarrow> distinct (map fst (del k es))"
  by (simp add: del_def distinct_map_filter)

lemma length_del: "length (del k es) \<le> length es"
  by (simp add: del_def)

lemma set_put: "set (put k ts es) \<subseteq> insert (k, ts) (set es)"
  by (induction k ts es rule: put.induct) auto

lemma ev_no_key: "\<not> has_key es k \<Longrightarrow> ev es k = []"
  by (auto simp: ev_def has_key_def split: option.split dest!: map_of_SomeD intro: rev_image_eqI)

lemma ev_member: "distinct (map fst es) \<Longrightarrow> (k, ts) \<in> set es \<Longrightarrow> ev es k = ts"
  by (simp add: ev_def)

subsection \<open>The limiter\<close>

record login_limiter =
  ll_events :: events
  ll_max :: nat
  ll_window :: duration
  ll_last_sweep :: time
  ll_max_keys :: nat
  ll_last_cap_purge :: time
  ll_cap_purge_every :: duration
  ll_group_keys :: "(string \<times> time \<times> nat) list"

definition max_pair_keys_per_group :: nat where
  "max_pair_keys_per_group = 64"

definition default_max_keys :: nat where
  "default_max_keys = 100000"

definition login_address_factor :: nat where
  "login_address_factor = 4"

definition max_login_name_len :: nat where
  "max_login_name_len = 128"

definition new_login_limiter :: "nat \<Rightarrow> duration \<Rightarrow> time \<Rightarrow> login_limiter" where
  "new_login_limiter m window now = \<lparr>ll_events = [], ll_max = m, ll_window = window,
     ll_last_sweep = now, ll_max_keys = default_max_keys, ll_last_cap_purge = time_zero,
     ll_cap_purge_every = 5 * second, ll_group_keys = []\<rparr>"

definition purge_events :: "time \<Rightarrow> events \<Rightarrow> events" where
  "purge_events cutoff es = filter (\<lambda>(k, ts). ts \<noteq> [] \<and> cutoff < last ts) es"

definition purge :: "time \<Rightarrow> login_limiter \<Rightarrow> login_limiter" where
  "purge now l = l\<lparr>ll_last_sweep := now, ll_events := purge_events (now - ll_window l) (ll_events l)\<rparr>"

definition sweep :: "time \<Rightarrow> login_limiter \<Rightarrow> login_limiter" where
  "sweep now l = (if time_sub now (ll_last_sweep l) < ll_window l then l else purge now l)"

definition gc :: "string \<Rightarrow> time \<Rightarrow> login_limiter \<Rightarrow> login_limiter" where
  "gc k now l =
     (let rest = dropWhile (\<lambda>t. \<not> now - ll_window l < t) (ev (ll_events l) k) in
      l\<lparr>ll_events := (if rest = [] then del k (ll_events l) else put k rest (ll_events l))\<rparr>)"

definition add_event :: "string \<Rightarrow> time \<Rightarrow> login_limiter \<Rightarrow> login_limiter" where
  "add_event k now l = l\<lparr>ll_events := put k (ev (ll_events l) k @ [now]) (ll_events l)\<rparr>"

definition allow :: "string \<Rightarrow> time \<Rightarrow> login_limiter \<Rightarrow> bool \<times> login_limiter" where
  "allow ip now l = (let l' = gc ip now (sweep now l) in (length (ev (ll_events l') ip) < ll_max l', l'))"

definition acquire :: "string \<Rightarrow> time \<Rightarrow> login_limiter \<Rightarrow> bool \<times> login_limiter" where
  "acquire ip now l =
     (let l' = gc ip now (sweep now l) in
      if length (ev (ll_events l') ip) \<ge> ll_max l' then (False, l') else (True, add_event ip now l'))"

text \<open>\<open>releaseLocked\<close>: drop the newest event, and whether that removed the key.\<close>

definition release_locked :: "string \<Rightarrow> login_limiter \<Rightarrow> bool \<times> login_limiter" where
  "release_locked k l =
     (let es = ev (ll_events l) k in
      if es = [] then (False, l)
      else if length es = 1 then (True, l\<lparr>ll_events := del k (ll_events l)\<rparr>)
      else (False, l\<lparr>ll_events := put k (butlast es) (ll_events l)\<rparr>))"

definition release_attempt :: "string \<Rightarrow> login_limiter \<Rightarrow> login_limiter" where
  "release_attempt ip l = snd (release_locked ip l)"

definition record_failure :: "string \<Rightarrow> time \<Rightarrow> login_limiter \<Rightarrow> login_limiter" where
  "record_failure ip now l = add_event ip now (gc ip now (sweep now l))"

definition reset :: "string \<Rightarrow> login_limiter \<Rightarrow> login_limiter" where
  "reset ip l = l\<lparr>ll_events := del ip (ll_events l)\<rparr>"

subsection \<open>Login attempts\<close>

text \<open>The cut of an over-long name: back to a rune start, at most three bytes, else plain.\<close>

fun cut_back :: "string \<Rightarrow> nat \<Rightarrow> nat \<Rightarrow> nat" where
  "cut_back name 0 n = n"
| "cut_back name (Suc i) n =
     (if n > 0 \<and> \<not> rune_start (name ! n) then cut_back name i (n - 1) else n)"

definition login_name :: "unicode \<Rightarrow> string \<Rightarrow> string" where
  "login_name uc username =
     (let name = trim_space username in
      if length name > max_login_name_len then
        (let n = cut_back name 3 max_login_name_len
         in to_lower uc (take (if rune_start (name ! n) then n else max_login_name_len) name))
      else to_lower uc name)"

definition pair_key :: "unicode \<Rightarrow> string \<Rightarrow> string \<Rightarrow> string" where
  "pair_key uc g username = ''login-pair:'' @ g @ [char_of (0 :: nat)] @ login_name uc username"

definition addr_key :: "string \<Rightarrow> string" where
  "addr_key g = ''login-addr:'' @ g"

definition login_buckets :: "unicode \<Rightarrow> (string \<Rightarrow> string) \<Rightarrow> string \<Rightarrow> string \<Rightarrow> login_limiter
    \<Rightarrow> (string \<times> nat) list" where
  "login_buckets uc grp ip username l =
     [(pair_key uc (grp ip) username, ll_max l), (addr_key (grp ip), ll_max l * login_address_factor)]"

fun login_room_locked :: "(string \<times> nat) list \<Rightarrow> time \<Rightarrow> login_limiter \<Rightarrow> bool \<times> login_limiter" where
  "login_room_locked [] now l = (True, l)"
| "login_room_locked ((k, m) # bs) now l =
     (let l' = gc k now l in
      if length (ev (ll_events l') k) \<ge> m then (False, l') else login_room_locked bs now l')"

definition allow_login :: "unicode \<Rightarrow> (string \<Rightarrow> string) \<Rightarrow> string \<Rightarrow> string \<Rightarrow> time \<Rightarrow> login_limiter
    \<Rightarrow> bool \<times> login_limiter" where
  "allow_login uc grp ip username now l =
     login_room_locked (login_buckets uc grp ip username l) now (sweep now l)"

definition new_keys :: "(string \<times> nat) list \<Rightarrow> events \<Rightarrow> nat" where
  "new_keys bs es = length (filter (\<lambda>(k, m). \<not> has_key es k) bs)"

definition evict_oldest :: "nat \<Rightarrow> events \<Rightarrow> events" where
  "evict_oldest n es =
     (let cands = sort_key snd (map (\<lambda>(k, ts). (k, last ts)) (filter (\<lambda>(k, ts). ts \<noteq> []) es));
          gone = map fst (take n cands)
      in filter (\<lambda>(k, ts). k \<notin> set gone) es)"

definition make_room :: "time \<Rightarrow> nat \<Rightarrow> login_limiter \<Rightarrow> login_limiter" where
  "make_room now need l =
     (let l1 = (if time_sub now (ll_last_cap_purge l) \<ge> ll_cap_purge_every l
                then purge now (l\<lparr>ll_last_cap_purge := now\<rparr>) else l);
          over = int (length (ll_events l1)) + int need - int (ll_max_keys l1)
      in if over \<le> 0 then l1
         else l1\<lparr>ll_events := evict_oldest (nat over + ll_max_keys l1 div 10) (ll_events l1)\<rparr>)"

text \<open>One more account for an address group, \<open>None\<close> when it may not start tracking another.\<close>

definition admit_group :: "string \<Rightarrow> time \<Rightarrow> login_limiter \<Rightarrow> login_limiter option" where
  "admit_group g now l =
     (let (start, n) = (case map_of (ll_group_keys l) g of None \<Rightarrow> (time_zero, 0) | Some x \<Rightarrow> x);
          (start', n') = (if time_sub now start \<ge> ll_window l then (now, 0) else (start, n));
          keys = (if length (ll_group_keys l) \<ge> ll_max_keys l then [] else ll_group_keys l)
      in if n' \<ge> max_pair_keys_per_group then None
         else Some (l\<lparr>ll_group_keys := (g, start', n' + 1) # filter (\<lambda>(k, x). k \<noteq> g) keys\<rparr>))"

definition acquire_login :: "unicode \<Rightarrow> (string \<Rightarrow> string) \<Rightarrow> string \<Rightarrow> string \<Rightarrow> time \<Rightarrow> login_limiter
    \<Rightarrow> bool \<times> login_limiter" where
  "acquire_login uc grp ip username now l =
     (let buckets = login_buckets uc grp ip username l;
          (room, l1) = login_room_locked buckets now (sweep now l)
      in if \<not> room then (False, l1)
         else
           (case (if has_key (ll_events l1) (fst (hd buckets)) then Some l1 else admit_group (grp ip) now l1) of
              None \<Rightarrow> (False, l1)
            | Some l2 \<Rightarrow>
                let n = new_keys buckets (ll_events l2);
                    l3 = (if n > 0 \<and> length (ll_events l2) + n > ll_max_keys l2 then make_room now n l2 else l2)
                in (True, fold (\<lambda>(k, m). add_event k now) buckets l3)))"

definition refund_group :: "string \<Rightarrow> login_limiter \<Rightarrow> login_limiter" where
  "refund_group g l =
     l\<lparr>ll_group_keys := map (\<lambda>(k, start, n). if k = g \<and> n > 0 then (k, start, n - 1) else (k, start, n))
        (ll_group_keys l)\<rparr>"

definition release_login :: "unicode \<Rightarrow> (string \<Rightarrow> string) \<Rightarrow> string \<Rightarrow> string \<Rightarrow> login_limiter \<Rightarrow> login_limiter" where
  "release_login uc grp ip username l =
     (let (gone, l1) = release_locked (pair_key uc (grp ip) username) l;
          l2 = (if gone then refund_group (grp ip) l1 else l1)
      in snd (release_locked (addr_key (grp ip)) l2))"

definition login_succeeded :: "unicode \<Rightarrow> (string \<Rightarrow> string) \<Rightarrow> string \<Rightarrow> string \<Rightarrow> login_limiter \<Rightarrow> login_limiter" where
  "login_succeeded uc grp ip username l =
     (let k = pair_key uc (grp ip) username;
          l1 = (if has_key (ll_events l) k
                then refund_group (grp ip) (l\<lparr>ll_events := del k (ll_events l)\<rparr>) else l)
      in snd (release_locked (addr_key (grp ip)) l1))"

subsection \<open>Well-formed buckets\<close>

definition ll_ok :: "time \<Rightarrow> login_limiter \<Rightarrow> bool" where
  "ll_ok t l \<longleftrightarrow> distinct (map fst (ll_events l))
     \<and> (\<forall>(k, ts) \<in> set (ll_events l). ts \<noteq> [] \<and> sorted ts \<and> last ts \<le> t)"

lemma ll_ok_mono: "ll_ok t l \<Longrightarrow> t \<le> u \<Longrightarrow> ll_ok u l"
  by (fastforce simp: ll_ok_def)

lemma sorted_le_last: "sorted xs \<Longrightarrow> x \<in> set xs \<Longrightarrow> x \<le> last xs" for xs :: "time list"
  by (induction xs) auto

lemma ll_ok_ev:
  assumes "ll_ok t l"
  shows "sorted (ev (ll_events l) k)" and "v \<in> set (ev (ll_events l) k) \<Longrightarrow> v \<le> t"
    and "has_key (ll_events l) k \<longleftrightarrow> ev (ll_events l) k \<noteq> []"
proof -
  have mem: "(k, ev (ll_events l) k) \<in> set (ll_events l)" if h: "has_key (ll_events l) k"
  proof -
    obtain ts where "(k, ts) \<in> set (ll_events l)" using h by (auto simp: has_key_def)
    then show ?thesis using ev_member assms by (fastforce simp: ll_ok_def)
  qed
  then have ok: "ev (ll_events l) k \<noteq> [] \<and> sorted (ev (ll_events l) k) \<and> last (ev (ll_events l) k) \<le> t"
    if "has_key (ll_events l) k" using that assms by (auto simp: ll_ok_def)
  show s: "sorted (ev (ll_events l) k)" using ok ev_no_key by (cases "has_key (ll_events l) k") auto
  show "has_key (ll_events l) k \<longleftrightarrow> ev (ll_events l) k \<noteq> []" using ok ev_no_key by blast
  assume v: "v \<in> set (ev (ll_events l) k)"
  then have h: "has_key (ll_events l) k" using ev_no_key by fastforce
  have "v \<le> last (ev (ll_events l) k)"
    using s v by (rule sorted_le_last)
  with ok [OF h] show "v \<le> t" by simp
qed

lemma ll_ok_put:
  "ll_ok t l \<Longrightarrow> ts \<noteq> [] \<Longrightarrow> sorted ts \<Longrightarrow> last ts \<le> t \<Longrightarrow> ll_ok t (l\<lparr>ll_events := put k ts (ll_events l)\<rparr>)"
  using set_put [of k ts "ll_events l"] by (fastforce simp: ll_ok_def distinct_put)

lemma ll_ok_filter: "ll_ok t l \<Longrightarrow> ll_ok t (l\<lparr>ll_events := filter p (ll_events l)\<rparr>)"
  by (auto simp: ll_ok_def distinct_map_filter)

lemma ll_ok_del: "ll_ok t l \<Longrightarrow> ll_ok t (l\<lparr>ll_events := del k (ll_events l)\<rparr>)"
  unfolding del_def by (rule ll_ok_filter)

lemma ll_ok_purge: "ll_ok t l \<Longrightarrow> ll_ok t (purge now l)"
  by (auto simp: purge_def purge_events_def ll_ok_def distinct_map_filter)

lemma ll_ok_sweep: "ll_ok t l \<Longrightarrow> ll_ok t (sweep now l)"
  by (simp add: sweep_def ll_ok_purge)

lemma last_dropWhile: "dropWhile p xs \<noteq> [] \<Longrightarrow> last (dropWhile p xs) = last xs"
  by (induction xs) (auto split: if_splits)

lemma sorted_dropWhile: "sorted xs \<Longrightarrow> sorted (dropWhile p xs)"
  by (induction xs) auto

lemma ll_ok_gc:
  assumes "ll_ok t l"
  shows "ll_ok t (gc k now l)"
proof -
  let ?rest = "dropWhile (\<lambda>v. \<not> now - ll_window l < v) (ev (ll_events l) k)"
  show ?thesis
  proof (cases "?rest = []")
    case True
    then show ?thesis using assms by (simp add: gc_def Let_def ll_ok_del)
  next
    case False
    then have ne: "ev (ll_events l) k \<noteq> []" by auto
    have "last ?rest = last (ev (ll_events l) k)" using False by (rule last_dropWhile)
    then have "last ?rest \<le> t" using ll_ok_ev(2) [OF assms, of "last (ev (ll_events l) k)" k] ne by simp
    then show ?thesis
      using False assms ll_ok_ev(1) [OF assms]
      by (simp add: gc_def Let_def ll_ok_put sorted_dropWhile del: dropWhile_eq_Nil_conv)
  qed
qed

lemma ll_ok_add: "ll_ok t l \<Longrightarrow> t \<le> now \<Longrightarrow> ll_ok now (add_event k now l)"
  unfolding add_event_def
  using ll_ok_ev(1,2) [of t l] ll_ok_mono [of t l now]
  by (intro ll_ok_put) (fastforce simp: sorted_append)+

lemma ll_ok_release:
  assumes ok: "ll_ok t l"
  shows "ll_ok t (snd (release_locked k l))"
proof -
  let ?es = "ev (ll_events l) k"
  have "ll_ok t (l\<lparr>ll_events := put k (butlast ?es) (ll_events l)\<rparr>)" if ne: "butlast ?es \<noteq> []"
  proof (rule ll_ok_put [OF ok ne])
    show "sorted (butlast ?es)" using ll_ok_ev(1) [OF ok, of k] by (rule sorted_butlast)
    have "last (butlast ?es) \<in> set ?es" using ne in_set_butlastD last_in_set by metis
    then show "last (butlast ?es) \<le> t" by (rule ll_ok_ev(2) [OF ok])
  qed
  then show ?thesis
    using ok ll_ok_del [OF ok, of k]
    by (cases ?es; cases "tl ?es") (simp_all add: release_locked_def Let_def)
qed

text \<open>What is still inside the window survives the expiries.\<close>

abbreviation live :: "time \<Rightarrow> time list \<Rightarrow> time list" where
  "live cutoff ts \<equiv> filter (\<lambda>t. cutoff < t) ts"

lemma live_dropWhile: "c \<le> c' \<Longrightarrow> live c' (dropWhile (\<lambda>t. \<not> c < t) ts) = live c' ts"
  by (induction ts) auto

lemma live_gc: "now - ll_window l \<le> c \<Longrightarrow> live c (ev (ll_events (gc k now l)) j) = live c (ev (ll_events l) j)"
  using live_dropWhile [of "now - ll_window l" c "ev (ll_events l) k"]
  by (cases "dropWhile (\<lambda>t. \<not> now - ll_window l < t) (ev (ll_events l) k) = []")
     (simp_all add: gc_def Let_def del: dropWhile_eq_Nil_conv)

lemma sorted_last_live: "sorted ts \<Longrightarrow> ts = [] \<or> \<not> c < last ts \<Longrightarrow> live c ts = []"
  using sorted_le_last [of ts] by (fastforce simp: filter_empty_conv)

lemma ev_purge:
  assumes "ll_ok t l"
  shows "ev (ll_events (purge now l)) j =
    (if ev (ll_events l) j \<noteq> [] \<and> now - ll_window l < last (ev (ll_events l) j) then ev (ll_events l) j else [])"
proof -
  have "distinct (map fst es) \<Longrightarrow> ev (purge_events c es) j
      = (if ev es j \<noteq> [] \<and> c < last (ev es j) then ev es j else [])" for c and es :: events
  proof (induction es)
    case (Cons e es)
    obtain k ts where e: "e = (k, ts)" by fastforce
    have "j = k \<Longrightarrow> ev (purge_events c es) j = []"
      using Cons.prems e by (intro ev_no_key) (auto simp: has_key_def purge_events_def)
    with Cons e show ?case by (auto simp: purge_events_def ev_def)
  qed (simp add: purge_events_def ev_def)
  with assms show ?thesis by (simp add: purge_def ll_ok_def)
qed

lemma live_sweep:
  assumes "ll_ok t l" and "now - ll_window l \<le> c"
  shows "live c (ev (ll_events (sweep now l)) j) = live c (ev (ll_events l) j)"
proof -
  have "live c (ev (ll_events (purge now l)) j) = live c (ev (ll_events l) j)"
    unfolding ev_purge [OF assms(1)]
    using sorted_last_live [OF ll_ok_ev(1) [OF assms(1)], of j c] assms(2) by auto
  then show ?thesis by (simp add: sweep_def)
qed

lemma gc_all_live:
  assumes "ll_ok t l" and "v \<in> set (ev (ll_events (gc k now l)) k)"
  shows "now - ll_window l < v"
proof -
  have "sorted ts \<Longrightarrow> v \<in> set (dropWhile (\<lambda>t. \<not> c < t) ts) \<Longrightarrow> c < v" for c ts
    by (induction ts) (auto split: if_splits)
  with assms ll_ok_ev(1) [OF assms(1)] show ?thesis by (fastforce simp: gc_def Let_def split: if_splits)
qed

lemma limits_kept [simp]:
  "ll_window (gc k now l) = ll_window l" "ll_max (gc k now l) = ll_max l"
  "ll_window (sweep now l) = ll_window l" "ll_max (sweep now l) = ll_max l"
  "ll_window (purge now l) = ll_window l" "ll_max (purge now l) = ll_max l"
  "ll_window (add_event k now l) = ll_window l" "ll_max (add_event k now l) = ll_max l"
  by (simp_all add: gc_def sweep_def purge_def add_event_def Let_def)

subsection \<open>The bound on attempts\<close>

datatype ll_op =
  LlAllow string | LlAcquire string | LlRecord string | LlRelease string | LlReset string

text \<open>A run; the log, latest first, records which address was let through by \<open>Acquire\<close> when.\<close>

fun run_ll :: "time \<times> ll_op \<Rightarrow> login_limiter \<times> (string \<times> time) list
    \<Rightarrow> login_limiter \<times> (string \<times> time) list" where
  "run_ll (now, LlAllow ip) (l, log) = (snd (allow ip now l), log)"
| "run_ll (now, LlAcquire ip) (l, log) =
     (case acquire ip now l of (ok, l') \<Rightarrow> (l', if ok then (ip, now) # log else log))"
| "run_ll (now, LlRecord ip) (l, log) = (record_failure ip now l, log)"
| "run_ll (now, LlRelease ip) (l, log) = (release_attempt ip l, log)"
| "run_ll (now, LlReset ip) (l, log) = (reset ip l, log)"

definition let_through :: "string \<Rightarrow> (string \<times> time) list \<Rightarrow> time list" where
  "let_through k log = map snd (filter (\<lambda>(j, t). j = k) log)"

fun within :: "nat \<Rightarrow> duration \<Rightarrow> time list \<Rightarrow> bool" where
  "within m w [] = True"
| "within m w (u # ts) = (within m w ts \<and> length (live (u - w) (u # ts)) \<le> m)"

definition ll_inv :: "string \<Rightarrow> nat \<Rightarrow> duration \<Rightarrow> time \<Rightarrow> login_limiter \<times> (string \<times> time) list \<Rightarrow> bool" where
  "ll_inv k m w t st \<longleftrightarrow> (case st of (l, log) \<Rightarrow>
     ll_ok t l \<and> ll_max l = m \<and> ll_window l = w \<and> within m w (let_through k log)
     \<and> (\<forall>c \<ge> t - w. length (live c (let_through k log)) \<le> length (live c (ev (ll_events l) k))))"

lemma within_window: "within m w ts \<Longrightarrow> length (filter (\<lambda>v. t - w < v \<and> v \<le> t) ts) \<le> m"
proof (induction ts)
  case (Cons u ts)
  show ?case
  proof (cases "u \<le> t")
    case True
    have "length (filter (\<lambda>v. t - w < v \<and> v \<le> t) (u # ts)) \<le> length (live (u - w) (u # ts))"
      using True by (intro length_filter_mono) linarith
    with Cons.prems show ?thesis by (simp del: filter.simps)
  qed (use Cons in simp)
qed simp

lemma ll_inv_clean:
  assumes "ll_inv k m w t (l, log)" and "t \<le> now"
  shows "ll_inv k m w now (gc j now (sweep now l), log)"
proof -
  have ok: "ll_ok now l" using assms by (auto simp: ll_inv_def intro: ll_ok_mono)
  have "live c (ev (ll_events (gc j now (sweep now l))) k) = live c (ev (ll_events l) k)"
    if "now - ll_window l \<le> c" for c
    using that live_gc [of now "sweep now l" c j k] live_sweep [OF ok that, of k] by simp
  with assms ok show ?thesis by (auto simp: ll_inv_def ll_ok_gc ll_ok_sweep)
qed

lemma ll_inv_add:
  assumes "ll_inv k m w now (l, log)"
  shows "ll_inv k m w now (add_event j now l, log)"
proof -
  have "length (live c (ev (ll_events l) k)) \<le> length (live c (ev (ll_events (add_event j now l)) k))" for c
    by (simp add: add_event_def)
  with assms show ?thesis by (fastforce simp: ll_inv_def ll_ok_add intro: order_trans)
qed

lemma ll_inv_acquire:
  assumes inv: "ll_inv k m w t (l, log)" and "t \<le> now"
  shows "ll_inv k m w now (run_ll (now, LlAcquire ip) (l, log))"
proof -
  let ?l = "gc ip now (sweep now l)"
  have clean: "ll_inv k m w now (?l, log)" using assms by (rule ll_inv_clean)
  then have m: "ll_max l = m" "ll_window l = w" by (simp_all add: ll_inv_def)
  have acq: "acquire ip now l = (if length (ev (ll_events ?l) ip) \<ge> m then (False, ?l) else (True, add_event ip now ?l))"
    by (simp add: acquire_def Let_def m)
  show ?thesis
  proof (cases "length (ev (ll_events ?l) ip) \<ge> m \<or> ip \<noteq> k")
    case True
    then show ?thesis using clean ll_inv_add [OF clean, of ip] by (auto simp: acq ll_inv_def let_through_def)
  next
    case False
    have ok: "ll_ok now (sweep now l)" using inv assms(2) by (auto simp: ll_inv_def intro: ll_ok_mono ll_ok_sweep)
    have "live (now - w) (ev (ll_events ?l) k) = ev (ll_events ?l) k"
      using gc_all_live [OF ok, of _ k now] False m by (auto intro: filter_True)
    with clean False have "Suc (length (live (now - w) (let_through k log))) \<le> m"
      by (auto simp: ll_inv_def dest!: spec [of _ "now - w"])
    moreover have "length (live (now - w) (now # xs)) \<le> Suc (length (live (now - w) xs))" for xs
      by simp
    ultimately have "length (live (now - w) (now # let_through k log)) \<le> m"
      using order_trans by blast
    moreover have "within m w (let_through k log)" using clean by (simp add: ll_inv_def)
    ultimately have "within m w (now # let_through k log)" by (simp only: within.simps)
    moreover have "length (live c (now # let_through k log)) \<le> length (live c (ev (ll_events (add_event k now ?l)) k))"
      if "now - w \<le> c" for c
      using clean that by (auto simp: ll_inv_def add_event_def)
    moreover have "let_through k ((k, now) # log) = now # let_through k log"
      by (simp add: let_through_def)
    moreover have "run_ll (now, LlAcquire ip) (l, log) = (add_event k now ?l, (k, now) # log)"
    proof -
      have nle: "\<not> m \<le> length (ev (ll_events ?l) ip)" and ip: "ip = k" using False by auto
      from nle have "acquire ip now l = (True, add_event ip now ?l)" unfolding acq by simp
      then show ?thesis unfolding ip by simp
    qed
    moreover have "ll_ok now (add_event k now ?l)"
    proof (rule ll_ok_add)
      show "ll_ok now ?l" using clean by (simp add: ll_inv_def)
    qed simp_all
    ultimately show ?thesis
      using m False by (simp add: ll_inv_def del: filter.simps within.simps run_ll.simps)
  qed
qed

fun refunds :: "string \<Rightarrow> ll_op \<Rightarrow> bool" where
  "refunds k (LlRelease ip) = (ip = k)"
| "refunds k (LlReset ip) = (ip = k)"
| "refunds k op = False"

lemma ll_inv_step:
  assumes "ll_inv k m w t st" and "t \<le> fst a" and "\<not> refunds k (snd a)"
  shows "ll_inv k m w (fst a) (run_ll a st)"
proof (cases "(a, st)" rule: run_ll.cases)
  case (1 now ip l log)
  then show ?thesis using ll_inv_clean assms by (simp add: allow_def Let_def)
next
  case (2 now ip l log)
  then show ?thesis using ll_inv_acquire assms by (simp del: run_ll.simps)
next
  case (3 now ip l log)
  then show ?thesis using ll_inv_clean ll_inv_add assms by (simp add: record_failure_def)
next
  case (4 now ip l log)
  have ok: "ll_ok now l" using assms 4 by (auto simp: ll_inv_def intro: ll_ok_mono)
  have "ll_ok now (release_attempt ip l)" using ok by (simp add: release_attempt_def ll_ok_release)
  then show ?thesis
    using assms 4 by (auto simp: ll_inv_def release_attempt_def release_locked_def Let_def)
next
  case (5 now ip l log)
  then show ?thesis
    using assms by (auto simp: ll_inv_def reset_def intro: ll_ok_mono [OF ll_ok_del])
qed

text \<open>Brute force is bounded. However many requests arrive at once, in any history of checks,
  recorded failures and attempts at any addresses on a clock that does not run backwards, an
  address that has had nothing refunded or reset is let through to a password check at most
  \<open>max\<close> times in any window.\<close>

theorem acquire_bounded:
  assumes "sorted (map fst ops)" and "\<forall>a \<in> set ops. \<not> refunds k (snd a)"
  shows "length (filter (\<lambda>v. t - w < v \<and> v \<le> t)
    (let_through k (snd (fold run_ll ops (new_login_limiter m w t0, []))))) \<le> m"
proof -
  have run: "\<exists>u. ll_inv k m w u (fold run_ll xs st)"
    if "ll_inv k m w u0 st" "sorted (u0 # map fst xs)" "set xs \<subseteq> set ops" for xs u0 st
    using that
  proof (induction xs arbitrary: u0 st)
    case (Cons a xs)
    then have "ll_inv k m w (fst a) (run_ll a st)" using assms(2) by (intro ll_inv_step) auto
    with Cons show ?case by auto
  qed auto
  have "ll_inv k m w u (new_login_limiter m w t0, [])" for u
    by (simp add: ll_inv_def new_login_limiter_def ll_ok_def let_through_def)
  moreover have "\<exists>u0. sorted (u0 # map fst ops)" using assms(1) by (cases ops) auto
  ultimately obtain u where "ll_inv k m w u (fold run_ll ops (new_login_limiter m w t0, []))"
    using run by blast
  then show ?thesis using within_window by (auto simp: ll_inv_def split: prod.splits)
qed

theorem acquire_bounded_witness:
  "length (filter (\<lambda>v. 20 - 15 < v \<and> v \<le> 20)
    (let_through ''a'' (snd (fold run_ll [(10, LlAcquire ''a''), (10, LlAcquire ''a''), (11, LlAcquire ''a'')]
      (new_login_limiter 2 15 0, []))))) \<le> 2"
  by (rule acquire_bounded) simp_all

end
