(* ===== verification/Login_Keys.thy ===== *)
theory Login_Keys
  imports Login_Limiter "HOL-Library.Multiset" "HOL-Library.Code_Target_Nat"
begin

text \<open>
  The two buckets of a login attempt (\<open>AcquireLogin\<close>, \<open>ReleaseLogin\<close>, \<open>LoginSucceeded\<close> of
  internal/auth/ratelimit.go): an attempt is counted in both buckets or in none, and the
  limiter tracks a bounded number of keys however many addresses and names a client makes up.
\<close>

subsection \<open>Sizes\<close>

lemma has_key_ev: "ev es k \<noteq> [] \<Longrightarrow> has_key es k"
  using ev_no_key by blast

lemma gc_events:
  "ev (ll_events (gc k now l)) j
    = (if j = k then dropWhile (\<lambda>t. \<not> now - ll_window l < t) (ev (ll_events l) k) else ev (ll_events l) j)"
  by (auto simp: gc_def Let_def dropWhile_eq_Nil_conv simp del: dropWhile_eq_Nil_conv)

lemma gc_size: "length (ll_events (gc k now l)) \<le> length (ll_events l)"
proof -
  have "dropWhile P (ev (ll_events l) k) \<noteq> [] \<Longrightarrow> has_key (ll_events l) k" for P
    by (metis dropWhile.simps(1) has_key_ev)
  then show ?thesis by (simp add: gc_def Let_def length_put length_del del: dropWhile_eq_Nil_conv)
qed

lemma gc_bounds [simp]: "ll_max_keys (gc k now l) = ll_max_keys l" "ll_group_keys (gc k now l) = ll_group_keys l"
  by (simp_all add: gc_def Let_def)

lemma sweep_bounds [simp]:
  "ll_max_keys (sweep now l) = ll_max_keys l" "ll_group_keys (sweep now l) = ll_group_keys l"
  "ll_max_keys (purge now l) = ll_max_keys l" "ll_group_keys (purge now l) = ll_group_keys l"
  by (simp_all add: sweep_def purge_def)

lemma sweep_size: "length (ll_events (sweep now l)) \<le> length (ll_events l)"
  by (simp add: sweep_def purge_def purge_events_def)

lemma sweep_shorter: "ll_ok t l \<Longrightarrow> length (ev (ll_events (sweep now l)) j) \<le> length (ev (ll_events l) j)"
  using ev_purge by (auto simp: sweep_def)

text \<open>What the room check leaves behind.\<close>

lemma room_keeps:
  "ll_ok t l
    \<Longrightarrow> ll_ok t (snd (login_room_locked bs now l))
      \<and> length (ll_events (snd (login_room_locked bs now l))) \<le> length (ll_events l)
      \<and> length (ev (ll_events (snd (login_room_locked bs now l))) j) \<le> length (ev (ll_events l) j)
      \<and> ll_max_keys (snd (login_room_locked bs now l)) = ll_max_keys l
      \<and> ll_group_keys (snd (login_room_locked bs now l)) = ll_group_keys l
      \<and> ll_max (snd (login_room_locked bs now l)) = ll_max l
      \<and> ll_window (snd (login_room_locked bs now l)) = ll_window l"
proof (induction bs now l rule: login_room_locked.induct)
  case (2 k m bs now l)
  have step: "length (ev (ll_events (gc k now l)) j) \<le> length (ev (ll_events l) j)"
    by (simp add: gc_events length_dropWhile_le)
  with 2 gc_size [of k now l] ll_ok_gc [of t l k now] show ?case
    by (auto simp: Let_def intro: order_trans)
qed simp

lemma room_both:
  assumes "login_room_locked [(p, m), (a, n)] now l = (True, l')" and "p \<noteq> a" and "ll_ok t l"
  shows "length (ev (ll_events l') p) < m" and "length (ev (ll_events l') a) < n"
    and "\<forall>v \<in> set (ev (ll_events l') p) \<union> set (ev (ll_events l') a). now - ll_window l < v"
proof -
  have l': "l' = gc a now (gc p now l)" "length (ev (ll_events (gc p now l)) p) < m" "length (ev (ll_events l') a) < n"
    using assms(1) by (auto simp: Let_def not_le split: if_splits)
  then show "length (ev (ll_events l') p) < m" "length (ev (ll_events l') a) < n"
    using assms(2) by (simp_all add: gc_events)
  have "ev (ll_events l') p = ev (ll_events (gc p now l)) p" using assms(2) l' by (simp add: gc_events)
  then show "\<forall>v \<in> set (ev (ll_events l') p) \<union> set (ev (ll_events l') a). now - ll_window l < v"
    using gc_all_live [OF assms(3), of _ p now] gc_all_live [OF ll_ok_gc [OF assms(3)], of _ a now p now] l'(1)
    by auto
qed

subsection \<open>Making room\<close>

lemma evict_size:
  assumes "distinct (map fst es)" and "\<forall>(k, ts) \<in> set es. ts \<noteq> []"
  shows "length (evict_oldest n es) = length es - n"
proof -
  let ?c = "sort_key snd (map (\<lambda>(k, ts). (k, last ts)) (filter (\<lambda>(k, ts). ts \<noteq> []) es))"
  let ?gone = "set (map fst (take n ?c))"
  have all: "filter (\<lambda>(k, ts). ts \<noteq> []) es = es" using assms(2) by (intro filter_True) auto
  have set: "set (map fst ?c) = set (map fst es)" unfolding all by force
  have "mset (map fst ?c) = mset (map fst es)" 
    unfolding all mset_map mset_sort by (simp add: case_prod_unfold image_mset.compositionality o_def)
  then have d: "distinct (map fst ?c)" using assms(1) by (metis mset_eq_imp_distinct_iff)
  have "set (take n (map fst ?c)) \<subseteq> set (map fst ?c)" by (rule set_take_subset)
  then have gone: "?gone \<subseteq> set (map fst es)" unfolding set take_map .
  have "distinct (take n (map fst ?c))" using d by (rule distinct_take)
  then have card: "card ?gone = min n (length es)"
    using distinct_card [of "take n (map fst ?c)"] by (simp add: take_map all)
  have "map fst (filter (\<lambda>(k, ts). k \<notin> ?gone) es) = filter (\<lambda>k. k \<notin> ?gone) (map fst es)"
    by (simp add: filter_map o_def case_prod_unfold)
  then have "length (evict_oldest n es) = length (filter (\<lambda>k. k \<notin> ?gone) (map fst es))"
    by (metis (no_types, lifting) evict_oldest_def length_map)
  also have "\<dots> = card (set (map fst es) - ?gone)"
    using distinct_card [OF distinct_filter [OF assms(1)], of "\<lambda>k. k \<notin> ?gone"]
    by (simp add: set_diff_eq)
  also have "\<dots> = length es - n"
    using card_Diff_subset [OF _ gone] card distinct_card [OF assms(1)] by simp
  finally show ?thesis .
qed


text \<open>There is room for the keys of the attempt once \<open>makeRoom\<close> has run, an evicted bucket of
  the attempt itself included.\<close>

lemma make_room_size:
  assumes ok: "ll_ok now l" and ten: "10 \<le> ll_max_keys l" and pa: "p \<noteq> a"
    and need0: "0 < new_keys [(p, m), (a, n)] (ll_events l)"
    and live: "\<forall>v \<in> set (ev (ll_events l) p) \<union> set (ev (ll_events l) a). now - ll_window l < v"
    and l': "l' = make_room now (new_keys [(p, m), (a, n)] (ll_events l)) l"
  shows "length (ll_events l') + new_keys [(p, m), (a, n)] (ll_events l') \<le> ll_max_keys l"
    and "ll_ok now l'"
proof -
  let ?need = "new_keys [(p, m), (a, n)] (ll_events l)"
  define l1 where "l1 = (if time_sub now (ll_last_cap_purge l) \<ge> ll_cap_purge_every l
                then purge now (l\<lparr>ll_last_cap_purge := now\<rparr>) else l)"
  have max: "ll_max_keys l1 = ll_max_keys l" by (simp add: l1_def)
  have ok0: "ll_ok now (l\<lparr>ll_last_cap_purge := now\<rparr>)" using ok by (simp add: ll_ok_def)
  have ok1: "ll_ok now l1" using ok ll_ok_purge [OF ok0] by (simp add: l1_def)
  have "ev (ll_events (purge now (l\<lparr>ll_last_cap_purge := now\<rparr>))) j = ev (ll_events l) j" if "j = p \<or> j = a" for j
    using ev_purge [OF ok0, of now j] live that by (cases "ev (ll_events l) j = []") auto
  then have same: "has_key (ll_events l1) j = has_key (ll_events l) j" if "j = p \<or> j = a" for j
    using that ll_ok_ev(3) [OF ok] ll_ok_ev(3) [OF ok1] by (simp add: l1_def)
  then have need: "new_keys [(p, m), (a, n)] (ll_events l1) = ?need" by (simp add: new_keys_def)
  have two: "new_keys [(p, m), (a, n)] es \<le> 2" for es by (simp add: new_keys_def)
  let ?over = "int (length (ll_events l1)) + int ?need - int (ll_max_keys l1)"
  show "length (ll_events l') + new_keys [(p, m), (a, n)] (ll_events l') \<le> ll_max_keys l"
  proof (cases "?over \<le> 0")
    case True
    then have "l' = l1" using l' by (simp add: make_room_def Let_def l1_def)
    then show ?thesis using True need max by simp
  next
    case False
    let ?k = "nat ?over + ll_max_keys l1 div 10"
    have ev: "ll_events l' = evict_oldest ?k (ll_events l1)"
      using False l' by (simp add: make_room_def Let_def l1_def)
    have len: "length (ll_events l') = length (ll_events l1) - ?k"
      unfolding ev using ok1 by (intro evict_size) (auto simp: ll_ok_def)
    have slack: "1 \<le> ll_max_keys l div 10" using ten by simp
    have gone: "new_keys [(p, m), (a, n)] (ll_events l') \<le> 2" by (rule two)
    show ?thesis using len gone slack max False need0 by linarith
  qed
  have "ll_ok now (l1\<lparr>ll_events := evict_oldest k (ll_events l1)\<rparr>)" for k
    using ok1 unfolding evict_oldest_def Let_def by (rule ll_ok_filter)
  then show "ll_ok now l'" using ok1 l' by (simp add: make_room_def Let_def l1_def)
qed


subsection \<open>Whole attempts\<close>

datatype login_op =
  OpAllow string string | OpAcquire string string | OpRelease string string | OpSucceed string string

fun login_step :: "unicode \<Rightarrow> (string \<Rightarrow> string) \<Rightarrow> time \<times> login_op \<Rightarrow> login_limiter \<Rightarrow> login_limiter" where
  "login_step uc grp (now, OpAllow ip u) l = snd (allow_login uc grp ip u now l)"
| "login_step uc grp (now, OpAcquire ip u) l = snd (acquire_login uc grp ip u now l)"
| "login_step uc grp (now, OpRelease ip u) l = release_login uc grp ip u l"
| "login_step uc grp (now, OpSucceed ip u) l = login_succeeded uc grp ip u l"

definition keys_inv :: "time \<Rightarrow> login_limiter \<Rightarrow> bool" where
  "keys_inv t l \<longleftrightarrow> ll_ok t l \<and> ll_max_keys l = default_max_keys
     \<and> length (ll_events l) \<le> default_max_keys \<and> length (ll_group_keys l) \<le> default_max_keys"

lemma pair_not_addr [simp]: "pair_key uc g u \<noteq> addr_key h" "addr_key h \<noteq> pair_key uc g u"
  by (simp_all add: pair_key_def addr_key_def)

lemma keys_inv_start: "keys_inv t (new_login_limiter m w start)"
  by (simp add: keys_inv_def new_login_limiter_def ll_ok_def)

lemma keys_inv_mono: "keys_inv t l \<Longrightarrow> t \<le> u \<Longrightarrow> keys_inv u l"
  by (auto simp: keys_inv_def intro: ll_ok_mono)

lemma keys_inv_sweep: "keys_inv t l \<Longrightarrow> keys_inv t (sweep now l)"
  using sweep_size [of now l] by (simp add: keys_inv_def ll_ok_sweep)

lemma keys_inv_room: "keys_inv t l \<Longrightarrow> keys_inv t (snd (login_room_locked bs now l))"
  using room_keeps [of t l bs now "[]"] by (auto simp: keys_inv_def)

lemma ll_ok_groups [simp]: "ll_ok t (l\<lparr>ll_group_keys := x\<rparr>) = ll_ok t l"
  by (simp add: ll_ok_def)

lemma admit_group_eq:
  assumes "admit_group g now l = Some l'" and "0 < ll_max_keys l"
  shows "\<exists>x. l' = l\<lparr>ll_group_keys := x\<rparr> \<and> length x \<le> max (ll_max_keys l) (length (ll_group_keys l))"
proof -
  obtain start n where sn: "(case map_of (ll_group_keys l) g of None \<Rightarrow> (time_zero, 0) | Some x \<Rightarrow> x) = (start, n)"
    by fastforce
  let ?keys = "if length (ll_group_keys l) \<ge> ll_max_keys l then [] else ll_group_keys l"
  obtain y where "l' = l\<lparr>ll_group_keys := (g, y) # filter (\<lambda>(k, x). k \<noteq> g) ?keys\<rparr>"
    using assms(1) sn by (auto simp: admit_group_def Let_def split: if_splits)
  moreover have "length ((g, y) # filter (\<lambda>(k, x). k \<noteq> g) ?keys) \<le> ll_max_keys l"
    using assms(2) length_filter_le [of "\<lambda>(k, x). k \<noteq> g" ?keys] by (auto simp del: length_filter_le)
  ultimately show ?thesis by (metis max.coboundedI1)
qed

lemma keys_inv_admit:
  assumes "keys_inv t l" and "admit_group g now l = Some l'"
  shows "keys_inv t l'" and "ll_events l' = ll_events l" and "ll_window l' = ll_window l"
    and "ll_max l' = ll_max l"
  using admit_group_eq [OF assms(2)] assms(1) by (auto simp: keys_inv_def default_max_keys_def)

lemma keys_inv_release: "keys_inv t l \<Longrightarrow> keys_inv t (snd (release_locked k l))"
  using ll_ok_release [of t l k] has_key_ev [of "ll_events l" k]
  by (auto simp: keys_inv_def release_locked_def Let_def length_put intro: order_trans [OF length_del])

lemma keys_inv_refund: "keys_inv t l \<Longrightarrow> keys_inv t (refund_group g l)"
  by (simp add: keys_inv_def refund_group_def ll_ok_def)


text \<open>An admitted attempt: both buckets had room, both carry the new event, nothing else grew.\<close>

lemma ev_add_both:
  "p \<noteq> a \<Longrightarrow> ev (ll_events (fold (\<lambda>(k, m). add_event k now) [(p, m), (a, n)] l)) j
    = (if j = p \<or> j = a then ev (ll_events l) j @ [now] else ev (ll_events l) j)"
  by (simp add: add_event_def)

lemma size_add_both:
  "p \<noteq> a \<Longrightarrow> length (ll_events (fold (\<lambda>(k, m). add_event k now) [(p, m), (a, n)] l))
    = length (ll_events l) + new_keys [(p, m), (a, n)] (ll_events l)"
  by (simp add: add_event_def length_put new_keys_def)

definition cap_purged :: "time \<Rightarrow> login_limiter \<Rightarrow> login_limiter" where
  "cap_purged now l = (if time_sub now (ll_last_cap_purge l) \<ge> ll_cap_purge_every l
     then purge now (l\<lparr>ll_last_cap_purge := now\<rparr>) else l)"

lemma make_room_cases:
  "make_room now need l = cap_purged now l
    \<or> (\<exists>k. make_room now need l = (cap_purged now l)\<lparr>ll_events := evict_oldest k (ll_events (cap_purged now l))\<rparr>)"
  unfolding make_room_def cap_purged_def [symmetric] Let_def by (auto split: if_splits)

lemma ev_filter_shorter:
  assumes "distinct (map fst es)"
  shows "length (ev (filter p es) j) \<le> length (ev es j)"
proof (cases "has_key (filter p es) j")
  case True
  then obtain ts where "(j, ts) \<in> set (filter p es)" by (auto simp: has_key_def)
  then show ?thesis using assms ev_member [of "filter p es" j ts] ev_member [of es j ts]
    by (simp add: distinct_map_filter)
qed (simp add: ev_no_key)

lemma make_room_shorter:
  assumes "ll_ok t l"
  shows "length (ev (ll_events (make_room now need l)) j) \<le> length (ev (ll_events l) j)"
proof -
  have d: "distinct (map fst (ll_events l))" using assms by (simp add: ll_ok_def)
  have one: "length (ev (ll_events (cap_purged now l)) j) \<le> length (ev (ll_events l) j)"
    "distinct (map fst (ll_events (cap_purged now l)))"
    using ev_filter_shorter [OF d] d by (auto simp: cap_purged_def purge_def purge_events_def distinct_map_filter)
  have "length (ev (evict_oldest k (ll_events (cap_purged now l))) j) \<le> length (ev (ll_events l) j)" for k
    unfolding evict_oldest_def Let_def by (rule order_trans [OF ev_filter_shorter [OF one(2)] one(1)])
  with one(1) make_room_cases [of now need l] show ?thesis by auto
qed


lemma make_room_bounds [simp]:
  "ll_max_keys (make_room now need l) = ll_max_keys l" "ll_group_keys (make_room now need l) = ll_group_keys l"
  by (simp_all add: make_room_def Let_def)

text \<open>What one \<open>AcquireLogin\<close> does to the buckets.\<close>

definition counted_once :: "unicode \<Rightarrow> (string \<Rightarrow> string) \<Rightarrow> string \<Rightarrow> string \<Rightarrow> time \<Rightarrow> login_limiter
    \<Rightarrow> bool \<Rightarrow> login_limiter \<Rightarrow> bool" where
  "counted_once uc grp ip u now l ok l' \<longleftrightarrow>
     (let bs = login_buckets uc grp ip u l in
      (ok \<longrightarrow> (\<forall>(k, m) \<in> set bs. ev (ll_events l') k \<noteq> [] \<and> last (ev (ll_events l') k) = now
                \<and> length (ev (ll_events l') k) \<le> m))
      \<and> (\<forall>j. length (ev (ll_events l') j) \<le> length (ev (ll_events l) j) + (if ok \<and> j \<in> fst ` set bs then 1 else 0)))"

lemma acquire_login_counts:
  assumes inv: "keys_inv t l" and t: "t \<le> now" and acq: "acquire_login uc grp ip u now l = (ok, l')"
  shows "keys_inv now l'" and "counted_once uc grp ip u now l ok l'"
proof -
  let ?p = "pair_key uc (grp ip) u" and ?a = "addr_key (grp ip)"
  let ?bs = "login_buckets uc grp ip u l"
  have bs: "?bs = [(?p, ll_max l), (?a, ll_max l * login_address_factor)]" by (simp add: login_buckets_def)
  obtain room l1 where r: "login_room_locked ?bs now (sweep now l) = (room, l1)" by fastforce
  have inv0: "keys_inv now (sweep now l)" using inv t keys_inv_mono keys_inv_sweep by blast
  then have ok0: "ll_ok now (sweep now l)" by (simp add: keys_inv_def)
  have inv1: "keys_inv now l1" using keys_inv_room [OF inv0, of ?bs now] r by simp
  have short: "length (ev (ll_events l1) j) \<le> length (ev (ll_events l) j)" for j
    using room_keeps [OF ok0, of ?bs now j] sweep_shorter [of t l now j] inv r by (auto simp: keys_inv_def)
  have w1: "ll_window l1 = ll_window l" "ll_max l1 = ll_max l" using room_keeps [OF ok0, of ?bs now] r by simp_all
  let ?adm = "if has_key (ll_events l1) (fst (hd ?bs)) then Some l1 else admit_group (grp ip) now l1"
  have "keys_inv now l' \<and> counted_once uc grp ip u now l ok l'"
  proof (cases "room \<and> ?adm \<noteq> None")
    case False
    then have "ok = False" "l' = l1" using acq r by (auto simp: acquire_login_def Let_def split: if_splits option.splits)
    then show ?thesis using inv1 short by (simp add: counted_once_def Let_def)
  next
    case True
    then obtain l2 where l2: "?adm = Some l2" by auto
    have inv2: "keys_inv now l2" and e2: "ll_events l2 = ll_events l1" "ll_window l2 = ll_window l"
      using l2 inv1 keys_inv_admit [of now l1 "grp ip" now l2] w1 by (auto split: if_splits)
    have room2: "length (ev (ll_events l2) ?p) < ll_max l" "length (ev (ll_events l2) ?a) < ll_max l * login_address_factor"
      "\<forall>v \<in> set (ev (ll_events l2) ?p) \<union> set (ev (ll_events l2) ?a). now - ll_window l2 < v"
      using room_both [of ?p "ll_max l" ?a "ll_max l * login_address_factor" now "sweep now l" l1 now] True r bs ok0 e2
      by simp_all
    let ?n = "new_keys ?bs (ll_events l2)"
    define l3 where "l3 = (if ?n > 0 \<and> length (ll_events l2) + ?n > ll_max_keys l2 then make_room now ?n l2 else l2)"
    have ok: "ok = True" and l': "l' = fold (\<lambda>(k, m). add_event k now) ?bs l3"
      using acq r True l2 by (auto simp: acquire_login_def Let_def l3_def)
    have ok2: "ll_ok now l2" "10 \<le> ll_max_keys l2" using inv2 by (simp_all add: keys_inv_def default_max_keys_def)
    have three: "length (ll_events l3) + new_keys ?bs (ll_events l3) \<le> default_max_keys \<and> ll_ok now l3"
    proof (cases "?n > 0 \<and> length (ll_events l2) + ?n > ll_max_keys l2")
      case True
      then show ?thesis
        using make_room_size [OF ok2 pair_not_addr(1), where l' = l3] room2(3) inv2
        by (fastforce simp: l3_def bs keys_inv_def)
    next
      case False
      then show ?thesis using inv2 by (auto simp: l3_def keys_inv_def)
    qed
    have short3: "length (ev (ll_events l3) j) \<le> length (ev (ll_events l2) j)" for j
      using make_room_shorter [OF ok2(1)] by (simp add: l3_def)
    have "ll_ok now l'" using three by (simp add: l' bs ll_ok_add [OF _ order_refl])
    moreover have "length (ll_events l') \<le> default_max_keys"
      using three size_add_both [of ?p ?a now "ll_max l" "ll_max l * login_address_factor" l3] by (simp add: l' bs)
    moreover have "ll_max_keys l' = default_max_keys" "length (ll_group_keys l') \<le> default_max_keys"
      using inv2 by (simp_all add: l' bs add_event_def l3_def keys_inv_def)
    ultimately have "keys_inv now l'" by (simp add: keys_inv_def)
    moreover have ev': "ev (ll_events l') j = (if j = ?p \<or> j = ?a then ev (ll_events l3) j @ [now] else ev (ll_events l3) j)" for j
      unfolding l' bs by (rule ev_add_both) simp
    have "counted_once uc grp ip u now l ok l'"
      using room2(1,2) short3 [of ?p] short3 [of ?a] order_trans [OF short3 short [folded e2]] e2 ok
      by (simp add: counted_once_def bs ev' Let_def)
    ultimately show ?thesis by simp
  qed
  then show "keys_inv now l'" "counted_once uc grp ip u now l ok l'" by auto
qed


lemma keys_inv_step:
  assumes "keys_inv t l" and "t \<le> fst a"
  shows "keys_inv (fst a) (login_step uc grp a l)"
proof -
  have inv: "keys_inv (fst a) l" using assms keys_inv_mono by blast
  show ?thesis
  proof (cases "(uc, grp, a, l)" rule: login_step.cases)
    case (2 uc grp now ip u l)
    then show ?thesis using acquire_login_counts(1) [OF assms] by (cases "acquire_login uc grp ip u now l") auto
  next
    case (3 uc grp now ip u l)
    then show ?thesis using inv
      by (auto simp: release_login_def Let_def split: prod.splits
          intro!: keys_inv_release keys_inv_refund dest!: arg_cong [of "release_locked _ _" _ snd])
  next
    case (4 uc grp now ip u l)
    have "keys_inv now (l\<lparr>ll_events := del k (ll_events l)\<rparr>)" for k
      using inv 4 length_del [of k "ll_events l"] by (auto simp: keys_inv_def ll_ok_del)
    then show ?thesis using inv 4 by (auto simp: login_succeeded_def Let_def intro!: keys_inv_release keys_inv_refund)
  qed (use inv keys_inv_sweep keys_inv_room in \<open>auto simp: allow_login_def\<close>)
qed


lemma keys_inv_run:
  assumes "keys_inv t l" and "sorted (t # map fst ops)" and "\<forall>x \<in> set (t # map fst ops). x \<le> u"
  shows "keys_inv u (fold (login_step uc grp) ops l)"
  using assms
proof (induction ops arbitrary: t l)
  case (Cons a ops)
  then have "keys_inv (fst a) (login_step uc grp a l)" by (intro keys_inv_step) auto
  with Cons show ?case by (cases ops) auto
qed (auto intro: keys_inv_mono)

lemma keys_inv_history:
  assumes "sorted (map fst ops @ [u])"
  shows "keys_inv u (fold (login_step uc grp) ops (new_login_limiter m w start))"
proof -
  let ?t = "hd (map fst ops @ [u])"
  have "sorted (?t # map fst ops) \<and> (\<forall>x \<in> set (?t # map fst ops). x \<le> u)" using assms by (cases ops) (auto simp: sorted_append)
  then show ?thesis using keys_inv_run [OF keys_inv_start] by blast
qed

subsection \<open>Properties\<close>

text \<open>C27: after any history of login calls on a clock that does not run backwards, a login attempt
  is counted in both of its buckets or in none. A granted attempt is the newest event of the
  bucket of its address and account and of the bucket of its address, neither is over its maximum
  (the configured one, and four times it), and no other bucket grew; a refused attempt adds to no
  bucket.\<close>

theorem login_counted_in_both_or_none:
  assumes "sorted (map fst ops @ [now])"
    and "l = fold (login_step uc grp) ops (new_login_limiter m w start)"
    and "acquire_login uc grp ip u now l = (ok, l')"
  shows "counted_once uc grp ip u now l ok l'"
  using acquire_login_counts(2) [OF keys_inv_history [OF assms(1)] order_refl] assms(2,3) by blast

text \<open>However many addresses and account names clients make up, after any history of login
  calls the limiter holds at most \<open>defaultMaxKeys\<close> buckets and as many address groups; every
  bucket it holds is non-empty and sorted by time.\<close>

theorem tracked_keys_bounded:
  assumes "sorted (map fst ops @ [now])"
    and "l = fold (login_step uc grp) ops (new_login_limiter m w start)"
  shows "length (ll_events l) \<le> default_max_keys \<and> length (ll_group_keys l) \<le> default_max_keys
    \<and> (\<forall>(k, ts) \<in> set (ll_events l). ts \<noteq> [] \<and> sorted ts \<and> last ts \<le> now)"
  using keys_inv_history [OF assms(1), of uc grp m w start] assms(2) by (simp add: keys_inv_def ll_ok_def)

definition sample_ops :: "(time \<times> login_op) list" where
  "sample_ops = [(10, OpAcquire ''192.0.2.1'' ''ann''), (12, OpAcquire ''192.0.2.1'' ''bob''),
     (12, OpSucceed ''192.0.2.1'' ''bob'')]"

theorem login_counted_in_both_or_none_witness:
  "counted_once ascii_uc (\<lambda>a. a) ''192.0.2.1'' ''ann'' 20
    (fold (login_step ascii_uc (\<lambda>a. a)) sample_ops (new_login_limiter 2 100 0)) True
    (snd (acquire_login ascii_uc (\<lambda>a. a) ''192.0.2.1'' ''ann'' 20
      (fold (login_step ascii_uc (\<lambda>a. a)) sample_ops (new_login_limiter 2 100 0))))"
proof (rule login_counted_in_both_or_none [where ops = sample_ops and m = 2 and w = 100 and start = 0])
  show "sorted (map fst sample_ops @ [20])" by (simp add: sample_ops_def)
  show "acquire_login ascii_uc (\<lambda>a. a) ''192.0.2.1'' ''ann'' 20
      (fold (login_step ascii_uc (\<lambda>a. a)) sample_ops (new_login_limiter 2 100 0))
    = (True, snd (acquire_login ascii_uc (\<lambda>a. a) ''192.0.2.1'' ''ann'' 20
      (fold (login_step ascii_uc (\<lambda>a. a)) sample_ops (new_login_limiter 2 100 0))))"
    by code_simp
qed simp

theorem tracked_keys_bounded_witness:
  "length (ll_events (fold (login_step ascii_uc (\<lambda>a. a)) sample_ops (new_login_limiter 2 100 0))) \<le> default_max_keys"
  using tracked_keys_bounded [of sample_ops 20 _ ascii_uc "\<lambda>a. a" 2 100 0] by (simp add: sample_ops_def)

end
