(* ===== verification/Go_Utf8.thy ===== *)
theory Go_Utf8
  imports Go_Prelude
begin

text \<open>
  Go strings as runes: what \<open>for _, r := range s\<close>, \<open>[]rune(s)\<close> and \<open>WriteRune\<close> do (unicode/utf8).
  A rune is its code point; a byte that starts no valid sequence decodes to U+FFFD and has width 1.
\<close>

definition rune_error :: nat where
  "rune_error = 65533"

definition cont_byte :: "nat \<Rightarrow> bool" where
  "cont_byte b \<longleftrightarrow> 128 \<le> b \<and> b < 192"

text \<open>The range the second byte must lie in, by the first (the accept ranges of unicode/utf8).\<close>

definition second_ok :: "nat \<Rightarrow> nat \<Rightarrow> bool" where
  "second_ok b0 b1 \<longleftrightarrow> cont_byte b1 \<and> (b0 = 224 \<longrightarrow> 160 \<le> b1) \<and> (b0 = 237 \<longrightarrow> b1 < 160)
     \<and> (b0 = 240 \<longrightarrow> 144 \<le> b1) \<and> (b0 = 244 \<longrightarrow> b1 < 144)"

fun decode_rune :: "nat list \<Rightarrow> nat \<times> nat" where
  "decode_rune [] = (rune_error, 0)"
| "decode_rune (b0 # bs) =
     (if b0 < 128 then (b0, 1)
      else if 194 \<le> b0 \<and> b0 < 224 then
        (case bs of b1 # _ \<Rightarrow> if cont_byte b1 then ((b0 - 192) * 64 + (b1 - 128), 2) else (rune_error, 1)
         | _ \<Rightarrow> (rune_error, 1))
      else if 224 \<le> b0 \<and> b0 < 240 then
        (case bs of b1 # b2 # _ \<Rightarrow>
             if second_ok b0 b1 \<and> cont_byte b2
             then ((b0 - 224) * 4096 + (b1 - 128) * 64 + (b2 - 128), 3) else (rune_error, 1)
         | _ \<Rightarrow> (rune_error, 1))
      else if 240 \<le> b0 \<and> b0 < 245 then
        (case bs of b1 # b2 # b3 # _ \<Rightarrow>
             if second_ok b0 b1 \<and> cont_byte b2 \<and> cont_byte b3
             then ((b0 - 240) * 262144 + (b1 - 128) * 4096 + (b2 - 128) * 64 + (b3 - 128), 4)
             else (rune_error, 1)
         | _ \<Rightarrow> (rune_error, 1))
      else (rune_error, 1))"

lemma decode_width: "bs \<noteq> [] \<Longrightarrow> 1 \<le> snd (decode_rune bs) \<and> snd (decode_rune bs) \<le> length bs"
  by (cases bs) (auto split: list.splits)

function decode_runes :: "nat list \<Rightarrow> nat list" where
  "decode_runes [] = []"
| "decode_runes (b # bs) =
     fst (decode_rune (b # bs)) # decode_runes (drop (snd (decode_rune (b # bs))) (b # bs))"
  by pat_completeness auto

termination
proof (relation "measure length", goal_cases)
  case (2 b bs)
  then show ?case using decode_width [of "b # bs"] by (simp del: decode_rune.simps)
qed simp

definition runes :: "string \<Rightarrow> nat list" where
  "runes s = decode_runes (map byte_of s)"

definition valid_rune :: "nat \<Rightarrow> bool" where
  "valid_rune r \<longleftrightarrow> r < 1114112 \<and> \<not> (55296 \<le> r \<and> r < 57344)"

definition encode_bytes :: "nat \<Rightarrow> nat list" where
  "encode_bytes r =
     (if r < 128 then [r]
      else if r < 2048 then [192 + r div 64, 128 + r mod 64]
      else if \<not> valid_rune r then [239, 191, 189]
      else if r < 65536 then [224 + r div 4096, 128 + r div 64 mod 64, 128 + r mod 64]
      else [240 + r div 262144, 128 + r div 4096 mod 64, 128 + r div 64 mod 64, 128 + r mod 64])"

definition encode_rune :: "nat \<Rightarrow> string" where
  "encode_rune r = map char_of (encode_bytes r)"

definition of_runes :: "nat list \<Rightarrow> string" where
  "of_runes rs = concat (map encode_rune rs)"

subsection \<open>Round trips\<close>

lemma digits64:
  fixes r :: nat
  shows "r = r div 64 * 64 + r mod 64" and "r div 64 = r div 4096 * 64 + r div 64 mod 64"
    and "r div 4096 = r div 262144 * 64 + r div 4096 mod 64"
proof -
  have "r div 64 div 64 = r div 4096" "r div 4096 div 64 = r div 262144"
    by (simp_all flip: div_mult2_eq)
  then show "r div 64 = r div 4096 * 64 + r div 64 mod 64"
    and "r div 4096 = r div 262144 * 64 + r div 4096 mod 64"
    using div_mult_mod_eq [of "r div 64" 64] div_mult_mod_eq [of "r div 4096" 64] by simp_all
qed simp

lemma decode_encode:
  assumes "valid_rune r"
  shows "decode_rune (encode_bytes r @ bs) = (r, length (encode_bytes r))"
proof -
  consider "r < 128" | "128 \<le> r" "r < 2048" | "2048 \<le> r" "r < 65536" | "65536 \<le> r" "r < 1114112"
    using assms unfolding valid_rune_def by linarith
  then show ?thesis
  proof cases
    case 2
    then have "2 \<le> r div 64" "r div 64 < 32" by linarith+
    then show ?thesis using 2 by (simp add: encode_bytes_def cont_byte_def)
  next
    case 3
    then have d: "r div 4096 < 16" "r div 64 mod 64 < 64" "r mod 64 < 64" by linarith+
    have c: "r = r div 4096 * 4096 + r div 64 mod 64 * 64 + r mod 64"
      using digits64(1,2) [of r] by linarith
    have "second_ok (224 + r div 4096) (128 + r div 64 mod 64)"
      using 3 assms d c unfolding second_ok_def cont_byte_def valid_rune_def by linarith
    then show ?thesis using 3 assms d c by (simp add: encode_bytes_def cont_byte_def)
  next
    case 4
    then have d: "r div 262144 < 5" "r div 4096 mod 64 < 64" "r div 64 mod 64 < 64" "r mod 64 < 64"
      by linarith+
    have c: "r = r div 262144 * 262144 + r div 4096 mod 64 * 4096 + r div 64 mod 64 * 64 + r mod 64"
      using digits64 [of r] by linarith
    have "second_ok (240 + r div 262144) (128 + r div 4096 mod 64)"
      using 4 d c unfolding second_ok_def cont_byte_def by linarith
    then show ?thesis using 4 assms d c by (simp add: encode_bytes_def cont_byte_def)
  qed (simp add: encode_bytes_def)
qed

lemma encode_bytes_range: "valid_rune r \<Longrightarrow> b \<in> set (encode_bytes r) \<Longrightarrow> b < 256"
  unfolding encode_bytes_def valid_rune_def by (auto split: if_splits)

lemma encode_bytes_ne: "encode_bytes r \<noteq> []"
  by (simp add: encode_bytes_def)

lemma byte_of_encode: "valid_rune r \<Longrightarrow> map byte_of (encode_rune r) = encode_bytes r"
  using encode_bytes_range by (simp add: encode_rune_def map_idI take_bit_eq_mod)

lemma runes_Cons:
  assumes "valid_rune r"
  shows "runes (encode_rune r @ s) = r # runes s"
proof -
  obtain b bs where e: "encode_bytes r = b # bs" using encode_bytes_ne by (cases "encode_bytes r") auto
  have "decode_rune (b # bs @ map byte_of s) = (r, length (encode_bytes r))"
    using decode_encode [OF assms, of "map byte_of s"] e by simp
  then show ?thesis using e by (simp add: runes_def byte_of_encode [OF assms])
qed

text \<open>Decoding what was encoded gives the runes back, whatever follows.\<close>

lemma runes_of_runes: "list_all valid_rune rs \<Longrightarrow> runes (of_runes rs @ s) = rs @ runes s"
  by (induction rs) (simp_all add: of_runes_def runes_Cons)

lemma runes_Nil [simp]: "runes [] = []"
  by (simp add: runes_def)

lemma encode_ascii: "byte_of c < 128 \<Longrightarrow> encode_rune (byte_of c) = [c]"
  by (simp add: encode_rune_def encode_bytes_def)

lemma valid_ascii: "n < 128 \<Longrightarrow> valid_rune n"
  by (simp add: valid_rune_def)

lemma of_runes_ascii: "is_ascii s \<Longrightarrow> of_runes (map byte_of s) = s"
  by (induction s) (simp_all add: of_runes_def is_ascii_def encode_ascii)

lemma runes_ascii: "is_ascii s \<Longrightarrow> runes s = map byte_of s"
  using runes_of_runes [of "map byte_of s" "[]"] of_runes_ascii [of s]
  by (simp add: list_all_iff is_ascii_def valid_ascii)

end
