(* ===== verification/Go_Base64.thy ===== *)
theory Go_Base64
  imports Go_Prelude
begin

text \<open>
  \<open>base64.RawURLEncoding\<close> and its strict decoder: the URL alphabet, no padding, line breaks dropped,
  and the unused bits of the last symbol zero. With the strict decoder every byte string has one
  spelling (line breaks aside).
\<close>

definition b64_char :: "nat \<Rightarrow> char" where
  "b64_char n =
     char_of (if n < 26 then 65 + n else if n < 52 then 71 + n else if n < 62 then n - 4
              else if n = 62 then 45 else 95)"

definition b64_value :: "char \<Rightarrow> nat option" where
  "b64_value c =
     (let b = byte_of c in
      if 65 \<le> b \<and> b \<le> 90 then Some (b - 65)
      else if 97 \<le> b \<and> b \<le> 122 then Some (b - 71)
      else if 48 \<le> b \<and> b \<le> 57 then Some (b + 4)
      else if b = 45 then Some 62
      else if b = 95 then Some 63
      else None)"

fun b64_groups :: "nat list \<Rightarrow> nat list" where
  "b64_groups [] = []"
| "b64_groups [a] = [a div 4, a mod 4 * 16]"
| "b64_groups [a, b] = [a div 4, a mod 4 * 16 + b div 16, b mod 16 * 4]"
| "b64_groups (a # b # c # s) =
     (a div 4) # (a mod 4 * 16 + b div 16) # (b mod 16 * 4 + c div 64) # (c mod 64) # b64_groups s"

definition b64_encode :: "string \<Rightarrow> string" where
  "b64_encode bs = map b64_char (b64_groups (map byte_of bs))"

fun b64_bytes :: "nat list \<Rightarrow> nat list option" where
  "b64_bytes [] = Some []"
| "b64_bytes [v] = None"
| "b64_bytes [v, w] = (if w mod 16 = 0 then Some [v * 4 + w div 16] else None)"
| "b64_bytes [v, w, x] =
     (if x mod 4 = 0 then Some [v * 4 + w div 16, w mod 16 * 16 + x div 4] else None)"
| "b64_bytes (v # w # x # y # s) =
     (case b64_bytes s of
        None \<Rightarrow> None
      | Some t \<Rightarrow> Some ((v * 4 + w div 16) # (w mod 16 * 16 + x div 4) # (x mod 4 * 64 + y) # t))"

definition line_break :: "char \<Rightarrow> bool" where
  "line_break c \<longleftrightarrow> byte_of c = 10 \<or> byte_of c = 13"

definition b64_decode :: "string \<Rightarrow> string option" where
  "b64_decode s0 =
     (let s = filter (\<lambda>c. \<not> line_break c) s0 in
      if list_all (\<lambda>c. b64_value c \<noteq> None) s
      then map_option (map char_of) (b64_bytes (map (\<lambda>c. the (b64_value c)) s))
      else None)"

subsection \<open>The round trips\<close>

lemma b64_value_char: "n < 64 \<Longrightarrow> b64_value (b64_char n) = Some n"
  by (auto simp: b64_char_def b64_value_def Let_def take_bit_eq_mod)

lemma b64_char_value: "b64_value c = Some n \<Longrightarrow> n < 64 \<and> b64_char n = c"
  by (auto simp: b64_value_def b64_char_def Let_def char_of_eq_iff take_bit_eq_mod split: if_splits)

lemma b64_char_byte: "n < 64 \<Longrightarrow> byte_of (b64_char n) \<noteq> 46 \<and> byte_of (b64_char n) \<noteq> 10 \<and> byte_of (b64_char n) \<noteq> (13 :: nat)"
  by (auto simp: b64_char_def take_bit_eq_mod)

lemma b64_char_plain: "n < 64 \<Longrightarrow> \<not> line_break (b64_char n) \<and> b64_char n \<noteq> CHR ''.''"
  using b64_char_byte [of n] by (auto simp: line_break_def)

lemma b64_groups_lt: "\<forall>b \<in> set bs. b < 256 \<Longrightarrow> \<forall>v \<in> set (b64_groups bs). v < 64"
  by (induction bs rule: b64_groups.induct) (auto simp: less_mult_imp_div_less)

lemma b64_bytes_groups: "\<forall>b \<in> set bs. b < 256 \<Longrightarrow> b64_bytes (b64_groups bs) = Some bs"
  by (induction bs rule: b64_groups.induct) (auto simp: less_mult_imp_div_less)

lemma b64_groups_bytes:
  "b64_bytes vs = Some bs \<Longrightarrow> \<forall>v \<in> set vs. v < 64 \<Longrightarrow> b64_groups bs = vs \<and> (\<forall>b \<in> set bs. b < 256)"
  by (induction vs arbitrary: bs rule: b64_bytes.induct) (auto split: if_splits option.splits)

theorem b64_decode_encode: "b64_decode (b64_encode bs) = Some bs"
proof -
  let ?g = "b64_groups (map byte_of bs)"
  have lt: "\<forall>v \<in> set ?g. v < 64" by (rule b64_groups_lt) simp
  have "map (\<lambda>c. the (b64_value c)) (map b64_char ?g) = ?g"
    using lt by (simp add: b64_value_char map_idI)
  moreover have "filter (\<lambda>c. \<not> line_break c) (map b64_char ?g) = map b64_char ?g"
    using lt by (auto simp: filter_id_conv b64_char_plain)
  moreover have "b64_bytes ?g = Some (map byte_of bs)" by (rule b64_bytes_groups) simp
  ultimately show ?thesis
    using lt by (simp add: b64_decode_def b64_encode_def list_all_iff b64_value_char comp_def)
qed

theorem b64_encode_decode:
  assumes "b64_decode s = Some bs" and "\<forall>c \<in> set s. \<not> line_break c"
  shows "b64_encode bs = s"
proof -
  let ?v = "map (\<lambda>c. the (b64_value c)) s"
  have s: "filter (\<lambda>c. \<not> line_break c) s = s" using assms(2) by (simp add: filter_id_conv)
  from assms(1) obtain ns where ns: "b64_bytes ?v = Some ns" "bs = map char_of ns"
    and all: "\<forall>c \<in> set s. b64_value c \<noteq> None"
    by (auto simp: b64_decode_def s list_all_iff split: if_splits)
  have v: "\<forall>c \<in> set s. the (b64_value c) < 64 \<and> b64_char (the (b64_value c)) = c"
    using all b64_char_value by fastforce
  have "b64_groups ns = ?v \<and> (\<forall>b \<in> set ns. b < 256)" using b64_groups_bytes [OF ns(1)] v by simp
  moreover from this have "map byte_of bs = ns" by (simp add: ns(2) comp_def take_bit_eq_mod map_idI)
  ultimately show ?thesis using v by (simp add: b64_encode_def comp_def map_idI)
qed

lemma b64_encode_chars: "c \<in> set (b64_encode bs) \<Longrightarrow> \<not> line_break c \<and> c \<noteq> CHR ''.''"
proof -
  assume "c \<in> set (b64_encode bs)"
  then obtain v where "v \<in> set (b64_groups (map byte_of bs))" "c = b64_char v" by (auto simp: b64_encode_def)
  then show ?thesis using b64_groups_lt [of "map byte_of bs"] b64_char_plain by simp
qed

end
