(* ===== verification/Go_Path.thy ===== *)
theory Go_Path
  imports Go_Prelude
begin

text \<open>
  \<open>path.Clean\<close> and \<open>path.Join\<close> of Go's path package, which work on the text of a slash-separated path
  alone.
\<close>

text \<open>The elements that are left, \<open>st\<close> being those kept so far, last first.\<close>

fun clean_parts :: "bool \<Rightarrow> string list \<Rightarrow> string list \<Rightarrow> string list" where
  "clean_parts rooted st [] = rev st"
| "clean_parts rooted st (x # xs) =
     (if x = [] \<or> x = ''.'' then clean_parts rooted st xs
      else if x = ''..'' then
        (case st of
           [] \<Rightarrow> clean_parts rooted (if rooted then [] else [x]) xs
         | t # ts \<Rightarrow> clean_parts rooted (if t = ''..'' then x # st else ts) xs)
      else clean_parts rooted (x # st) xs)"

definition path_clean :: "string \<Rightarrow> string" where
  "path_clean p =
     (let rooted = (p \<noteq> [] \<and> hd p = CHR ''/'');
          out = str_join ''/'' (clean_parts rooted [] (split_on CHR ''/'' p))
      in if rooted then CHR ''/'' # out else if out = [] then ''.'' else out)"

definition path_join :: "string \<Rightarrow> string \<Rightarrow> string" where
  "path_join a b =
     (let es = filter (\<lambda>e. e \<noteq> []) [a, b] in if es = [] then [] else path_clean (str_join ''/'' es))"

text \<open>\<open>filepath.Base\<close>.\<close>

definition path_base :: "string \<Rightarrow> string" where
  "path_base p =
     (if p = [] then ''.''
      else
        (let s = trim_right_set p ''/''; b = rev (takeWhile (\<lambda>c. c \<noteq> CHR ''/'') (rev s)) in
         if b = [] then ''/'' else b))"

text \<open>\<open>filepath.Dir\<close>: what is before the last separator, cleaned.\<close>

definition path_dir :: "string \<Rightarrow> string" where
  "path_dir p = path_clean (rev (dropWhile (\<lambda>c. c \<noteq> CHR ''/'') (rev p)))"

end
