(* ===== verification/Go_Net.thy ===== *)
theory Go_Net
  imports Go_Strconv
begin

text \<open>
  The functions of Go's net and net/netip packages that address handling rests on:
  \<open>SplitHostPort\<close>, \<open>ParseAddr\<close>, \<open>ParseIP\<close>, \<open>ParseCIDR\<close> and \<open>IPNet.Contains\<close>. An address is its
  bytes, four or sixteen.
\<close>

subsection \<open>Host and port\<close>

definition index_of :: "char \<Rightarrow> string \<Rightarrow> nat option" where
  "index_of c s = (let n = length (takeWhile (\<lambda>x. x \<noteq> c) s) in if n < length s then Some n else None)"

definition last_index_of :: "char \<Rightarrow> string \<Rightarrow> nat option" where
  "last_index_of c s = map_option (\<lambda>n. length s - 1 - n) (index_of c (rev s))"

text \<open>\<open>net.SplitHostPort\<close>, \<open>None\<close> for its errors, and \<open>net.JoinHostPort\<close>.\<close>

definition split_host_port :: "string \<Rightarrow> (string \<times> string) option" where
  "split_host_port hp =
     (case last_index_of CHR '':'' hp of
        None \<Rightarrow> None
      | Some i \<Rightarrow>
          if hd hp = CHR ''['' then
            (case index_of CHR '']'' hp of
               None \<Rightarrow> None
             | Some e \<Rightarrow>
                 if e + 1 \<noteq> i then None
                 else if CHR ''['' \<in> set (drop 1 hp) \<or> CHR '']'' \<in> set (drop (e + 1) hp) then None
                 else Some (take (e - 1) (drop 1 hp), drop (i + 1) hp))
          else if CHR '':'' \<in> set (take i hp) then None
          else if CHR ''['' \<in> set hp \<or> CHR '']'' \<in> set hp then None
          else Some (take i hp, drop (i + 1) hp))"

definition join_host_port :: "string \<Rightarrow> string \<Rightarrow> string" where
  "join_host_port host port =
     (if CHR '':'' \<in> set host then ''['' @ host @ '']:'' @ port else host @ '':'' @ port)"

subsection \<open>Addresses\<close>

text \<open>A dotted quad: four decimal fields up to 255 without leading zeros.\<close>

definition octet :: "string \<Rightarrow> nat option" where
  "octet f =
     (if f = [] \<or> \<not> list_all dec_digit f \<or> (1 < length f \<and> hd f = CHR ''0'') \<or> 255 < digits_value f then None
      else Some (nat (digits_value f)))"

definition parse_ipv4 :: "string \<Rightarrow> nat list option" where
  "parse_ipv4 s =
     (let fs = split_on CHR ''.'' s in
      if length fs \<noteq> 4 \<or> \<not> list_all (\<lambda>f. octet f \<noteq> None) fs then None else Some (map (\<lambda>f. the (octet f)) fs))"

definition hex_value :: "char \<Rightarrow> nat" where
  "hex_value c =
     (let b = byte_of c in if b \<le> 57 then b - 48 else if b \<le> 70 then b - 55 else b - 87)"

text \<open>
  The loop over colon-separated groups: what is left of the text, the bytes so far and where the
  ellipsis stood; \<open>None\<close> for an error. Sixteen bytes end it, whatever text is left.
\<close>

function parse6_groups :: "string \<Rightarrow> nat list \<Rightarrow> nat option \<Rightarrow> (string \<times> nat list \<times> nat option) option" where
  "parse6_groups s ip ell =
     (if 16 \<le> length ip then Some (s, ip, ell)
      else
        (let ds = takeWhile hex_digit s; rest = dropWhile hex_digit s;
             acc = foldl (\<lambda>n c. n * 16 + hex_value c) 0 ds
         in if ds = [] \<or> 4 < length ds then None
            else if rest \<noteq> [] \<and> hd rest = CHR ''.'' then
              (if ell = None \<and> length ip \<noteq> 12 \<or> 16 < length ip + 4 then None
               else (case parse_ipv4 s of None \<Rightarrow> None | Some q \<Rightarrow> Some ([], ip @ q, ell)))
            else
              (let ip' = ip @ [acc div 256, acc mod 256] in
               if rest = [] then Some ([], ip', ell)
               else if hd rest \<noteq> CHR '':'' \<or> length rest = 1 then None
               else
                 (let t = drop 1 rest in
                  if hd t = CHR '':'' then
                    (if ell \<noteq> None then None
                     else if length t = 1 then Some ([], ip', Some (length ip'))
                     else parse6_groups (drop 1 t) ip' (Some (length ip')))
                  else parse6_groups t ip' ell))))"
  by pat_completeness auto

termination parse6_groups
  by (relation "measure (\<lambda>(s, ip, ell). 16 - length ip)") auto

declare parse6_groups.simps [simp del]

text \<open>\<open>netip.ParseAddr\<close> with the zone of an IPv6 address.\<close>

definition parse_ipv6 :: "string \<Rightarrow> (nat list \<times> string) option" where
  "parse_ipv6 text =
     (let s0 = takeWhile (\<lambda>c. c \<noteq> CHR ''%'') text; zone = drop (length s0 + 1) text in
      if s0 \<noteq> text \<and> zone = [] then None
      else
        (let lead = (take 2 s0 = ''::''); s = (if lead then drop 2 s0 else s0) in
         if lead \<and> s = [] then Some (replicate 16 0, zone)
         else
           (case parse6_groups s [] (if lead then Some 0 else None) of
              None \<Rightarrow> None
            | Some (rest, ip, ell) \<Rightarrow>
                if rest \<noteq> [] then None
                else if length ip < 16 then
                  (case ell of
                     None \<Rightarrow> None
                   | Some e \<Rightarrow> Some (take e ip @ replicate (16 - length ip) 0 @ drop e ip, zone))
                else if ell \<noteq> None then None
                else Some (ip, zone))))"

definition parse_addr :: "string \<Rightarrow> (nat list \<times> string) option" where
  "parse_addr s =
     (case dropWhile (\<lambda>c. c \<noteq> CHR ''.'' \<and> c \<noteq> CHR '':'' \<and> c \<noteq> CHR ''%'') s of
        [] \<Rightarrow> None
      | c # _ \<Rightarrow>
          if c = CHR ''.'' then map_option (\<lambda>q. (q, [])) (parse_ipv4 s)
          else if c = CHR '':'' then parse_ipv6 s
          else None)"

definition parse_ip :: "string \<Rightarrow> nat list option" where
  "parse_ip s = (case parse_addr s of None \<Rightarrow> None | Some (ip, zone) \<Rightarrow> if zone = [] then Some ip else None)"

subsection \<open>Networks\<close>

text \<open>The four bytes of an IPv4-mapped address.\<close>

definition to4 :: "nat list \<Rightarrow> nat list" where
  "to4 ip = (if length ip = 16 \<and> take 12 ip = replicate 10 0 @ [255, 255] then drop 12 ip else ip)"

text \<open>The first \<open>n\<close> bits, the others cleared.\<close>

fun mask_bytes :: "nat \<Rightarrow> nat list \<Rightarrow> nat list" where
  "mask_bytes n [] = []"
| "mask_bytes n (b # bs) = (b div 2 ^ (8 - min 8 n) * 2 ^ (8 - min 8 n)) # mask_bytes (n - 8) bs"

text \<open>A network is its masked address and the number of mask bits.\<close>

type_synonym ip_net = "nat list \<times> nat"

definition parse_cidr :: "string \<Rightarrow> ip_net option" where
  "parse_cidr s =
     (case index_of CHR ''/'' s of
        None \<Rightarrow> None
      | Some i \<Rightarrow>
          (let m = drop (i + 1) s in
           case parse_addr (take i s) of
             None \<Rightarrow> None
           | Some (ip, zone) \<Rightarrow>
               if zone \<noteq> [] \<or> m = [] \<or> \<not> list_all dec_digit m \<or> digits_value m > 8 * int (length ip) then None
               else (let n = nat (digits_value m) in Some (mask_bytes n ip, n))))"

definition net_contains :: "ip_net \<Rightarrow> nat list \<Rightarrow> bool" where
  "net_contains net ip0 =
     (let nn = to4 (fst net); ip = to4 ip0;
          n = (if length nn = length (fst net) then snd net else snd net - 96)
      in length ip = length nn \<and> mask_bytes n nn = mask_bytes n ip)"

subsection \<open>Parsed addresses are well formed\<close>

definition ip_ok :: "nat list \<Rightarrow> bool" where
  "ip_ok ip \<longleftrightarrow> (length ip = 4 \<or> length ip = 16) \<and> list_all (\<lambda>b. b < 256) ip"

definition bytes_ok :: "nat list \<Rightarrow> bool" where "bytes_ok ip = list_all (\<lambda>b. b < 256) ip"

lemma bytes_ok_simps [simp]:
  "bytes_ok []" "bytes_ok (b # bs) \<longleftrightarrow> b < 256 \<and> bytes_ok bs" "bytes_ok (xs @ ys) \<longleftrightarrow> bytes_ok xs \<and> bytes_ok ys"
  "bytes_ok (replicate n 0)"
  by (auto simp: bytes_ok_def list_all_iff)

lemma bytes_ok_sub: "bytes_ok ip \<Longrightarrow> bytes_ok (take n ip)" "bytes_ok ip \<Longrightarrow> bytes_ok (drop n ip)"
  by (auto simp: bytes_ok_def list_all_iff dest: in_set_takeD in_set_dropD)

lemma octet_bound: "octet f = Some b \<Longrightarrow> b < 256"
  by (auto simp: octet_def split: if_splits)

lemma parse_ipv4_ok: "parse_ipv4 s = Some ip \<Longrightarrow> length ip = 4 \<and> bytes_ok ip"
  by (auto simp: parse_ipv4_def bytes_ok_def list_all_iff Let_def split: if_splits) (metis octet_bound option.sel)

lemma hex_value_bound: "hex_digit c \<Longrightarrow> hex_value c < 16"
  by (auto simp: hex_digit_def dec_digit_def hex_value_def Let_def)

lemma foldl_hex_bound: "\<lbrakk> list_all hex_digit ds; acc < 16 ^ n \<rbrakk> \<Longrightarrow>
    foldl (\<lambda>n c. n * 16 + hex_value c) acc ds < 16 ^ (n + length ds)"
proof (induction ds arbitrary: acc n)
  case (Cons d ds)
  have "acc * 16 + hex_value d < 16 ^ Suc n"
    using Cons.prems hex_value_bound [of d] by simp
  then show ?case using Cons.IH [of "acc * 16 + hex_value d" "Suc n"] Cons.prems by simp
qed simp

lemma group_bound:
  assumes "length ds \<le> 4" "list_all hex_digit ds"
  shows "foldl (\<lambda>n c. n * 16 + hex_value c) 0 ds < 65536"
proof -
  have "(16::nat) ^ length ds \<le> 16 ^ 4" using assms(1) by (intro power_increasing) auto
  then show ?thesis using foldl_hex_bound [OF assms(2), of 0 0] by simp
qed

lemma parse6_groups_ok:
  "\<lbrakk> parse6_groups s ip ell = Some (r, ip', e'); even (length ip); length ip \<le> 16; bytes_ok ip \<rbrakk> \<Longrightarrow>
    even (length ip') \<and> length ip' \<le> 16 \<and> bytes_ok ip'"
proof (induction s ip ell rule: parse6_groups.induct)
  case (1 s ip ell)
  define ds rest where "ds = takeWhile hex_digit s" and "rest = dropWhile hex_digit s"
  define acc where "acc = foldl (\<lambda>n c. n * 16 + hex_value c) 0 ds"
  have digits: "list_all hex_digit ds"
    by (auto simp: ds_def list_all_iff dest: set_takeWhileD)
  show ?case
  proof (cases "16 \<le> length ip \<or> ds = [] \<or> 4 < length ds")
    case True
    then show ?thesis using "1.prems" by (auto simp: parse6_groups.simps [of s ip ell] ds_def Let_def split: if_splits)
  next
    case False
    then have room: "length ip + 2 \<le> 16" using "1.prems"(2) by (elim evenE) auto
    have "acc < 65536" using group_bound [OF _ digits] False by (simp add: acc_def)
    then have pair: "even (length (ip @ [acc div 256, acc mod 256]))"
      "length (ip @ [acc div 256, acc mod 256]) \<le> 16" "bytes_ok (ip @ [acc div 256, acc mod 256])"
      using "1.prems" room by auto
    note IH = "1.IH" [OF _ refl refl refl _ _ refl _ _ refl, folded ds_def rest_def, folded acc_def]
    have step: "parse6_groups s ip ell =
        (if rest \<noteq> [] \<and> hd rest = CHR ''.'' then
              (if ell = None \<and> length ip \<noteq> 12 \<or> 16 < length ip + 4 then None
               else (case parse_ipv4 s of None \<Rightarrow> None | Some q \<Rightarrow> Some ([], ip @ q, ell)))
         else
              (let ip' = ip @ [acc div 256, acc mod 256] in
               if rest = [] then Some ([], ip', ell)
               else if hd rest \<noteq> CHR '':'' \<or> length rest = 1 then None
               else
                 (let t = drop 1 rest in
                  if hd t = CHR '':'' then
                    (if ell \<noteq> None then None
                     else if length t = 1 then Some ([], ip', Some (length ip'))
                     else parse6_groups (drop 1 t) ip' (Some (length ip')))
                  else parse6_groups t ip' ell)))"
      using False by (simp add: parse6_groups.simps [of s ip ell] ds_def rest_def acc_def Let_def)
    define ip2 where "ip2 = ip @ [acc div 256, acc mod 256]"
    note IH = IH [folded ip2_def]
    consider (quad) q where "parse_ipv4 s = Some q" "ip' = ip @ q" "length ip + 4 \<le> 16"
      | (stop) "ip' = ip2"
      | (ell) "\<not> (rest \<noteq> [] \<and> hd rest = CHR ''.'')" "rest \<noteq> []" "\<not> (hd rest \<noteq> CHR '':'' \<or> length rest = 1)"
          "hd (drop 1 rest) = CHR '':''" "\<not> ell \<noteq> None" "length (drop 1 rest) \<noteq> 1"
          "parse6_groups (drop 1 (drop 1 rest)) ip2 (Some (length ip2)) = Some (r, ip', e')"
      | (group) "\<not> (rest \<noteq> [] \<and> hd rest = CHR ''.'')" "rest \<noteq> []" "\<not> (hd rest \<noteq> CHR '':'' \<or> length rest = 1)"
          "hd (drop 1 rest) \<noteq> CHR '':''" "parse6_groups (drop 1 rest) ip2 ell = Some (r, ip', e')"
      using "1.prems"(1) [unfolded step Let_def, folded ip2_def] by (simp split: if_splits option.splits)
    then show ?thesis
    proof cases
      case quad
      then show ?thesis using "1.prems"(2-) by (auto dest: parse_ipv4_ok)
    next
      case stop
      then show ?thesis using pair by (simp add: ip2_def)
    next
      case ell
      show ?thesis
        using IH(1) [OF _ _ ell(1-6) ell(7)] False pair by (simp add: ip2_def)
    next
      case group
      show ?thesis
        using IH(2) [OF _ _ group(1-4) group(5)] False pair by (simp add: ip2_def)
    qed
  qed
qed

lemma parse_ipv6_ok:
  assumes "parse_ipv6 t = Some (ip, z)"
  shows "length ip = 16 \<and> bytes_ok ip"
proof -
  have groups: "length ip0 \<le> 16 \<and> bytes_ok ip0"
    if "parse6_groups s [] e = Some (r, ip0, e')" for s e r ip0 e'
    using parse6_groups_ok [OF that] by simp
  from assms show ?thesis
    unfolding parse_ipv6_def Let_def
    by (auto simp: min_def bytes_ok_sub split: if_splits option.splits dest!: groups)
qed

lemma parse_ip_ok: "parse_ip s = Some ip \<Longrightarrow> ip_ok ip"
  by (auto simp: parse_ip_def parse_addr_def ip_ok_def bytes_ok_def [symmetric]
      split: option.splits list.splits if_splits dest: parse_ipv4_ok parse_ipv6_ok)

end
