(* ===== verification/Session_Token.thy ===== *)
theory Session_Token
  imports Go_Strconv Go_Base64
begin

text \<open>
  \<open>internal/auth/session.go\<close>: signed session cookies of the formats v4 to v1. HMAC-SHA-256 and
  SHA-256 are arguments (\<open>hmac\<close> of a secret and a payload, \<open>sha\<close>), as are the random bytes of a
  session id and the clock, read in Unix seconds.
\<close>

subsection \<open>Minting\<close>

datatype session_error = SessionInvalid string | SessionExpired | SessionRandom

definition key_id_len :: nat where
  "key_id_len = 8"

definition min_secret_len :: nat where
  "min_secret_len = 32"

definition key_id :: "(string \<Rightarrow> string \<Rightarrow> string) \<Rightarrow> string \<Rightarrow> string" where
  "key_id hmac secret = take key_id_len (hex_encode (hmac secret ''bindery-session-key-id''))"

text \<open>\<open>rnd\<close>: the bytes \<open>rand.Read\<close> gave for the session id, or its failure.\<close>

definition sign_session_with_epoch ::
    "(string \<Rightarrow> string \<Rightarrow> string) \<Rightarrow> string option \<Rightarrow> string \<Rightarrow> int \<Rightarrow> int \<Rightarrow> int \<Rightarrow> session_error + string" where
  "sign_session_with_epoch hmac rnd secret user_id epoch exp_unix =
     (if length secret < min_secret_len then Inl (SessionInvalid ''sign session'')
      else
        (case rnd of
           None \<Rightarrow> Inl SessionRandom
         | Some bytes \<Rightarrow>
             (let payload = str_join ''.''
                    [''v4'', key_id hmac secret, show_int user_id, show_int epoch, show_int exp_unix, b64_encode bytes];
                  mac = hmac secret payload
              in Inr (payload @ ''.'' @ b64_encode mac))))"

definition sign_session ::
    "(string \<Rightarrow> string \<Rightarrow> string) \<Rightarrow> string option \<Rightarrow> string \<Rightarrow> int \<Rightarrow> int \<Rightarrow> session_error + string" where
  "sign_session hmac rnd secret user_id exp_unix = sign_session_with_epoch hmac rnd secret user_id 0 exp_unix"

subsection \<open>Verifying\<close>

text \<open>The fields of a cookie by its format: key id, user, epoch (if any), expiry and signature.\<close>

definition session_layout :: "string list \<Rightarrow> (string \<times> string \<times> string option \<times> string \<times> string) option" where
  "session_layout parts =
     (if length parts = 7 \<and> parts ! 0 = ''v4'' then Some (parts ! 1, parts ! 2, Some (parts ! 3), parts ! 4, parts ! 6)
      else if length parts = 6 \<and> parts ! 0 = ''v3'' then Some (parts ! 1, parts ! 2, Some (parts ! 3), parts ! 4, parts ! 5)
      else if length parts = 5 \<and> parts ! 0 = ''v2'' then Some (parts ! 1, parts ! 2, None, parts ! 3, parts ! 4)
      else if length parts = 4 \<and> parts ! 0 = ''v1'' then Some ([], parts ! 1, None, parts ! 2, parts ! 3)
      else None)"

text \<open>The two passes over the candidate secrets: those the key id names, then all of them.\<close>

definition signature_matches :: "(string \<Rightarrow> string \<Rightarrow> string) \<Rightarrow> string list \<Rightarrow> string \<Rightarrow> string \<Rightarrow> string \<Rightarrow> bool" where
  "signature_matches hmac usable cookie_key_id got payload =
     (let matched = list_ex (\<lambda>secret.
            if cookie_key_id \<noteq> [] \<and> key_id hmac secret \<noteq> cookie_key_id then False
            else got = hmac secret payload) usable
      in if \<not> matched \<and> cookie_key_id \<noteq> [] then list_ex (\<lambda>secret. got = hmac secret payload) usable
         else matched)"

definition verify_session ::
    "(string \<Rightarrow> string \<Rightarrow> string) \<Rightarrow> string list \<Rightarrow> string \<Rightarrow> int \<Rightarrow> session_error + int \<times> int \<times> int" where
  "verify_session hmac secrets cookie now =
     (let usable = filter (\<lambda>s. length s \<ge> min_secret_len) secrets in
      if usable = [] then Inl (SessionInvalid ''verify session'')
      else
        (let parts = split_on CHR ''.'' cookie in
         case session_layout parts of
           None \<Rightarrow> Inl (SessionInvalid ''malformed session'')
         | Some (cookie_key_id, id_part, epoch_part, exp_part, sig) \<Rightarrow>
             (case parse_int id_part of
                None \<Rightarrow> Inl (SessionInvalid ''bad user id'')
              | Some user_id \<Rightarrow>
             (case (case epoch_part of None \<Rightarrow> Some 0 | Some e \<Rightarrow> parse_int e) of
                None \<Rightarrow> Inl (SessionInvalid ''bad session epoch'')
              | Some epoch \<Rightarrow>
             (case parse_int exp_part of
                None \<Rightarrow> Inl (SessionInvalid ''bad expiry'')
              | Some exp_unix \<Rightarrow>
             (let payload = str_join ''.'' (butlast parts) in
              case b64_decode sig of
                None \<Rightarrow> Inl (SessionInvalid ''bad signature encoding'')
              | Some got \<Rightarrow>
                  if \<not> signature_matches hmac usable cookie_key_id got payload then Inl (SessionInvalid ''bad signature'')
                  else if now > exp_unix then Inl SessionExpired
                  else Inr (user_id, epoch, exp_unix)))))))"

definition verify_session_multi_with_epoch ::
    "(string \<Rightarrow> string \<Rightarrow> string) \<Rightarrow> string list \<Rightarrow> string \<Rightarrow> int \<Rightarrow> session_error + int \<times> int" where
  "verify_session_multi_with_epoch hmac secrets cookie now =
     (case verify_session hmac secrets cookie now of Inl e \<Rightarrow> Inl e | Inr (uid, epoch, _) \<Rightarrow> Inr (uid, epoch))"

definition verify_session_multi_with_expiry ::
    "(string \<Rightarrow> string \<Rightarrow> string) \<Rightarrow> string list \<Rightarrow> string \<Rightarrow> int \<Rightarrow> session_error + int \<times> int" where
  "verify_session_multi_with_expiry hmac secrets cookie now =
     (case verify_session hmac secrets cookie now of Inl e \<Rightarrow> Inl e | Inr (uid, _, exp_unix) \<Rightarrow> Inr (uid, exp_unix))"

text \<open>The key a token is revoked under: a hash of everything before the last dot.\<close>

definition session_token_hash :: "(string \<Rightarrow> string) \<Rightarrow> string \<Rightarrow> string" where
  "session_token_hash sha cookie =
     (let payload = (if CHR ''.'' \<in> set cookie then rev (drop 1 (dropWhile (\<lambda>c. c \<noteq> CHR ''.'') (rev cookie))) else cookie)
      in hex_encode (sha (''bindery-session-revocation'' @ [char_of (0 :: nat)] @ payload)))"

subsection \<open>What a token says\<close>

definition session_fields :: "string \<Rightarrow> string option \<Rightarrow> string \<Rightarrow> (int \<times> int \<times> int) option" where
  "session_fields u e x =
     (case (parse_int u, case e of None \<Rightarrow> Some 0 | Some t \<Rightarrow> parse_int t, parse_int x) of
        (Some uid, Some epoch, Some exp_unix) \<Rightarrow> Some (uid, epoch, exp_unix)
      | _ \<Rightarrow> None)"

text \<open>The user, epoch and expiry that a signed payload states, by its format.\<close>

definition payload_claims :: "string \<Rightarrow> (int \<times> int \<times> int) option" where
  "payload_claims payload =
     (case split_on CHR ''.'' payload of
        [v, u, x] \<Rightarrow> if v = ''v1'' then session_fields u None x else None
      | [v, k, u, x] \<Rightarrow> if v = ''v2'' then session_fields u None x else None
      | [v, k, u, e, x] \<Rightarrow> if v = ''v3'' then session_fields u (Some e) x else None
      | [v, k, u, e, x, i] \<Rightarrow> if v = ''v4'' then session_fields u (Some e) x else None
      | _ \<Rightarrow> None)"

lemma split_on_snoc: "c \<notin> set x \<Longrightarrow> split_on c (s @ c # x) = split_on c s @ [x]"
  by (simp add: split_on_app split_on_single)

lemma signature_matches_iff:
  "signature_matches hmac usable k got payload \<longleftrightarrow> (\<exists>s \<in> set usable. got = hmac s payload)"
  by (auto simp: signature_matches_def list_ex_iff Let_def split: if_splits)

lemma last_dot: "CHR ''.'' \<in> set cookie \<Longrightarrow> \<exists>payload sig. cookie = payload @ ''.'' @ sig \<and> CHR ''.'' \<notin> set sig"
  using split_list_last [of "CHR ''.''" cookie] by simp

text \<open>A cookie that is a payload and its signature.\<close>

lemma verify_signed:
  assumes "CHR ''.'' \<notin> set sig"
  shows "verify_session hmac secrets (payload @ ''.'' @ sig) now = Inr (u, e, x) \<longleftrightarrow>
    payload_claims payload = Some (u, e, x) \<and> now \<le> x
    \<and> (\<exists>s \<in> set secrets. min_secret_len \<le> length s \<and> b64_decode sig = Some (hmac s payload))"
proof -
  have parts: "split_on CHR ''.'' (payload @ CHR ''.'' # sig) = split_on CHR ''.'' payload @ [sig]"
    by (rule split_on_snoc [OF assms])
  have join: "str_join ''.'' (split_on CHR ''.'' payload) = payload" by (rule str_join_split)
  let ?ps = "split_on CHR ''.'' payload"
  have claims: "payload_claims payload = (case session_layout (?ps @ [sig]) of
      None \<Rightarrow> None | Some (_, u, e, x, _) \<Rightarrow> session_fields u e x)"
    and sig: "session_layout (?ps @ [sig]) = Some (k, i, e', x', sig') \<Longrightarrow> sig' = sig" for k i e' x' sig'
  proof -
    have "(case session_layout (ps @ [sig]) of None \<Rightarrow> None | Some (_, u, e, x, _) \<Rightarrow> session_fields u e x)
      = (case ps of
        [v, u, x] \<Rightarrow> if v = ''v1'' then session_fields u None x else None
      | [v, k, u, x] \<Rightarrow> if v = ''v2'' then session_fields u None x else None
      | [v, k, u, e, x] \<Rightarrow> if v = ''v3'' then session_fields u (Some e) x else None
      | [v, k, u, e, x, i] \<Rightarrow> if v = ''v4'' then session_fields u (Some e) x else None
      | _ \<Rightarrow> None)" for ps
      by (simp add: session_layout_def split: list.split)
    then show "payload_claims payload = (case session_layout (?ps @ [sig]) of
      None \<Rightarrow> None | Some (_, u, e, x, _) \<Rightarrow> session_fields u e x)" by (simp add: payload_claims_def)
    show "session_layout (?ps @ [sig]) = Some (k, i, e', x', sig') \<Longrightarrow> sig' = sig" for k i e' x' sig'
      by (auto simp: session_layout_def nth_append split: if_splits)
  qed
  show ?thesis
  proof (cases "session_layout (?ps @ [sig])")
    case None
    then show ?thesis by (simp add: verify_session_def parts claims Let_def)
  next
    case (Some l)
    obtain k i e' x' where l: "session_layout (?ps @ [sig]) = Some (k, i, e', x', sig)"
      using Some sig by (metis prod_cases5)
    show ?thesis
    proof (cases "(parse_int i, case e' of None \<Rightarrow> Some 0 | Some t \<Rightarrow> parse_int t, parse_int x', b64_decode sig)")
      case (fields u' e'' x'' got)
      then show ?thesis
        by (cases u'; cases e''; cases x''; cases got)
          (auto simp: verify_session_def Let_def parts join claims l signature_matches_iff session_fields_def filter_empty_conv)
    qed
  qed
qed

lemma verify_unsigned: "CHR ''.'' \<notin> set cookie \<Longrightarrow> \<not> (\<exists>r. verify_session hmac secrets cookie now = Inr r)"
  by (simp add: verify_session_def split_on_single session_layout_def Let_def)

text \<open>C6: verification is exactly what the cookie formats promise. A cookie is accepted as user \<open>u\<close>,
  epoch \<open>e\<close> and expiry \<open>x\<close> if and only if it is a payload and a signature around its last dot, the
  payload states these claims in one of the four formats, it has not expired, and the signature is
  the strict encoding of the HMAC of that payload under one of the secrets that are long enough.
  Neither key ids nor the order of the candidates ever change the answer, and no parse failure,
  missing secret or collision lets anything else through.\<close>

theorem session_accepted_iff:
  "verify_session hmac secrets cookie now = Inr (u, e, x) \<longleftrightarrow>
   (\<exists>payload sig. cookie = payload @ ''.'' @ sig \<and> CHR ''.'' \<notin> set sig
      \<and> payload_claims payload = Some (u, e, x) \<and> now \<le> x
      \<and> (\<exists>s \<in> set secrets. min_secret_len \<le> length s \<and> b64_decode sig = Some (hmac s payload)))"
  (is "?accepted \<longleftrightarrow> ?signed")
proof
  assume accepted: ?accepted
  then have "CHR ''.'' \<in> set cookie" using verify_unsigned by blast
  from last_dot [OF this] obtain payload sig where c: "cookie = payload @ ''.'' @ sig" "CHR ''.'' \<notin> set sig" by blast
  have "payload_claims payload = Some (u, e, x) \<and> now \<le> x
      \<and> (\<exists>s \<in> set secrets. min_secret_len \<le> length s \<and> b64_decode sig = Some (hmac s payload))"
    using accepted unfolding c(1) verify_signed [OF c(2)] .
  with c show ?signed by blast
next
  assume ?signed
  then obtain payload sig where c: "cookie = payload @ ''.'' @ sig" "CHR ''.'' \<notin> set sig"
    "payload_claims payload = Some (u, e, x) \<and> now \<le> x
      \<and> (\<exists>s \<in> set secrets. min_secret_len \<le> length s \<and> b64_decode sig = Some (hmac s payload))" by blast
  show ?accepted unfolding c(1) verify_signed [OF c(2)] by (rule c(3))
qed

lemma hex_no_dot: "CHR ''.'' \<notin> set (hex_encode bs)"
  using hex_encode_lower [of bs] by (auto simp: list_all_iff lower_hex_def dec_digit_def)

lemma key_id_no_dot: "CHR ''.'' \<notin> set (key_id hmac secret)"
  using hex_no_dot by (auto simp: key_id_def dest: in_set_takeD)

lemma b64_no_dot: "CHR ''.'' \<notin> set (b64_encode bs)"
  using b64_encode_chars by blast

lemma show_int_no_dot: "CHR ''.'' \<notin> set (show_int i)"
  using show_int_chars [of "CHR ''.''" i] by (auto simp: dec_digit_def)

text \<open>A minted cookie verifies. Whatever the HMAC function, the random session id and the other
  candidate secrets are, a cookie that \<open>SignSessionWithEpoch\<close> returns is accepted until it expires
  by every verifier that still holds the secret, and yields the user, epoch and expiry it was minted
  with, also when key ids collide.\<close>

theorem session_roundtrip:
  assumes "sign_session_with_epoch hmac rnd secret user_id epoch exp_unix = Inr cookie"
    and "secret \<in> set secrets" and "now \<le> exp_unix"
    and "- (2 ^ 63) \<le> user_id" "user_id < 2 ^ 63" "- (2 ^ 63) \<le> epoch" "epoch < 2 ^ 63"
    and "- (2 ^ 63) \<le> exp_unix" "exp_unix < 2 ^ 63"
  shows "verify_session hmac secrets cookie now = Inr (user_id, epoch, exp_unix)"
proof -
  obtain bytes where long: "min_secret_len \<le> length secret" and rnd: "rnd = Some bytes"
    using assms(1) by (auto simp: sign_session_with_epoch_def split: if_splits option.splits)
  let ?fields = "[''v4'', key_id hmac secret, show_int user_id, show_int epoch, show_int exp_unix, b64_encode bytes]"
  let ?payload = "str_join ''.'' ?fields"
  have cookie: "cookie = ?payload @ ''.'' @ b64_encode (hmac secret ?payload)"
    using assms(1) long rnd by (simp add: sign_session_with_epoch_def Let_def del: str_join.simps)
  have "split_on CHR ''.'' ?payload = ?fields"
    by (rule split_str_join) (simp_all add: key_id_no_dot show_int_no_dot b64_no_dot)
  then have "payload_claims ?payload = Some (user_id, epoch, exp_unix)"
    using assms(4-) by (simp add: payload_claims_def session_fields_def parse_show_int del: str_join.simps)
  then show ?thesis
    using assms(2,3) long b64_decode_encode unfolding cookie verify_signed [OF b64_no_dot] by blast
qed

theorem session_roundtrip_witness:
  "\<exists>cookie. sign_session_with_epoch (\<lambda>k p. rev p) (Some ''0123456789abcdef'') (replicate 32 CHR ''k'') 7 1 1000 = Inr cookie
    \<and> verify_session (\<lambda>k p. rev p) [''short'', replicate 40 CHR ''n'', replicate 32 CHR ''k''] cookie 999 = Inr (7, 1, 1000)"
proof -
  let ?k = "replicate 32 CHR ''k''" and ?h = "\<lambda>k p. rev p :: string"
  obtain cookie where c: "sign_session_with_epoch ?h (Some ''0123456789abcdef'') ?k 7 1 1000 = Inr cookie"
    by (simp add: sign_session_with_epoch_def min_secret_len_def Let_def)
  with session_roundtrip [OF c, of "[''short'', replicate 40 CHR ''n'', ?k]" 999] show ?thesis by auto
qed

text \<open>The denylist key of a token depends on its payload alone.\<close>

lemma token_hash_payload:
  "CHR ''.'' \<notin> set sig \<Longrightarrow> session_token_hash sha (payload @ ''.'' @ sig)
     = hex_encode (sha (''bindery-session-revocation'' @ [char_of (0 :: nat)] @ payload))"
  by (simp add: session_token_hash_def dropWhile_append)

end
