(* ===== verification/Session_Revocations.thy ===== *)
theory Session_Revocations
  imports Go_Prelude
begin

text \<open>
  \<open>internal/db/session_revocations.go\<close>: the logout denylist, a table of token hashes and the cache in
  front of it that is loaded once. \<open>sr_faults\<close> says of each of the next statements whether it fails;
  a restart of the process drops the cache and keeps the table.
\<close>

record session_revocations =
  sr_rows :: "string \<rightharpoonup> int"
  sr_loaded :: bool
  sr_revoked :: "string \<rightharpoonup> time"
  sr_faults :: "bool list"

definition statement :: "session_revocations \<Rightarrow> bool \<times> session_revocations" where
  "statement s = (case sr_faults s of [] \<Rightarrow> (False, s) | f # fs \<Rightarrow> (f, s\<lparr>sr_faults := fs\<rparr>))"

definition new_session_revocations :: "session_revocations \<Rightarrow> session_revocations" where
  "new_session_revocations s = s\<lparr>sr_loaded := False, sr_revoked := Map.empty\<rparr>"

text \<open>\<open>load\<close>: false for an error.\<close>

definition load_revocations :: "time \<Rightarrow> session_revocations \<Rightarrow> bool \<times> session_revocations" where
  "load_revocations now s =
     (if sr_loaded s then (True, s)
      else
        (let (failed, s1) = statement s in
         if failed then (False, s1)
         else (True, s1\<lparr>
           sr_revoked := (\<lambda>h. case sr_rows s1 h of
               None \<Rightarrow> None
             | Some e \<Rightarrow> if e > unix_of now then Some (of_unix e) else None),
           sr_loaded := True\<rparr>)))"

definition revoke :: "string \<Rightarrow> time \<Rightarrow> time \<Rightarrow> session_revocations \<Rightarrow> bool \<times> session_revocations" where
  "revoke token_hash expires_at now s0 =
     (let (ok, s) = load_revocations now s0 in
      if \<not> ok then (False, s)
      else if \<not> expires_at > now then (True, s)
      else
        (let (failed, s1) = statement s in
         if failed then (False, s1)
         else
           (let s2 = s1\<lparr>sr_rows := (sr_rows s1)(token_hash \<mapsto> unix_of expires_at),
                        sr_revoked := (sr_revoked s1)(token_hash \<mapsto> expires_at)\<rparr>;
                (purge_failed, s3) = statement s2;
                s4 = (if purge_failed then s3
                      else s3\<lparr>sr_rows := (\<lambda>h. case sr_rows s3 h of
                          None \<Rightarrow> None | Some e \<Rightarrow> if e \<le> unix_of now then None else Some e)\<rparr>)
            in (True, s4\<lparr>sr_revoked := (\<lambda>h. case sr_revoked s4 h of
                 None \<Rightarrow> None | Some e \<Rightarrow> if \<not> e > now then None else Some e)\<rparr>))))"

text \<open>\<open>IsRevoked\<close>: \<open>None\<close> for an error.\<close>

definition is_revoked :: "string \<Rightarrow> time \<Rightarrow> session_revocations \<Rightarrow> bool option \<times> session_revocations" where
  "is_revoked token_hash now s0 =
     (let (ok, s) = load_revocations now s0 in
      if \<not> ok then (None, s)
      else (Some (case sr_revoked s token_hash of None \<Rightarrow> False | Some e \<Rightarrow> e > now), s))"

subsection \<open>A signed-out token stays signed out\<close>

datatype revocation_op =
    OpRevoke string time time
  | OpIsRevoked string time
  | OpRestart

fun revocation_step :: "revocation_op \<Rightarrow> session_revocations \<Rightarrow> session_revocations" where
  "revocation_step (OpRevoke h e now) s = snd (revoke h e now s)"
| "revocation_step (OpIsRevoked h now) s = snd (is_revoked h now s)"
| "revocation_step OpRestart s = new_session_revocations s"

text \<open>Operations before the token expires; a token always carries the same expiry.\<close>

fun before_expiry :: "string \<Rightarrow> int \<Rightarrow> revocation_op \<Rightarrow> bool" where
  "before_expiry token x (OpRevoke h e now) \<longleftrightarrow> now < of_unix x \<and> (h = token \<longrightarrow> e = of_unix x)"
| "before_expiry token x (OpIsRevoked h now) \<longleftrightarrow> now < of_unix x"
| "before_expiry token x OpRestart \<longleftrightarrow> True"

definition denied :: "string \<Rightarrow> int \<Rightarrow> session_revocations \<Rightarrow> bool" where
  "denied token x s \<longleftrightarrow>
     sr_rows s token = Some x \<and> (sr_loaded s \<longrightarrow> sr_revoked s token = Some (of_unix x))"

lemma statement_keeps:
  "sr_rows (snd (statement s)) = sr_rows s \<and> sr_loaded (snd (statement s)) = sr_loaded s
    \<and> sr_revoked (snd (statement s)) = sr_revoked s"
  by (simp add: statement_def split: list.split)

lemma denied_statement [simp]: "denied token x (snd (statement s)) = denied token x s"
  by (simp add: denied_def statement_keeps)

lemma denied_load:
  assumes "denied token x s" and "now < of_unix x"
  shows "denied token x (snd (load_revocations now s)) \<and>
    (fst (load_revocations now s) \<longrightarrow> sr_loaded (snd (load_revocations now s)))"
proof -
  have "unix_of now < x" using assms(2) by (simp add: unix_of_less_iff)
  then show ?thesis
    using assms(1) statement_keeps [of s]
    by (auto simp: load_revocations_def denied_def Let_def split: prod.splits)
qed

lemma fst_revoke:
  "fst (revoke h e now s) \<longleftrightarrow>
     fst (load_revocations now s) \<and> (e > now \<longrightarrow> \<not> fst (statement (snd (load_revocations now s))))"
  by (auto simp: revoke_def Let_def split: prod.split)

lemma denied_record:
  assumes "now < of_unix x"
  shows "fst (revoke token (of_unix x) now s) \<Longrightarrow> denied token x (snd (revoke token (of_unix x) now s))"
proof -
  have x: "\<not> x \<le> unix_of now" using assms by (simp add: unix_of_less_iff not_le)
  obtain ok l where l: "load_revocations now s = (ok, l)" by (cases "load_revocations now s")
  obtain f s1 where s1: "statement l = (f, s1)" by (cases "statement l")
  obtain g s3 where s3: "statement (s1\<lparr>sr_rows := (sr_rows s1)(token \<mapsto> x), sr_revoked := (sr_revoked s1)(token \<mapsto> of_unix x)\<rparr>) = (g, s3)"
    by (cases "statement (s1\<lparr>sr_rows := (sr_rows s1)(token \<mapsto> x), sr_revoked := (sr_revoked s1)(token \<mapsto> of_unix x)\<rparr>)")
  have k: "sr_rows s3 token = Some x" "sr_revoked s3 token = Some (of_unix x)"
    using statement_keeps [of "s1\<lparr>sr_rows := (sr_rows s1)(token \<mapsto> x), sr_revoked := (sr_revoked s1)(token \<mapsto> of_unix x)\<rparr>"] s3
    by simp_all
  then show "fst (revoke token (of_unix x) now s) \<Longrightarrow> denied token x (snd (revoke token (of_unix x) now s))"
    using assms x by (cases ok; cases f; cases g) (simp_all add: revoke_def l s1 s3 denied_def)
qed

lemma denied_other:
  assumes "denied token x s" and "now < of_unix x" and "h = token \<longrightarrow> e = of_unix x"
  shows "denied token x (snd (revoke h e now s))"
proof (cases "h = token \<and> fst (revoke h e now s)")
  case True
  then show ?thesis using assms denied_record [of now x token s] by auto
next
  case False
  have x: "\<not> x \<le> unix_of now" using assms(2) by (simp add: unix_of_less_iff not_le)
  obtain ok l where l: "load_revocations now s = (ok, l)" by (cases "load_revocations now s")
  have dl: "denied token x l" using denied_load [OF assms(1,2)] l by simp
  obtain f s1 where s1: "statement l = (f, s1)" by (cases "statement l")
  have d1: "denied token x s1" using denied_statement [of token x l] dl s1 by simp
  let ?s2 = "s1\<lparr>sr_rows := (sr_rows s1)(h \<mapsto> unix_of e), sr_revoked := (sr_revoked s1)(h \<mapsto> e)\<rparr>"
  obtain g s3 where s3: "statement ?s2 = (g, s3)" by (cases "statement ?s2")
  have d3: "denied token x s3" if "h \<noteq> token"
    using statement_keeps [of ?s2] s3 d1 that by (simp add: denied_def)
  show ?thesis
  proof (cases "h = token")
    case True
    with False assms(2,3) have "\<not> ok \<or> f"
      by (auto simp: fst_revoke l s1)
    then show ?thesis using dl d1 by (cases ok; cases "e > now") (simp_all add: revoke_def l s1)
  next
    case other: False
    then show ?thesis
      using assms(2) x dl d1 d3 by (cases ok; cases f; cases g; cases "e > now") (simp_all add: revoke_def l s1 s3 denied_def)
  qed
qed

lemma denied_step:
  assumes "denied token x s" and "before_expiry token x op"
  shows "denied token x (revocation_step op s)"
proof (cases op)
  case (OpRevoke h e now)
  then show ?thesis using assms denied_other [of token x s now h e] by simp
next
  case (OpIsRevoked h now)
  then show ?thesis
    using assms denied_load [of token x s now] by (auto simp: is_revoked_def Let_def split: prod.splits)
next
  case OpRestart
  then show ?thesis using assms by (simp add: new_session_revocations_def denied_def)
qed

interpretation denylist: invariant_system revocation_step "before_expiry token x" "denied token x" for token x
  by unfold_locales (rule denied_step)

lemma denied_answer:
  assumes "denied token x s" and "now < of_unix x"
  shows "fst (is_revoked token now s) \<noteq> Some False"
  using denied_load [OF assms] assms(2)
  by (auto simp: is_revoked_def denied_def Let_def split: prod.splits)

text \<open>A signed-out token stays signed out. Once \<open>Revoke\<close> has reported success, no history of other
  sign-outs, lookups, failing statements, purges and restarts brings the token back before it expires:
  \<open>IsRevoked\<close> answers that it is revoked, or fails, and never that it is not.\<close>

theorem signed_out_stays_out:
  assumes "fst (revoke token (of_unix x) now s)" and "now < of_unix x"
    and "list_all (before_expiry token x) ops" and "later < of_unix x"
  shows "fst (is_revoked token later (fold revocation_step ops (snd (revoke token (of_unix x) now s)))) \<noteq> Some False"
  by (rule denied_answer [OF denylist.run_inv [OF denied_record [OF assms(2,1)] assms(3)] assms(4)])

definition empty_denylist :: session_revocations where
  "empty_denylist = \<lparr>sr_rows = Map.empty, sr_loaded = False, sr_revoked = Map.empty, sr_faults = [False, False, True, True, False]\<rparr>"

theorem signed_out_stays_out_witness:
  "let s = snd (revoke ''aa'' (of_unix 2000) (of_unix 1000) empty_denylist);
       ops = [OpRestart, OpIsRevoked ''aa'' (of_unix 1500), OpRevoke ''bb'' (of_unix 9000) (of_unix 1600)]
   in fst (is_revoked ''aa'' (of_unix 1999) (fold revocation_step ops s)) \<noteq> Some False"
proof -
  let ?s = "snd (revoke ''aa'' (of_unix 2000) (of_unix 1000) empty_denylist)"
  have "fst (revoke ''aa'' (of_unix 2000) (of_unix 1000) empty_denylist)"
    by (simp add: revoke_def load_revocations_def statement_def empty_denylist_def of_unix_def second_def)
  from signed_out_stays_out [OF this, of "[OpRestart, OpIsRevoked ''aa'' (of_unix 1500), OpRevoke ''bb'' (of_unix 9000) (of_unix 1600)]" "of_unix 1999"]
  show ?thesis by (simp add: Let_def of_unix_def second_def)
qed

end
