(* ===== verification/Client_Addr.thy ===== *)
theory Client_Addr
  imports Go_Net "HOL-Library.Code_Target_Nat"
begin

text \<open>
  \<open>internal/auth/localip.go\<close>: which address a request comes from, for the decisions that depend on
  it. The request is what net/http hands the handlers; \<open>hr_real_peer\<close> is the peer address the proxy
  middleware stored before anything rewrote \<open>RemoteAddr\<close>.
\<close>

text \<open>\<open>hr_values\<close> is \<open>Header.Values\<close>; \<open>hr_cookie\<close> the session cookie, \<open>hr_query_key\<close> the first
  \<open>apikey\<close> parameter and \<open>hr_route_method\<close> the routing method of chi, when there are such.\<close>

record http_request =
  hr_method :: string
  hr_path :: string
  hr_raw_path :: string
  hr_host :: string
  hr_remote_addr :: string
  hr_real_peer :: "string option"
  hr_values :: "string \<Rightarrow> string list"
  hr_cookie :: "string option"
  hr_query_key :: string
  hr_route_method :: string

definition header_get :: "http_request \<Rightarrow> string \<Rightarrow> string" where
  "header_get r name = (case hr_values r name of [] \<Rightarrow> [] | v # _ \<Rightarrow> v)"

definition trim_brackets :: "string \<Rightarrow> string" where
  "trim_brackets s =
     rev (dropWhile (\<lambda>c. c = CHR ''['' \<or> c = CHR '']'') (rev (dropWhile (\<lambda>c. c = CHR ''['' \<or> c = CHR '']'') s)))"

definition host_only :: "string \<Rightarrow> string" where
  "host_only addr = trim_brackets (case split_host_port addr of None \<Rightarrow> addr | Some (h, _) \<Rightarrow> h)"

definition real_peer_host :: "http_request \<Rightarrow> string" where
  "real_peer_host r =
     host_only (case hr_real_peer r of None \<Rightarrow> hr_remote_addr r | Some v \<Rightarrow> if v \<noteq> [] then v else hr_remote_addr r)"

definition ip_in_cidrs :: "nat list \<Rightarrow> ip_net list \<Rightarrow> bool" where
  "ip_in_cidrs ip cidrs = list_ex (\<lambda>n. net_contains n ip) cidrs"

definition parse_xff :: "string list \<Rightarrow> string list" where
  "parse_xff values =
     concat (map (\<lambda>v. map host_only (filter (\<lambda>part. part \<noteq> []) (map trim_space (split_on CHR '','' v)))) values)"

text \<open>The walk from the closest hop outwards; \<open>None\<close> when every hop is a trusted proxy.\<close>

fun walk_hops :: "ip_net list \<Rightarrow> string list \<Rightarrow> string option" where
  "walk_hops trusted [] = None"
| "walk_hops trusted (hop # hops) =
     (case parse_ip hop of
        None \<Rightarrow> Some hop
      | Some ip \<Rightarrow> if \<not> ip_in_cidrs ip trusted then Some hop else walk_hops trusted hops)"

definition resolve_client_ip :: "http_request \<Rightarrow> ip_net list \<Rightarrow> string" where
  "resolve_client_ip r trusted =
     (let peer = real_peer_host r in
      if trusted = [] then peer
      else
        (case parse_ip peer of
           None \<Rightarrow> peer
         | Some peer_ip \<Rightarrow>
             if \<not> ip_in_cidrs peer_ip trusted then peer
             else
               (let xff = parse_xff (hr_values r ''X-Forwarded-For'') in
                case walk_hops trusted (rev xff) of
                  Some hop \<Rightarrow> hop
                | None \<Rightarrow> if xff \<noteq> [] then hd xff else peer)))"

definition private_cidrs :: "ip_net list" where
  "private_cidrs = List.map_filter parse_cidr
     [''10.0.0.0/8'', ''172.16.0.0/12'', ''192.168.0.0/16'', ''127.0.0.0/8'', ''169.254.0.0/16'',
      ''::1/128'', ''fc00::/7'', ''fe80::/10'']"

definition is_local_ip :: "string \<Rightarrow> bool" where
  "is_local_ip ip = (case parse_ip ip of None \<Rightarrow> False | Some a \<Rightarrow> ip_in_cidrs a private_cidrs)"

definition is_local_request_trusted :: "http_request \<Rightarrow> ip_net list \<Rightarrow> bool" where
  "is_local_request_trusted r trusted = is_local_ip (resolve_client_ip r trusted)"

definition parse_trusted_proxy_cidrs :: "string \<Rightarrow> ip_net list" where
  "parse_trusted_proxy_cidrs raw =
     (if trim_space raw = [] then []
      else List.map_filter (\<lambda>s0.
        (let s = trim_space s0 in
         if s = [] then None
         else parse_cidr
           (if CHR ''/'' \<notin> set s then (if CHR '':'' \<in> set s then s @ ''/128'' else s @ ''/32'') else s)))
        (split_on CHR '','' raw))"

text \<open>\<open>internal/auth/localonly.go\<close>.\<close>

datatype auth_mode = ModeDisabled | ModeLocalOnly | ModeEnabled | ModeProxy

definition local_only_without_trusted_proxy :: "auth_mode \<Rightarrow> ip_net list \<Rightarrow> bool" where
  "local_only_without_trusted_proxy mode trusted \<longleftrightarrow> mode = ModeLocalOnly \<and> trusted = []"

subsection \<open>What a client cannot choose\<close>

text \<open>A hop vouched for by nobody: not an address, or not one of the trusted proxies.\<close>

definition untrusted_hop :: "ip_net list \<Rightarrow> string \<Rightarrow> bool" where
  "untrusted_hop trusted hop = (case parse_ip hop of None \<Rightarrow> True | Some ip \<Rightarrow> \<not> ip_in_cidrs ip trusted)"

lemma walk_hops_find: "walk_hops trusted hops = find (untrusted_hop trusted) hops"
  by (induction hops) (auto simp: untrusted_hop_def split: option.splits)

lemma parse_xff_append: "parse_xff (vs @ ws) = parse_xff vs @ parse_xff ws"
  by (simp add: parse_xff_def)

lemma find_untouched: "\<exists>x \<in> set ys. P x \<Longrightarrow> find P (rev (xs @ ys)) = find P (rev ys)"
  by (auto simp: find_append find_None_iff split: option.splits)

lemma parse_xff_line: "parse_xff ((l @ '','' @ h) # hs) = parse_xff [l] @ parse_xff (h # hs)"
  by (simp add: parse_xff_def split_on_app)

definition with_xff :: "string list \<Rightarrow> http_request \<Rightarrow> http_request" where
  "with_xff vs r = r\<lparr>hr_values := (hr_values r)(''X-Forwarded-For'' := vs)\<rparr>"

lemma with_xff_simps [simp]:
  "real_peer_host (with_xff vs r) = real_peer_host r"
  "hr_values (with_xff vs r) ''X-Forwarded-For'' = vs"
  by (simp_all add: with_xff_def real_peer_host_def split: option.split)

lemma resolve_same_tail:
  assumes "untrusted_hop trusted (real_peer_host r) \<or> (\<exists>hop \<in> set (parse_xff honest). untrusted_hop trusted hop)"
    and "parse_xff vs = forged @ parse_xff honest"
  shows "resolve_client_ip (with_xff vs r) trusted = resolve_client_ip (with_xff honest r) trusted"
proof (cases "untrusted_hop trusted (real_peer_host r)")
  case True
  then show ?thesis
    by (auto simp: resolve_client_ip_def untrusted_hop_def Let_def split: option.splits)
next
  case False
  then have hop: "\<exists>hop \<in> set (parse_xff honest). untrusted_hop trusted hop" using assms(1) by simp
  then have "find (untrusted_hop trusted) (rev (parse_xff honest)) \<noteq> None" by (auto simp: find_None_iff)
  then show ?thesis
    using find_untouched [OF hop, of forged]
    by (auto simp: resolve_client_ip_def Let_def walk_hops_find assms(2) split: option.splits)
qed

text \<open>C31: what a client writes into \<open>X-Forwarded-For\<close> itself is never believed. As soon as the peer, or
  some hop that the proxies in front of Bindery reported, is not a trusted proxy, the resolved client
  address does not depend on anything further out: not on header lines that came before theirs, and
  not on text they were appended to within one line. It is then the peer or one of the reported hops.\<close>

theorem forged_hops_ignored:
  assumes "untrusted_hop trusted (real_peer_host r)
    \<or> (\<exists>hop \<in> set (parse_xff (reported # later)). untrusted_hop trusted hop)"
  shows "resolve_client_ip (with_xff (lines @ (forged @ '','' @ reported) # later) r) trusted
      = resolve_client_ip (with_xff (reported # later) r) trusted
    \<and> is_local_request_trusted (with_xff (lines @ (forged @ '','' @ reported) # later) r) trusted
      = is_local_request_trusted (with_xff (reported # later) r) trusted
    \<and> resolve_client_ip (with_xff (reported # later) r) trusted
      \<in> insert (real_peer_host r) (set (parse_xff (reported # later)))"
proof -
  have "parse_xff (lines @ (forged @ '','' @ reported) # later)
      = parse_xff (lines @ [forged]) @ parse_xff (reported # later)"
    using parse_xff_append [of lines "(forged @ '','' @ reported) # later"] parse_xff_append [of lines "[forged]"]
      parse_xff_line [of forged reported later] by simp
  from resolve_same_tail [OF assms this]
  have "resolve_client_ip (with_xff (lines @ (forged @ '','' @ reported) # later) r) trusted
      = resolve_client_ip (with_xff (reported # later) r) trusted" .
  moreover have "resolve_client_ip (with_xff (reported # later) r) trusted
      \<in> insert (real_peer_host r) (set (parse_xff (reported # later)))"
    by (auto simp: resolve_client_ip_def walk_hops_find find_Some_iff rev_nth Let_def split: option.splits)
  ultimately show ?thesis by (simp add: is_local_request_trusted_def)
qed

definition sample_http_request :: http_request where
  "sample_http_request = \<lparr>hr_method = ''GET'', hr_path = ''/api/v1/book'', hr_raw_path = [], hr_host = ''bindery.example.com'',
     hr_remote_addr = ''203.0.113.9:4711'', hr_real_peer = Some ''10.0.0.1:4711'', hr_values = (\<lambda>_. []),
     hr_cookie = None, hr_query_key = [], hr_route_method = ''GET''\<rparr>"

theorem forged_hops_ignored_witness:
  "resolve_client_ip (with_xff [''192.168.1.5'' @ '','' @ ''203.0.113.9''] sample_http_request) [([10, 0, 0, 0], 8)] = ''203.0.113.9''
    \<and> \<not> is_local_request_trusted (with_xff [''192.168.1.5'' @ '','' @ ''203.0.113.9''] sample_http_request) [([10, 0, 0, 0], 8)]"
proof -
  let ?t = "[([10, 0, 0, 0], 8)] :: ip_net list"
  have hop: "\<exists>hop \<in> set (parse_xff [''203.0.113.9'']). untrusted_hop ?t hop" by code_simp
  have honest: "resolve_client_ip (with_xff [''203.0.113.9''] sample_http_request) ?t = ''203.0.113.9''"
    "\<not> is_local_request_trusted (with_xff [''203.0.113.9''] sample_http_request) ?t" by code_simp+
  from forged_hops_ignored [OF disjI2 [OF hop], of "[]" "''192.168.1.5''" sample_http_request] honest
  show ?thesis by simp
qed

end
