(* ===== verification/Real_Ip.thy ===== *)
theory Real_Ip
  imports Client_Addr
begin

text \<open>
  \<open>internal/httpsec/realip/realip.go\<close> and \<open>cmd/bindery/proxy.go\<close>: what becomes of the forwarded
  headers and of \<open>RemoteAddr\<close> before any handler sees a request. \<open>parseXFF\<close>, \<open>hostOnly\<close> and
  \<open>ipInCIDRs\<close> are written twice in the code, word for word; the model has them once.
\<close>

definition client_from_xff :: "string list \<Rightarrow> ip_net list \<Rightarrow> string" where
  "client_from_xff values trusted =
     (let hops = parse_xff values in
      if hops = [] then []
      else (case walk_hops trusted (rev hops) of Some hop \<Rightarrow> hop | None \<Rightarrow> hd hops))"

definition join_client :: "string \<Rightarrow> string \<Rightarrow> string" where
  "join_client host port = (if port = [] then host else join_host_port host port)"

definition trusted_real_ip :: "ip_net list \<Rightarrow> http_request \<Rightarrow> http_request" where
  "trusted_real_ip trusted r =
     (if trusted = [] then r
      else
        (let (peer_host, peer_port) =
               (case split_host_port (hr_remote_addr r) of None \<Rightarrow> (hr_remote_addr r, []) | Some hp \<Rightarrow> hp)
         in case parse_ip (trim_brackets peer_host) of
              None \<Rightarrow> r
            | Some peer_ip \<Rightarrow>
                if \<not> ip_in_cidrs peer_ip trusted then r
                else
                  (let client = client_from_xff (hr_values r ''X-Forwarded-For'') trusted;
                       tci = trim_space (header_get r ''True-Client-IP'');
                       xri = trim_space (header_get r ''X-Real-IP'')
                   in if client \<noteq> [] then r\<lparr>hr_remote_addr := join_client client peer_port\<rparr>
                      else if tci \<noteq> [] \<and> parse_ip tci \<noteq> None then r\<lparr>hr_remote_addr := join_client tci peer_port\<rparr>
                      else if xri \<noteq> [] \<and> parse_ip xri \<noteq> None then r\<lparr>hr_remote_addr := join_client xri peer_port\<rparr>
                      else r)))"

definition proxy_headers :: "string list" where
  "proxy_headers = [''X-Forwarded-For'', ''X-Forwarded-Proto'', ''X-Forwarded-Host'', ''X-Real-IP'']"

definition strip_proxy_headers :: "http_request \<Rightarrow> http_request" where
  "strip_proxy_headers r = r\<lparr>hr_values := (\<lambda>h. if h \<in> set proxy_headers then [] else hr_values r h)\<rparr>"

definition trusted_proxy_middleware :: "ip_net list \<Rightarrow> http_request \<Rightarrow> http_request" where
  "trusted_proxy_middleware trusted r0 =
     (let r = r0\<lparr>hr_real_peer := Some (hr_remote_addr r0)\<rparr>;
          peer_host = (case split_host_port (hr_remote_addr r) of None \<Rightarrow> [] | Some (h, _) \<Rightarrow> h);
          peer_ip = parse_ip (trim_brackets peer_host)
      in if list_ex (\<lambda>cidr. peer_ip \<noteq> None \<and> net_contains cidr (the peer_ip)) trusted then trusted_real_ip trusted r
         else strip_proxy_headers r)"

subsection \<open>Host and port, there and back\<close>

lemma index_of_append: "c \<notin> set xs \<Longrightarrow> index_of c (xs @ c # ys) = Some (length xs)"
  by (simp add: index_of_def takeWhile_append)

lemma last_index_of_append: "c \<notin> set ys \<Longrightarrow> last_index_of c (xs @ c # ys) = Some (length xs)"
  using index_of_append [of c "rev ys" "rev xs"] by (simp add: last_index_of_def)

lemma split_join_host_port:
  assumes "CHR ''['' \<notin> set host" "CHR '']'' \<notin> set host"
    and port: "CHR ''['' \<notin> set port" "CHR '']'' \<notin> set port" "CHR '':'' \<notin> set port"
  shows "split_host_port (join_host_port host port) = Some (host, port)"
proof (cases "CHR '':'' \<in> set host")
  case True
  have "last_index_of CHR '':'' ((''['' @ host @ '']'') @ CHR '':'' # port) = Some (length (''['' @ host @ '']''))"
    by (rule last_index_of_append [OF port(3)])
  moreover have "index_of CHR '']'' ((''['' @ host) @ CHR '']'' # '':'' @ port) = Some (length (''['' @ host))"
    by (rule index_of_append) (use assms in simp)
  ultimately show ?thesis
    using True assms by (simp add: split_host_port_def join_host_port_def)
next
  case False
  have "last_index_of CHR '':'' (host @ CHR '':'' # port) = Some (length host)"
    by (rule last_index_of_append [OF port(3)])
  moreover have "hd (host @ CHR '':'' # port) \<noteq> CHR ''[''" using assms by (cases host) auto
  ultimately show ?thesis using False assms by (simp add: split_host_port_def join_host_port_def)
qed

lemma trim_brackets_plain: "CHR ''['' \<notin> set s \<Longrightarrow> CHR '']'' \<notin> set s \<Longrightarrow> trim_brackets s = s"
proof -
  have same: "dropWhile (\<lambda>c. c = CHR ''['' \<or> c = CHR '']'') t = t" if "CHR ''['' \<notin> set t" "CHR '']'' \<notin> set t" for t
    using that by (cases t) auto
  show "CHR ''['' \<notin> set s \<Longrightarrow> CHR '']'' \<notin> set s \<Longrightarrow> trim_brackets s = s"
    by (simp add: trim_brackets_def same)
qed

lemma host_only_join:
  assumes "CHR ''['' \<notin> set host" "CHR '']'' \<notin> set host"
    and "CHR ''['' \<notin> set port" "CHR '']'' \<notin> set port" "CHR '':'' \<notin> set port"
  shows "host_only (join_host_port host port) = host"
  by (simp add: host_only_def split_join_host_port [OF assms] trim_brackets_plain [OF assms(1,2)])

lemma digits_no_marks:
  "list_all dec_digit port \<Longrightarrow> CHR ''['' \<notin> set port \<and> CHR '']'' \<notin> set port \<and> CHR '':'' \<notin> set port"
  by (auto simp: list_all_iff dec_digit_def)

lemma client_from_xff_resolve:
  "parse_xff (hr_values r ''X-Forwarded-For'') \<noteq> [] \<Longrightarrow> \<not> untrusted_hop trusted (real_peer_host r) \<Longrightarrow>
   resolve_client_ip r trusted = (if trusted = [] then real_peer_host r else client_from_xff (hr_values r ''X-Forwarded-For'') trusted)"
  by (auto simp: resolve_client_ip_def client_from_xff_def untrusted_hop_def Let_def split: option.splits)

text \<open>The two answers to "who is the client" agree. After the proxy middleware, the address in
  \<open>RemoteAddr\<close> (which keys the login limiter and the logs) is the one \<open>ResolveClientIP\<close> gives (which
  decides about local-only access), for every peer that is no trusted proxy and for every chain a
  trusted proxy reported in \<open>X-Forwarded-For\<close>.\<close>

theorem client_paths_agree:
  assumes addr: "hr_remote_addr r = join_host_port peer port"
    and peer: "CHR ''['' \<notin> set peer" "CHR '']'' \<notin> set peer"
    and port: "port \<noteq> []" "list_all dec_digit port"
    and "r' = trusted_proxy_middleware trusted r"
    and chain: "untrusted_hop trusted peer \<or> parse_xff (hr_values r ''X-Forwarded-For'') \<noteq> []"
    and client: "client = resolve_client_ip r' trusted" "client \<noteq> []" "CHR ''['' \<notin> set client" "CHR '']'' \<notin> set client"
  shows "host_only (hr_remote_addr r') = client"
proof -
  note port' = digits_no_marks [OF port(2)]
  have split: "split_host_port (join_host_port peer port) = Some (peer, port)"
    using split_join_host_port [OF peer] port' by blast
  have host: "host_only (join_host_port h port) = h" if "CHR ''['' \<notin> set h" "CHR '']'' \<notin> set h" for h
    using host_only_join [OF that] port' by blast
  have trim: "trim_brackets peer = peer" by (rule trim_brackets_plain [OF peer])
  let ?r1 = "r\<lparr>hr_real_peer := Some (hr_remote_addr r)\<rparr>"
  have ne: "hr_remote_addr r \<noteq> []" by (auto simp: addr join_host_port_def)
  have peer1: "real_peer_host ?r1 = peer" using ne host [OF peer] by (simp add: real_peer_host_def addr)
  show ?thesis
  proof (cases "\<exists>ip. parse_ip peer = Some ip \<and> ip_in_cidrs ip trusted")
    case False
    then have "untrusted_hop trusted peer" by (auto simp: untrusted_hop_def split: option.splits)
    moreover have "r' = strip_proxy_headers ?r1"
      using False assms(6) by (auto simp: trusted_proxy_middleware_def addr split trim list_ex_iff ip_in_cidrs_def Let_def)
    ultimately show ?thesis
      using host [OF peer] ne client(1) peer1
      by (auto simp: resolve_client_ip_def strip_proxy_headers_def real_peer_host_def addr untrusted_hop_def Let_def
          split: option.splits)
  next
    case True
    then obtain ip where ip: "parse_ip peer = Some ip" "ip_in_cidrs ip trusted" by blast
    then have trusted: "trusted \<noteq> []" "\<not> untrusted_hop trusted peer" by (auto simp: ip_in_cidrs_def untrusted_hop_def)
    with chain have xff: "parse_xff (hr_values r ''X-Forwarded-For'') \<noteq> []" by simp
    let ?c = "client_from_xff (hr_values r ''X-Forwarded-For'') trusted"
    have r': "r' = trusted_real_ip trusted ?r1"
      using ip assms(6) by (auto simp: trusted_proxy_middleware_def addr split trim list_ex_iff ip_in_cidrs_def Let_def)
    have resolved: "resolve_client_ip ?r1 trusted = ?c"
      using client_from_xff_resolve [of ?r1 trusted] xff trusted peer1 by simp
    have same: "resolve_client_ip (q\<lparr>hr_remote_addr := a\<rparr>) trusted = resolve_client_ip q trusted"
      if "hr_real_peer q = Some v" "v \<noteq> []" for q a v
      using that by (simp add: resolve_client_ip_def real_peer_host_def Let_def split: option.split)
    have "?c \<noteq> [] \<Longrightarrow> r' = ?r1\<lparr>hr_remote_addr := join_client ?c port\<rparr>"
      using ip trusted(1) by (simp add: r' trusted_real_ip_def addr split trim Let_def)
    moreover have "?c \<noteq> []"
    proof
      assume empty: "?c = []"
      have "\<exists>a. r' = ?r1\<lparr>hr_remote_addr := a\<rparr>"
        using ip trusted(1) empty unfolding r'
        by (auto simp: trusted_real_ip_def addr split trim Let_def intro: exI [of _ "join_host_port peer port"])
      then have "client = ?c" using client(1) same [of ?r1 "hr_remote_addr r"] ne resolved by auto
      with client(2) empty show False by simp
    qed
    ultimately have r'': "r' = ?r1\<lparr>hr_remote_addr := join_client ?c port\<rparr>" by simp
    then have "client = ?c" using client(1) same [of ?r1 "hr_remote_addr r"] ne resolved by simp
    then show ?thesis using host [of client] client(3,4) port(1) by (simp add: r'' join_client_def)
  qed
qed

definition proxied_request :: http_request where
  "proxied_request = with_xff [''203.0.113.9''] (sample_http_request\<lparr>hr_remote_addr := ''10.0.0.1:4711'', hr_real_peer := None\<rparr>)"

theorem client_paths_agree_witness:
  "host_only (hr_remote_addr (trusted_proxy_middleware [([10, 0, 0, 0], 8)] proxied_request)) = ''203.0.113.9''"
proof -
  let ?t = "[([10, 0, 0, 0], 8)] :: ip_net list"
  have addr: "hr_remote_addr proxied_request = join_host_port ''10.0.0.1'' ''4711''" by code_simp
  have chain: "untrusted_hop ?t ''10.0.0.1'' \<or> parse_xff (hr_values proxied_request ''X-Forwarded-For'') \<noteq> []" by code_simp
  have client: "''203.0.113.9'' = resolve_client_ip (trusted_proxy_middleware ?t proxied_request) ?t" by code_simp
  show ?thesis
    by (rule client_paths_agree [OF addr _ _ _ _ refl chain client]) (simp_all add: dec_digit_def)
qed

text \<open>
  Without \<open>X-Forwarded-For\<close> they differ: \<open>RemoteAddr\<close> falls back to \<open>X-Real-IP\<close>, which
  \<open>ResolveClientIP\<close> never reads, so it takes the proxy's own address for the client.
\<close>

definition real_ip_request :: http_request where
  "real_ip_request = sample_http_request\<lparr>hr_remote_addr := ''10.0.0.1:4711'', hr_real_peer := None,
     hr_values := (\<lambda>h. if h = ''X-Real-IP'' then [''203.0.113.9''] else [])\<rparr>"

text \<open>The two answers differ behind a trusted proxy that reports its client in \<open>X-Real-IP\<close> alone.
  \<open>RemoteAddr\<close> becomes the public client, while the local-only check sees the proxy's private address
  and takes the request for a local one.\<close>

theorem real_ip_fallback_disagrees:
  "let r = trusted_proxy_middleware [([10, 0, 0, 0], 8)] real_ip_request
   in host_only (hr_remote_addr r) = ''203.0.113.9'' \<and> \<not> is_local_ip (host_only (hr_remote_addr r))
     \<and> resolve_client_ip r [([10, 0, 0, 0], 8)] = ''10.0.0.1''
     \<and> is_local_request_trusted r [([10, 0, 0, 0], 8)]"
  by code_simp

end
