(* ===== verification/Go_Strings.thy ===== *)
theory Go_Strings
  imports Go_Utf8
begin

text \<open>
  More of Go's strings package: suffixes, \<open>Contains\<close>, \<open>ReplaceAll\<close>, \<open>TrimRight\<close> with a cutset, \<open>Fields\<close>,
  \<open>Map\<close> with a dropping mapping, and the rune-safe cut the code base shares.
\<close>

subsection \<open>Suffixes and substrings\<close>

definition has_suffix :: "string \<Rightarrow> string \<Rightarrow> bool" where
  "has_suffix s p = has_prefix (rev s) (rev p)"

definition trim_suffix :: "string \<Rightarrow> string \<Rightarrow> string" where
  "trim_suffix s p = (if has_suffix s p then take (length s - length p) s else s)"

definition contains_str :: "string \<Rightarrow> string \<Rightarrow> bool" where
  "contains_str s p = list_ex (\<lambda>i. has_prefix (drop i s) p) [0..<length s + 1]"

lemma has_suffix_iff: "has_suffix h s \<longleftrightarrow> (\<exists>x. h = x @ s)"
proof
  assume "has_suffix h s"
  then have "rev h = rev s @ drop (length s) (rev h)"
    by (metis append_take_drop_id has_prefix_def has_suffix_def length_rev)
  then have "h = rev (drop (length s) (rev h)) @ s" by (metis rev_append rev_rev_ident)
  then show "\<exists>x. h = x @ s" ..
qed (auto simp: has_suffix_def has_prefix_def)

text \<open>\<open>strings.ReplaceAll\<close> for a non-empty old string.\<close>

function replace_all :: "string \<Rightarrow> string \<Rightarrow> string \<Rightarrow> string" where
  "replace_all old new [] = []"
| "replace_all old new (c # s) =
     (if old \<noteq> [] \<and> has_prefix (c # s) old then new @ replace_all old new (drop (length old) (c # s))
      else c # replace_all old new s)"
  by pat_completeness auto

termination
  by (relation "measure (\<lambda>(old, new, s). length s)") (auto simp: has_prefix_def)

text \<open>\<open>strings.Fields\<close>: the words between runs of white space.\<close>

definition flush_word :: "string \<Rightarrow> string list" where
  "flush_word w = (if w = [] then [] else [w])"

function fields_from :: "string \<Rightarrow> string \<Rightarrow> string list" where
  "fields_from cur [] = flush_word cur"
| "fields_from cur (c # s) =
     (if space1 c then flush_word cur @ fields_from [] s
      else if s \<noteq> [] \<and> space2 c (hd s) then flush_word cur @ fields_from [] (drop 1 s)
      else if 2 \<le> length s \<and> space3 c (hd s) (s ! 1) then flush_word cur @ fields_from [] (drop 2 s)
      else fields_from (cur @ [c]) s)"
  by pat_completeness auto

termination
  by (relation "measure (\<lambda>(cur, s). length s)") auto

definition str_fields :: "string \<Rightarrow> string list" where
  "str_fields s = fields_from [] s"

text \<open>\<open>strings.Map\<close> with a mapping that keeps or drops runes: a byte that is not UTF-8 becomes U+FFFD.\<close>

definition keep_runes :: "(nat \<Rightarrow> bool) \<Rightarrow> string \<Rightarrow> string" where
  "keep_runes keep s = of_runes (filter keep (runes s))"

subsection \<open>Cutting on a rune boundary\<close>

text \<open>The largest boundary at or below \<open>n\<close>, zero included.\<close>

fun cut_point :: "string \<Rightarrow> nat \<Rightarrow> nat" where
  "cut_point s 0 = 0"
| "cut_point s (Suc n) = (if rune_start (s ! Suc n) then Suc n else cut_point s n)"

definition truncate_utf8 :: "string \<Rightarrow> nat \<Rightarrow> string" where
  "truncate_utf8 s n = (if length s \<le> n then s else take (cut_point s n) s)"

subsection \<open>Lemmas\<close>

lemma strip_lead_keeps:
  assumes "\<And>d e. \<not> p1 x \<and> \<not> p2 x d \<and> \<not> p2 d x \<and> \<not> p3 x d e \<and> \<not> p3 d x e \<and> \<not> p3 d e x"
  shows "x \<in> set s \<Longrightarrow> x \<in> set (strip_lead p1 p2 p3 s)"
  using assms by (induction p1 p2 p3 s rule: strip_lead.induct) (auto split: if_splits)

lemma trim_right_set_take: "\<exists>n. trim_right_set s cs = take n s"
  by (metis append_eq_conv_conj rev_append rev_rev_ident takeWhile_dropWhile_id trim_right_set_def)

lemma trim_right_set_length: "length (trim_right_set s cs) \<le> length s"
  using trim_right_set_take [of s cs] by auto

lemma split_on_free: "list_all (\<lambda>x. c \<notin> set x) (split_on c s)"
  by (induction c s rule: split_on.induct) (auto split: list.split)

lemma cut_point_le: "cut_point s n \<le> n"
  by (induction n) auto

lemma truncate_length: "length (truncate_utf8 s n) \<le> n"
  using cut_point_le [of s n] by (auto simp: truncate_utf8_def)

lemma truncate_take: "\<exists>k. truncate_utf8 s n = take k s"
  by (auto simp: truncate_utf8_def intro: exI [of _ "length s"])

lemma cut_point_mono: "m \<le> n \<Longrightarrow> cut_point s m \<le> cut_point s n"
  by (induction n) (auto simp: le_Suc_eq intro: order_trans [OF cut_point_le])

text \<open>ASCII characters survive decoding as themselves, so a kept one was there before.\<close>

lemma decode_rune_low:
  "bs \<noteq> [] \<Longrightarrow> fst (decode_rune bs) < 128 \<Longrightarrow> fst (decode_rune bs) = hd bs"
  by (cases bs) (auto simp: rune_error_def second_ok_def cont_byte_def split: if_splits list.splits)

lemma decode_runes_low: "r \<in> set (decode_runes bs) \<Longrightarrow> r < 128 \<Longrightarrow> r \<in> set bs"
proof (induction bs rule: decode_runes.induct)
  case (2 b bs)
  show ?case
  proof (cases "r = fst (decode_rune (b # bs))")
    case True
    then show ?thesis using decode_rune_low [of "b # bs"] 2(3) by (simp del: decode_rune.simps)
  next
    case False
    then have "r \<in> set (drop (snd (decode_rune (b # bs))) (b # bs))"
      using 2 by (simp del: decode_rune.simps)
    then show ?thesis by (rule in_set_dropD)
  qed
qed simp

lemma encode_bytes_low: "b \<in> set (encode_bytes r) \<Longrightarrow> b < 128 \<Longrightarrow> b = r"
  by (auto simp: encode_bytes_def split: if_splits)

lemma encode_rune_low:
  assumes "c \<in> set (encode_rune r)" "byte_of c < 128"
  shows "r = byte_of c"
proof (cases "valid_rune r")
  case True
  then show ?thesis using assms byte_of_encode [OF True] encode_bytes_low by (metis image_eqI list.set_map)
next
  case False
  then have "2048 \<le> r" "encode_bytes r = [239, 191, 189]" by (auto simp: valid_rune_def encode_bytes_def)
  then show ?thesis using assms by (auto simp: encode_rune_def)
qed

lemma keep_runes_low:
  assumes "c \<in> set (keep_runes keep s)" "byte_of c < 128"
  shows "c \<in> set s \<and> keep (byte_of c)"
proof -
  obtain r where r: "r \<in> set (runes s)" "keep r" "c \<in> set (encode_rune r)"
    using assms(1) by (auto simp: keep_runes_def of_runes_def)
  have "r = byte_of c" using encode_rune_low [OF r(3) assms(2)] .
  moreover have "byte_of c \<in> byte_of ` set s"
    using decode_runes_low [of "byte_of c" "map byte_of s"] r(1) assms(2) calculation by (simp add: runes_def)
  ultimately show ?thesis using r(2) by (auto simp: inj_eq)
qed

lemma trim_space_subset: "set (trim_space s) \<subseteq> set s"
proof -
  have "set (strip_lead p1 p2 p3 t) \<subseteq> set t" for p1 p2 p3 t
    using strip_lead_suffix [of t p1 p2 p3] by (metis Un_iff set_append subsetI)
  then show ?thesis unfolding trim_space_def trim_left_def trim_right_def by (metis set_rev subset_trans)
qed

lemma truncate_subset: "set (truncate_utf8 s n) \<subseteq> set s"
  using truncate_take [of s n] set_take_subset [of _ s] by (metis)

lemma trim_right_set_subset: "set (trim_right_set s cs) \<subseteq> set s"
  using trim_right_set_take [of s cs] set_take_subset [of _ s] by (metis)

end
