(* ===== verification/Host_Check.thy ===== *)
theory Host_Check
  imports Client_Addr Go_Strings
begin

text \<open>
  \<open>internal/auth/hostcheck.go\<close>: the host names under which the local-only and disabled modes hand out
  their grant. The two environment variables are arguments (\<open>redirect_base\<close>, \<open>allowed\<close>), and so is
  what net/url finds as the host name of a URL (\<open>None\<close> when it does not parse).
\<close>

record host_env =
  he_uc :: unicode
  he_url_host :: "string \<Rightarrow> string option"
  he_redirect_base :: string
  he_allowed :: string

definition local_host_suffixes :: "string list" where
  "local_host_suffixes = [''.local'', ''.lan'', ''.home.arpa'', ''.internal'', ''.localdomain'', ''.localhost'']"

definition normalize_host :: "host_env \<Rightarrow> string \<Rightarrow> string" where
  "normalize_host env h0 =
     (let h1 = trim_space h0;
          h2 = (case split_host_port h1 of None \<Rightarrow> h1 | Some (host, _) \<Rightarrow> host);
          h3 = trim_suffix (trim_suffix (trim_prefix h2 ''['') '']'') ''.''
      in to_lower (he_uc env) h3)"

record allowed_host_list =
  al_any :: bool
  al_exact :: "string list"
  al_suffixes :: "string list"
  al_rejected :: "string list"

definition wildcard_suffix_ok :: "string \<Rightarrow> bool" where
  "wildcard_suffix_ok suffix =
     (if CHR ''*'' \<in> set suffix then False
      else
        (let labels = split_on CHR ''.'' suffix in
         if length labels < 2 then False else list_all (\<lambda>l. l \<noteq> []) labels))"

definition host_from_url :: "host_env \<Rightarrow> string \<Rightarrow> string" where
  "host_from_url env raw0 =
     (let raw = trim_space raw0 in
      if raw = [] then [] else (case he_url_host env raw of None \<Rightarrow> [] | Some h \<Rightarrow> normalize_host env h))"

definition add_allowed_host :: "host_env \<Rightarrow> string \<Rightarrow> allowed_host_list \<Rightarrow> allowed_host_list" where
  "add_allowed_host env e0 out =
     (let e = trim_space e0 in
      if e = [] then out
      else if e = ''*'' then out\<lparr>al_any := True\<rparr>
      else if has_prefix e ''*.'' then
        (let suffix = normalize_host env (drop 2 e) in
         if \<not> wildcard_suffix_ok suffix then out\<lparr>al_rejected := al_rejected out @ [e]\<rparr>
         else out\<lparr>al_suffixes := al_suffixes out @ [''.'' @ suffix]\<rparr>)
      else if CHR ''*'' \<in> set e then out\<lparr>al_rejected := al_rejected out @ [e]\<rparr>
      else
        (let n = (if contains_str e ''://'' then host_from_url env e else normalize_host env e) in
         if n = [] then out\<lparr>al_rejected := al_rejected out @ [e]\<rparr>
         else out\<lparr>al_exact := al_exact out @ [n]\<rparr>))"

definition parse_allowed_hosts :: "host_env \<Rightarrow> string \<Rightarrow> allowed_host_list" where
  "parse_allowed_hosts env raw =
     fold (add_allowed_host env) (split_on CHR '','' raw)
       \<lparr>al_any = False, al_exact = [], al_suffixes = [], al_rejected = []\<rparr>"

definition list_allows :: "allowed_host_list \<Rightarrow> string \<Rightarrow> bool" where
  "list_allows a h =
     (al_any a \<or> list_ex (\<lambda>n. n = h) (al_exact a) \<or> list_ex (\<lambda>s. has_suffix h s) (al_suffixes a))"

definition host_allowed :: "host_env \<Rightarrow> string \<Rightarrow> bool" where
  "host_allowed env raw =
     (let h = normalize_host env raw in
      if h = [] then True
      else if parse_addr h \<noteq> None then True
      else if h = ''localhost'' \<or> CHR ''.'' \<notin> set h then True
      else if list_ex (\<lambda>s. has_suffix h s) local_host_suffixes then True
      else
        (let base = host_from_url env (he_redirect_base env) in
         if base \<noteq> [] \<and> h = base then True
         else list_allows (parse_allowed_hosts env (he_allowed env)) h))"

text \<open>The first name on the request that fails; \<open>None\<close> when every name passes.\<close>

definition rejected_mode_grant_host :: "host_env \<Rightarrow> http_request \<Rightarrow> string option" where
  "rejected_mode_grant_host env r =
     (if \<not> host_allowed env (hr_host r) then Some (hr_host r)
      else find (\<lambda>h. \<not> host_allowed env h)
        (concat (map (\<lambda>v. filter (\<lambda>h. h \<noteq> []) (map trim_space (split_on CHR '','' v))) (hr_values r ''X-Forwarded-Host''))))"

definition host_allowed_for_mode_grant :: "host_env \<Rightarrow> http_request \<Rightarrow> bool" where
  "host_allowed_for_mode_grant env r = (rejected_mode_grant_host env r = None)"

definition clip_host :: "string \<Rightarrow> string" where
  "clip_host h = take 255 h"

subsection \<open>Logging refused hosts\<close>

record reject_logger =
  rl_start :: time
  rl_seen :: "string set option"
  rl_suppressed :: bool

datatype reject_line = NotLogged | LogSuppressing | LogHost string

definition host_reject_log_window :: duration where
  "host_reject_log_window = hour"

definition host_reject_log_max :: nat where
  "host_reject_log_max = 20"

definition reject_note :: "host_env \<Rightarrow> string \<Rightarrow> time \<Rightarrow> reject_logger \<Rightarrow> reject_line \<times> reject_logger" where
  "reject_note env host now l0 =
     (let key = normalize_host env host;
          l = (if rl_seen l0 = None \<or> time_sub now (rl_start l0) > host_reject_log_window
               then l0\<lparr>rl_start := now, rl_seen := Some {}, rl_suppressed := False\<rparr> else l0);
          seen = the (rl_seen l)
      in if key \<in> seen then (NotLogged, l)
         else if card seen \<ge> host_reject_log_max then
           ((if rl_suppressed l then NotLogged else LogSuppressing), l\<lparr>rl_suppressed := True\<rparr>)
         else (LogHost host, l\<lparr>rl_seen := Some (insert key seen)\<rparr>))"

subsection \<open>Wildcards\<close>

lemma wildcard_suffixes:
  "\<forall>s \<in> set (al_suffixes (fold (add_allowed_host env) es out)).
     s \<in> set (al_suffixes out) \<or> (\<exists>t. s = ''.'' @ t \<and> wildcard_suffix_ok t)"
proof (induction es arbitrary: out)
  case (Cons e es)
  have "\<forall>s \<in> set (al_suffixes (add_allowed_host env e out)). s \<in> set (al_suffixes out) \<or> (\<exists>t. s = ''.'' @ t \<and> wildcard_suffix_ok t)"
    by (auto simp: add_allowed_host_def Let_def)
  then show ?case using Cons.IH [of "add_allowed_host env e out"] by auto
qed simp

lemma split_on_pos: "0 < length (split_on c s)"
  by simp

text \<open>A wildcard never opens a domain. Whatever the operator lists, a host that passes the check is
  no name of another site's choosing: it is empty, an address, a single label, under a local-only
  suffix, the redirect host or listed by name, unless the list holds a bare star; and a name admitted
  by a wildcard has at least three labels, so no entry admits a top-level or registered domain itself.\<close>

theorem granted_host_is_local_or_listed:
  assumes "host_allowed env raw" and "\<not> al_any (parse_allowed_hosts env (he_allowed env))"
  defines "h \<equiv> normalize_host env raw"
  shows "h = [] \<or> parse_addr h \<noteq> None \<or> CHR ''.'' \<notin> set h \<or> (\<exists>s \<in> set local_host_suffixes. has_suffix h s)
    \<or> h = host_from_url env (he_redirect_base env) \<or> h \<in> set (al_exact (parse_allowed_hosts env (he_allowed env)))
    \<or> 3 \<le> length (split_on CHR ''.'' h)"
proof -
  let ?a = "parse_allowed_hosts env (he_allowed env)"
  have "3 \<le> length (split_on CHR ''.'' h)" if listed: "s \<in> set (al_suffixes ?a)" and suffix: "has_suffix h s" for s
  proof -
    obtain t where t: "s = ''.'' @ t" "wildcard_suffix_ok t"
      using wildcard_suffixes [of env "split_on CHR '','' (he_allowed env)"
          "\<lparr>al_any = False, al_exact = [], al_suffixes = [], al_rejected = []\<rparr>"] listed
      by (auto simp: parse_allowed_hosts_def)
    obtain x where x: "h = x @ CHR ''.'' # t" using suffix t(1) by (auto simp: has_suffix_iff)
    have "2 \<le> length (split_on CHR ''.'' t)" using t(2) by (auto simp: wildcard_suffix_ok_def Let_def split: if_splits)
    moreover have "length (split_on CHR ''.'' h) = length (split_on CHR ''.'' x) + length (split_on CHR ''.'' t)"
      by (simp add: x split_on_app)
    ultimately show ?thesis using split_on_pos [of "CHR ''.''" x] by linarith
  qed
  then show ?thesis
    using assms(1,2) by (auto simp: host_allowed_def list_allows_def list_ex_iff h_def Let_def split: if_splits)
qed

definition sample_host_env :: host_env where
  "sample_host_env = \<lparr>he_uc = ascii_uc, he_url_host = (\<lambda>_. None), he_redirect_base = [], he_allowed = ''*.home.example.com, books.example.net:8787''\<rparr>"

theorem granted_host_is_local_or_listed_witness:
  "host_allowed sample_host_env ''a.home.example.com:443'' \<and> \<not> host_allowed sample_host_env ''attacker.com''
    \<and> 3 \<le> length (split_on CHR ''.'' (normalize_host sample_host_env ''a.home.example.com:443''))"
proof -
  have ok: "host_allowed sample_host_env ''a.home.example.com:443''"
    and no: "\<not> al_any (parse_allowed_hosts sample_host_env (he_allowed sample_host_env))"
    and rest: "normalize_host sample_host_env ''a.home.example.com:443'' = ''a.home.example.com''"
      "parse_addr ''a.home.example.com'' = None" "\<not> (\<exists>s \<in> set local_host_suffixes. has_suffix ''a.home.example.com'' s)"
      "host_from_url sample_host_env (he_redirect_base sample_host_env) = []"
      "''a.home.example.com'' \<notin> set (al_exact (parse_allowed_hosts sample_host_env (he_allowed sample_host_env)))"
      "\<not> host_allowed sample_host_env ''attacker.com''"
    by code_simp+
  from granted_host_is_local_or_listed [OF ok no] rest show ?thesis using ok by simp
qed

lemma reject_log_bounded:
  "(\<forall>s. rl_seen l = Some s \<longrightarrow> finite s \<and> card s \<le> host_reject_log_max) \<Longrightarrow>
   \<exists>s. rl_seen (snd (reject_note env host now l)) = Some s \<and> finite s \<and> card s \<le> host_reject_log_max"
  by (auto simp: reject_note_def Let_def card_insert_if host_reject_log_max_def)

end
