(* ===== verification/Auth_Gate.thy ===== *)
theory Auth_Gate
  imports Session_Token Session_Revocations Real_Ip Host_Check Go_Path
begin

text \<open>
  \<open>internal/auth/middleware.go\<close>, \<open>requester.go\<close>, \<open>csrf.go\<close> and \<open>roles.go\<close>: who a request acts as,
  and whether it is served at all. A middleware is a function from a request (and the context the one
  before it attached) to a result: the request is served with a context, or answered. The Provider
  interface is the record \<open>provider\<close>; cryptography, clock and environment are in \<open>auth_env\<close>.
\<close>

subsection \<open>Contexts, providers and answers\<close>

record auth_ctx =
  cx_user_id :: int
  cx_role :: string
  cx_via_api_key :: bool
  cx_session_lookup_failed :: bool
  cx_admin_by_mode :: bool
  cx_provider_charged :: bool

definition background_ctx :: auth_ctx where
  "background_ctx = \<lparr>cx_user_id = 0, cx_role = [], cx_via_api_key = False, cx_session_lookup_failed = False,
     cx_admin_by_mode = False, cx_provider_charged = False\<rparr>"

abbreviation role_admin :: string where "role_admin \<equiv> ''admin''"
abbreviation role_user :: string where "role_user \<equiv> ''user''"
abbreviation role_requester :: string where "role_requester \<equiv> ''requester''"

text \<open>Lookups that can fail answer \<open>None\<close> for an error; \<open>pv_resolve_user\<close> answers 0 for nobody.\<close>

record provider =
  pv_mode :: auth_mode
  pv_api_key :: string
  pv_session_secrets :: "string list"
  pv_proxy_auth_header :: string
  pv_proxy_auto_provision :: bool
  pv_trusted_proxy_cidrs :: "ip_net list"
  pv_resolve_user :: "string \<Rightarrow> bool \<Rightarrow> int option"
  pv_user_role :: "int \<Rightarrow> string"
  pv_operator_user_id :: int
  pv_user_session_epoch :: "int \<Rightarrow> int option"
  pv_session_revoked :: "string \<Rightarrow> bool option"

record auth_env =
  ae_hmac :: "string \<Rightarrow> string \<Rightarrow> string"
  ae_sha :: "string \<Rightarrow> string"
  ae_now_unix :: int
  ae_hosts :: host_env
  ae_client_gone :: bool

datatype auth_result =
    Served auth_ctx
  | HostRejected string
  | ClientClosedRequest
  | InternalError
  | Unauthorized
  | NotForRequesters
  | TooManyRequests nat
  | MissingRequestedWith
  | InvalidCsrfToken
  | AdminRequired

fun and_then :: "auth_result \<Rightarrow> (auth_ctx \<Rightarrow> auth_result) \<Rightarrow> auth_result" where
  "and_then (Served ctx) f = f ctx"
| "and_then res f = res"

definition valid_role :: "string \<Rightarrow> bool" where
  "valid_role role \<longleftrightarrow> role = role_admin \<or> role = role_user \<or> role = role_requester"

definition role_has_library_access :: "string \<Rightarrow> bool" where
  "role_has_library_access role \<longleftrightarrow> role = role_admin \<or> role = role_user"

subsection \<open>Ownership\<close>

text \<open>\<open>EnforceTenancy\<close> on the value of its environment variable.\<close>

definition enforce_tenancy :: "unicode \<Rightarrow> string \<Rightarrow> bool" where
  "enforce_tenancy uc v = (to_lower uc (trim_space v) \<in> {''1'', ''true'', ''yes'', ''on''})"

definition check_ownership :: "bool \<Rightarrow> auth_ctx \<Rightarrow> int \<Rightarrow> bool" where
  "check_ownership tenancy ctx owner =
     (if \<not> tenancy then True
      else if cx_role ctx = role_admin then True
      else (let uid = cx_user_id ctx in
        if uid = 0 then True else if owner = 0 then True else uid = owner))"

definition check_write_ownership :: "bool \<Rightarrow> auth_ctx \<Rightarrow> int \<Rightarrow> bool" where
  "check_write_ownership tenancy ctx owner =
     (if owner = 0 \<and> tenancy \<and> cx_role ctx \<noteq> role_admin \<and> cx_user_id ctx \<noteq> 0 then False
      else check_ownership tenancy ctx owner)"

definition list_scope_user_id :: "bool \<Rightarrow> auth_ctx \<Rightarrow> int" where
  "list_scope_user_id tenancy ctx =
     (if \<not> tenancy then 0 else if cx_role ctx = role_admin then 0 else cx_user_id ctx)"

subsection \<open>Identity\<close>

definition parse_mode :: "string \<Rightarrow> auth_mode" where
  "parse_mode s =
     (if s = ''disabled'' then ModeDisabled else if s = ''local-only'' then ModeLocalOnly
      else if s = ''enabled'' then ModeEnabled else if s = ''proxy'' then ModeProxy else ModeEnabled)"

definition session_cookie_usable :: "auth_env \<Rightarrow> provider \<Rightarrow> string \<Rightarrow> int \<Rightarrow> int \<Rightarrow> bool option" where
  "session_cookie_usable env p cookie uid epoch =
     (case pv_user_session_epoch p uid of
        None \<Rightarrow> None
      | Some cur \<Rightarrow>
          if cur \<noteq> epoch then Some False
          else
            (case pv_session_revoked p (session_token_hash (ae_sha env) cookie) of
               None \<Rightarrow> None
             | Some revoked \<Rightarrow> Some (\<not> revoked)))"

definition allow_unauth_path :: "string \<Rightarrow> string \<Rightarrow> bool" where
  "allow_unauth_path meth path =
     (if path \<in> {''/api/v1/health'', ''/api/v1/auth/status'', ''/api/v1/auth/login'', ''/api/v1/auth/logout'',
                 ''/api/v1/auth/setup'', ''/api/v1/auth/csrf''} then True
      else if path = ''/api/v1/auth/oidc/providers'' then meth = ''GET'' \<or> meth = ''HEAD''
      else has_prefix path ''/api/v1/auth/oidc/'' \<and> (has_suffix path ''/login'' \<or> has_suffix path ''/callback''))"

definition mode_admits_peer :: "auth_mode \<Rightarrow> http_request \<Rightarrow> ip_net list \<Rightarrow> bool" where
  "mode_admits_peer mode r trusted =
     (case mode of ModeDisabled \<Rightarrow> True | ModeLocalOnly \<Rightarrow> is_local_request_trusted r trusted | _ \<Rightarrow> False)"

definition mode_grants_admin :: "host_env \<Rightarrow> auth_mode \<Rightarrow> http_request \<Rightarrow> ip_net list \<Rightarrow> bool" where
  "mode_grants_admin henv mode r trusted \<longleftrightarrow> mode_admits_peer mode r trusted \<and> host_allowed_for_mode_grant henv r"

definition refused_mode_grant_host :: "host_env \<Rightarrow> auth_mode \<Rightarrow> http_request \<Rightarrow> ip_net list \<Rightarrow> string option" where
  "refused_mode_grant_host henv mode r trusted =
     (if \<not> mode_admits_peer mode r trusted then None
      else map_option clip_host (rejected_mode_grant_host henv r))"

definition safe_method :: "string \<Rightarrow> bool" where
  "safe_method meth \<longleftrightarrow> meth = ''GET'' \<or> meth = ''HEAD'' \<or> meth = ''OPTIONS''"

definition request_api_key :: "http_request \<Rightarrow> string" where
  "request_api_key r =
     (let k = header_get r ''X-Api-Key'' in
      if k \<noteq> [] then k else if safe_method (hr_method r) then hr_query_key r else [])"

definition is_trusted_proxy :: "nat list option \<Rightarrow> ip_net list \<Rightarrow> bool" where
  "is_trusted_proxy ip cidrs = (case ip of None \<Rightarrow> False | Some a \<Rightarrow> list_ex (\<lambda>cidr. net_contains cidr a) cidrs)"

definition resolve_proxy_identity :: "http_request \<Rightarrow> provider \<Rightarrow> int option" where
  "resolve_proxy_identity r p =
     (let username = trim_space (header_get r (pv_proxy_auth_header p));
          trusted = is_trusted_proxy (parse_ip (real_peer_host r)) (pv_trusted_proxy_cidrs p)
      in if username \<noteq> [] \<and> \<not> trusted then None
         else if \<not> trusted \<or> username = [] then None
         else
           (case pv_resolve_user p username (pv_proxy_auto_provision p) of
              None \<Rightarrow> None
            | Some uid \<Rightarrow> if uid = 0 then None else Some uid))"

definition with_operator_user_id :: "provider \<Rightarrow> auth_ctx \<Rightarrow> auth_ctx" where
  "with_operator_user_id p ctx =
     (if cx_user_id ctx \<noteq> 0 then ctx
      else if pv_operator_user_id p = 0 then ctx
      else ctx\<lparr>cx_user_id := pv_operator_user_id p\<rparr>)"

text \<open>The cookie's part: the context, whether the cookie is valid, whether the lookup failed, and
  the user that a correctly signed cookie names.\<close>

definition resolve_cookie :: "auth_env \<Rightarrow> provider \<Rightarrow> http_request \<Rightarrow> auth_ctx \<times> bool \<times> bool \<times> int" where
  "resolve_cookie env p r =
     (case hr_cookie r of
        None \<Rightarrow> (background_ctx, False, False, 0)
      | Some c \<Rightarrow>
          (case verify_session_multi_with_epoch (ae_hmac env) (pv_session_secrets p) c (ae_now_unix env) of
             Inl _ \<Rightarrow> (background_ctx, False, False, 0)
           | Inr (uid, epoch) \<Rightarrow>
               (case session_cookie_usable env p c uid epoch of
                  None \<Rightarrow> (background_ctx\<lparr>cx_session_lookup_failed := True\<rparr>, False, True, uid)
                | Some usable \<Rightarrow>
                    if usable then (background_ctx\<lparr>cx_user_id := uid, cx_role := pv_user_role p uid\<rparr>, True, False, uid)
                    else (background_ctx, False, False, uid))))"

definition middleware :: "auth_env \<Rightarrow> provider \<Rightarrow> http_request \<Rightarrow> auth_result" where
  "middleware env p r =
     (let (ctx0, cookie_valid, epoch_lookup_failed, session_uid) = resolve_cookie env p r;
          mode = pv_mode p;
          proxy_user = (if \<not> cookie_valid \<and> mode = ModeProxy then resolve_proxy_identity r p else None);
          proxy_valid = (proxy_user \<noteq> None);
          ctx = (case proxy_user of
                   None \<Rightarrow> ctx0
                 | Some uid \<Rightarrow> ctx0\<lparr>cx_user_id := uid, cx_role := pv_user_role p uid\<rparr>);
          key = request_api_key r
      in if allow_unauth_path (hr_method r) (hr_path r) then Served ctx
         else if key \<noteq> [] \<and> key = pv_api_key p then
           Served (with_operator_user_id p (ctx\<lparr>cx_role := role_admin, cx_via_api_key := True\<rparr>))
         else if (cookie_valid \<or> proxy_valid) \<and> cx_role ctx = role_requester then Served ctx
         else if mode_admits_peer mode r (pv_trusted_proxy_cidrs p) then
           (case (if \<not> cookie_valid \<and> \<not> epoch_lookup_failed then rejected_mode_grant_host (ae_hosts env) r else None) of
              Some host \<Rightarrow> HostRejected (clip_host host)
            | None \<Rightarrow>
                if epoch_lookup_failed \<or> (cookie_valid \<and> cx_role ctx = [])
                then Served (ctx\<lparr>cx_user_id := session_uid, cx_role := []\<rparr>)
                else
                  (let signed_in_admin = ((cookie_valid \<or> proxy_valid) \<and> cx_role ctx = role_admin);
                       ctx1 = ctx\<lparr>cx_role := role_admin\<rparr>;
                       ctx2 = (if \<not> signed_in_admin then ctx1\<lparr>cx_admin_by_mode := True\<rparr> else ctx1)
                   in Served (with_operator_user_id p ctx2)))
         else if cookie_valid then Served ctx
         else if epoch_lookup_failed then (if ae_client_gone env then ClientClosedRequest else InternalError)
         else if mode = ModeProxy then (if proxy_valid then Served ctx else Unauthorized)
         else Unauthorized)"

definition require_admin :: "auth_ctx \<Rightarrow> auth_result" where
  "require_admin ctx = (if cx_role ctx \<noteq> role_admin then AdminRequired else Served ctx)"

subsection \<open>Cross-site requests\<close>

definition require_x_requested_with :: "http_request \<Rightarrow> auth_ctx \<Rightarrow> auth_result" where
  "require_x_requested_with r ctx =
     (if safe_method (hr_method r) then Served ctx
      else if \<not> cx_via_api_key ctx \<and> \<not> allow_unauth_path (hr_method r) (hr_path r)
              \<and> header_get r ''X-Requested-With'' \<noteq> ''bindery-ui'' then MissingRequestedWith
      else Served ctx)"

definition make_csrf_token :: "auth_env \<Rightarrow> string \<Rightarrow> string \<Rightarrow> string" where
  "make_csrf_token env secret session_value = b64_encode (ae_hmac env secret (''csrf:'' @ session_value))"

definition valid_csrf_token :: "auth_env \<Rightarrow> string list \<Rightarrow> http_request \<Rightarrow> string \<Rightarrow> bool" where
  "valid_csrf_token env secrets r tok =
     (case hr_cookie r of
        None \<Rightarrow> False
      | Some c \<Rightarrow> if c = [] then False else list_ex (\<lambda>secret. tok = make_csrf_token env secret c) secrets)"

definition session_cookie_present :: "http_request \<Rightarrow> bool" where
  "session_cookie_present r = (case hr_cookie r of None \<Rightarrow> False | Some c \<Rightarrow> c \<noteq> [])"

definition require_csrf_token :: "auth_env \<Rightarrow> string list \<Rightarrow> http_request \<Rightarrow> auth_ctx \<Rightarrow> auth_result" where
  "require_csrf_token env secrets r ctx =
     (if safe_method (hr_method r) then Served ctx
      else if \<not> cx_via_api_key ctx \<and> \<not> allow_unauth_path (hr_method r) (hr_path r) \<and> session_cookie_present r
              \<and> \<not> valid_csrf_token env secrets r (header_get r ''X-CSRF-Token'') then InvalidCsrfToken
      else Served ctx)"

subsection \<open>The requester's routes\<close>

datatype requester_limit = LimitNone | LimitProvider | LimitImage

definition requester_allow_list :: "(string \<times> string \<times> requester_limit) list" where
  "requester_allow_list =
     [(''GET'', ''/api/v1/health'', LimitNone),
      (''GET'', ''/api/v1/auth/status'', LimitNone),
      (''GET'', ''/api/v1/auth/csrf'', LimitNone),
      (''GET'', ''/api/v1/auth/config'', LimitNone),
      (''GET'', ''/api/v1/auth/oidc/providers'', LimitNone),
      (''GET'', ''/api/v1/auth/oidc/{provider}/login'', LimitNone),
      (''GET'', ''/api/v1/auth/oidc/{provider}/callback'', LimitNone),
      (''POST'', ''/api/v1/auth/login'', LimitNone),
      (''POST'', ''/api/v1/auth/logout'', LimitNone),
      (''POST'', ''/api/v1/auth/password'', LimitNone),
      (''GET'', ''/api/v1/search/author'', LimitProvider),
      (''GET'', ''/api/v1/search/book'', LimitProvider),
      (''GET'', ''/api/v1/book/lookup'', LimitProvider),
      (''GET'', ''/api/v1/images'', LimitImage),
      (''GET'', ''/api/v1/requests'', LimitNone),
      (''POST'', ''/api/v1/requests'', LimitProvider),
      (''DELETE'', ''/api/v1/requests/{id}'', LimitNone),
      (''GET'', ''/api/v1/requests/library'', LimitNone)]"

definition canonical_requester_path :: "string \<Rightarrow> bool" where
  "canonical_requester_path p =
     (if p = [] \<or> hd p \<noteq> CHR ''/'' \<or> path_clean p \<noteq> p then False
      else list_all (\<lambda>c. \<not> (c = CHR ''%'' \<or> byte_of c = 92 \<or> byte_of c < 32 \<or> byte_of c = 127)) p)"

text \<open>\<open>mux_find\<close> is chi's lookup among the listed routes, "" for no match. A matcher is built from its
  routes; a later entry of the limit map replaces an earlier one.\<close>

definition limit_of :: "(string \<times> string \<times> requester_limit) list \<Rightarrow> string \<Rightarrow> string \<Rightarrow> requester_limit" where
  "limit_of routes meth pattern =
     (case map_of (rev (map (\<lambda>(m, pt, l). ((m, pt), l)) routes)) (meth, pattern) of None \<Rightarrow> LimitNone | Some l \<Rightarrow> l)"

definition requester_match ::
    "(string \<times> string \<times> requester_limit) list \<Rightarrow> (string \<Rightarrow> string \<Rightarrow> string) \<Rightarrow> http_request \<Rightarrow> bool \<times> requester_limit" where
  "requester_match routes mux_find r =
     (if hr_route_method r \<noteq> [] \<and> hr_route_method r \<noteq> hr_method r then (False, LimitNone)
      else
        (let meth = (if hr_method r = ''HEAD'' then ''GET'' else hr_method r) in
         if hr_raw_path r \<noteq> [] then (False, LimitNone)
         else if \<not> canonical_requester_path (hr_path r) then (False, LimitNone)
         else
           (let pattern = mux_find meth (hr_path r) in
            if pattern = [] then (False, LimitNone) else (True, limit_of routes meth pattern))))"

definition restricted_role :: "string \<Rightarrow> int \<Rightarrow> bool" where
  "restricted_role role user_id =
     (if role = role_admin \<or> role = role_user then False else if role = [] then user_id \<noteq> 0 else True)"

text \<open>\<open>bucket\<close> spends a token of the limiter a limit names: \<open>None\<close> when there was one, otherwise the
  seconds to wait (\<open>RequesterLimiter.allow\<close>, a floating-point token bucket).\<close>

definition restrict_requester ::
    "(string \<Rightarrow> string \<Rightarrow> string) \<Rightarrow> (requester_limit \<Rightarrow> int \<Rightarrow> nat option) \<Rightarrow> http_request \<Rightarrow> auth_ctx \<Rightarrow> auth_result" where
  "restrict_requester mux_find bucket r ctx =
     (let uid = cx_user_id ctx in
      if \<not> restricted_role (cx_role ctx) uid then Served ctx
      else
        (let (allowed, limit) = requester_match requester_allow_list mux_find r in
         if \<not> allowed then NotForRequesters
         else if limit = LimitNone then Served ctx
         else
           (case bucket limit uid of
              Some retry \<Rightarrow> TooManyRequests retry
            | None \<Rightarrow> Served (if limit = LimitProvider then ctx\<lparr>cx_provider_charged := True\<rparr> else ctx))))"

definition allow_requester :: "(requester_limit \<Rightarrow> int \<Rightarrow> nat option) \<Rightarrow> requester_limit \<Rightarrow> auth_ctx \<Rightarrow> nat option" where
  "allow_requester bucket limit ctx =
     (let uid = cx_user_id ctx in
      if \<not> restricted_role (cx_role ctx) uid \<or> cx_provider_charged ctx then None else bucket limit uid)"

text \<open>\<open>useAPIAuth\<close> (cmd/bindery/sensitive_routes.go): the stack in front of every API route.\<close>

definition use_api_auth ::
    "auth_env \<Rightarrow> provider \<Rightarrow> (string \<Rightarrow> string \<Rightarrow> string) \<Rightarrow> (requester_limit \<Rightarrow> int \<Rightarrow> nat option) \<Rightarrow> http_request \<Rightarrow> auth_result" where
  "use_api_auth env p mux_find bucket r =
     and_then (middleware env p r) (\<lambda>ctx.
     and_then (restrict_requester mux_find bucket r ctx) (\<lambda>ctx.
     and_then (require_x_requested_with r ctx)
       (require_csrf_token env (pv_session_secrets p) r)))"

text \<open>\<open>Logout\<close> (internal/api/auth.go): false when it answers with an error.\<close>

definition logout :: "auth_env \<Rightarrow> string list \<Rightarrow> time \<Rightarrow> http_request \<Rightarrow> session_revocations \<Rightarrow> bool \<times> session_revocations" where
  "logout env secrets now r rv =
     (case hr_cookie r of
        None \<Rightarrow> (True, rv)
      | Some c \<Rightarrow>
          if c = [] then (True, rv)
          else
            (case verify_session_multi_with_expiry (ae_hmac env) secrets c (unix_of now) of
               Inl _ \<Rightarrow> (True, rv)
             | Inr (_, x) \<Rightarrow> revoke (session_token_hash (ae_sha env) c) (of_unix x) now rv))"

end
