(* ===== verification/Auth_Proofs.thy ===== *)
theory Auth_Proofs
  imports Auth_Gate
begin

text \<open>
  What the authentication stack of \<open>Auth_Gate\<close> guarantees: which credential a served request has,
  that a rejected cookie counts for nothing, that requesters stay on their routes, that mutations
  carry proof of their origin, and that lists and items agree on whose rows a user may see.
\<close>

subsection \<open>Credentials\<close>

definition keyed_request :: "provider \<Rightarrow> http_request \<Rightarrow> bool" where
  "keyed_request p r \<longleftrightarrow> request_api_key r \<noteq> [] \<and> request_api_key r = pv_api_key p"

text \<open>The user of a session that is signed, unexpired, of the live epoch and not signed out.\<close>

definition live_session :: "auth_env \<Rightarrow> provider \<Rightarrow> http_request \<Rightarrow> int option" where
  "live_session env p r =
     (case resolve_cookie env p r of (ctx, valid, failed, uid) \<Rightarrow> if valid then Some uid else None)"

text \<open>A signed, unexpired session whose epoch or sign-out the database could not tell.\<close>

definition lookup_failed :: "auth_env \<Rightarrow> provider \<Rightarrow> http_request \<Rightarrow> bool" where
  "lookup_failed env p r =
     (case resolve_cookie env p r of (ctx, valid, failed, uid) \<Rightarrow> failed)"

definition proxied_user :: "provider \<Rightarrow> http_request \<Rightarrow> int option" where
  "proxied_user p r = (if pv_mode p = ModeProxy then resolve_proxy_identity r p else None)"

definition admitted_by_mode :: "provider \<Rightarrow> http_request \<Rightarrow> bool" where
  "admitted_by_mode p r = mode_admits_peer (pv_mode p) r (pv_trusted_proxy_cidrs p)"

lemma resolve_cookie_cases:
  obtains (none) uid where "resolve_cookie env p r = (background_ctx, False, False, uid)" "live_session env p r = None"
      "\<not> lookup_failed env p r"
  | (failed) uid where "resolve_cookie env p r = (background_ctx\<lparr>cx_session_lookup_failed := True\<rparr>, False, True, uid)"
      "live_session env p r = None" "lookup_failed env p r"
  | (live) uid where "resolve_cookie env p r = (background_ctx\<lparr>cx_user_id := uid, cx_role := pv_user_role p uid\<rparr>, True, False, uid)"
      "live_session env p r = Some uid" "\<not> lookup_failed env p r"
proof -
  have "(\<exists>uid. resolve_cookie env p r = (background_ctx, False, False, uid))
    \<or> (\<exists>uid. resolve_cookie env p r = (background_ctx\<lparr>cx_session_lookup_failed := True\<rparr>, False, True, uid))
    \<or> (\<exists>uid. resolve_cookie env p r = (background_ctx\<lparr>cx_user_id := uid, cx_role := pv_user_role p uid\<rparr>, True, False, uid))"
    by (auto simp: resolve_cookie_def split: option.split sum.split)
  then show thesis
    using none failed live by (auto simp: live_session_def lookup_failed_def)
qed

lemma background_simps [simp]:
  "cx_role background_ctx = []" "cx_user_id background_ctx = 0" "\<not> cx_via_api_key background_ctx"
  by (simp_all add: background_ctx_def)

lemma operator_simps [simp]:
  "cx_role (with_operator_user_id p ctx) = cx_role ctx"
  "cx_via_api_key (with_operator_user_id p ctx) = cx_via_api_key ctx"
  by (simp_all add: with_operator_user_id_def)

lemma mode_proxy_admits_none [simp]: "\<not> mode_admits_peer ModeProxy r t"
  by (simp add: mode_admits_peer_def)

text \<open>The mode's own grant of the admin role: its peer is admitted, and the request either names a local host or holds a
  live session; never a requester's session, one without a role, or one that could not be looked up.\<close>

definition granted_by_mode :: "auth_env \<Rightarrow> provider \<Rightarrow> http_request \<Rightarrow> bool" where
  "granted_by_mode env p r \<longleftrightarrow> admitted_by_mode p r \<and> \<not> lookup_failed env p r \<and>
     (case live_session env p r of
        None \<Rightarrow> host_allowed_for_mode_grant (ae_hosts env) r
      | Some uid \<Rightarrow> pv_user_role p uid \<notin> {[], role_requester})"

text \<open>C3: the credential behind what is served. Off the public paths the middleware serves a request only if it presents
  the API key, a live session or a trusted proxy's identity, if the mode grants it, or with no role at all if the mode
  admits its peer and its session could not be looked up. A context with the admin role comes from the key, from a
  session or proxy user who is an administrator, or from the mode's grant. Without the key, a request whose session could
  not be looked up gets no role but that of a trusted proxy's identity, whatever the mode.\<close>

theorem served_needs_credential:
  assumes "middleware env p r = Served ctx"
  shows "(\<not> allow_unauth_path (hr_method r) (hr_path r) \<longrightarrow>
      keyed_request p r \<or> live_session env p r \<noteq> None \<or> proxied_user p r \<noteq> None
      \<or> granted_by_mode env p r \<or> admitted_by_mode p r \<and> lookup_failed env p r \<and> cx_role ctx = [])
    \<and> (cx_role ctx = role_admin \<longrightarrow>
      keyed_request p r
      \<or> (\<exists>uid. live_session env p r = Some uid \<and> pv_user_role p uid = role_admin)
      \<or> (\<exists>uid. proxied_user p r = Some uid \<and> pv_user_role p uid = role_admin)
      \<or> granted_by_mode env p r)
    \<and> (lookup_failed env p r \<and> \<not> keyed_request p r \<longrightarrow>
      cx_role ctx = [] \<or> (\<exists>uid. proxied_user p r = Some uid \<and> cx_role ctx = pv_user_role p uid))"
proof (cases rule: resolve_cookie_cases [of env p r])
  case (none uid)
  then show ?thesis
    using assms
    by (cases "resolve_proxy_identity r p")
      (auto simp: middleware_def Let_def keyed_request_def proxied_user_def admitted_by_mode_def granted_by_mode_def
        host_allowed_for_mode_grant_def split: if_splits option.splits)
next
  case (failed uid)
  then show ?thesis
    using assms
    by (cases "resolve_proxy_identity r p")
      (auto simp: middleware_def Let_def keyed_request_def proxied_user_def admitted_by_mode_def granted_by_mode_def
        host_allowed_for_mode_grant_def split: if_splits option.splits)
next
  case (live uid)
  then show ?thesis
    using assms
    by (auto simp: middleware_def Let_def keyed_request_def admitted_by_mode_def granted_by_mode_def split: if_splits option.splits)
qed

text \<open>C34: a cookie that does not authenticate counts for nothing. When the signature, the expiry, the
  epoch or the denylist rejects it, the middleware answers exactly as it answers the same request
  without a cookie, whatever mode, key, proxy identity and path.\<close>

theorem dead_cookie_is_no_cookie:
  assumes "\<forall>c uid epoch. hr_cookie r = Some c \<longrightarrow>
      verify_session_multi_with_epoch (ae_hmac env) (pv_session_secrets p) c (ae_now_unix env) = Inr (uid, epoch) \<longrightarrow>
      session_cookie_usable env p c uid epoch = Some False"
  shows "middleware env p r = middleware env p (r\<lparr>hr_cookie := None\<rparr>)"
proof -
  let ?r = "r\<lparr>hr_cookie := None\<rparr>"
  have "\<exists>uid. resolve_cookie env p r = (background_ctx, False, False, uid)"
    using assms by (auto simp: resolve_cookie_def split: option.split sum.split)
  then obtain uid where r: "resolve_cookie env p r = (background_ctx, False, False, uid)" ..
  have r': "resolve_cookie env p ?r = (background_ctx, False, False, 0)" by (simp add: resolve_cookie_def)
  have same: "real_peer_host ?r = real_peer_host r" "header_get ?r h = header_get r h"
    "request_api_key ?r = request_api_key r" for h
    by (simp_all add: real_peer_host_def header_get_def request_api_key_def Let_def split: option.split)
  have proxy: "resolve_proxy_identity ?r p = resolve_proxy_identity r p"
    by (simp add: resolve_proxy_identity_def same)
  have mode: "mode_admits_peer m ?r t = mode_admits_peer m r t" for m t
    by (simp add: mode_admits_peer_def is_local_request_trusted_def resolve_client_ip_def same Let_def
        split: auth_mode.split option.split)
  have host: "rejected_mode_grant_host h ?r = rejected_mode_grant_host h r" for h
    by (simp add: rejected_mode_grant_host_def)
  show ?thesis
    by (simp add: middleware_def r r' same proxy mode host Let_def)
qed

subsection \<open>Requesters\<close>

lemma limit_listed: "map_of (rev (map (\<lambda>(m, pt, l). ((m, pt), l)) routes)) (m, pt) = Some l \<Longrightarrow> (m, pt, l) \<in> set routes"
  by (drule map_of_SomeD) auto

lemma restrict_serves:
  assumes "restrict_requester mux_find bucket r ctx = Served ctx'" and "restricted_role (cx_role ctx) (cx_user_id ctx)"
  shows "cx_role ctx' = cx_role ctx \<and> cx_user_id ctx' = cx_user_id ctx \<and> fst (requester_match requester_allow_list mux_find r)"
  using assms by (auto simp: restrict_requester_def Let_def split: prod.splits if_splits option.splits)

lemma csrf_serves:
  "require_x_requested_with r ctx = Served ctx' \<Longrightarrow> ctx' = ctx"
  "require_csrf_token env secrets r ctx = Served ctx' \<Longrightarrow> ctx' = ctx"
  by (auto simp: require_x_requested_with_def require_csrf_token_def split: if_splits)

lemma and_then_Served: "and_then res f = Served ctx \<longleftrightarrow> (\<exists>c. res = Served c \<and> f c = Served ctx)"
  by (cases res) simp_all

text \<open>C8: a requester is held to the requester's routes in every mode. Without the API key, a live
  session of a user with the requester role is never served as anyone else, and only with a plain
  path that chi finds on the allow list for its method; in local-only and disabled mode too.\<close>

theorem requester_confined:
  assumes "use_api_auth env p mux_find bucket r = Served ctx"
    and "live_session env p r = Some uid" and "pv_user_role p uid = role_requester" and "\<not> keyed_request p r"
    and "\<forall>m path. mux_find m path \<noteq> [] \<longrightarrow> (\<exists>l. (m, mux_find m path, l) \<in> set requester_allow_list)"
  shows "cx_role ctx = role_requester \<and> cx_user_id ctx = uid \<and> \<not> cx_via_api_key ctx
    \<and> canonical_requester_path (hr_path r) \<and> hr_raw_path r = []
    \<and> (let m = (if hr_method r = ''HEAD'' then ''GET'' else hr_method r)
        in \<exists>l. (m, mux_find m (hr_path r), l) \<in> set requester_allow_list)"
proof -
  have cookie: "resolve_cookie env p r = (background_ctx\<lparr>cx_user_id := uid, cx_role := role_requester\<rparr>, True, False, uid)"
    using assms(2,3) by (cases rule: resolve_cookie_cases [of env p r]) simp_all
  have mw: "middleware env p r = Served (background_ctx\<lparr>cx_user_id := uid, cx_role := role_requester\<rparr>)"
    using assms(4) by (auto simp: middleware_def cookie keyed_request_def Let_def)
  let ?c = "background_ctx\<lparr>cx_user_id := uid, cx_role := role_requester\<rparr>"
  obtain c' where c': "restrict_requester mux_find bucket r ?c = Served c'" "ctx = c'"
    using assms(1) by (auto simp: use_api_auth_def mw and_then_Served dest: csrf_serves)
  have "restricted_role role_requester uid" by (simp add: restricted_role_def)
  then have ok: "cx_role c' = role_requester" "cx_user_id c' = uid" "fst (requester_match requester_allow_list mux_find r)"
    using restrict_serves [OF c'(1)] by simp_all
  have "\<not> cx_via_api_key c'"
    using c'(1) by (auto simp: restrict_requester_def Let_def split: prod.splits if_splits option.splits)
  then show ?thesis
    using ok assms(5) unfolding c'(2)
    by (auto simp: requester_match_def Let_def split: if_splits)
qed

subsection \<open>Cross-site requests\<close>

text \<open>C33: a state-changing request proves where it comes from. Off the public paths, a request with a
  method other than GET, HEAD and OPTIONS is served only with the API key in its header, or with the
  header only the interface can set and, if it carries a session cookie, a token that the server
  derived from that cookie under one of its secrets.\<close>

theorem mutation_needs_proof:
  assumes "use_api_auth env p mux_find bucket r = Served ctx"
    and "\<not> safe_method (hr_method r)" and "\<not> allow_unauth_path (hr_method r) (hr_path r)"
  shows "header_get r ''X-Api-Key'' \<noteq> [] \<and> header_get r ''X-Api-Key'' = pv_api_key p
    \<or> header_get r ''X-Requested-With'' = ''bindery-ui''
      \<and> (\<forall>c. hr_cookie r = Some c \<longrightarrow> c = []
          \<or> (\<exists>secret \<in> set (pv_session_secrets p). header_get r ''X-CSRF-Token'' = make_csrf_token env secret c))"
proof -
  obtain c1 c2 where mw: "middleware env p r = Served c1" and rr: "restrict_requester mux_find bucket r c1 = Served c2"
    and xrw: "require_x_requested_with r c2 = Served c2" and csrf: "require_csrf_token env (pv_session_secrets p) r c2 = Served ctx"
    using assms(1) by (auto simp: use_api_auth_def and_then_Served dest: csrf_serves)
  show ?thesis
  proof (cases "cx_via_api_key c1")
    case True
    have "keyed_request p r"
    proof (rule ccontr)
      assume no: "\<not> keyed_request p r"
      show False
        using mw no True
        by (cases rule: resolve_cookie_cases [of env p r])
          (auto simp: middleware_def Let_def keyed_request_def split: if_splits option.splits)
    qed
    then show ?thesis
      using assms(2) by (auto simp: keyed_request_def request_api_key_def Let_def split: if_splits)
  next
    case False
    then have "\<not> cx_via_api_key c2"
      using rr by (auto simp: restrict_requester_def Let_def split: prod.splits if_splits option.splits)
    then show ?thesis
      using xrw csrf assms(2,3)
      by (auto simp: require_x_requested_with_def require_csrf_token_def session_cookie_present_def
          valid_csrf_token_def list_ex_iff split: if_splits)
  qed
qed

subsection \<open>Whose rows\<close>

text \<open>Lists and items agree on whose rows a user may see. For every context and row, the scope that
  list queries use (0 for all rows, else the user's own and unowned ones) shows a row if and only if
  \<open>CheckOwnership\<close> opens it; what a user may change he may read; and the two differ only on unowned
  rows of a signed-in user who is not an administrator.\<close>

theorem scope_mirrors_ownership:
  "((let s = list_scope_user_id tenancy ctx in s = 0 \<or> owner = s \<or> owner = 0) \<longleftrightarrow> check_ownership tenancy ctx owner)
   \<and> (check_write_ownership tenancy ctx owner \<longleftrightarrow>
       check_ownership tenancy ctx owner
       \<and> \<not> (owner = 0 \<and> tenancy \<and> cx_role ctx \<noteq> role_admin \<and> cx_user_id ctx \<noteq> 0))"
  by (auto simp: list_scope_user_id_def check_ownership_def check_write_ownership_def Let_def)

subsection \<open>Signing out\<close>

lemma live_session_usable:
  "live_session env p r = Some uid \<Longrightarrow> \<exists>c epoch. hr_cookie r = Some c \<and> session_cookie_usable env p c uid epoch = Some True"
  by (auto simp: live_session_def resolve_cookie_def split: option.splits sum.splits if_splits)

text \<open>C13: signing out ends the session, everywhere it was copied to. After \<open>Logout\<close> has succeeded with
  a cookie that verified, no request is a live session that carries the same signed payload, however
  its signature is spelled, for as long as the token would have lived, whatever other sign-outs,
  lookups, failing statements and restarts happened in between.\<close>

theorem logout_ends_session:
  assumes "hr_cookie r = Some (payload @ ''.'' @ sig)" and "CHR ''.'' \<notin> set sig"
    and "verify_session (ae_hmac env) secrets (payload @ ''.'' @ sig) (unix_of now) = Inr (u, e, x)" and "now < of_unix x"
    and "logout env secrets now r rv = (True, rv')"
    and "list_all (before_expiry (session_token_hash (ae_sha env) (payload @ ''.'' @ sig)) x) ops"
    and "hr_cookie r' = Some (payload @ ''.'' @ sig')" and "CHR ''.'' \<notin> set sig'"
    and "later < of_unix x" and "ae_sha env' = ae_sha env"
    and "pv_session_revoked p = (\<lambda>h. fst (is_revoked h later (fold revocation_step ops rv')))"
  shows "live_session env' p r' = None"
proof (rule ccontr)
  let ?h = "session_token_hash (ae_sha env) (payload @ ''.'' @ sig)"
  have "(True, rv') = revoke ?h (of_unix x) now rv"
    using assms(1,3,5) by (simp add: logout_def verify_session_multi_with_expiry_def)
  then have "fst (revoke ?h (of_unix x) now rv)" and "snd (revoke ?h (of_unix x) now rv) = rv'"
    by (metis fst_conv, metis snd_conv)
  then have never: "pv_session_revoked p ?h \<noteq> Some False"
    using signed_out_stays_out [of ?h x now rv ops later] assms(4,6,9,11) by simp
  assume "live_session env' p r' \<noteq> None"
  then obtain uid c epoch where "hr_cookie r' = Some c" "session_cookie_usable env' p c uid epoch = Some True"
    using live_session_usable by blast
  then have "pv_session_revoked p (session_token_hash (ae_sha env) (payload @ ''.'' @ sig')) = Some False"
    using assms(7,10) by (auto simp: session_cookie_usable_def split: option.splits if_splits)
  with never show False
    by (simp add: token_hash_payload [OF assms(2), simplified] token_hash_payload [OF assms(8), simplified])
qed

text \<open>In the second its token expires a signed-out session is live again. The cookie is accepted
  while the clock's whole seconds have not passed the expiry, the denylist entry holds only strictly
  before it, so for the last second the sign-out is forgotten.\<close>

theorem signed_out_token_revives:
  "let cookie = ''v1.7.2000.'' @ b64_encode ''m''; hmac = (\<lambda>_ _. ''m''); secret = replicate 32 CHR ''k'';
       h = session_token_hash (\<lambda>b. b) cookie;
       rv = snd (revoke h (of_unix 2000) (of_unix 1000) empty_denylist)
   in fst (revoke h (of_unix 2000) (of_unix 1000) empty_denylist)
     \<and> verify_session hmac [secret] cookie (unix_of (of_unix 2000)) = Inr (7, 0, 2000)
     \<and> fst (is_revoked h (of_unix 2000) rv) = Some False"
proof -
  have v: "verify_session (\<lambda>_ _. ''m'') [replicate 32 CHR ''k''] (''v1.7.2000.'' @ b64_encode ''m'') 2000 = Inr (7, 0, 2000)"
    by code_simp
  show ?thesis
    unfolding Let_def unix_of_unix v
    by (simp add: revoke_def load_revocations_def statement_def empty_denylist_def is_revoked_def of_unix_def unix_of_def second_def
        del: replicate.simps)
qed

subsection \<open>The properties at work\<close>

definition sample_env :: auth_env where
  "sample_env = \<lparr>ae_hmac = (\<lambda>_ _. ''m''), ae_sha = (\<lambda>b. b), ae_now_unix = 1000, ae_hosts = sample_host_env, ae_client_gone = False\<rparr>"

definition sample_provider :: provider where
  "sample_provider = \<lparr>pv_mode = ModeDisabled, pv_api_key = ''key'', pv_session_secrets = [replicate 32 CHR ''k''],
     pv_proxy_auth_header = ''X-Forwarded-User'', pv_proxy_auto_provision = False, pv_trusted_proxy_cidrs = [],
     pv_resolve_user = (\<lambda>_ _. None), pv_user_role = (\<lambda>u. if u = 7 then ''requester'' else ''admin''), pv_operator_user_id = 1,
     pv_user_session_epoch = (\<lambda>_. Some 0), pv_session_revoked = (\<lambda>_. Some False)\<rparr>"

definition signed_request :: "string \<Rightarrow> http_request" where
  "signed_request path = sample_http_request\<lparr>hr_path := path, hr_cookie := Some ''v1.7.2000.bQ''\<rparr>"

definition sample_find :: "string \<Rightarrow> string \<Rightarrow> string" where
  "sample_find m path = (if m = ''GET'' \<and> path = ''/api/v1/requests'' then ''/api/v1/requests'' else [])"

theorem served_needs_credential_witness:
  "middleware sample_env sample_provider (signed_request ''/api/v1/book'')
      = Served (background_ctx\<lparr>cx_user_id := 7, cx_role := ''requester''\<rparr>)
    \<and> (keyed_request sample_provider (signed_request ''/api/v1/book'')
       \<or> live_session sample_env sample_provider (signed_request ''/api/v1/book'') \<noteq> None
       \<or> proxied_user sample_provider (signed_request ''/api/v1/book'') \<noteq> None
       \<or> granted_by_mode sample_env sample_provider (signed_request ''/api/v1/book''))"
proof -
  have mw: "middleware sample_env sample_provider (signed_request ''/api/v1/book'')
      = Served (background_ctx\<lparr>cx_user_id := 7, cx_role := ''requester''\<rparr>)" by code_simp
  have path: "\<not> allow_unauth_path (hr_method (signed_request ''/api/v1/book'')) (hr_path (signed_request ''/api/v1/book''))" by code_simp
  from served_needs_credential [OF mw] mw path show ?thesis by auto
qed

theorem dead_cookie_is_no_cookie_witness:
  "middleware sample_env sample_provider (sample_http_request\<lparr>hr_cookie := Some ''v1.7.999.bQ''\<rparr>)
    = middleware sample_env sample_provider (sample_http_request\<lparr>hr_cookie := None\<rparr>)"
proof -
  have "verify_session_multi_with_epoch (ae_hmac sample_env) (pv_session_secrets sample_provider) ''v1.7.999.bQ'' (ae_now_unix sample_env)
      = Inl SessionExpired" by code_simp
  then show ?thesis
    using dead_cookie_is_no_cookie [of "sample_http_request\<lparr>hr_cookie := Some ''v1.7.999.bQ''\<rparr>" sample_env sample_provider] by simp
qed

theorem requester_confined_witness:
  "use_api_auth sample_env sample_provider sample_find (\<lambda>_ _. None) (signed_request ''/api/v1/requests'')
      = Served (background_ctx\<lparr>cx_user_id := 7, cx_role := ''requester''\<rparr>)
    \<and> use_api_auth sample_env sample_provider sample_find (\<lambda>_ _. None) (signed_request ''/api/v1/book'') = NotForRequesters
    \<and> canonical_requester_path ''/api/v1/requests''"
proof -
  let ?r = "signed_request ''/api/v1/requests''"
  have served: "use_api_auth sample_env sample_provider sample_find (\<lambda>_ _. None) ?r
      = Served (background_ctx\<lparr>cx_user_id := 7, cx_role := ''requester''\<rparr>)" by code_simp
  have session: "live_session sample_env sample_provider ?r = Some 7" by code_simp
  have role: "pv_user_role sample_provider 7 = role_requester" by code_simp
  have key: "\<not> keyed_request sample_provider ?r" by code_simp
  have find: "\<forall>m path. sample_find m path \<noteq> [] \<longrightarrow> (\<exists>l. (m, sample_find m path, l) \<in> set requester_allow_list)"
    by (auto simp: sample_find_def requester_allow_list_def)
  have refused: "use_api_auth sample_env sample_provider sample_find (\<lambda>_ _. None) (signed_request ''/api/v1/book'') = NotForRequesters"
    by code_simp
  from requester_confined [OF served session role key find] served refused show ?thesis by (simp add: signed_request_def)
qed

theorem mutation_needs_proof_witness:
  "let r = sample_http_request\<lparr>hr_method := ''POST'', hr_route_method := ''POST'', hr_host := ''localhost'',
         hr_values := (\<lambda>h. if h = ''X-Requested-With'' then [''bindery-ui''] else [])\<rparr>
   in use_api_auth sample_env sample_provider sample_find (\<lambda>_ _. None) r
        = Served (background_ctx\<lparr>cx_user_id := 1, cx_role := ''admin'', cx_admin_by_mode := True\<rparr>)
      \<and> header_get r ''X-Requested-With'' = ''bindery-ui''"
proof -
  let ?r = "sample_http_request\<lparr>hr_method := ''POST'', hr_route_method := ''POST'', hr_host := ''localhost'',
         hr_values := (\<lambda>h. if h = ''X-Requested-With'' then [''bindery-ui''] else [])\<rparr>"
  have served: "use_api_auth sample_env sample_provider sample_find (\<lambda>_ _. None) ?r
      = Served (background_ctx\<lparr>cx_user_id := 1, cx_role := ''admin'', cx_admin_by_mode := True\<rparr>)" by code_simp
  have unsafe: "\<not> safe_method (hr_method ?r)" "\<not> allow_unauth_path (hr_method ?r) (hr_path ?r)" by code_simp+
  have "header_get ?r ''X-Api-Key'' = []" by code_simp
  with mutation_needs_proof [OF served unsafe] served show ?thesis by simp
qed

theorem logout_ends_session_witness:
  "\<exists>rv'. logout sample_env [replicate 32 CHR ''k''] (of_unix 1000) (signed_request ''/api/v1/auth/logout'') empty_denylist = (True, rv')
    \<and> live_session sample_env (sample_provider\<lparr>pv_session_revoked := (\<lambda>h. fst (is_revoked h (of_unix 1500) rv'))\<rparr>)
        (signed_request ''/api/v1/book'') = None"
proof -
  let ?k = "[replicate 32 CHR ''k'']" and ?r = "signed_request ''/api/v1/auth/logout''"
  have v: "verify_session (ae_hmac sample_env) ?k (''v1.7.2000'' @ ''.'' @ ''bQ'') (unix_of (of_unix 1000)) = Inr (7, 0, 2000)"
    unfolding unix_of_unix by code_simp
  have v': "verify_session_multi_with_expiry (ae_hmac sample_env) ?k ''v1.7.2000.bQ'' 1000 = Inr (7, 2000)"
    using v by (simp add: verify_session_multi_with_expiry_def)
  have "fst (logout sample_env ?k (of_unix 1000) ?r empty_denylist)"
    by (simp add: logout_def signed_request_def v' del: replicate.simps)
      (simp add: fst_revoke load_revocations_def statement_def empty_denylist_def)
  then obtain rv' where rv': "logout sample_env ?k (of_unix 1000) ?r empty_denylist = (True, rv')" by (metis prod.collapse)
  have t: "of_unix 1000 < of_unix 2000" "of_unix 1500 < of_unix 2000" by (simp_all add: of_unix_def second_def)
  let ?p = "sample_provider\<lparr>pv_session_revoked := (\<lambda>h. fst (is_revoked h (of_unix 1500) rv'))\<rparr>"
  have "live_session sample_env ?p (signed_request ''/api/v1/book'') = None"
    by (rule logout_ends_session [OF _ _ v t(1) rv', of "[]" _ "''bQ''" "of_unix 1500"])
      (simp_all add: signed_request_def t)
  with rv' show ?thesis by blast
qed

end
