(* ===== verification/Log_Ring.thy ===== *)
theory Log_Ring
  imports Go_Prelude
begin

text \<open>
  The in-memory log of \<open>internal/logbuf/ring.go\<close>: a circular buffer of records with a level gate,
  refined against the plain list of everything it accepted. An attribute is a key with its value
  already rendered by \<open>fmt.Sprintf\<close>; levels are the integers of log/slog.
\<close>

subsection \<open>Levels and records\<close>

definition level_debug :: int where "level_debug = - 4"
definition level_info :: int where "level_info = 0"
definition level_warn :: int where "level_warn = 4"
definition level_error :: int where "level_error = 8"

text \<open>\<open>slog.Level.String\<close>.\<close>

definition level_string :: "int \<Rightarrow> string" where
  "level_string l =
     (let str = (\<lambda>base v. if v = 0 then base
                   else base @ (if v > 0 then ''+'' else []) @ show_int v)
      in if l < level_info then str ''DEBUG'' (l - level_debug)
         else if l < level_warn then str ''INFO'' (l - level_info)
         else if l < level_error then str ''WARN'' (l - level_warn)
         else str ''ERROR'' (l - level_error))"

definition level_value :: "string \<Rightarrow> int" where
  "level_value s =
     (if s = ''DEBUG'' then level_debug else if s = ''INFO'' then level_info
      else if s = ''WARN'' then level_warn else if s = ''ERROR'' then level_error
      else level_info)"

type_synonym attr = "string \<times> string"

record log_record =
  lr_time :: time
  lr_level :: int
  lr_message :: string
  lr_attrs :: "attr list"

record log_entry =
  le_time :: time
  le_level :: string
  le_msg :: string
  le_attrs :: "(string \<rightharpoonup> string) option"

text \<open>Attributes without a key are skipped; the map stays nil until the first one with a key.\<close>

definition add_attr :: "attr \<Rightarrow> (string \<rightharpoonup> string) option \<Rightarrow> (string \<rightharpoonup> string) option" where
  "add_attr a m =
     (case a of (k, v) \<Rightarrow>
        if k = [] then m
        else Some ((case m of None \<Rightarrow> Map.empty | Some f \<Rightarrow> f)(k \<mapsto> v)))"

definition entry_of :: "attr list \<Rightarrow> log_record \<Rightarrow> log_entry" where
  "entry_of pre r =
     \<lparr>le_time = lr_time r, le_level = level_string (lr_level r), le_msg = lr_message r,
      le_attrs = fold add_attr (pre @ lr_attrs r) None\<rparr>"

subsection \<open>The ring\<close>

record ring =
  rg_entries :: "log_entry list"
  rg_head :: nat
  rg_count :: nat
  rg_capacity :: nat
  rg_level :: int
  rg_pre_attrs :: "attr list"

definition default_capacity :: nat where
  "default_capacity = 1000"

definition blank_entry :: log_entry where
  "blank_entry = \<lparr>le_time = time_zero, le_level = [], le_msg = [], le_attrs = None\<rparr>"

definition ring_capacity :: "int \<Rightarrow> nat" where
  "ring_capacity capacity = (if capacity \<le> 0 then default_capacity else nat capacity)"

definition new_ring :: "int \<Rightarrow> ring" where
  "new_ring capacity =
     (let cap = ring_capacity capacity in
      \<lparr>rg_entries = replicate cap blank_entry, rg_head = 0, rg_count = 0, rg_capacity = cap,
       rg_level = level_info, rg_pre_attrs = []\<rparr>)"

definition set_level :: "int \<Rightarrow> ring \<Rightarrow> ring" where
  "set_level l r = r\<lparr>rg_level := l\<rparr>"

definition ring_enabled :: "int \<Rightarrow> ring \<Rightarrow> bool" where
  "ring_enabled l r = (rg_level r \<le> l)"

text \<open>The part of \<open>Handle\<close> under the lock.\<close>

definition ring_store :: "log_entry \<Rightarrow> ring \<Rightarrow> ring" where
  "ring_store e r =
     r\<lparr>rg_entries := (rg_entries r)[rg_head r := e],
       rg_head := (rg_head r + 1) mod rg_capacity r,
       rg_count := (if rg_count r < rg_capacity r then rg_count r + 1 else rg_count r)\<rparr>"

definition ring_handle :: "log_record \<Rightarrow> ring \<Rightarrow> ring" where
  "ring_handle rec r =
     (if lr_level rec < rg_level r then r else ring_store (entry_of (rg_pre_attrs r) rec) r)"

text \<open>The walk of \<open>Snapshot\<close> from the oldest entry to the newest.\<close>

definition ring_walk :: "ring \<Rightarrow> log_entry list" where
  "ring_walk r =
     (let start = (if rg_count r = rg_capacity r then rg_head r else 0)
      in map (\<lambda>i. rg_entries r ! ((start + i) mod rg_capacity r)) [0..<rg_count r])"

definition ring_snapshot :: "int \<Rightarrow> int \<Rightarrow> ring \<Rightarrow> log_entry list" where
  "ring_snapshot min_level limit r =
     (if rg_count r = 0 then []
      else
        (let out = filter (\<lambda>e. \<not> level_value (le_level e) < min_level) (ring_walk r)
         in if limit > 0 \<and> int (length out) > limit then drop (length out - nat limit) out else out))"

text \<open>\<open>attrHandler\<close>: a view of the ring with more attributes; the group name is not used.\<close>

record attr_handler =
  ah_extra :: "attr list"
  ah_group :: string

definition ring_with_attrs :: "attr list \<Rightarrow> ring \<Rightarrow> attr_handler" where
  "ring_with_attrs attrs r = \<lparr>ah_extra = rg_pre_attrs r @ attrs, ah_group = []\<rparr>"

definition ring_with_group :: "string \<Rightarrow> ring \<Rightarrow> attr_handler" where
  "ring_with_group name r = \<lparr>ah_extra = rg_pre_attrs r, ah_group = name\<rparr>"

definition attr_with_attrs :: "attr list \<Rightarrow> attr_handler \<Rightarrow> attr_handler" where
  "attr_with_attrs attrs h = h\<lparr>ah_extra := ah_extra h @ attrs\<rparr>"

definition attr_with_group :: "string \<Rightarrow> attr_handler \<Rightarrow> attr_handler" where
  "attr_with_group name h = h\<lparr>ah_group := name\<rparr>"

definition attr_handle :: "attr_handler \<Rightarrow> log_record \<Rightarrow> ring \<Rightarrow> ring" where
  "attr_handle h rec r = ring_handle (rec\<lparr>lr_attrs := ah_extra h @ lr_attrs rec\<rparr>) r"

text \<open>\<open>Tee\<close>: both handlers run if enabled; the first error wins. A handler is its enabled test and
  its effect on its own state with the error it returns.\<close>

type_synonym 's handler = "(int \<Rightarrow> 's \<Rightarrow> bool) \<times> (log_record \<Rightarrow> 's \<Rightarrow> string option \<times> 's)"

definition run_handler :: "'s handler \<Rightarrow> log_record \<Rightarrow> 's \<Rightarrow> string option \<times> 's" where
  "run_handler h rec s = (if fst h (lr_level rec) s then snd h rec s else (None, s))"

definition tee_enabled :: "'s handler \<Rightarrow> 't handler \<Rightarrow> int \<Rightarrow> 's \<times> 't \<Rightarrow> bool" where
  "tee_enabled a b l st = (fst a l (fst st) \<or> fst b l (snd st))"

definition tee_handle :: "'s handler \<Rightarrow> 't handler \<Rightarrow> log_record \<Rightarrow> 's \<times> 't \<Rightarrow> string option \<times> 's \<times> 't" where
  "tee_handle a b rec st =
     (let (ea, sa) = run_handler a rec (fst st);
          (eb, sb) = run_handler b rec (snd st)
      in ((if ea \<noteq> None then ea else eb), sa, sb))"

subsection \<open>The specification: everything accepted, in order\<close>

text \<open>What a buffer of the last entries promises to its reader.\<close>

locale bounded_log =
  fixes put :: "log_entry \<Rightarrow> 's \<Rightarrow> 's"
    and contents :: "'s \<Rightarrow> log_entry list"
    and cap :: "'s \<Rightarrow> nat"
    and ok :: "'s \<Rightarrow> bool"
  assumes put_ok: "ok s \<Longrightarrow> ok (put e s)"
    and put_cap: "ok s \<Longrightarrow> cap (put e s) = cap s"
    and cap_pos: "ok s \<Longrightarrow> 0 < cap s"
    and put_contents: "ok s \<Longrightarrow>
      contents (put e s) = (if length (contents s) < cap s then contents s @ [e] else tl (contents s) @ [e])"
    and within_cap: "ok s \<Longrightarrow> length (contents s) \<le> cap s"
begin

lemma puts_ok: "ok s \<Longrightarrow> ok (fold put es s) \<and> cap (fold put es s) = cap s"
  by (induction es arbitrary: s) (simp_all add: put_ok put_cap)

text \<open>After any run the contents are the last \<open>cap\<close> of what was there and what was put.\<close>

lemma puts_contents:
  "ok s \<Longrightarrow> contents (fold put es s)
    = drop (length (contents s) + length es - cap s) (contents s @ es)"
proof (induction es arbitrary: s)
  case (Cons e es)
  have s: "ok s" by (rule Cons.prems)
  have run: "contents (fold put (e # es) s)
      = drop (length (contents (put e s)) + length es - cap s) (contents (put e s) @ es)"
    using Cons.IH [OF put_ok [OF s]] put_cap [OF s] by simp
  show ?case
  proof (cases "length (contents s) < cap s")
    case True
    then show ?thesis unfolding run using put_contents [OF s, of e] by simp
  next
    case False
    then obtain x xs where "contents s = x # xs" using cap_pos [OF s] by (cases "contents s") auto
    then show ?thesis
      unfolding run using False put_contents [OF s, of e] within_cap [OF s] by (simp add: Suc_diff_le)
  qed
qed (simp add: within_cap)

end

definition ring_ok :: "ring \<Rightarrow> bool" where
  "ring_ok r \<longleftrightarrow> 0 < rg_capacity r \<and> length (rg_entries r) = rg_capacity r \<and> rg_head r < rg_capacity r
     \<and> rg_count r \<le> rg_capacity r \<and> (rg_count r < rg_capacity r \<longrightarrow> rg_head r = rg_count r)"

lemma ring_ok_new: "ring_ok (new_ring capacity)"
  by (auto simp: ring_ok_def new_ring_def ring_capacity_def default_capacity_def Let_def)

lemma ring_walk_filling:
  "ring_ok r \<Longrightarrow> rg_count r < rg_capacity r \<Longrightarrow> ring_walk r = take (rg_count r) (rg_entries r)"
  by (intro nth_equalityI) (simp_all add: ring_walk_def ring_ok_def)

lemma ring_walk_full:
  assumes "ring_ok r" and "rg_count r = rg_capacity r"
  shows "ring_walk r = drop (rg_head r) (rg_entries r) @ take (rg_head r) (rg_entries r)"
proof (rule nth_equalityI)
  show "length (ring_walk r) = length (drop (rg_head r) (rg_entries r) @ take (rg_head r) (rg_entries r))"
    using assms by (simp add: ring_walk_def ring_ok_def)
next
  fix i assume "i < length (ring_walk r)"
  then have i: "i < rg_capacity r" using assms by (simp add: ring_walk_def)
  have "(rg_head r + i) mod rg_capacity r
      = (if rg_head r + i < rg_capacity r then rg_head r + i else rg_head r + i - rg_capacity r)"
    using i assms(1) by (auto simp: ring_ok_def le_mod_geq)
  then show "ring_walk r ! i = (drop (rg_head r) (rg_entries r) @ take (rg_head r) (rg_entries r)) ! i"
    using i assms by (auto simp: ring_walk_def ring_ok_def nth_append add.commute)
qed

lemma ring_ok_store: "ring_ok r \<Longrightarrow> ring_ok (ring_store e r)"
  by (auto simp: ring_ok_def ring_store_def mod_Suc)

lemma ring_walk_store:
  assumes ok: "ring_ok r"
  shows "ring_walk (ring_store e r)
    = (if length (ring_walk r) < rg_capacity r then ring_walk r @ [e] else tl (ring_walk r) @ [e])"
proof -
  let ?E = "rg_entries r" and ?h = "rg_head r"
  have ok': "ring_ok (ring_store e r)" using ok by (rule ring_ok_store)
  have h: "?h < length ?E" using ok by (simp add: ring_ok_def)
  have upd: "?E[?h := e] = take ?h ?E @ e # drop (Suc ?h) ?E" using h by (rule upd_conv_take_nth_drop)
  show ?thesis
  proof (cases "rg_count r < rg_capacity r")
    case filling: True
    then have h: "?h = rg_count r" using ok by (simp add: ring_ok_def)
    have walk: "ring_walk r = take ?h ?E" using ring_walk_filling [OF ok filling] h by simp
    have "ring_walk (ring_store e r) = take ?h ?E @ [e]"
    proof (cases "Suc (rg_count r) < rg_capacity r")
      case True
      then show ?thesis
        using ring_walk_filling [OF ok'] filling h ok upd
        by (simp add: ring_store_def ring_ok_def)
    next
      case False
      then have "Suc ?h = rg_capacity r" using filling h by simp
      then show ?thesis
        using ring_walk_full [OF ok'] filling h ok upd by (simp add: ring_store_def ring_ok_def)
    qed
    then show ?thesis using walk filling h ok by (simp add: ring_ok_def)
  next
    case False
    then have full: "rg_count r = rg_capacity r" using ok by (simp add: ring_ok_def)
    have walk: "ring_walk r = drop ?h ?E @ take ?h ?E" using ring_walk_full [OF ok full] .
    have tl: "tl (drop ?h ?E @ take ?h ?E) = drop (Suc ?h) ?E @ take ?h ?E"
      using h by (simp add: Cons_nth_drop_Suc [symmetric])
    have "ring_walk (ring_store e r) = drop (Suc ?h) ?E @ take ?h ?E @ [e]"
    proof (cases "Suc ?h < rg_capacity r")
      case True
      then show ?thesis
        using ring_walk_full [OF ok'] full h ok upd by (simp add: ring_store_def ring_ok_def)
    next
      case False
      then have "Suc ?h = rg_capacity r" using h ok by (simp add: ring_ok_def)
      then show ?thesis
        using ring_walk_full [OF ok'] full h ok upd by (simp add: ring_store_def ring_ok_def)
    qed
    moreover have "length (ring_walk r) = rg_capacity r" by (simp add: ring_walk_def full)
    ultimately show ?thesis unfolding walk tl by simp
  qed
qed

interpretation ring_log: bounded_log ring_store ring_walk rg_capacity ring_ok
proof
  show "ring_ok r \<Longrightarrow> length (ring_walk r) \<le> rg_capacity r" for r
    by (simp add: ring_ok_def ring_walk_def)
qed (auto simp: ring_ok_store ring_walk_store, auto simp: ring_store_def ring_ok_def)

subsection \<open>Runs\<close>

datatype ring_op = RgSetLevel int | RgHandle log_record | RgHandleVia attr_handler log_record

fun ring_step :: "ring_op \<Rightarrow> ring \<Rightarrow> ring" where
  "ring_step (RgSetLevel l) r = set_level l r"
| "ring_step (RgHandle rec) r = ring_handle rec r"
| "ring_step (RgHandleVia h rec) r = attr_handle h rec r"

text \<open>The specification of a run: the records at or above the level in force, in order.\<close>

fun accepted :: "int \<Rightarrow> ring_op list \<Rightarrow> log_entry list" where
  "accepted l [] = []"
| "accepted l (RgSetLevel l' # ops) = accepted l' ops"
| "accepted l (RgHandle rec # ops) = (if l \<le> lr_level rec then [entry_of [] rec] else []) @ accepted l ops"
| "accepted l (RgHandleVia h rec # ops) =
     (if l \<le> lr_level rec then [entry_of (ah_extra h) rec] else []) @ accepted l ops"

lemma ring_walk_level [simp]: "ring_walk (r\<lparr>rg_level := l\<rparr>) = ring_walk r"
  by (simp add: ring_walk_def)

lemma run_is_puts:
  "rg_pre_attrs r = [] \<Longrightarrow> \<exists>l. fold ring_step ops r = (fold ring_store (accepted (rg_level r) ops) r)\<lparr>rg_level := l\<rparr>"
proof (induction ops arbitrary: r)
  case Nil
  then show ?case by (intro exI [of _ "rg_level r"]) simp
next
  case (Cons op ops)
  have lev: "fold ring_store es (r\<lparr>rg_level := l\<rparr>) = (fold ring_store es r)\<lparr>rg_level := l\<rparr>" for es l r
  proof (induction es arbitrary: r)
    case (Cons e es)
    have "ring_store e (r\<lparr>rg_level := l\<rparr>) = (ring_store e r)\<lparr>rg_level := l\<rparr>" by (simp add: ring_store_def)
    with Cons show ?case by simp
  qed simp
  have keep: "rg_level (ring_store e r) = rg_level r" "rg_pre_attrs (ring_store e r) = rg_pre_attrs r" for e r
    by (simp_all add: ring_store_def)
  show ?case
  proof (cases op)
    case (RgSetLevel l)
    then show ?thesis using Cons.IH [of "r\<lparr>rg_level := l\<rparr>"] Cons.prems by (auto simp: set_level_def lev)
  next
    case (RgHandle rec)
    then show ?thesis using Cons.IH [of "ring_handle rec r"] Cons.prems by (auto simp: ring_handle_def keep)
  next
    case (RgHandleVia h rec)
    then show ?thesis
      using Cons.IH [of "attr_handle h rec r"] Cons.prems
      by (auto simp: attr_handle_def ring_handle_def keep entry_of_def)
  qed
qed

text \<open>C37: the log view is exact. After any run of records, handed over directly or through a handler
  with attributes, and of level changes, a snapshot shows, oldest first, the most recent \<open>limit\<close> of
  those entries at or above the asked level that are among the last \<open>capacity\<close> records accepted
  at the level in force when they came; nothing else is ever shown or lost.\<close>

theorem snapshot_is_suffix_of_accepted:
  "let log = accepted level_info ops;
       kept = drop (length log - ring_capacity capacity) log;
       shown = filter (\<lambda>e. min_level \<le> level_value (le_level e)) kept
   in ring_snapshot min_level limit (fold ring_step ops (new_ring capacity))
      = (if 0 < limit then drop (length shown - nat limit) shown else shown)"
proof -
  let ?r = "new_ring capacity"
  have empty: "ring_walk ?r = []" "rg_capacity ?r = ring_capacity capacity" "rg_pre_attrs ?r = []" "rg_level ?r = level_info"
    by (simp_all add: new_ring_def ring_walk_def Let_def)
  obtain l where run: "fold ring_step ops ?r = (fold ring_store (accepted level_info ops) ?r)\<lparr>rg_level := l\<rparr>"
    using run_is_puts [OF empty(3)] empty(4) by metis
  have "ring_walk (fold ring_step ops ?r)
      = drop (length (accepted level_info ops) - ring_capacity capacity) (accepted level_info ops)"
    using ring_log.puts_contents [OF ring_ok_new] empty by (simp add: run)
  moreover have "rg_count (fold ring_step ops ?r) = 0 \<longleftrightarrow> ring_walk (fold ring_step ops ?r) = []"
    by (simp add: ring_walk_def)
  ultimately show ?thesis
    by (auto simp: ring_snapshot_def Let_def not_less)
qed

end
