(* ===== verification/Isbn.thy ===== *)
theory Isbn
  imports Go_Utf8 Go_Strconv
begin

text \<open>
  \<open>internal/isbnutil/isbn.go\<close>: ISBN normalisation, check digits, the canonical 13-digit form and
  the extraction of an ISBN from free text. A string that leaves ASCII is read rune by rune;
  \<open>unicode.IsLetter\<close> and the non-ASCII part of \<open>strings.ToUpper\<close> are arguments.
\<close>

subsection \<open>Normal form\<close>

definition is_space_rune :: "nat \<Rightarrow> bool" where
  "is_space_rune r \<longleftrightarrow> 9 \<le> r \<and> r \<le> 13 \<or> r \<in> {32, 133, 160, 5760, 8232, 8233, 8239, 8287, 12288}
     \<or> 8192 \<le> r \<and> r \<le> 8202"

definition is_separator :: "nat \<Rightarrow> bool" where
  "is_separator r \<longleftrightarrow>
     r \<in> {45, 95, 173, 8208, 8209, 8210, 8211, 8212, 8213, 8722} \<or> is_space_rune r"

definition digit_rune :: "nat \<Rightarrow> bool" where
  "digit_rune r \<longleftrightarrow> 48 \<le> r \<and> r \<le> 57"

definition x_rune :: "nat \<Rightarrow> bool" where
  "x_rune r \<longleftrightarrow> r = 120 \<or> r = 88"

definition is_isbn_char :: "nat \<Rightarrow> bool" where
  "is_isbn_char r \<longleftrightarrow> digit_rune r \<or> x_rune r"

definition isbn_normalize :: "string \<Rightarrow> string" where
  "isbn_normalize raw =
     (let s = trim_space raw in
      if s = [] then []
      else concat (map (\<lambda>r. if digit_rune r then encode_rune r
                            else if x_rune r then ''X''
                            else if is_separator r then []
                            else encode_rune r) (runes s)))"

definition upper_byte :: "char \<Rightarrow> char" where
  "upper_byte c = (if 97 \<le> byte_of c \<and> byte_of c \<le> 122 then char_of (byte_of c - 32) else c)"

definition normalize_asin :: "(string \<Rightarrow> string) \<Rightarrow> string \<Rightarrow> string" where
  "normalize_asin uc_upper raw =
     (let s = trim_space raw in if is_ascii s then map upper_byte s else uc_upper s)"

subsection \<open>Check digits\<close>

definition all_digits :: "string \<Rightarrow> bool" where
  "all_digits s = list_all dec_digit s"

definition dval :: "char \<Rightarrow> nat" where
  "dval c = byte_of c - 48"

definition isbn10_sum :: "string \<Rightarrow> nat" where
  "isbn10_sum s = sum_list (map (\<lambda>i. dval (s ! i) * (10 - i)) [0..<9])"

definition valid_isbn10 :: "string \<Rightarrow> bool" where
  "valid_isbn10 raw =
     (let s = isbn_normalize raw in
      if length s \<noteq> 10 \<or> \<not> all_digits (take 9 s) then False
      else if s ! 9 = CHR ''X'' then (isbn10_sum s + 10) mod 11 = 0
      else if dec_digit (s ! 9) then (isbn10_sum s + dval (s ! 9)) mod 11 = 0
      else False)"

definition ean13_check_digit :: "string \<Rightarrow> nat" where
  "ean13_check_digit body =
     (let total = sum_list (map (\<lambda>i. if i mod 2 = 1 then dval (body ! i) * 3 else dval (body ! i)) [0..<length body])
      in (10 - total mod 10) mod 10)"

definition valid_isbn13 :: "string \<Rightarrow> bool" where
  "valid_isbn13 raw =
     (let s = isbn_normalize raw in
      if length s \<noteq> 13 \<or> \<not> all_digits s then False
      else if \<not> has_prefix s ''978'' \<and> \<not> has_prefix s ''979'' then False
      else byte_of (s ! 12) = 48 + ean13_check_digit (take 12 s))"

definition to_isbn13 :: "string \<Rightarrow> string" where
  "to_isbn13 raw =
     (let s = isbn_normalize raw in
      if length s = 13 then (if \<not> valid_isbn13 s then [] else s)
      else if length s = 10 then
        (if \<not> valid_isbn10 s then []
         else (let body = ''978'' @ take 9 s in body @ [char_of (48 + ean13_check_digit body)]))
      else [])"

subsection \<open>Extraction from text\<close>

text \<open>\<open>rs\<close> is what is left of the text from index \<open>e\<close> on; \<open>lst\<close> is the last ISBN character met.\<close>

fun scan_isbn_token :: "nat list \<Rightarrow> nat \<Rightarrow> nat \<Rightarrow> string \<times> nat \<times> nat" where
  "scan_isbn_token [] e lst = ([], lst, e)"
| "scan_isbn_token (r # rs) e lst =
     (if digit_rune r then
        (case scan_isbn_token rs (e + 1) e of (t, l, e') \<Rightarrow> (encode_rune r @ t, l, e'))
      else if x_rune r then
        (case scan_isbn_token rs (e + 1) e of (t, l, e') \<Rightarrow> (CHR ''X'' # t, l, e'))
      else if is_separator r then scan_isbn_token rs (e + 1) lst
      else ([], lst, e))"

lemma scan_end: "scan_isbn_token rs e lst = (t, l, e') \<Longrightarrow> e \<le> e' \<and> e' \<le> e + length rs"
  by (induction rs e lst arbitrary: t l e' rule: scan_isbn_token.induct)
     (fastforce split: prod.splits if_splits)+

lemma scan_progress:
  assumes "scan_isbn_token (r # rs) e lst = (t, l, e')" and "is_isbn_char r"
  shows "e < e'"
proof (cases "scan_isbn_token rs (e + 1) e")
  case (fields t2 l2 e2)
  then show ?thesis using assms scan_end [OF fields] by (auto simp: is_isbn_char_def split: if_splits)
qed

definition isbn13_shape :: "string \<Rightarrow> bool" where
  "isbn13_shape t \<longleftrightarrow> length t = 13 \<and> all_digits t \<and> (has_prefix t ''978'' \<or> has_prefix t ''979'')"

definition isbn10_shape :: "string \<Rightarrow> bool" where
  "isbn10_shape t \<longleftrightarrow> length t = 10 \<and> all_digits (take 9 t)"

function extract_from :: "(nat \<Rightarrow> bool) \<Rightarrow> nat list \<Rightarrow> nat \<Rightarrow> string \<times> string" where
  "extract_from is_letter rs i =
     (if i \<ge> length rs then ([], [])
      else if \<not> is_isbn_char (rs ! i) then extract_from is_letter rs (i + 1)
      else
        (case scan_isbn_token (drop i rs) i i of (token, lst, e) \<Rightarrow>
           let glued = (e = lst + 1 \<and> e < length rs \<and> is_letter (rs ! e)) in
           if \<not> glued \<and> isbn13_shape token then (token, [])
           else if \<not> glued \<and> isbn10_shape token then ([], token)
           else extract_from is_letter rs e))"
  by pat_completeness auto

termination
proof (relation "measure (\<lambda>(p, rs, i). length rs - i)")
  fix p :: "nat \<Rightarrow> bool" and rs i x y xa ya xb
  assume i: "\<not> length rs \<le> i" "\<not> \<not> is_isbn_char (rs ! i)"
    and scan: "(x, y) = scan_isbn_token (drop i rs) i i" "(xa, ya) = y"
  then have "scan_isbn_token (rs ! i # drop (Suc i) rs) i i = (x, xa, ya)"
    by (simp add: Cons_nth_drop_Suc)
  then have "i < ya" using i(2) scan_progress by blast
  then show "((p, rs, ya), p, rs, i) \<in> measure (\<lambda>(p, rs, i). length rs - i)" using i(1) by simp
qed auto

definition extract_isbn :: "(nat \<Rightarrow> bool) \<Rightarrow> string \<Rightarrow> string \<times> string" where
  "extract_isbn is_letter raw = extract_from is_letter (runes raw) 0"

declare extract_from.simps [simp del]

lemma extract_from_shape:
  "extract_from is_letter rs i = (t13, t10)
    \<Longrightarrow> (t13 = [] \<or> isbn13_shape t13) \<and> (t10 = [] \<or> isbn10_shape t10) \<and> (t13 = [] \<or> t10 = [])"
proof (induction is_letter rs i rule: extract_from.induct)
  case (1 is_letter rs i)
  from "1.prems" show ?case
    unfolding extract_from.simps [of is_letter rs i]
    using "1.IH" by (auto simp: Let_def split: if_splits prod.splits)
qed

subsection \<open>Normal forms are fixed points\<close>

definition isbn_plain :: "string \<Rightarrow> bool" where
  "isbn_plain s \<longleftrightarrow> list_all (\<lambda>c. dec_digit c \<or> c = CHR ''X'') s"

lemma plain_bytes: "dec_digit c \<or> c = CHR ''X'' \<Longrightarrow> 48 \<le> byte_of c \<and> byte_of c \<le> 88"
  by (auto simp: dec_digit_def)

lemma trim_plain:
  assumes "isbn_plain s"
  shows "trim_space s = s"
proof (rule trim_graph)
  have "33 \<le> byte_of c \<and> byte_of c < (128 :: nat)" if "c \<in> set s" for c
    using plain_bytes [of c] assms that by (auto simp: isbn_plain_def list_all_iff)
  then show "list_all (\<lambda>c. 33 \<le> byte_of c \<and> byte_of c < (128 :: nat)) s" by (simp add: list_all_iff)
qed

lemma plain_ascii: "isbn_plain s \<Longrightarrow> is_ascii s"
  using plain_bytes by (force simp: isbn_plain_def is_ascii_def list_all_iff)

lemma normalize_plain:
  assumes "isbn_plain s"
  shows "isbn_normalize s = s"
proof -
  have one: "(if digit_rune r then encode_rune r else if x_rune r then ''X''
      else if is_separator r then [] else encode_rune r) = [c]"
    if "dec_digit c \<or> c = CHR ''X''" "r = byte_of c" for c r
    using that encode_ascii [of c] by (auto simp: dec_digit_def digit_rune_def x_rune_def)
  have "concat (map (\<lambda>r. if digit_rune r then encode_rune r else if x_rune r then ''X''
      else if is_separator r then [] else encode_rune r) (map byte_of s)) = s"
    using assms by (induction s) (simp_all add: isbn_plain_def one)
  then show ?thesis
    by (simp add: isbn_normalize_def trim_plain [OF assms] runes_ascii [OF plain_ascii [OF assms]])
qed

lemma all_digits_plain: "all_digits s \<Longrightarrow> isbn_plain s"
  by (auto simp: all_digits_def isbn_plain_def list_all_iff)

subsection \<open>Weighted sums\<close>

definition weighted :: "(char \<Rightarrow> nat) \<Rightarrow> (nat \<Rightarrow> nat) \<Rightarrow> nat \<Rightarrow> string \<Rightarrow> nat" where
  "weighted v w n s = sum_list (map (\<lambda>i. v (s ! i) * w i) [0..<n])"

lemma weighted_Suc: "weighted v w (Suc n) s = weighted v w n s + v (s ! n) * w n"
  by (simp add: weighted_def)

lemma weighted_update:
  "i < n \<Longrightarrow> n \<le> length s \<Longrightarrow>
    weighted v w n (s[i := c]) + v (s ! i) * w i = weighted v w n s + v c * w i"
proof (induction n)
  case (Suc n)
  show ?case
  proof (cases "i = n")
    case True
    then have "weighted v w n (s[i := c]) = weighted v w n s"
      by (auto simp: weighted_def intro!: arg_cong [of _ _ sum_list])
    then show ?thesis using Suc.prems True by (simp add: weighted_def)
  next
    case False
    then show ?thesis using Suc by (simp add: weighted_def)
  qed
qed simp

definition val10 :: "char \<Rightarrow> nat" where
  "val10 c = (if c = CHR ''X'' then 10 else dval c)"

lemma val10_le: "dec_digit c \<or> c = CHR ''X'' \<Longrightarrow> val10 c \<le> 10"
  by (auto simp: val10_def dval_def dec_digit_def)

lemma dval_inj: "dec_digit c \<Longrightarrow> dec_digit d \<Longrightarrow> dval c = dval d \<Longrightarrow> c = d"
proof -
  assume "dec_digit c" "dec_digit d" "dval c = dval d"
  then have "byte_of c = byte_of d" unfolding dec_digit_def dval_def by arith
  then show "c = d" by simp
qed

lemma val10_inj:
  assumes "dec_digit c \<or> c = CHR ''X''" and "dec_digit d \<or> d = CHR ''X''" and "val10 c = val10 d"
  shows "c = d"
proof -
  have "dec_digit e \<Longrightarrow> dval e \<noteq> 10 \<and> e \<noteq> CHR ''X''" for e by (auto simp: dec_digit_def dval_def)
  then show ?thesis using assms dval_inj by (auto simp: val10_def split: if_splits)
qed

lemma valid_isbn10_iff:
  assumes "isbn_plain s"
  shows "valid_isbn10 s \<longleftrightarrow> length s = 10 \<and> all_digits (take 9 s)
    \<and> weighted val10 (\<lambda>i. 10 - i) 10 s mod 11 = 0"
proof (cases "length s = 10 \<and> all_digits (take 9 s)")
  case True
  then have d: "dec_digit (s ! i)" if "i < 9" for i
    using that by (force simp: all_digits_def list_all_length)
  have "\<not> dec_digit (CHR ''X'')" by (simp add: dec_digit_def)
  then have "s ! i \<noteq> CHR ''X''" if "i < 9" for i using d [OF that] by metis
  then have "isbn10_sum s = weighted val10 (\<lambda>i. 10 - i) 9 s"
    by (auto simp: isbn10_sum_def weighted_def val10_def intro!: arg_cong [of _ _ sum_list])
  moreover have "weighted val10 (\<lambda>i. 10 - i) 10 s = weighted val10 (\<lambda>i. 10 - i) 9 s + val10 (s ! 9)"
    using weighted_Suc [of val10 "\<lambda>i. 10 - i" 9 s] by simp
  moreover have "dec_digit (s ! 9) \<or> s ! 9 = CHR ''X''"
    using assms True by (auto simp: isbn_plain_def list_all_length)
  ultimately show ?thesis
    using True by (cases "s ! 9 = CHR ''X''") (simp_all add: valid_isbn10_def normalize_plain [OF assms] val10_def)
qed (auto simp: valid_isbn10_def normalize_plain [OF assms])

lemma mod_check: "d < 10 \<Longrightarrow> d = (10 - t mod 10) mod 10 \<longleftrightarrow> (t + d) mod 10 = (0 :: nat)"
proof -
  assume d: "d < 10"
  have m: "t mod 10 < 10" by simp
  have "(t + d) mod 10 = (t mod 10 + d) mod 10" by (simp add: mod_add_left_eq)
  also have "\<dots> = (if t mod 10 + d < 10 then t mod 10 + d else t mod 10 + d - 10)"
    using d m by (simp add: le_mod_geq)
  finally show ?thesis using d m by (cases "t mod 10 = 0") auto
qed

lemma valid_isbn13_iff:
  assumes "isbn_plain s"
  shows "valid_isbn13 s \<longleftrightarrow> isbn13_shape s
    \<and> weighted dval (\<lambda>i. if i mod 2 = 1 then 3 else 1) 13 s mod 10 = 0"
proof (cases "length s = 13 \<and> all_digits s")
  case True
  let ?w = "\<lambda>i. if i mod 2 = 1 then 3 else 1 :: nat"
  have "dec_digit (s ! 12)" using True by (simp add: all_digits_def list_all_length)
  then have d: "dval (s ! 12) < 10" "byte_of (s ! 12) = 48 + dval (s ! 12)"
    unfolding dec_digit_def dval_def by arith+
  have "ean13_check_digit (take 12 s) = (10 - weighted dval ?w 12 s mod 10) mod 10"
    using True by (auto simp: ean13_check_digit_def weighted_def Let_def
      intro!: arg_cong [of _ _ "\<lambda>t. (10 - t mod 10) mod 10"] arg_cong [of _ _ sum_list])
  moreover have "weighted dval ?w 13 s = weighted dval ?w 12 s + dval (s ! 12)"
    using weighted_Suc [of dval ?w 12 s] by simp
  ultimately show ?thesis
    using True d mod_check [OF d(1)]
    by (auto simp: valid_isbn13_def normalize_plain [OF assms] isbn13_shape_def)
qed (auto simp: valid_isbn13_def normalize_plain [OF assms] isbn13_shape_def)

lemma mult_inj_mod_11:
  fixes a b w :: nat
  assumes "a \<le> 10" "b \<le> 10" "1 \<le> w" "w \<le> 10" "(a * w) mod 11 = (b * w) mod 11"
  shows "a = b"
proof -
  have "(int a * int w) mod 11 = (int b * int w) mod 11"
    using assms(5) by (metis of_nat_mod of_nat_mult of_nat_numeral)
  then have "11 dvd (int a - int b) * int w" by (simp add: mod_eq_dvd_iff left_diff_distrib)
  moreover define d where "d = int a - int b"
  ultimately have d: "11 dvd d * int w" "- 10 \<le> d" "d \<le> 10" using assms(1,2) by simp_all
  have "w = 1 \<or> w = 2 \<or> w = 3 \<or> w = 4 \<or> w = 5 \<or> w = 6 \<or> w = 7 \<or> w = 8 \<or> w = 9 \<or> w = 10"
    using assms(3,4) by presburger
  then have "d = 0" using d by (elim disjE) (simp, presburger)+
  then show ?thesis by (simp add: d_def)
qed

subsection \<open>What normalisation keeps\<close>

lemma decode_filter_ascii:
  "filter is_isbn_char (decode_runes bs) = filter is_isbn_char bs"
proof (induction bs rule: decode_runes.induct)
  case (2 b bs)
  have small: "is_isbn_char r \<Longrightarrow> r < 128" for r by (auto simp: is_isbn_char_def digit_rune_def x_rune_def)
  show ?case
  proof (cases "b < 128")
    case True
    then show ?thesis using 2 by simp
  next
    case False
    obtain r w where d: "decode_rune (b # bs) = (r, w)" by fastforce
    have "128 \<le> r \<and> (\<forall>x \<in> set (take w (b # bs)). 128 \<le> x)"
      using d False by (auto simp: rune_error_def cont_byte_def second_ok_def split: if_splits list.splits)
    then have "\<not> is_isbn_char r" "filter is_isbn_char (take w (b # bs)) = []"
      using small by (fastforce simp: filter_empty_conv)+
    then have "filter is_isbn_char (b # bs) = filter is_isbn_char (drop w (b # bs))"
      by (metis append_take_drop_id filter_append append_Nil)
    then show ?thesis using 2 d \<open>\<not> is_isbn_char r\<close> by simp
  qed
qed simp

definition up_x :: "char \<Rightarrow> char" where
  "up_x c = (if x_rune (byte_of c) then CHR ''X'' else c)"

lemma encode_not_plain:
  assumes "\<not> is_isbn_char r"
  shows "\<not> isbn_plain (encode_rune r)"
proof -
  obtain b bs where e: "encode_bytes r = b # bs" using encode_bytes_ne by (cases "encode_bytes r") auto
  have "b mod 256 = r \<and> r < 128 \<or> 192 \<le> b mod 256"
  proof (cases "r < 2048")
    case True
    then have "128 \<le> r \<Longrightarrow> 2 \<le> r div 64 \<and> r div 64 < 32" by linarith
    then show ?thesis using e True by (auto simp: encode_bytes_def split: if_splits)
  next
    case False
    then have "valid_rune r \<Longrightarrow> r < 65536 \<Longrightarrow> r div 4096 < 16" "valid_rune r \<Longrightarrow> r div 262144 < 5"
      unfolding valid_rune_def by linarith+
    then show ?thesis using e False by (auto simp: encode_bytes_def split: if_splits)
  qed
  moreover have v: "byte_of (char_of b :: char) = b mod 256" by (simp add: take_bit_eq_mod)
  moreover have "b mod 256 = 88" if "char_of b = CHR ''X''" using v unfolding that by simp
  ultimately have "\<not> dec_digit (char_of b) \<and> char_of b \<noteq> CHR ''X''"
    using assms by (auto simp: dec_digit_def is_isbn_char_def digit_rune_def x_rune_def)
  then show ?thesis using e by (simp add: isbn_plain_def encode_rune_def)
qed

lemma normalize_is_filter:
  assumes "isbn_plain (isbn_normalize s)"
  shows "isbn_normalize s = map up_x (filter (\<lambda>c. is_isbn_char (byte_of c)) (trim_space s))"
proof -
  let ?f = "\<lambda>r. if digit_rune r then encode_rune r else if x_rune r then ''X''
      else if is_separator r then [] else encode_rune r"
  let ?t = "trim_space s"
  have n: "isbn_normalize s = concat (map ?f (runes ?t))" by (simp add: isbn_normalize_def Let_def)
  have "concat (map ?f rs) = map up_x (map char_of (filter is_isbn_char rs))"
    if "isbn_plain (concat (map ?f rs))" for rs
    using that
  proof (induction rs)
    case (Cons r rs)
    then have IH: "concat (map ?f rs) = map up_x (map char_of (filter is_isbn_char rs))"
      and r: "isbn_plain (?f r)" by (simp_all add: isbn_plain_def)
    have "?f r = map up_x (map char_of (filter is_isbn_char [r]))"
    proof (cases "is_isbn_char r")
      case True
      then have "r < 128" by (auto simp: is_isbn_char_def digit_rune_def x_rune_def)
      then have "encode_rune r = [char_of r]" by (simp add: encode_rune_def encode_bytes_def)
      then show ?thesis using True \<open>r < 128\<close>
        by (auto simp: is_isbn_char_def up_x_def digit_rune_def x_rune_def take_bit_eq_mod)
    next
      case False
      then show ?thesis using r encode_not_plain [OF False] by (auto simp: is_isbn_char_def split: if_splits)
    qed
    then show ?case using IH by simp
  qed simp
  then have "isbn_normalize s = map up_x (map char_of (filter is_isbn_char (runes ?t)))"
    using assms n by simp
  also have "filter is_isbn_char (runes ?t) = map byte_of (filter (\<lambda>c. is_isbn_char (byte_of c)) ?t)"
    by (simp add: runes_def decode_filter_ascii filter_map o_def)
  finally show ?thesis by (simp add: o_def)
qed

text \<open>A string as long as its plain normal form is that form, up to a small x.\<close>

lemma normalize_same_length:
  assumes "isbn_plain (isbn_normalize s)" and "length (isbn_normalize s) = length s"
  shows "isbn_normalize s = map up_x s \<and> list_all (\<lambda>c. is_isbn_char (byte_of c)) s"
proof -
  let ?q = "\<lambda>c. is_isbn_char (byte_of c)"
  have n: "isbn_normalize s = map up_x (filter ?q (trim_space s))" using assms(1) by (rule normalize_is_filter)
  have len: "length (trim_space s) = length s" "length (filter ?q (trim_space s)) = length (trim_space s)"
    using assms(2) trim_length [of s] length_filter_le [of ?q "trim_space s"] by (simp_all add: n del: length_filter_le)
  have t: "trim_space s = s" using len(1) by (rule trim_same)
  have "filter ?q s = s" using len(2) unfolding t
    by (metis filter_id_conv length_filter_less less_irrefl)
  then show ?thesis using n t by (simp add: list_all_iff filter_id_conv)
qed

lemma up_x_digit: "dec_digit (up_x c) \<Longrightarrow> up_x c = c"
  by (auto simp: up_x_def dec_digit_def split: if_splits)

lemma ean13_check_lt: "ean13_check_digit s < 10"
  by (simp add: ean13_check_digit_def Let_def)

lemma check_char_digit: "d < 10 \<Longrightarrow> dec_digit (char_of (48 + d)) \<and> byte_of (char_of (48 + d) :: char) = 48 + d"
  by (simp add: dec_digit_def take_bit_eq_mod)

lemma plain_of_ten:
  "length n = 10 \<Longrightarrow> all_digits (take 9 n) \<Longrightarrow> n ! 9 = CHR ''X'' \<or> dec_digit (n ! 9) \<Longrightarrow> isbn_plain n"
  by (auto simp: isbn_plain_def all_digits_def list_all_length less_Suc_eq numeral_eq_Suc)

lemma valid_isbn10_plain: "valid_isbn10 raw \<Longrightarrow> isbn_plain (isbn_normalize raw) \<and> length (isbn_normalize raw) = 10"
  using plain_of_ten [of "isbn_normalize raw"] by (auto simp: valid_isbn10_def Let_def split: if_splits)

lemma valid_isbn13_plain: "valid_isbn13 raw \<Longrightarrow> isbn_plain (isbn_normalize raw) \<and> length (isbn_normalize raw) = 13"
  using all_digits_plain [of "isbn_normalize raw"] by (auto simp: valid_isbn13_def Let_def split: if_splits)

text \<open>Normalisation leaves no small x.\<close>

lemma encode_no_x:
  assumes "r \<noteq> 120"
  shows "CHR ''x'' \<notin> set (encode_rune r)"
proof -
  have "b mod 256 \<noteq> 120" if b: "b \<in> set (encode_bytes r)" for b
  proof (cases "valid_rune r")
    case True
    then have "b = r \<or> 128 \<le> b" using b by (auto simp: encode_bytes_def split: if_splits)
    then show ?thesis using encode_bytes_range [OF True b] assms by auto
  next
    case False
    then show ?thesis using b by (auto simp: encode_bytes_def valid_rune_def split: if_splits)
  qed
  then show ?thesis by (auto simp: encode_rune_def char_of_eq_iff take_bit_eq_mod dest!: sym [of "CHR ''x''"])
qed

lemma normalize_no_x: "CHR ''x'' \<notin> set (isbn_normalize raw)"
  using encode_no_x by (auto simp: isbn_normalize_def Let_def x_rune_def digit_rune_def)

lemma up_x_plain: "is_isbn_char (byte_of c) \<Longrightarrow> c \<noteq> CHR ''x'' \<Longrightarrow> up_x c = c \<and> (dec_digit c \<or> c = CHR ''X'')"
proof -
  assume q: "is_isbn_char (byte_of c)" "c \<noteq> CHR ''x''"
  have "c = char_of n" if "byte_of c = n" for n :: nat using that by auto
  then have "byte_of c = (120 :: nat) \<Longrightarrow> c = CHR ''x''" "byte_of c = (88 :: nat) \<Longrightarrow> c = CHR ''X''"
    by (simp_all add: char_of_eq_iff)
  then show ?thesis using q by (auto simp: is_isbn_char_def digit_rune_def x_rune_def up_x_def dec_digit_def)
qed

lemma to_isbn13_cases:
  assumes "to_isbn13 raw \<noteq> []"
  shows "all_digits (isbn_normalize raw) \<and> valid_isbn13 (isbn_normalize raw) \<and> to_isbn13 raw = isbn_normalize raw
    \<or> isbn_plain (isbn_normalize (isbn_normalize raw)) \<and> valid_isbn10 (isbn_normalize raw)
      \<and> length (isbn_normalize raw) = 10 \<and> (\<exists>b. b = take 9 (isbn_normalize raw) \<and> length b = 9 \<and> all_digits b
          \<and> to_isbn13 raw = ''978'' @ b @ [char_of (48 + ean13_check_digit (''978'' @ b))])"
proof -
  let ?s = "isbn_normalize raw" and ?n = "isbn_normalize (isbn_normalize raw)"
  consider (l13) "length ?s = 13" "valid_isbn13 ?s" "to_isbn13 raw = ?s"
    | (l10) "length ?s = 10" "valid_isbn10 ?s"
      "to_isbn13 raw = ''978'' @ take 9 ?s @ [char_of (48 + ean13_check_digit (''978'' @ take 9 ?s))]"
    using assms by (auto simp: to_isbn13_def Let_def split: if_splits)
  then show ?thesis
  proof cases
    case l13
    have "length ?n = 13" "all_digits ?n" using l13(2) by (auto simp: valid_isbn13_def Let_def split: if_splits)
    then have "?n = map up_x ?s" using normalize_same_length [of ?s] all_digits_plain l13(1) by simp
    then have "all_digits ?s" using \<open>all_digits ?n\<close> up_x_digit by (auto simp: all_digits_def list_all_iff) (metis)
    then show ?thesis using l13 by simp
  next
    case l10
    have n: "length ?n = 10" "all_digits (take 9 ?n)" "?n ! 9 = CHR ''X'' \<or> dec_digit (?n ! 9)"
      using l10(2) by (auto simp: valid_isbn10_def Let_def split: if_splits)
    then have plain: "isbn_plain ?n" by (rule plain_of_ten)
    then have "?n = map up_x ?s" using normalize_same_length [of ?s] n(1) l10(1) by simp
    then have "take 9 ?n = map up_x (take 9 ?s)" by (simp add: take_map)
    then have "all_digits (take 9 ?s)" using n(2) up_x_digit by (auto simp: all_digits_def list_all_iff) (metis)
    then show ?thesis using l10 plain by simp
  qed
qed

lemma isbn13_of_core:
  assumes "length b = 9" and "all_digits b"
  shows "isbn13_shape (''978'' @ b @ [char_of (48 + ean13_check_digit (''978'' @ b))])"
    and "valid_isbn13 (''978'' @ b @ [char_of (48 + ean13_check_digit (''978'' @ b))])"
proof -
  let ?d = "ean13_check_digit (''978'' @ b)"
  let ?t = "''978'' @ b @ [char_of (48 + ?d)]"
  have c: "dec_digit (char_of (48 + ?d))" "byte_of (char_of (48 + ?d) :: char) = 48 + ?d"
    using check_char_digit [OF ean13_check_lt] by blast+
  have dig: "all_digits ?t" using assms(2) c(1) by (simp add: all_digits_def dec_digit_def)
  have "take 12 ?t = ''978'' @ b" "?t ! 12 = char_of (48 + ?d)" using assms(1) by (simp_all add: nth_append)
  then show "isbn13_shape ?t" "valid_isbn13 ?t"
    using assms(1) dig c(2) normalize_plain [OF all_digits_plain [OF dig]]
    by (simp_all add: isbn13_shape_def valid_isbn13_def has_prefix_def)
qed

lemma to_isbn13_of_valid: "valid_isbn13 t \<Longrightarrow> isbn13_shape t \<Longrightarrow> to_isbn13 t = t \<and> isbn_normalize t = t"
  using normalize_plain [OF all_digits_plain, of t] by (simp add: to_isbn13_def isbn13_shape_def)

subsection \<open>Properties\<close>

text \<open>The canonical form is canonical. \<open>ToISBN13\<close> refuses exactly when the text is no ISBN with a
  correct check digit; otherwise the result is thirteen digits behind a Bookland prefix with a
  correct check digit, which normalisation and \<open>ToISBN13\<close> itself leave alone.\<close>

theorem to_isbn13_canonical:
  "if valid_isbn10 raw \<or> valid_isbn13 raw
   then isbn13_shape (to_isbn13 raw) \<and> valid_isbn13 (to_isbn13 raw)
     \<and> isbn_normalize (to_isbn13 raw) = to_isbn13 raw \<and> to_isbn13 (to_isbn13 raw) = to_isbn13 raw
   else to_isbn13 raw = []"
proof -
  let ?s = "isbn_normalize raw"
  have v13: "valid_isbn13 raw \<longleftrightarrow> valid_isbn13 ?s" if "isbn_plain ?s"
    unfolding valid_isbn13_def normalize_plain [OF that] by (rule refl)
  have v10: "valid_isbn10 raw \<longleftrightarrow> valid_isbn10 ?s" if "isbn_plain ?s"
    unfolding valid_isbn10_def normalize_plain [OF that] by (rule refl)
  have some: "to_isbn13 raw \<noteq> []" if v: "valid_isbn10 raw \<or> valid_isbn13 raw"
    using v
  proof
    assume "valid_isbn10 raw"
    then show ?thesis using valid_isbn10_plain [of raw] v10 by (simp add: to_isbn13_def Let_def)
  next
    assume "valid_isbn13 raw"
    then show ?thesis using valid_isbn13_plain [of raw] v13 by (auto simp: to_isbn13_def Let_def)
  qed
  have valid: "isbn_plain ?s \<and> (valid_isbn10 raw \<or> valid_isbn13 raw)
      \<and> isbn13_shape (to_isbn13 raw) \<and> valid_isbn13 (to_isbn13 raw)" if ne: "to_isbn13 raw \<noteq> []"
    using to_isbn13_cases [OF ne]
  proof (elim disjE conjE exE)
    assume s: "all_digits ?s" "valid_isbn13 ?s" "to_isbn13 raw = ?s"
    then show ?thesis using all_digits_plain [OF s(1)] v13 valid_isbn13_iff by simp
  next
    fix b assume s: "isbn_plain (isbn_normalize ?s)" "valid_isbn10 ?s" "length ?s = 10" and b: "b = take 9 ?s" "length b = 9" "all_digits b"
      "to_isbn13 raw = ''978'' @ b @ [char_of (48 + ean13_check_digit (''978'' @ b))]"
    have "list_all (\<lambda>c. is_isbn_char (byte_of c)) ?s"
      using normalize_same_length [OF s(1)] valid_isbn10_plain [OF s(2)] s(3) by simp
    then have "dec_digit c \<or> c = CHR ''X''" if "c \<in> set ?s" for c
      using up_x_plain [of c] normalize_no_x [of raw] that by (auto simp: list_all_iff)
    then have "isbn_plain ?s" by (simp add: isbn_plain_def list_all_iff)
    then show ?thesis using v10 s(2) isbn13_of_core [OF b(2,3)] b(4) by simp
  qed
  show ?thesis
  proof (cases "to_isbn13 raw = []")
    case True
    then show ?thesis using some by auto
  next
    case False
    then show ?thesis using valid [OF False] to_isbn13_of_valid by auto
  qed
qed

lemma mult_inj_mod_10:
  fixes a b w :: nat
  assumes "a < 10" "b < 10" "w = 1 \<or> w = 3" "(a * w) mod 10 = (b * w) mod 10"
  shows "a = b"
proof -
  have "(int a * int w) mod 10 = (int b * int w) mod 10"
    using assms(4) by (metis of_nat_mod of_nat_mult of_nat_numeral)
  then have "10 dvd (int a - int b) * int w" by (simp add: mod_eq_dvd_iff left_diff_distrib)
  moreover define d where "d = int a - int b"
  ultimately have d: "10 dvd d * int w" "- 9 \<le> d" "d \<le> 9" using assms(1,2) by simp_all
  then have "d = 0" using assms(3) by (elim disjE) (simp, presburger)+
  then show ?thesis by (simp add: d_def)
qed

lemma same_check:
  fixes x y a b m :: nat
  assumes "x mod m = 0" "y mod m = 0" "x + a = y + b"
  shows "a mod m = b mod m"
proof -
  have "(x + a) mod m = a mod m" using assms(1) mod_add_left_eq [of x m a] by simp
  moreover have "(y + b) mod m = b mod m" using assms(2) mod_add_left_eq [of y m b] by simp
  ultimately show ?thesis using assms(3) by simp
qed

lemma dval_lt: "dec_digit c \<Longrightarrow> dval c < 10"
  unfolding dec_digit_def dval_def by arith

lemma isbn10_substitution:
  assumes s: "isbn_plain s" "valid_isbn10 s" and i: "i < length s" and c: "dec_digit c \<or> c = CHR ''X''"
    and t: "valid_isbn10 (s[i := c])"
  shows "c = s ! i"
proof -
  let ?w = "\<lambda>i. 10 - i"
  have p: "isbn_plain (s[i := c])" using s(1) c by (auto simp: isbn_plain_def list_all_length nth_list_update i)
  have len: "length s = 10" using valid_isbn10_iff [OF s(1)] s(2) by simp
  have "weighted val10 ?w 10 (s[i := c]) + val10 (s ! i) * (10 - i) = weighted val10 ?w 10 s + val10 c * (10 - i)"
    using weighted_update [of i 10 s] i len by simp
  then have eq: "(val10 (s ! i) * (10 - i)) mod 11 = (val10 c * (10 - i)) mod 11"
    using valid_isbn10_iff [OF s(1)] s(2) valid_isbn10_iff [OF p] t by (intro same_check) auto
  have si: "dec_digit (s ! i) \<or> s ! i = CHR ''X''" using s(1) i by (simp add: isbn_plain_def list_all_length)
  have w: "1 \<le> 10 - i" "10 - i \<le> 10" using i len by arith+
  have "val10 (s ! i) = val10 c"
    using eq by (rule mult_inj_mod_11 [OF val10_le [OF si] val10_le [OF c] w])
  then show ?thesis using val10_inj [OF si c] by simp
qed

lemma isbn13_substitution:
  assumes s: "isbn_plain s" "valid_isbn13 s" and i: "i < length s" and t: "valid_isbn13 (s[i := c])" and p: "isbn_plain (s[i := c])"
  shows "c = s ! i"
proof -
  let ?w = "\<lambda>i. if i mod 2 = 1 then 3 else 1 :: nat"
  have sh: "length s = 13" "dec_digit (s ! i)" "dec_digit c"
    using valid_isbn13_iff [OF s(1)] s(2) valid_isbn13_iff [OF p] t i
    by (auto simp: isbn13_shape_def all_digits_def list_all_length nth_list_update dest: spec [of _ i])
  have "weighted dval ?w 13 (s[i := c]) + dval (s ! i) * ?w i = weighted dval ?w 13 s + dval c * ?w i"
    using weighted_update [of i 13 s dval ?w c] i sh(1) by simp
  then have "(dval (s ! i) * ?w i) mod 10 = (dval c * ?w i) mod 10"
    using valid_isbn13_iff [OF s(1)] s(2) valid_isbn13_iff [OF p] t by (intro same_check) auto
  then have "dval (s ! i) = dval c" by (intro mult_inj_mod_10 [OF dval_lt [OF sh(2)] dval_lt [OF sh(3)], of "?w i"]) auto
  then show ?thesis using dval_inj [OF sh(2,3)] by simp
qed

lemma isbn10_transposition:
  assumes s: "isbn_plain s" "valid_isbn10 s" and i: "Suc i < 10"
    and t: "valid_isbn10 (s[i := s ! Suc i, Suc i := s ! i])"
  shows "s ! i = s ! Suc i"
proof -
  let ?w = "\<lambda>i. 10 - i" and ?a = "s ! i" and ?b = "s ! Suc i"
  let ?t = "s[i := ?b, Suc i := ?a]"
  have len: "length s = 10" using valid_isbn10_iff [OF s(1)] s(2) by simp
  have ab: "dec_digit ?a \<or> ?a = CHR ''X''" "dec_digit ?b \<or> ?b = CHR ''X''"
    using s(1) i len by (simp_all add: isbn_plain_def list_all_length)
  have p: "isbn_plain ?t" using s(1) ab i len by (auto simp: isbn_plain_def list_all_length nth_list_update)
  have "weighted val10 ?w 10 (s[i := ?b]) + val10 ?a * (10 - i) = weighted val10 ?w 10 s + val10 ?b * (10 - i)"
    using weighted_update [of i 10 s] i len by simp
  moreover have "weighted val10 ?w 10 ?t + val10 ?b * (10 - Suc i) = weighted val10 ?w 10 (s[i := ?b]) + val10 ?a * (10 - Suc i)"
    using weighted_update [of "Suc i" 10 "s[i := ?b]" val10 ?w ?a] i len by simp
  moreover have "10 - i = Suc (10 - Suc i)" using i by simp
  ultimately have "weighted val10 ?w 10 ?t + val10 ?a = weighted val10 ?w 10 s + val10 ?b" by simp
  then have "val10 ?a mod 11 = val10 ?b mod 11"
    using valid_isbn10_iff [OF s(1)] s(2) valid_isbn10_iff [OF p] t by (intro same_check) auto
  then have "val10 ?a = val10 ?b" using val10_le [OF ab(1)] val10_le [OF ab(2)] by simp
  then show ?thesis using val10_inj [OF ab] by simp
qed

text \<open>A mistyped ISBN is never searched for. Whatever valid ISBN one character of which is
  replaced by another ISBN character, and whatever valid ISBN-10 two neighbouring characters of which
  are swapped, \<open>ToISBN13\<close> refuses the result.\<close>

theorem isbn_typo_refused:
  assumes plain: "isbn_plain s" and valid: "valid_isbn10 s \<or> valid_isbn13 s" and i: "i < length s"
  shows "((dec_digit c \<or> c = CHR ''X'') \<and> c \<noteq> s ! i \<longrightarrow> to_isbn13 (s[i := c]) = [])
    \<and> (valid_isbn10 s \<and> Suc i < length s \<and> s ! i \<noteq> s ! Suc i
        \<longrightarrow> to_isbn13 (s[i := s ! Suc i, Suc i := s ! i]) = [])"
proof -
  have refuse: "to_isbn13 t = []"
    if "isbn_plain t" "length t = length s" "\<not> (valid_isbn10 s \<and> valid_isbn10 t)" "\<not> (valid_isbn13 s \<and> valid_isbn13 t)" for t
    using that valid valid_isbn10_plain [of s] valid_isbn13_plain [of s] normalize_plain [OF plain]
    by (auto simp: to_isbn13_def normalize_plain)
  have sub: "to_isbn13 (s[i := c]) = []" if c: "dec_digit c \<or> c = CHR ''X''" "c \<noteq> s ! i"
  proof (rule refuse)
    show p: "isbn_plain (s[i := c])" using plain c(1) by (auto simp: isbn_plain_def list_all_length nth_list_update i)
    show "\<not> (valid_isbn10 s \<and> valid_isbn10 (s[i := c]))" using isbn10_substitution [OF plain _ i c(1)] c(2) by blast
    show "\<not> (valid_isbn13 s \<and> valid_isbn13 (s[i := c]))" using isbn13_substitution [OF plain _ i _ p] c(2) by blast
  qed simp
  have swap: "to_isbn13 (s[i := s ! Suc i, Suc i := s ! i]) = []"
    if v: "valid_isbn10 s" "Suc i < length s" "s ! i \<noteq> s ! Suc i"
  proof (rule refuse)
    have len: "length s = 10" using v(1) valid_isbn10_iff [OF plain] by simp
    show "isbn_plain (s[i := s ! Suc i, Suc i := s ! i])"
      using plain v(2) by (auto simp: isbn_plain_def list_all_length nth_list_update)
    show "\<not> (valid_isbn10 s \<and> valid_isbn10 (s[i := s ! Suc i, Suc i := s ! i]))"
      using isbn10_transposition [OF plain v(1)] v(2,3) len by auto
    show "\<not> (valid_isbn13 s \<and> valid_isbn13 (s[i := s ! Suc i, Suc i := s ! i]))"
      using valid_isbn13_iff [OF plain] len by (simp add: isbn13_shape_def)
  qed simp
  show ?thesis using sub swap by blast
qed

theorem isbn_typo_refused_witness:
  "to_isbn13 (''080442957X''[3 := CHR ''5'']) = [] \<and> to_isbn13 ''080442957X'' = ''9780804429573''"
proof -
  have v: "isbn_plain ''080442957X''" "valid_isbn10 ''080442957X''" by code_simp+
  have "CHR ''5'' \<noteq> ''080442957X'' ! 3" by simp
  then have "to_isbn13 (''080442957X''[3 := CHR ''5'']) = []"
    using isbn_typo_refused [OF v(1), of 3 "CHR ''5''"] v(2) by (simp add: dec_digit_def)
  moreover have "to_isbn13 ''080442957X'' = ''9780804429573''" by code_simp
  ultimately show ?thesis by simp
qed

end
