(* ===== verification/Infohash.thy ===== *)
theory Infohash
  imports Go_Strconv
begin

text \<open>
  \<open>internal/downloader/infohash/infohash.go\<close>: the walk over bencoded bytes an indexer chose, and
  the infohash of a .torrent file or a magnet link. Indices are those of the code; SHA-1 and the
  parsed query of a magnet URI (net/url) are arguments. The walk is total: no input makes it loop.
\<close>

subsection \<open>Reading bencode\<close>

datatype bencode_error = ErrBencode | ErrBencodeTooDeep

definition max_bencode_depth :: nat where
  "max_bencode_depth = 64"

text \<open>The index of the colon, over the bytes from \<open>i\<close> on.\<close>

fun scan_colon :: "string \<Rightarrow> nat \<Rightarrow> nat option" where
  "scan_colon [] i = Some i"
| "scan_colon (c # cs) i =
     (if c = CHR '':'' then Some i else if \<not> dec_digit c then None else scan_colon cs (i + 1))"

definition bencode_read_string :: "string \<Rightarrow> nat \<Rightarrow> (string \<times> nat) option" where
  "bencode_read_string data pos =
     (case scan_colon (drop pos data) pos of
        None \<Rightarrow> None
      | Some colon \<Rightarrow>
          if colon = pos \<or> colon \<ge> length data then None
          else
            (case parse_int (take (colon - pos) (drop pos data)) of
               None \<Rightarrow> None
             | Some n \<Rightarrow>
                 if n < 0 then None
                 else
                   (let start = colon + 1; e = wrap64 (int start + n) in
                    if e > int (length data) \<or> e < int start then None
                    else Some (take (nat e - start) (drop start data), nat e))))"

lemma scan_colon_bounds: "scan_colon cs i = Some j \<Longrightarrow> i \<le> j \<and> j \<le> i + length cs"
  by (induction cs i rule: scan_colon.induct) (auto split: if_splits)

lemma read_string_bounds:
  assumes "bencode_read_string data pos = Some (k, e)"
  shows "pos < e \<and> e \<le> length data"
proof -
  obtain colon n where c: "scan_colon (drop pos data) pos = Some colon" "colon \<noteq> pos"
    "\<not> wrap64 (int (colon + 1) + n) > int (length data)" "\<not> wrap64 (int (colon + 1) + n) < int (colon + 1)"
    "e = nat (wrap64 (int (colon + 1) + n))"
    using assms by (auto simp: bencode_read_string_def Let_def split: option.splits if_splits)
  then show ?thesis using scan_colon_bounds [OF c(1)] by linarith
qed

text \<open>The end of an integer: the first \<open>e\<close> at or after \<open>i\<close>.\<close>

fun scan_int_end :: "string \<Rightarrow> nat \<Rightarrow> nat" where
  "scan_int_end [] i = i"
| "scan_int_end (c # cs) i = (if c = CHR ''e'' then i else scan_int_end cs (i + 1))"

lemma scan_int_end_bounds: "i \<le> scan_int_end cs i \<and> scan_int_end cs i \<le> i + length cs"
  by (induction cs i rule: scan_int_end.induct) auto

text \<open>
  \<open>bencodeSkipValue\<close>. \<open>None\<close> is a value at \<open>pos\<close>; \<open>Some c\<close> is the loop over the members of a list
  or dictionary (\<open>c\<close> is its marker) that stands at index \<open>pos\<close>.
\<close>

function bencode_skip :: "string \<Rightarrow> char option \<Rightarrow> nat \<Rightarrow> nat \<Rightarrow> bencode_error + nat" where
  "bencode_skip data None pos depth =
     (if pos \<ge> length data then Inl ErrBencode
      else if depth > max_bencode_depth then Inl ErrBencodeTooDeep
      else
        (let c = data ! pos in
         if c = CHR ''i'' then
           (let e = scan_int_end (drop (pos + 1) data) (pos + 1)
            in if e \<ge> length data then Inl ErrBencode else Inr (e + 1))
         else if c = CHR ''l'' \<or> c = CHR ''d'' then bencode_skip data (Some c) (pos + 1) depth
         else if dec_digit c then
           (case bencode_read_string data pos of None \<Rightarrow> Inl ErrBencode | Some (k, e) \<Rightarrow> Inr e)
         else Inl ErrBencode))"
| "bencode_skip data (Some c) p depth =
     (if p < length data \<and> data ! p \<noteq> CHR ''e'' then
        (case (if c = CHR ''d'' then map_option snd (bencode_read_string data p) else Some p) of
           None \<Rightarrow> Inl ErrBencode
         | Some p' \<Rightarrow>
             (case bencode_skip data None p' (depth + 1) of
                Inl err \<Rightarrow> Inl err
              | Inr q \<Rightarrow> bencode_skip data (Some c) q depth))
      else if p \<ge> length data then Inl ErrBencode
      else Inr (p + 1))"
  by pat_completeness auto

lemma bencode_skip_progress:
  "bencode_skip_dom (data, m, p, depth) \<Longrightarrow> bencode_skip data m p depth = Inr q \<Longrightarrow> p < q \<and> q \<le> length data"
proof (induction data m p depth arbitrary: q rule: bencode_skip.pinduct)
  case (1 data pos depth)
  then show ?case
    using scan_int_end_bounds [of "pos + 1" "drop (pos + 1) data"]
    by (fastforce simp: bencode_skip.psimps(1) Let_def dest: read_string_bounds split: if_splits option.splits)
next
  case (2 data c p depth)
  note step = bencode_skip.psimps(2) [OF "2.hyps"]
  show ?case
  proof (cases "p < length data \<and> data ! p \<noteq> CHR ''e''")
    case True
    obtain p' where p': "(if c = CHR ''d'' then map_option snd (bencode_read_string data p) else Some p) = Some p'"
      using "2.prems" True step
      by (cases "if c = CHR ''d'' then map_option snd (bencode_read_string data p) else Some p") simp_all
    have "p \<le> p'"
    proof (cases "c = CHR ''d''")
      case True
      then obtain k where "bencode_read_string data p = Some (k, p')" using p' by auto
      then show ?thesis using read_string_bounds by fastforce
    qed (use p' in simp)
    obtain q' where q': "bencode_skip data None p' (depth + 1) = Inr q'"
      using "2.prems" True step p' by (cases "bencode_skip data None p' (depth + 1)") simp_all
    have rest: "bencode_skip data (Some c) q' depth = Inr q"
      using "2.prems" True step p' q' by simp
    show ?thesis
      using "2.IH"(1) [OF True p' q'] "2.IH"(2) [OF True p' q' rest] \<open>p \<le> p'\<close> by linarith
  next
    case False
    then show ?thesis using "2.prems" step by (auto split: if_splits)
  qed
qed

lemma bencode_skip_total: "All bencode_skip_dom"
proof (relation "measure (\<lambda>(data, m, p, depth). 2 * (length data - p) + (if m = None then 0 else 1))", goal_cases)
  case (3 data c p depth p')
  then have "p \<le> p'" by (auto dest: read_string_bounds split: if_splits)
  then show ?case using 3 by simp
next
  case (4 data c p depth p' q)
  then have "p \<le> p'" by (auto dest: read_string_bounds split: if_splits)
  then show ?case using 4 bencode_skip_progress by fastforce
qed auto

termination bencode_skip
  by (rule bencode_skip_total)

declare bencode_skip.simps [simp del]

lemma bencode_skip_bounds: "bencode_skip data m p depth = Inr q \<Longrightarrow> p < q \<and> q \<le> length data"
  using bencode_skip_progress bencode_skip_total by blast

text \<open>\<open>bencodeMemberSpan\<close>: the loop over the members of the top-level dictionary.\<close>

function member_loop :: "string \<Rightarrow> string \<Rightarrow> nat \<Rightarrow> (nat \<times> nat) option" where
  "member_loop data key pos =
     (if pos < length data \<and> data ! pos \<noteq> CHR ''e'' then
        (case bencode_read_string data pos of
           None \<Rightarrow> None
         | Some (k, after_key) \<Rightarrow>
             (case bencode_skip data None after_key 0 of
                Inl err \<Rightarrow> None
              | Inr val_end \<Rightarrow>
                  if k = key then Some (after_key, val_end) else member_loop data key val_end))
      else None)"
  by pat_completeness auto

termination
proof (relation "measure (\<lambda>(data, key, pos). length data - pos)", goal_cases)
  case (2 data key pos x k after_key val_end)
  have "pos < after_key" using 2 read_string_bounds by metis
  moreover have "after_key < val_end" using 2 bencode_skip_bounds by metis
  ultimately have "length data - val_end < length data - pos" using 2(1) by linarith
  then show ?case by simp
qed simp

declare member_loop.simps [simp del]

definition bencode_member_span :: "string \<Rightarrow> string \<Rightarrow> (nat \<times> nat) option" where
  "bencode_member_span data key =
     (if data = [] \<or> data ! 0 \<noteq> CHR ''d'' then None else member_loop data key 1)"

definition from_torrent_file :: "(string \<Rightarrow> string) \<Rightarrow> string \<Rightarrow> string" where
  "from_torrent_file sha1 data =
     (case bencode_member_span data ''info'' of
        None \<Rightarrow> []
      | Some (start, e) \<Rightarrow> hex_encode (sha1 (take (e - start) (drop start data))))"

subsection \<open>What a torrent file is\<close>

datatype bvalue = BInt int | BStr string | BList "bvalue list" | BDict "(string \<times> bvalue) list"

definition bencode_string :: "string \<Rightarrow> string" where
  "bencode_string s = show_nat (length s) @ '':'' @ s"

fun bencode :: "bvalue \<Rightarrow> string"
  and bencode_list :: "bvalue list \<Rightarrow> string"
  and bencode_members :: "(string \<times> bvalue) list \<Rightarrow> string" where
  "bencode (BInt i) = ''i'' @ show_int i @ ''e''"
| "bencode (BStr s) = bencode_string s"
| "bencode (BList vs) = ''l'' @ bencode_list vs @ ''e''"
| "bencode (BDict ms) = ''d'' @ bencode_members ms @ ''e''"
| "bencode_list [] = []"
| "bencode_list (v # vs) = bencode v @ bencode_list vs"
| "bencode_members [] = []"
| "bencode_members ((k, v) # ms) = bencode_string k @ bencode v @ bencode_members ms"

text \<open>How deep the lists and dictionaries of a value nest; 0 for a value without any.\<close>

fun nest :: "bvalue \<Rightarrow> nat"
  and nest_list :: "bvalue list \<Rightarrow> nat"
  and nest_members :: "(string \<times> bvalue) list \<Rightarrow> nat" where
  "nest (BInt i) = 0"
| "nest (BStr s) = 0"
| "nest (BList vs) = nest_list vs"
| "nest (BDict ms) = nest_members ms"
| "nest_list [] = 0"
| "nest_list (v # vs) = max (Suc (nest v)) (nest_list vs)"
| "nest_members [] = 0"
| "nest_members ((k, v) # ms) = max (Suc (nest v)) (nest_members ms)"

lemma scan_colon_digits: "list_all dec_digit ds \<Longrightarrow> scan_colon (ds @ CHR '':'' # cs) i = Some (i + length ds)"
  by (induction ds arbitrary: i) (auto simp: dec_digit_def)

lemma read_string_encoded:
  assumes "data = pre @ bencode_string s @ post" and "int (length data) < 2 ^ 63"
  shows "bencode_read_string data (length pre) = Some (s, length pre + length (bencode_string s))"
proof -
  let ?ds = "show_nat (length s)"
  have ds: "?ds \<noteq> []" "list_all dec_digit ?ds" using show_nat_head by blast+
  have drop: "drop (length pre) data = ?ds @ CHR '':'' # s @ post" using assms(1) by (simp add: bencode_string_def)
  have len: "length data = length pre + length ?ds + 1 + length s + length post"
    using assms(1) by (simp add: bencode_string_def)
  have "parse_int ?ds = Some (int (length s))" using assms(2) len by (intro parse_show_nat) linarith
  moreover have "wrap64 (int (length pre + length ?ds + 1) + int (length s)) = int (length pre + length ?ds + 1 + length s)"
    using assms(2) len by (subst wrap64_id) auto
  moreover have "drop (length pre + length ?ds + 1) data = s @ post"
    using assms(1) by (simp add: bencode_string_def)
  ultimately show ?thesis
    using drop len ds scan_colon_digits [OF ds(2), of "s @ post" "length pre"]
    by (simp add: bencode_read_string_def Let_def bencode_string_def)
qed

lemma scan_int_end_found: "CHR ''e'' \<notin> set xs \<Longrightarrow> scan_int_end (xs @ CHR ''e'' # cs) i = i + length xs"
  by (induction xs arbitrary: i) auto

lemma bencode_head: "\<exists>c cs. bencode v = c # cs \<and> c \<noteq> CHR ''e''"
proof (cases v)
  case (BStr s)
  have "show_nat n \<noteq> [] \<and> hd (show_nat n) \<noteq> CHR ''e''" for n using show_nat_head [of n] by (auto simp: dec_digit_def)
  then show ?thesis using BStr by (cases "show_nat (length s)") (auto simp: bencode_string_def, metis list.sel(1))
qed simp_all

lemma bencode_string_head: "\<exists>c cs. bencode_string s = c # cs \<and> dec_digit c \<and> c \<noteq> CHR ''e''"
  using show_nat_head [of "length s"] by (cases "show_nat (length s)") (auto simp: bencode_string_def dec_digit_def)

lemma skip_list_step:
  assumes "data = pre @ bencode v @ rest" and "bencode_skip data None (length pre) (Suc depth) = r"
  shows "bencode_skip data (Some CHR ''l'') (length pre) depth
    = (case r of Inl err \<Rightarrow> Inl err | Inr q \<Rightarrow> bencode_skip data (Some CHR ''l'') q depth)"
  using assms bencode_head [of v] by (auto simp: bencode_skip.simps(2) nth_append)

lemma skip_dict_step:
  assumes "data = pre @ bencode_string k @ rest" and "int (length data) < 2 ^ 63"
    and "bencode_skip data None (length pre + length (bencode_string k)) (Suc depth) = r"
  shows "bencode_skip data (Some CHR ''d'') (length pre) depth
    = (case r of Inl err \<Rightarrow> Inl err | Inr q \<Rightarrow> bencode_skip data (Some CHR ''d'') q depth)"
  using assms bencode_string_head [of k] read_string_encoded [OF assms(1,2)]
  by (auto simp: bencode_skip.simps(2) nth_append)

lemma skip_end:
  assumes "data = pre @ ''e'' @ rest"
  shows "bencode_skip data (Some c) (length pre) depth = Inr (length pre + 1)"
  using assms by (simp add: bencode_skip.simps(2))

lemma skip_encoded:
  "data = pre @ bencode v @ post \<Longrightarrow> int (length data) < 2 ^ 63 \<Longrightarrow> depth \<le> 64 \<Longrightarrow>
    bencode_skip data None (length pre) depth
      = (if depth + nest v \<le> 64 then Inr (length pre + length (bencode v)) else Inl ErrBencodeTooDeep)"
  "data = pre @ bencode_list vs @ ''e'' @ post \<Longrightarrow> int (length data) < 2 ^ 63 \<Longrightarrow> depth \<le> 64 \<Longrightarrow>
    bencode_skip data (Some CHR ''l'') (length pre) depth
      = (if depth + nest_list vs \<le> 64 then Inr (length pre + length (bencode_list vs) + 1) else Inl ErrBencodeTooDeep)"
  "data = pre @ bencode_members ms @ ''e'' @ post \<Longrightarrow> int (length data) < 2 ^ 63 \<Longrightarrow> depth \<le> 64 \<Longrightarrow>
    bencode_skip data (Some CHR ''d'') (length pre) depth
      = (if depth + nest_members ms \<le> 64 then Inr (length pre + length (bencode_members ms) + 1) else Inl ErrBencodeTooDeep)"
proof (induction v and vs and ms arbitrary: pre post depth and pre post depth and pre post depth
    rule: bencode_bencode_list_bencode_members.induct)
  case (1 i)
  have "CHR ''e'' \<notin> set (show_int i)" using show_int_chars by (force simp: dec_digit_def)
  then have "scan_int_end (drop (length pre + 1) data) (length pre + 1) = length pre + 1 + length (show_int i)"
    using 1(1) by (simp add: scan_int_end_found)
  then show ?case using 1 by (simp add: bencode_skip.simps(1) max_bencode_depth_def)
next
  case (2 s)
  then have d: "data = pre @ bencode_string s @ post" by simp
  obtain c cs where c: "bencode_string s = c # cs" "dec_digit c" using bencode_string_head by blast
  then have "c \<noteq> CHR ''i''" "c \<noteq> CHR ''l''" "c \<noteq> CHR ''d''" by (auto simp: dec_digit_def)
  then show ?case
    using 2 c read_string_encoded [OF d] by (simp add: bencode_skip.simps(1) max_bencode_depth_def nth_append)
next
  case (3 vs)
  have "bencode_skip data None (length pre) depth = bencode_skip data (Some CHR ''l'') (length (pre @ ''l'')) depth"
    using "3.prems" by (simp add: bencode_skip.simps(1) max_bencode_depth_def Let_def)
  then show ?case using "3.IH" [of "pre @ ''l''" post depth] "3.prems" by simp
next
  case (4 ms)
  have "bencode_skip data None (length pre) depth = bencode_skip data (Some CHR ''d'') (length (pre @ ''d'')) depth"
    using "4.prems" by (simp add: bencode_skip.simps(1) max_bencode_depth_def Let_def)
  then show ?case using "4.IH" [of "pre @ ''d''" post depth] "4.prems" by simp
next
  case 5
  then show ?case using skip_end by simp
next
  case (6 v vs)
  have d: "data = pre @ bencode v @ (bencode_list vs @ ''e'' @ post)" using "6.prems" by simp
  show ?case
  proof (cases "depth = 64")
    case True
    then have "bencode_skip data None (length pre) (Suc depth) = Inl ErrBencodeTooDeep"
      using bencode_head [of v] d by (auto simp: bencode_skip.simps(1) max_bencode_depth_def)
    then show ?thesis using skip_list_step [OF d] True by simp
  next
    case False
    then show ?thesis
      using skip_list_step [OF d "6.IH"(1) [OF d]] "6.IH"(2) [of "pre @ bencode v" post depth] "6.prems"
      by (auto simp: max_def)
  qed
next
  case 7
  then show ?case using skip_end by simp
next
  case (8 k v ms)
  have d: "data = pre @ bencode_string k @ (bencode v @ bencode_members ms @ ''e'' @ post)" using "8.prems" by simp
  have d': "data = (pre @ bencode_string k) @ bencode v @ (bencode_members ms @ ''e'' @ post)" using "8.prems" by simp
  show ?case
  proof (cases "depth = 64")
    case True
    then have "bencode_skip data None (length (pre @ bencode_string k)) (Suc depth) = Inl ErrBencodeTooDeep"
      using bencode_head [of v] d' by (auto simp: bencode_skip.simps(1) max_bencode_depth_def)
    then show ?thesis using skip_dict_step [OF d] True "8.prems" by simp
  next
    case False
    then show ?thesis
      using skip_dict_step [OF d] "8.IH"(1) [OF d', of "Suc depth"]
        "8.IH"(2) [of "pre @ bencode_string k @ bencode v" post depth] "8.prems"
      by (auto simp: max_def add.assoc)
  qed
qed

subsection \<open>Magnet links and canonical hashes\<close>

text \<open>\<open>topics raw\<close> are the \<open>xt\<close> values of the query when \<open>raw\<close> parses as a magnet URI (net/url).\<close>

fun first_btih :: "unicode \<Rightarrow> string list \<Rightarrow> string" where
  "first_btih uc [] = []"
| "first_btih uc (xt # xts) =
     (if \<not> has_prefix (to_lower uc xt) ''urn:btih:'' then first_btih uc xts
      else (let h = trim_space (drop 9 xt) in if h = [] then first_btih uc xts else to_lower uc h))"

definition from_magnet :: "unicode \<Rightarrow> (string \<Rightarrow> string list option) \<Rightarrow> string \<Rightarrow> string" where
  "from_magnet uc topics raw = (case topics raw of None \<Rightarrow> [] | Some xts \<Rightarrow> first_btih uc xts)"

definition upper_ascii :: "char \<Rightarrow> char" where
  "upper_ascii c = (if 97 \<le> byte_of c \<and> byte_of c \<le> 122 then char_of (byte_of c - 32) else c)"

definition base32_value :: "char \<Rightarrow> nat option" where
  "base32_value c =
     (if 65 \<le> byte_of c \<and> byte_of c \<le> 90 then Some (byte_of c - 65)
      else if 50 \<le> byte_of c \<and> byte_of c \<le> 55 then Some (byte_of c - 24)
      else None)"

text \<open>
  The 20 bytes of \<open>base32.StdEncoding.DecodeString\<close>, which fails or yields fewer for anything but
  32 symbols of the alphabet (line breaks are dropped, padding shortens the last group).
\<close>

definition base32_20 :: "string \<Rightarrow> string option" where
  "base32_20 s =
     (if length s = 32 \<and> list_all (\<lambda>c. base32_value c \<noteq> None) s
      then (let v = foldl (\<lambda>n c. n * 32 + the (base32_value c)) 0 s
            in Some (map (\<lambda>i. char_of (v div 256 ^ (19 - i) mod 256)) [0..<20]))
      else None)"

definition infohash_normalize :: "unicode \<Rightarrow> (string \<Rightarrow> string) \<Rightarrow> string \<Rightarrow> string" where
  "infohash_normalize uc uc_upper raw =
     (let h = trim_space raw in
      if length h = 40 then (if \<not> hex_decodes h then [] else to_lower uc h)
      else if length h = 32 then
        (case base32_20 (if is_ascii h then map upper_ascii h else uc_upper h) of
           None \<Rightarrow> []
         | Some bs \<Rightarrow> hex_encode bs)
      else [])"

subsection \<open>Properties\<close>

text \<open>C29: the walk over a value is exact and its depth guard precise. In any bytes, a well-formed
  value that nests at most 64 deep is skipped to the byte after it, whatever follows; one that nests
  deeper is refused with the depth error, whatever its size, so the walk never descends further.\<close>

theorem bencode_skip_exact:
  assumes "int (length (pre @ bencode v @ post)) < 2 ^ 63"
  shows "bencode_skip (pre @ bencode v @ post) None (length pre) 0
    = (if nest v \<le> max_bencode_depth then Inr (length pre + length (bencode v)) else Inl ErrBencodeTooDeep)"
  using skip_encoded(1) [OF refl assms, of 0] by (simp add: max_bencode_depth_def)

theorem bencode_skip_exact_witness:
  "bencode_skip (''x'' @ bencode (BDict [(''a'', BList [BInt (- 3), BStr ''yz''])]) @ ''rest'') None 1 0 = Inr 16
    \<and> nest (BDict [(''a'', BList [BInt (- 3), BStr ''yz''])]) = 2"
proof -
  let ?v = "BDict [(''a'', BList [BInt (- 3), BStr ''yz''])]"
  have n: "nest ?v = 2" by simp
  have l: "length (bencode ?v) = 15" by code_simp
  have "int (length (''x'' @ bencode ?v @ ''rest'')) < 2 ^ 63" using l by (simp del: bencode.simps)
  from bencode_skip_exact [OF this] show ?thesis
    using n l by (simp add: max_bencode_depth_def del: bencode.simps nest.simps)
qed

text \<open>What the walk looks for: the first \<open>info\<close> member, unless a value before it is too deep.\<close>

fun info_member :: "(string \<times> bvalue) list \<Rightarrow> bvalue option" where
  "info_member [] = None"
| "info_member ((k, v) # ms) =
     (if max_bencode_depth < nest v then None else if k = ''info'' then Some v else info_member ms)"

lemma member_loop_encoded:
  "data = pre @ bencode_members ms @ ''e'' @ post \<Longrightarrow> int (length data) < 2 ^ 63 \<Longrightarrow>
    case member_loop data ''info'' (length pre) of
      None \<Rightarrow> info_member ms = None
    | Some (start, e) \<Rightarrow> \<exists>v. info_member ms = Some v \<and> start < e \<and> take (e - start) (drop start data) = bencode v"
proof (induction ms arbitrary: pre rule: info_member.induct)
  case 1
  then have "member_loop data ''info'' (length pre) = None" by (subst member_loop.simps) simp
  then show ?case by simp
next
  case (2 k v ms)
  have d: "data = pre @ bencode_string k @ (bencode v @ bencode_members ms @ ''e'' @ post)"
    and d': "data = (pre @ bencode_string k) @ bencode v @ (bencode_members ms @ ''e'' @ post)"
    using "2.prems" by simp_all
  obtain c cs where head: "bencode_string k = c # cs" "c \<noteq> CHR ''e''" using bencode_string_head by blast
  then have here: "length pre < length data \<and> data ! length pre \<noteq> CHR ''e''" using d by (simp add: nth_append)
  have key: "bencode_read_string data (length pre) = Some (k, length pre + length (bencode_string k))"
    using read_string_encoded [OF d "2.prems"(2)] .
  have skip: "bencode_skip data None (length pre + length (bencode_string k)) 0
      = (if nest v \<le> 64 then Inr (length pre + length (bencode_string k) + length (bencode v)) else Inl ErrBencodeTooDeep)"
    using skip_encoded(1) [OF d' "2.prems"(2), of 0] by simp
  note loop = member_loop.simps [of data "''info''" "length pre"]
  show ?case
  proof (cases "nest v \<le> 64 \<and> k \<noteq> ''info''")
    case True
    then have "member_loop data ''info'' (length pre) = member_loop data ''info'' (length (pre @ bencode_string k @ bencode v))"
      using loop here key skip by (simp add: add.assoc)
    moreover have "info_member ((k, v) # ms) = info_member ms" using True by (simp add: max_bencode_depth_def)
    moreover have "case member_loop data ''info'' (length (pre @ bencode_string k @ bencode v)) of
        None \<Rightarrow> info_member ms = None
      | Some (start, e) \<Rightarrow> \<exists>v. info_member ms = Some v \<and> start < e \<and> take (e - start) (drop start data) = bencode v"
      by (rule "2.IH") (use "2.prems" True in \<open>simp_all add: max_bencode_depth_def not_less\<close>)
    ultimately show ?thesis by metis
  next
    case False
    have "bencode v \<noteq> []" using bencode_head [of v] by auto
    then show ?thesis
      using loop here key skip d' False by (auto simp: max_bencode_depth_def not_less)
  qed
qed

text \<open>The infohash of a torrent file is the SHA-1 of the exact bytes of its \<open>info\<close> value, and of
  nothing else. For every dictionary, in whatever order its keys come and whatever follows it,
  \<open>FromTorrentFile\<close> hashes the encoding of the first \<open>info\<close> member, and answers "" when there is
  none or when a value up to it nests too deep.\<close>

theorem torrent_hash_is_info_hash:
  assumes "int (length (bencode (BDict ms) @ post)) < 2 ^ 63"
  shows "from_torrent_file sha1 (bencode (BDict ms) @ post)
    = (case info_member ms of None \<Rightarrow> [] | Some v \<Rightarrow> hex_encode (sha1 (bencode v)))"
proof -
  let ?data = "''d'' @ bencode_members ms @ ''e'' @ post"
  have "bencode_member_span ?data ''info'' = member_loop ?data ''info'' 1"
    by (simp add: bencode_member_span_def)
  moreover have "int (length ?data) < 2 ^ 63" using assms by simp
  ultimately show ?thesis
    using member_loop_encoded [of ?data "''d''" ms post]
    by (auto simp: from_torrent_file_def split: option.splits prod.splits)
qed

theorem torrent_hash_is_info_hash_witness:
  "from_torrent_file (\<lambda>bs. rev bs) (bencode (BDict [(''a'', BInt 1), (''info'', BStr ''q'')]) @ ''junk'')
    = hex_encode (rev ''1:q'')"
proof -
  let ?ms = "[(''a'', BInt 1), (''info'', BStr ''q'')]"
  have l: "length (bencode (BDict ?ms)) = 17" by code_simp
  have "int (length (bencode (BDict ?ms) @ ''junk'')) < 2 ^ 63" using l by (simp del: bencode.simps)
  moreover have "bencode (BStr ''q'') = ''1:q''" by code_simp
  ultimately show ?thesis
    using torrent_hash_is_info_hash [of ?ms "''junk''" "\<lambda>bs. rev bs"]
    by (simp add: max_bencode_depth_def del: bencode.simps)
qed

text \<open>A canonical infohash is canonical. \<open>Normalize\<close> yields "" or 40 lower-case hexadecimal
  digits, and normalising those again changes nothing.\<close>

theorem infohash_canonical:
  "let h = infohash_normalize uc uc_upper raw
   in h = [] \<or> length h = 40 \<and> list_all lower_hex h \<and> infohash_normalize uc uc_upper h = h"
proof -
  have lower: "lower_hex (lower_byte c)" "byte_of c < (128 :: nat)" if "hex_digit c" for c
    using that by (auto simp: hex_digit_def lower_hex_def lower_byte_def dec_digit_def take_bit_eq_mod)
  have keep: "33 \<le> byte_of c \<and> byte_of c < (128 :: nat)" "lower_byte c = c" "hex_digit c" if "lower_hex c" for c
    using that by (auto simp: lower_hex_def hex_digit_def dec_digit_def lower_byte_def)
  have fixed: "infohash_normalize uc uc_upper h = h" if h: "length h = 40" "list_all lower_hex h" for h
  proof -
    have "list_all (\<lambda>c. 33 \<le> byte_of c \<and> byte_of c < (128 :: nat)) h" "is_ascii h" "hex_decodes h" "map lower_byte h = h"
      using h keep by (auto simp: list_all_iff is_ascii_def hex_decodes_def intro: map_idI)
    then show ?thesis using h(1) by (simp add: infohash_normalize_def trim_graph to_lower_def)
  qed
  let ?h = "trim_space raw" and ?r = "infohash_normalize uc uc_upper raw"
  have "?r = [] \<or> length ?r = 40 \<and> list_all lower_hex ?r"
  proof (cases "length ?h = 40")
    case True
    have "to_lower uc ?h = map lower_byte ?h \<and> list_all lower_hex (map lower_byte ?h)" if "hex_decodes ?h"
      using that lower by (auto simp: hex_decodes_def to_lower_def is_ascii_def list_all_iff)
    then show ?thesis using True by (auto simp: infohash_normalize_def Let_def)
  next
    case False
    have "length bs = 20" if "base32_20 s = Some bs" for s bs
      using that by (auto simp: base32_20_def Let_def split: if_splits)
    then show ?thesis using False
      by (auto simp: infohash_normalize_def Let_def hex_encode_lower length_hex_encode split: option.splits)
  qed
  then show ?thesis using fixed by (auto simp: Let_def)
qed

end
