(* ===== verification/Path_Map.thy ===== *)
theory Path_Map
  imports Go_Path
begin

text \<open>
  \<open>internal/pathmap/remap.go\<close>: rewriting a path between the mount points of a download client and
  Bindery's own. A rule side is a POSIX path or a Windows one (a drive or a network share), matched
  without regard to ASCII case and with both separators. A nil remapper is the one without rules, which every method
  treats alike.
\<close>

subsection \<open>Kinds of path\<close>

abbreviation backslash :: char where
  "backslash \<equiv> CHR 0x5C"

definition is_sep :: "char \<Rightarrow> bool" where
  "is_sep c \<longleftrightarrow> c = CHR ''/'' \<or> c = backslash"

definition is_ascii_letter :: "char \<Rightarrow> bool" where
  "is_ascii_letter c \<longleftrightarrow> 97 \<le> byte_of c \<and> byte_of c \<le> 122 \<or> 65 \<le> byte_of c \<and> byte_of c \<le> 90"

definition fold_byte :: "char \<Rightarrow> char" where
  "fold_byte c = (if c = backslash then CHR ''/'' else lower_byte c)"

definition match_key :: "string \<Rightarrow> bool \<Rightarrow> string" where
  "match_key p win = (if win then map fold_byte p else p)"

definition is_windows_path :: "string \<Rightarrow> bool" where
  "is_windows_path p0 =
     (let p = trim_space p0 in
      if length p < 3 \<or> p ! 1 \<noteq> CHR '':'' then False
      else if \<not> is_ascii_letter (p ! 0) then False
      else p ! 2 = backslash \<or> p ! 2 = CHR ''/'')"

definition cut_sep :: "string \<Rightarrow> string \<times> string" where
  "cut_sep s = (takeWhile (\<lambda>c. \<not> is_sep c) s, drop 1 (dropWhile (\<lambda>c. \<not> is_sep c) s))"

text \<open>Server and share of a network path; \<open>None\<close> where the code's \<open>ok\<close> is false.\<close>

definition unc_parts :: "string \<Rightarrow> (string \<times> string) option" where
  "unc_parts p =
     (if length p < 3 \<or> \<not> is_sep (p ! 0) \<or> \<not> is_sep (p ! 1) then None
      else
        (let rest0 = drop 2 p;
             rest = (if 6 \<le> length rest0 \<and> match_key (take 6 rest0) True = ''?/unc/'' then drop 6 rest0 else rest0);
             (host, rest') = cut_sep rest
         in if host = ''?'' \<or> host = ''.'' then None else Some (host, fst (cut_sep rest'))))"

definition is_unc_path :: "string \<Rightarrow> bool" where
  "is_unc_path p = (case unc_parts (trim_space p) of None \<Rightarrow> False | Some (host, share) \<Rightarrow> host \<noteq> [] \<and> share \<noteq> [])"

definition is_windows_side :: "string \<Rightarrow> bool" where
  "is_windows_side p0 =
     (let p = trim_space p0 in is_windows_path p \<or> is_unc_path p \<or> has_prefix p [backslash, backslash])"

definition is_incomplete_share :: "string \<Rightarrow> bool" where
  "is_incomplete_share p0 =
     (let p = trim_space p0 in
      if \<not> has_prefix p [backslash, backslash] then False
      else
        (case unc_parts p of
           None \<Rightarrow> \<not> (4 \<le> length p \<and> (p ! 2 = CHR ''?'' \<or> p ! 2 = CHR ''.'') \<and> is_sep (p ! 3))
         | Some (host, share) \<Rightarrow> host = [] \<or> share = []))"

subsection \<open>Rules\<close>

text \<open>An entry is cut at its first colon that is not a drive's.\<close>

definition split_pair :: "string \<Rightarrow> (string \<times> string) option" where
  "split_pair entry =
     (let start =
            (if is_windows_path entry then 2
             else if is_windows_side entry \<and> 4 < length entry \<and> entry ! 2 = CHR ''?'' \<and> is_sep (entry ! 3)
                     \<and> is_windows_path (drop 4 entry) then 6
             else 0);
          tail = drop start entry
      in if CHR '':'' \<notin> set tail then None
         else
           (let colon = start + length (takeWhile (\<lambda>c. c \<noteq> CHR '':'') tail);
                from = take colon entry; to = drop (colon + 1) entry
            in if from = [] \<or> to = [] then None else Some (from, to)))"

definition clean_prefix :: "string \<Rightarrow> bool \<Rightarrow> string" where
  "clean_prefix value win =
     trim_right_set (trim_space value) (if win then [CHR ''/'', backslash] else [CHR ''/''])"

definition separator_style :: "string \<Rightarrow> string" where
  "separator_style value = (if backslash \<in> set value then [backslash] else ''/'')"

record remap_rule =
  rr_from :: string
  rr_to :: string
  rr_from_win :: bool
  rr_to_win :: bool
  rr_from_sep :: string
  rr_to_sep :: string
  rr_from_key :: string
  rr_to_key :: string

text \<open>One turn of the loop of \<open>Parse\<close>: the rule an entry gives, if any.\<close>

definition parse_entry :: "string \<Rightarrow> remap_rule option" where
  "parse_entry entry0 =
     (let entry = trim_space entry0 in
      if entry = [] then None
      else
        (case split_pair entry of
           None \<Rightarrow> None
         | Some (raw_from, raw_to) \<Rightarrow>
             (let from_win = is_windows_side raw_from; to_win = is_windows_side raw_to;
                  from = clean_prefix raw_from from_win; to = clean_prefix raw_to to_win
              in if from = [] \<or> to = [] then None
                 else Some \<lparr>rr_from = from, rr_to = to, rr_from_win = from_win, rr_to_win = to_win,
                   rr_from_sep = separator_style raw_from, rr_to_sep = separator_style raw_to,
                   rr_from_key = match_key from from_win, rr_to_key = match_key to to_win\<rparr>)))"

text \<open>The insertion sort by length of \<open>from\<close>; the part already sorted is kept last first, and a
  new rule moves down it while it is strictly longer.\<close>

fun sift_in :: "remap_rule \<Rightarrow> remap_rule list \<Rightarrow> remap_rule list" where
  "sift_in r [] = [r]"
| "sift_in r (q # qs) =
     (if length (rr_from r) > length (rr_from q) then q # sift_in r qs else r # q # qs)"

definition sort_rules :: "remap_rule list \<Rightarrow> remap_rule list" where
  "sort_rules rs = rev (fold sift_in rs [])"

definition parse_remap :: "string \<Rightarrow> remap_rule list" where
  "parse_remap spec = sort_rules (List.map_filter parse_entry (split_on CHR '','' spec))"

datatype remap_error = PairFormat nat string bool | PairShareHint nat string | IncompleteShare nat string string

text \<open>\<open>Validate\<close>: the first entry that is wrong, by its position; \<open>None\<close> when all are in order.\<close>

fun validate_from :: "nat \<Rightarrow> string list \<Rightarrow> remap_error option" where
  "validate_from i [] = None"
| "validate_from i (e # es) =
     (let pair = trim_space e in
      if pair = [] then validate_from (i + 1) es
      else
        (let (from, to, ok) = (case split_pair pair of None \<Rightarrow> ([], [], False) | Some (f, t) \<Rightarrow> (f, t, True)) in
         if \<not> ok \<or> trim_space from = [] \<or> trim_space to = [] then
           (if is_windows_side pair then
              (if \<not> is_windows_path pair then Some (PairShareHint (i + 1) pair) else Some (PairFormat (i + 1) pair True))
            else Some (PairFormat (i + 1) pair False))
         else if is_incomplete_share from then Some (IncompleteShare (i + 1) pair (trim_space from))
         else if is_incomplete_share to then Some (IncompleteShare (i + 1) pair (trim_space to))
         else validate_from (i + 1) es))"

definition remap_validate :: "string \<Rightarrow> remap_error option" where
  "remap_validate spec = validate_from 0 (split_on CHR '','' spec)"

subsection \<open>Rewriting\<close>

definition match_prefix :: "string \<Rightarrow> string \<Rightarrow> bool \<Rightarrow> string option" where
  "match_prefix p key win =
     (let probe = match_key p win in
      if probe = key then Some []
      else if has_prefix probe (key @ ''/'') then Some (drop (length key) p)
      else None)"

definition replace_byte :: "char \<Rightarrow> char \<Rightarrow> string \<Rightarrow> string" where
  "replace_byte a b s = map (\<lambda>c. if c = a then b else c) s"

definition join_remainder :: "string \<Rightarrow> bool \<Rightarrow> string \<Rightarrow> string \<Rightarrow> bool \<Rightarrow> string" where
  "join_remainder target target_win target_sep rest0 source_win =
     (let rest = (if source_win then replace_byte backslash CHR ''/'' rest0 else rest0) in
      if \<not> target_win then path_join target rest
      else
        (let slashed0 = replace_byte backslash CHR ''/'' target;
             lead = (if has_prefix slashed0 ''//'' then ''//'' else []);
             slashed = (if has_prefix slashed0 ''//'' then drop 2 slashed0 else slashed0);
             joined = lead @ path_join slashed rest
         in if target_sep = [backslash] then replace_byte CHR ''/'' backslash joined else joined))"

fun apply_rules :: "remap_rule list \<Rightarrow> string \<Rightarrow> string \<times> bool" where
  "apply_rules [] p = (p, False)"
| "apply_rules (rule # rules) p =
     (case match_prefix p (rr_from_key rule) (rr_from_win rule) of
        None \<Rightarrow> apply_rules rules p
      | Some rest \<Rightarrow>
          if rest = [] then (rr_to rule, True)
          else (join_remainder (rr_to rule) (rr_to_win rule) (rr_to_sep rule) rest (rr_from_win rule), True))"

definition apply_matched :: "remap_rule list \<Rightarrow> string \<Rightarrow> string \<times> bool" where
  "apply_matched rules p = (if rules = [] \<or> p = [] then (p, False) else apply_rules rules p)"

definition apply_remap :: "remap_rule list \<Rightarrow> string \<Rightarrow> string" where
  "apply_remap rules p = fst (apply_matched rules p)"

text \<open>The loop of \<open>ApplyInverseMatched\<close>: the best rule so far and what it leaves of \<open>p\<close>.\<close>

definition inverse_step :: "string \<Rightarrow> (remap_rule \<times> string) option \<Rightarrow> remap_rule \<Rightarrow> (remap_rule \<times> string) option" where
  "inverse_step p best rule =
     (case match_prefix p (rr_to_key rule) (rr_to_win rule) of
        None \<Rightarrow> best
      | Some rest \<Rightarrow>
          (case best of
             None \<Rightarrow> Some (rule, rest)
           | Some (b, _) \<Rightarrow> if length (rr_to rule) > length (rr_to b) then Some (rule, rest) else best))"

definition apply_inverse_matched :: "remap_rule list \<Rightarrow> string \<Rightarrow> string \<times> bool" where
  "apply_inverse_matched rules p =
     (if rules = [] \<or> p = [] then (p, False)
      else
        (case foldl (inverse_step p) None rules of
           None \<Rightarrow> (p, False)
         | Some (best, rest) \<Rightarrow>
             if rest = [] then (rr_from best, True)
             else (join_remainder (rr_from best) (rr_from_win best) (rr_from_sep best) rest (rr_to_win best), True)))"

definition apply_inverse :: "remap_rule list \<Rightarrow> string \<Rightarrow> string" where
  "apply_inverse rules p = fst (apply_inverse_matched rules p)"

definition remap_empty :: "remap_rule list \<Rightarrow> bool" where
  "remap_empty rules = (rules = [])"

subsection \<open>Which rule applies\<close>

text \<open>The first of the elements with the greatest length among those that satisfy \<open>P\<close>.\<close>

definition first_longest :: "('a \<Rightarrow> bool) \<Rightarrow> ('a \<Rightarrow> nat) \<Rightarrow> 'a list \<Rightarrow> 'a option" where
  "first_longest P len xs = find (\<lambda>x. P x \<and> list_all (\<lambda>y. P y \<longrightarrow> len y \<le> len x) xs) xs"

lemma first_longest_none: "first_longest P len xs = None \<longleftrightarrow> (\<forall>x \<in> set xs. \<not> P x)"
proof
  assume none: "first_longest P len xs = None"
  show "\<forall>x \<in> set xs. \<not> P x"
  proof (rule ccontr)
    assume "\<not> (\<forall>x \<in> set xs. \<not> P x)"
    then have "len ` set (filter P xs) \<noteq> {}" by (auto simp: filter_empty_conv)
    then have "Max (len ` set (filter P xs)) \<in> len ` set (filter P xs)" by (intro Max_in) auto
    then obtain x where x: "x \<in> set xs" "P x" "len x = Max (len ` set (filter P xs))" by auto
    then have "list_all (\<lambda>y. P y \<longrightarrow> len y \<le> len x) xs" by (auto simp: list_all_iff)
    with x none show False by (auto simp: first_longest_def find_None_iff)
  qed
qed (auto simp: first_longest_def find_None_iff)

lemma first_longest_some:
  "first_longest P len xs = Some b \<Longrightarrow> b \<in> set xs \<and> P b \<and> (\<forall>y \<in> set xs. P y \<longrightarrow> len y \<le> len b)"
  unfolding first_longest_def find_Some_iff by (auto simp: list_all_iff)

lemma first_longest_snoc:
  "first_longest P len (xs @ [x]) =
     (case first_longest P len xs of
        None \<Rightarrow> if P x then Some x else None
      | Some b \<Rightarrow> if P x \<and> len b < len x then Some x else Some b)"
proof (cases "first_longest P len xs")
  case None
  then have none: "\<forall>y \<in> set xs. \<not> P y" by (simp add: first_longest_none)
  then have "find (\<lambda>y. P y \<and> list_all (\<lambda>z. P z \<longrightarrow> len z \<le> len y) (xs @ [x])) xs = None"
    by (auto simp: find_None_iff)
  then show ?thesis using None none by (auto simp: first_longest_def find_append list_all_iff)
next
  case (Some b)
  note b = first_longest_some [OF Some]
  show ?thesis
  proof (cases "P x \<and> len b < len x")
    case True
    then have "find (\<lambda>y. P y \<and> list_all (\<lambda>z. P z \<longrightarrow> len z \<le> len y) (xs @ [x])) xs = None"
      using b by (fastforce simp: find_None_iff)
    then show ?thesis using Some True b by (fastforce simp: first_longest_def find_append list_all_iff)
  next
    case False
    have "(P y \<and> list_all (\<lambda>z. P z \<longrightarrow> len z \<le> len y) (xs @ [x]))
        = (P y \<and> list_all (\<lambda>z. P z \<longrightarrow> len z \<le> len y) xs)" if "y \<in> set xs" for y
      using False b that by (fastforce simp: list_all_iff)
    then have "find (\<lambda>y. P y \<and> list_all (\<lambda>z. P z \<longrightarrow> len z \<le> len y) (xs @ [x])) xs = Some b"
      using Some by (simp add: first_longest_def cong: find_cong)
    then show ?thesis using Some False by (auto simp: first_longest_def find_append)
  qed
qed

text \<open>In the sorted list the first match is the first longest match of the declared list.\<close>

abbreviation from_length :: "remap_rule \<Rightarrow> nat" where
  "from_length r \<equiv> length (rr_from r)"

lemma set_sift_in: "set (sift_in r qs) = insert r (set qs)"
  by (induction r qs rule: sift_in.induct) auto

lemma sift_in_sorted:
  "sorted (map from_length qs) \<Longrightarrow> sorted (map from_length (sift_in r qs))"
  by (induction r qs rule: sift_in.induct) (auto simp: set_sift_in)

lemma find_rev_sift_in:
  "sorted (map from_length qs) \<Longrightarrow>
   find P (rev (sift_in r qs)) =
     (case find P (rev qs) of
        None \<Rightarrow> if P r then Some r else None
      | Some b \<Rightarrow> if P r \<and> from_length b < from_length r then Some r else Some b)"
proof (induction r qs rule: sift_in.induct)
  case (2 r q qs)
  have le: "find P (rev qs) = Some b \<Longrightarrow> from_length q \<le> from_length b" for b
    using "2.prems" by (auto simp: find_Some_iff) (metis in_set_conv_nth length_rev nth_mem set_rev)
  show ?case
  proof (cases "from_length q < from_length r")
    case True
    then show ?thesis
      using "2.IH" "2.prems" by (auto simp: find_append split: option.splits)
  next
    case False
    then show ?thesis
      using le by (fastforce simp: find_append split: option.splits)
  qed
qed simp

lemma sort_rules_snoc: "sort_rules (rs @ [r]) = rev (sift_in r (rev (sort_rules rs)))"
  by (simp add: sort_rules_def)

lemma sort_rules_sorted: "sorted (map from_length (rev (sort_rules rs)))"
  by (induction rs rule: rev_induct) (simp_all add: sort_rules_snoc sift_in_sorted, simp add: sort_rules_def)

lemma find_sort_rules: "find P (sort_rules rs) = first_longest P from_length rs"
proof (induction rs rule: rev_induct)
  case (snoc r rs)
  then show ?case
    using find_rev_sift_in [OF sort_rules_sorted, of P r rs]
    by (simp add: sort_rules_snoc first_longest_snoc)
qed (simp add: sort_rules_def first_longest_def)

text \<open>A rule covers a path that is its source or continues it at a separator.\<close>

definition rule_covers :: "string \<Rightarrow> remap_rule \<Rightarrow> bool" where
  "rule_covers p r =
     (let probe = match_key p (rr_from_win r)
      in probe = rr_from_key r \<or> has_prefix probe (rr_from_key r @ ''/''))"

definition rewrite_by :: "remap_rule \<Rightarrow> string \<Rightarrow> string" where
  "rewrite_by r p =
     (let rest = drop (length (rr_from_key r)) p
      in if rest = [] then rr_to r
         else join_remainder (rr_to r) (rr_to_win r) (rr_to_sep r) rest (rr_from_win r))"

definition declared_rules :: "string \<Rightarrow> remap_rule list" where
  "declared_rules spec = List.map_filter parse_entry (split_on CHR '','' spec)"

lemma length_match_key [simp]: "length (match_key p win) = length p"
  by (simp add: match_key_def)

lemma match_key_append: "match_key (p @ q) win = match_key p win @ match_key q win"
  by (simp add: match_key_def)

lemma match_prefix_covers:
  "match_prefix p (rr_from_key r) (rr_from_win r)
     = (if rule_covers p r then Some (drop (length (rr_from_key r)) p) else None)"
proof (cases "match_key p (rr_from_win r) = rr_from_key r")
  case True
  then have "length p = length (rr_from_key r)" by (metis length_match_key)
  with True show ?thesis by (simp add: match_prefix_def rule_covers_def Let_def)
qed (simp add: match_prefix_def rule_covers_def Let_def)

lemma apply_rules_find:
  "apply_rules rs p =
     (case find (rule_covers p) rs of None \<Rightarrow> (p, False) | Some r \<Rightarrow> (rewrite_by r p, True))"
  by (induction rs) (simp_all add: match_prefix_covers rewrite_by_def Let_def)

lemma parse_entry_keys:
  "parse_entry e = Some r \<Longrightarrow> rr_from r \<noteq> [] \<and> rr_to r \<noteq> [] \<and> rr_from_key r = match_key (rr_from r) (rr_from_win r)
     \<and> rr_to_key r = match_key (rr_to r) (rr_to_win r)"
  by (auto simp: parse_entry_def Let_def split: if_splits option.splits prod.splits)

lemma declared_rule_keys:
  "r \<in> set (declared_rules spec) \<Longrightarrow> rr_from r \<noteq> [] \<and> rr_to r \<noteq> [] \<and> rr_from_key r = match_key (rr_from r) (rr_from_win r)
     \<and> rr_to_key r = match_key (rr_to r) (rr_to_win r)"
  using parse_entry_keys by (auto simp: declared_rules_def List.map_filter_def)

lemma empty_path_uncovered: "r \<in> set (declared_rules spec) \<Longrightarrow> \<not> rule_covers [] r"
  using declared_rule_keys [of r spec]
  by (auto simp: rule_covers_def Let_def match_key_def has_prefix_def split: if_splits)

lemma parse_remap_declared: "parse_remap spec = sort_rules (declared_rules spec)"
  by (simp add: parse_remap_def declared_rules_def)

text \<open>C30: the most specific mapping wins. For every specification and every path, \<open>Apply\<close> on the
  parsed specification rewrites by the first of the declared rules whose source is longest among
  those that cover the path (the whole source, up to a separator), and leaves a path no rule covers
  as it is, reporting so.\<close>

theorem apply_longest_prefix:
  "apply_matched (parse_remap spec) p =
     (case first_longest (rule_covers p) from_length (declared_rules spec) of
        None \<Rightarrow> (p, False)
      | Some r \<Rightarrow> (rewrite_by r p, True))"
proof (cases "parse_remap spec = [] \<or> p = []")
  case True
  then have "first_longest (rule_covers p) from_length (declared_rules spec) = None"
  proof
    assume "parse_remap spec = []"
    then have "find (rule_covers p) (sort_rules (declared_rules spec)) = None"
      by (simp add: parse_remap_declared)
    then show ?thesis by (simp only: find_sort_rules)
  qed (auto simp: first_longest_none empty_path_uncovered)
  with True show ?thesis by (auto simp: apply_matched_def)
next
  case False
  then show ?thesis
    by (simp add: apply_matched_def apply_rules_find) (simp add: parse_remap_declared find_sort_rules)
qed

subsection \<open>Going there and back\<close>

text \<open>
  A side in the shape an operator writes it: names that \<open>path.Clean\<close> keeps, joined by that side's
  separator, after a root, a share's two separators or (a drive) nothing. Where a Windows side takes
  part, a backslash is a separator and cannot stand in a name.
\<close>

definition plain_name :: "bool \<Rightarrow> string \<Rightarrow> bool" where
  "plain_name win n \<longleftrightarrow> n \<noteq> [] \<and> n \<noteq> ''.'' \<and> n \<noteq> ''..'' \<and> CHR ''/'' \<notin> set n \<and> (win \<longrightarrow> backslash \<notin> set n)"

definition side_sep :: "bool \<Rightarrow> string \<Rightarrow> string" where
  "side_sep win sep = (if win then sep else ''/'')"

definition side_text :: "bool \<Rightarrow> string \<Rightarrow> bool \<Rightarrow> string list \<Rightarrow> string" where
  "side_text win sep lead ns =
     (if lead then (if win then sep @ sep else ''/'') else []) @ str_join (side_sep win sep) ns"

definition below_text :: "bool \<Rightarrow> string \<Rightarrow> string list \<Rightarrow> string" where
  "below_text win sep ns = concat (map (\<lambda>n. side_sep win sep @ n) ns)"

lemma clean_parts_plain:
  "list_all (plain_name win) ns \<Longrightarrow> clean_parts rooted st ns = rev st @ ns"
  by (induction ns arbitrary: st) (auto simp: plain_name_def)

lemma clean_parts_skip:
  "list_all (plain_name win) ns \<Longrightarrow> clean_parts rooted st (ns @ [] # ms) = clean_parts rooted (rev ns @ st) ms"
  by (induction ns arbitrary: st) (auto simp: plain_name_def)

lemma str_join_slash_ne: "ns \<noteq> [] \<Longrightarrow> list_all (plain_name win) ns \<Longrightarrow> \<exists>c cs. str_join sep ns = c # cs \<and> c \<noteq> CHR ''/''"
  by (cases ns rule: remdups_adj.cases) (auto simp: plain_name_def neq_Nil_conv)

lemma split_under:
  "ms \<noteq> [] \<Longrightarrow> list_all (plain_name win) ms \<Longrightarrow> split_on CHR ''/'' (concat (map (\<lambda>n. ''/'' @ n) ms)) = [] # ms"
proof (induction ms)
  case (Cons m ms)
  then show ?case
    by (cases "ms = []") (auto simp: plain_name_def split_on_single split_on_append neq_Nil_conv)
qed simp

lemma split_join_slash:
  "ns \<noteq> [] \<Longrightarrow> list_all (plain_name win) ns \<Longrightarrow>
   split_on CHR ''/'' (str_join ''/'' ns @ CHR ''/'' # s) = ns @ split_on CHR ''/'' s"
  by (induction "''/''" ns rule: str_join.induct) (auto simp: plain_name_def split_on_append)

lemma path_join_plain:
  assumes ns: "ns \<noteq> []" "list_all (plain_name win) ns" and ms: "ms \<noteq> []" "list_all (plain_name win) ms"
  shows "path_join ((if lead then ''/'' else []) @ str_join ''/'' ns) (concat (map (\<lambda>n. ''/'' @ n) ms))
    = (if lead then ''/'' else []) @ str_join ''/'' ns @ concat (map (\<lambda>n. ''/'' @ n) ms)"
proof -
  let ?j = "str_join ''/'' ns" and ?u = "concat (map (\<lambda>n. ''/'' @ n) ms)"
  obtain c cs where j: "?j = c # cs" "c \<noteq> CHR ''/''" using str_join_slash_ne [OF ns] by blast
  have u: "?u \<noteq> []" using ms by (cases ms) auto
  have split: "split_on CHR ''/'' (?j @ ''/'' @ ?u) = ns @ [] # ms"
    using split_join_slash [OF ns] split_under [OF ms] by simp
  have parts: "clean_parts r [] (ns @ [] # ms) = ns @ ms" for r
    using clean_parts_skip [OF ns(2)] clean_parts_plain [OF ms(2)] by simp
  have "str_join ''/'' (ns @ ms) = ?j @ ?u" using ns(1) by (rule str_join_append)
  then show ?thesis
    using split parts j u by (cases lead) (simp_all add: path_join_def path_clean_def Let_def)
qed

text \<open>What one direction does to a path below its source: \<open>ns\<close> is the source, \<open>ms\<close> the target
  and \<open>xs\<close> the names below.\<close>

lemma fold_byte_plain_sep: "sep = [backslash] \<or> sep = ''/'' \<Longrightarrow> map fold_byte (side_sep True sep) = ''/''"
  by (auto simp: side_sep_def fold_byte_def lower_byte_def)

lemma match_key_sep: "sep = [backslash] \<or> sep = ''/'' \<Longrightarrow> match_key (side_sep win sep) win = ''/''"
  by (cases win) (simp_all add: match_key_def fold_byte_plain_sep, simp add: side_sep_def)

lemma match_below:
  assumes "sep = [backslash] \<or> sep = ''/''"
  shows "match_prefix (src @ below_text win sep xs) (match_key src win) win = Some (below_text win sep xs)"
proof (cases xs)
  case Nil
  then show ?thesis by (simp add: match_prefix_def below_text_def)
next
  case (Cons x ys)
  have k: "match_key (src @ below_text win sep xs) win
      = match_key src win @ ''/'' @ match_key (x @ below_text win sep ys) win"
    using match_key_sep [OF assms, of win] by (simp add: Cons below_text_def match_key_append)
  then have "match_key (src @ below_text win sep xs) win \<noteq> match_key src win"
    and "has_prefix (match_key (src @ below_text win sep xs) win) (match_key src win @ ''/'')"
    by (simp_all add: has_prefix_def)
  then show ?thesis by (simp add: match_prefix_def)
qed

lemma replace_append: "replace_byte a b (s @ t) = replace_byte a b s @ replace_byte a b t"
  by (simp add: replace_byte_def)

lemma replace_absent: "a \<notin> set s \<Longrightarrow> replace_byte a b s = s"
  by (induction s) (auto simp: replace_byte_def)

lemma replace_str_join:
  "list_all (\<lambda>n. a \<notin> set n) ns \<Longrightarrow> replace_byte a b (str_join [a] ns) = str_join [b] ns"
  by (induction "[a]" ns rule: str_join.induct) (auto simp: replace_append replace_absent, simp_all add: replace_byte_def)

lemma append_one: "(@) [c] = (#) c"
  by (simp add: fun_eq_iff)

lemma replace_here: "replace_byte a b (a # s) = b # replace_byte a b s"
  by (simp add: replace_byte_def)

lemma replace_concat:
  "list_all (\<lambda>n. a \<notin> set n) ns \<Longrightarrow>
   replace_byte a b (concat (map (\<lambda>n. [a] @ n) ns)) = concat (map (\<lambda>n. [b] @ n) ns)"
proof (induction ns)
  case Nil
  then show ?case by (simp add: replace_byte_def)
next
  case (Cons n ns)
  then show ?case by (simp add: replace_append replace_absent replace_here)
qed

lemma under_slashed:
  assumes "sep = [backslash] \<or> sep = ''/''" and "list_all (plain_name win) xs"
  shows "(if win then replace_byte backslash CHR ''/'' (below_text win sep xs) else below_text win sep xs)
    = concat (map (\<lambda>n. ''/'' @ n) xs)"
proof (cases win)
  case True
  then have free: "list_all (\<lambda>n. backslash \<notin> set n) xs" using assms(2) by (auto simp: list_all_iff plain_name_def)
  from assms(1) show ?thesis
  proof
    assume "sep = [backslash]"
    then show ?thesis using True replace_concat [OF free] by (simp add: below_text_def side_sep_def)
  next
    assume "sep = ''/''"
    then show ?thesis using True free
      by (simp add: below_text_def side_sep_def) (rule replace_absent, auto simp: list_all_iff)
  qed
qed (simp add: below_text_def side_sep_def)

lemma side_slashed:
  assumes "sep = [backslash] \<or> sep = ''/''" and "list_all (plain_name True) ns"
  shows "replace_byte backslash CHR ''/'' (side_text True sep lead ns)
    = (if lead then ''//'' else []) @ str_join ''/'' ns"
  using assms(1)
proof
  have free: "list_all (\<lambda>n. backslash \<notin> set n) ns" using assms(2) by (auto simp: list_all_iff plain_name_def)
  show ?thesis if "sep = [backslash]"
    using that replace_str_join [OF free] by (cases lead) (simp_all add: side_text_def side_sep_def replace_here)
  have "backslash \<notin> set (str_join ''/'' ns)"
    using free by (induction "''/''" ns rule: str_join.induct) auto
  then show ?thesis if "sep = ''/''"
    using that by (simp add: side_text_def side_sep_def replace_absent)
qed

lemma slash_to_sep:
  assumes "sep = [backslash] \<or> sep = ''/''" and "list_all (plain_name True) ns" "list_all (plain_name True) xs"
    and t: "t = (if lead then ''//'' else []) @ str_join ''/'' ns @ concat (map (\<lambda>n. ''/'' @ n) xs)"
  shows "(if sep = [backslash] then replace_byte CHR ''/'' backslash t else t) = side_text True sep lead ns @ below_text True sep xs"
proof -
  have "list_all (\<lambda>n. CHR ''/'' \<notin> set n) ns" "list_all (\<lambda>n. CHR ''/'' \<notin> set n) xs"
    using assms(2,3) by (auto simp: list_all_iff plain_name_def)
  note r = replace_str_join [OF this(1), of backslash] replace_concat [OF this(2), of backslash]
  show ?thesis
    using assms(1) r unfolding t
    by (cases lead) (auto simp: side_text_def below_text_def side_sep_def replace_append replace_here append_one)
qed

lemma join_below:
  assumes seps: "ssep = [backslash] \<or> ssep = ''/''" "tsep = [backslash] \<or> tsep = ''/''"
    and ns: "ns \<noteq> []" "list_all (plain_name tw) ns" and xs: "xs \<noteq> []" "list_all (plain_name (sw \<or> tw)) xs"
  shows "join_remainder (side_text tw tsep lead ns) tw tsep (below_text sw ssep xs) sw
    = side_text tw tsep lead ns @ below_text tw tsep xs"
proof -
  have xs': "list_all (plain_name sw) xs" "list_all (plain_name tw) xs"
    using xs(2) by (auto simp: list_all_iff plain_name_def)
  note rest = under_slashed [OF seps(1) xs'(1)]
  show ?thesis
  proof (cases tw)
    case False
    then have "join_remainder (side_text tw tsep lead ns) tw tsep (below_text sw ssep xs) sw
        = path_join (side_text tw tsep lead ns) (concat (map (\<lambda>n. ''/'' @ n) xs))"
      by (simp add: join_remainder_def rest)
    also have "\<dots> = side_text tw tsep lead ns @ concat (map (\<lambda>n. ''/'' @ n) xs)"
      using path_join_plain [OF ns xs(1) xs'(2), of lead] False by (cases lead) (simp_all add: side_text_def side_sep_def)
    finally show ?thesis using False by (simp add: below_text_def side_sep_def)
  next
    case True
    have ns': "list_all (plain_name True) ns" and xs'': "list_all (plain_name True) xs" using ns(2) xs'(2) True by simp_all
    obtain c cs where j: "str_join ''/'' ns = c # cs" "c \<noteq> CHR ''/''" using str_join_slash_ne [OF ns] by blast
    have lead': "\<not> has_prefix (str_join ''/'' ns) ''//''" "has_prefix (CHR ''/'' # CHR ''/'' # s) ''//''" for s
      using j by (simp_all add: has_prefix_def)
    let ?t = "(if lead then ''//'' else []) @ str_join ''/'' ns @ concat (map (\<lambda>n. ''/'' @ n) xs)"
    have "path_join (str_join ''/'' ns) (concat (map (\<lambda>n. ''/'' @ n) xs))
        = str_join ''/'' ns @ concat (map (\<lambda>n. ''/'' @ n) xs)"
      using path_join_plain [OF ns xs(1) xs'(2), of False] by simp
    then have "join_remainder (side_text tw tsep lead ns) tw tsep (below_text sw ssep xs) sw
        = (if tsep = [backslash] then replace_byte CHR ''/'' backslash ?t else ?t)"
      using True
      by (cases "tsep = [backslash]"; cases lead)
        (simp_all add: join_remainder_def rest side_slashed [OF seps(2) ns'] side_slashed [OF disjI1 [OF refl] ns'] lead' append_one)
    then show ?thesis using True slash_to_sep [OF seps(2) ns' xs'' refl, of lead] by simp
  qed
qed

lemma parse_entry_seps:
  "parse_entry e = Some r \<Longrightarrow>
     (rr_from_sep r = [backslash] \<or> rr_from_sep r = ''/'') \<and> (rr_to_sep r = [backslash] \<or> rr_to_sep r = ''/'')"
  by (auto simp: parse_entry_def separator_style_def Let_def split: if_splits option.splits prod.splits)

lemma parsed_rule:
  assumes "parse_remap spec = [r]"
  shows "rr_from r \<noteq> [] \<and> rr_to r \<noteq> [] \<and> rr_from_key r = match_key (rr_from r) (rr_from_win r)
     \<and> rr_to_key r = match_key (rr_to r) (rr_to_win r)
     \<and> (rr_from_sep r = [backslash] \<or> rr_from_sep r = ''/'') \<and> (rr_to_sep r = [backslash] \<or> rr_to_sep r = ''/'')"
proof -
  have "find (\<lambda>x. x = r) (sort_rules (declared_rules spec)) = Some r"
    using assms by (simp add: parse_remap_declared)
  then have r: "r \<in> set (declared_rules spec)" by (metis find_sort_rules first_longest_some)
  then obtain e where "parse_entry e = Some r" by (auto simp: declared_rules_def List.map_filter_def)
  from parse_entry_seps [OF this] declared_rule_keys [OF r] show ?thesis by simp
qed

text \<open>C36: with one mapping the rewriting goes there and back. When both sides of the rule are written
  plainly, \<open>Apply\<close> takes a client path below the source to the same names below the target, in the
  target's separators, and \<open>ApplyInverse\<close> takes that back to the client path byte for byte,
  whichever sides are Windows paths or shares and whichever separators they use.\<close>

theorem remap_roundtrip:
  assumes "parse_remap spec = [r]"
    and "rr_from r = side_text (rr_from_win r) (rr_from_sep r) from_lead from_names"
    and "rr_to r = side_text (rr_to_win r) (rr_to_sep r) to_lead to_names"
    and "from_names \<noteq> []" "to_names \<noteq> []"
    and "list_all (plain_name (rr_from_win r)) from_names" "list_all (plain_name (rr_to_win r)) to_names"
    and "list_all (plain_name (rr_from_win r \<or> rr_to_win r)) xs"
  shows "apply_remap (parse_remap spec) (rr_from r @ below_text (rr_from_win r) (rr_from_sep r) xs)
        = rr_to r @ below_text (rr_to_win r) (rr_to_sep r) xs
    \<and> apply_inverse (parse_remap spec) (rr_to r @ below_text (rr_to_win r) (rr_to_sep r) xs)
        = rr_from r @ below_text (rr_from_win r) (rr_from_sep r) xs"
proof -
  note r = parsed_rule [OF assms(1)]
  have fs: "rr_from_sep r = [backslash] \<or> rr_from_sep r = ''/''"
    and ts: "rr_to_sep r = [backslash] \<or> rr_to_sep r = ''/''" using r by simp_all
  have xs': "list_all (plain_name (rr_to_win r \<or> rr_from_win r)) xs" using assms(8) by (simp add: disj_commute)
  have keys: "rr_from r \<noteq> []" "rr_to r \<noteq> []" "rr_from_key r = match_key (rr_from r) (rr_from_win r)"
    "rr_to_key r = match_key (rr_to r) (rr_to_win r)" using r by simp_all
  have nil: "below_text w s xs = [] \<longleftrightarrow> xs = []" for w s using assms(8) by (cases xs) (auto simp: below_text_def plain_name_def)
  note there = match_below [OF fs, of "rr_from r" "rr_from_win r" xs]
    and again = match_below [OF ts, of "rr_to r" "rr_to_win r" xs]
  have "apply_remap [r] (rr_from r @ below_text (rr_from_win r) (rr_from_sep r) xs)
      = rr_to r @ below_text (rr_to_win r) (rr_to_sep r) xs"
  proof (cases "xs = []")
    case False
    then show ?thesis
      using join_below [OF fs ts assms(5,7) _ assms(8), of to_lead]
      by (simp add: apply_remap_def apply_matched_def keys there nil assms(3) [symmetric])
  qed (use there in \<open>simp add: apply_remap_def apply_matched_def keys below_text_def\<close>)
  moreover have "apply_inverse [r] (rr_to r @ below_text (rr_to_win r) (rr_to_sep r) xs)
      = rr_from r @ below_text (rr_from_win r) (rr_from_sep r) xs"
  proof (cases "xs = []")
    case False
    then show ?thesis
      using join_below [OF ts fs assms(4,6) _ xs', of from_lead]
      by (simp add: apply_inverse_def apply_inverse_matched_def inverse_step_def keys again nil assms(2) [symmetric])
  qed (use again in \<open>simp add: apply_inverse_def apply_inverse_matched_def inverse_step_def keys below_text_def\<close>)
  ultimately show ?thesis by (simp add: assms(1))
qed

definition sample_rule :: remap_rule where
  "sample_rule = \<lparr>rr_from = ''S:'' @ [backslash] @ ''Books'', rr_to = ''/books'', rr_from_win = True, rr_to_win = False,
     rr_from_sep = [backslash], rr_to_sep = ''/'', rr_from_key = ''s:/books'', rr_to_key = ''/books''\<rparr>"

theorem remap_roundtrip_witness:
  "apply_remap (parse_remap (''S:'' @ [backslash] @ ''Books:/books'')) (''S:'' @ [backslash] @ ''Books'' @ [backslash] @ ''A b'')
      = ''/books/A b''
    \<and> apply_inverse (parse_remap (''S:'' @ [backslash] @ ''Books:/books'')) ''/books/A b''
      = ''S:'' @ [backslash] @ ''Books'' @ [backslash] @ ''A b''"
proof -
  have "parse_remap (''S:'' @ [backslash] @ ''Books:/books'') = [sample_rule]" by code_simp
  from remap_roundtrip [OF this, of False "[''S:'', ''Books'']" True "[''books'']" "[''A b'']"]
  show ?thesis
    by (simp add: sample_rule_def side_text_def below_text_def side_sep_def plain_name_def)
qed

end
