(* ===== verification/Outbound_Guard.thy ===== *)
theory Outbound_Guard
  imports Host_Check
begin

text \<open>
  \<open>internal/httpsec/ssrf.go\<close> and the outbound half of \<open>proxy.go\<close>: which addresses Bindery may connect
  to on behalf of a URL. URL parsing and DNS are arguments; a connection attempt answers whether it
  succeeded, failed, or failed because the request was abandoned.
\<close>

subsection \<open>The address policy\<close>

datatype policy = PolicyStrict | PolicyLAN | PolicyLANLoopback | PolicyService

datatype ssrf_error =
    InvalidUrl | BadScheme | MissingHost | DnsFailed
  | PointsToUnspecified | PointsToLoopback | PointsToLinkLocal | PointsToMetadata | PointsToPrivate

text \<open>The opt-in of the environment, and the flag only tests set.\<close>

record ssrf_env =
  se_link_local_services :: bool
  se_test_allow_loopback :: bool

text \<open>\<open>net.IP\<close>'s predicates on an unmapped address.\<close>

definition is_unspecified :: "nat list \<Rightarrow> bool" where
  "is_unspecified ip \<longleftrightarrow> ip = replicate 4 0 \<or> ip = replicate 16 0"

definition is_loopback :: "nat list \<Rightarrow> bool" where
  "is_loopback ip = (if length ip = 4 then ip ! 0 = 127 else ip = replicate 15 0 @ [1])"

definition is_link_local_unicast :: "nat list \<Rightarrow> bool" where
  "is_link_local_unicast ip =
     (if length ip = 4 then ip ! 0 = 169 \<and> ip ! 1 = 254
      else length ip = 16 \<and> ip ! 0 = 254 \<and> ip ! 1 div 64 = 2)"

definition is_rfc1918 :: "nat list \<Rightarrow> bool" where
  "is_rfc1918 ip0 =
     (let ip4 = to4 ip0 in
      if length ip4 \<noteq> 4 then False
      else ip4 ! 0 = 10 \<or> (ip4 ! 0 = 172 \<and> 16 \<le> ip4 ! 1 \<and> ip4 ! 1 \<le> 31) \<or> (ip4 ! 0 = 192 \<and> ip4 ! 1 = 168))"

definition is_cloud_metadata :: "nat list \<Rightarrow> bool" where
  "is_cloud_metadata ip0 =
     (let ip = to4 ip0 in
      if length ip = 4 then
        ip ! 0 = 169 \<and> ip ! 1 = 254 \<and> ((ip ! 2 = 169 \<and> ip ! 3 = 254) \<or> (ip ! 2 = 170 \<and> ip ! 3 = 2))
      else Some ip = parse_ip ''fd00:ec2::254'')"

definition is_ipv6_ula :: "nat list \<Rightarrow> bool" where
  "is_ipv6_ula ip = (if length (to4 ip) = 4 then False else length ip = 16 \<and> ip ! 0 div 2 = 126)"

definition check_ip :: "ssrf_env \<Rightarrow> nat list \<Rightarrow> policy \<Rightarrow> ssrf_error option" where
  "check_ip env ip0 policy =
     (let ip = to4 ip0 in
      if is_unspecified ip then Some PointsToUnspecified
      else if is_loopback ip \<and> policy \<noteq> PolicyLANLoopback \<and> policy \<noteq> PolicyService \<and> \<not> se_test_allow_loopback env
        then Some PointsToLoopback
      else if is_link_local_unicast ip \<and> (policy \<noteq> PolicyService \<or> \<not> se_link_local_services env)
        then Some PointsToLinkLocal
      else if is_cloud_metadata ip then Some PointsToMetadata
      else if policy = PolicyStrict \<and> is_rfc1918 ip then Some PointsToPrivate
      else if policy = PolicyStrict \<and> is_ipv6_ula ip then Some PointsToPrivate
      else None)"

text \<open>The first error in a list of resolved addresses.\<close>

fun check_all :: "ssrf_env \<Rightarrow> policy \<Rightarrow> nat list list \<Rightarrow> ssrf_error option" where
  "check_all env policy [] = None"
| "check_all env policy (ip # ips) =
     (case check_ip env ip policy of Some e \<Rightarrow> Some e | None \<Rightarrow> check_all env policy ips)"

text \<open>\<open>parse_url\<close>: scheme and host name of a URL; \<open>lookup\<close>: the addresses of a name. \<open>None\<close> fails.\<close>

definition validate_with_resolver ::
    "unicode \<Rightarrow> (string \<Rightarrow> (string \<times> string) option) \<Rightarrow> (string \<Rightarrow> nat list list option) \<Rightarrow> ssrf_env \<Rightarrow> string \<Rightarrow> policy
     \<Rightarrow> ssrf_error option" where
  "validate_with_resolver uc parse_url lookup env raw policy =
     (case parse_url raw of
        None \<Rightarrow> Some InvalidUrl
      | Some (scheme0, host) \<Rightarrow>
          (let scheme = to_lower uc scheme0 in
           if scheme \<noteq> ''http'' \<and> scheme \<noteq> ''https'' then Some BadScheme
           else if host = [] then Some MissingHost
           else if to_lower uc host = ''metadata.google.internal'' then Some PointsToMetadata
           else
             (case parse_ip host of
                Some ip \<Rightarrow> check_ip env ip policy
              | None \<Rightarrow>
                  (case lookup host of None \<Rightarrow> Some DnsFailed | Some ips \<Rightarrow> check_all env policy ips))))"

definition env_is_truthy :: "unicode \<Rightarrow> string \<Rightarrow> bool" where
  "env_is_truthy uc value = (let v = to_lower uc (trim_space value) in v = ''1'' \<or> v = ''true'')"

definition policy_from_env :: "unicode \<Rightarrow> policy \<Rightarrow> string \<Rightarrow> policy" where
  "policy_from_env uc def value = (if env_is_truthy uc value then PolicyLAN else def)"

definition download_fetch_policy :: "unicode \<Rightarrow> string \<Rightarrow> policy" where
  "download_fetch_policy uc value = (if env_is_truthy uc value then PolicyLANLoopback else PolicyLAN)"

subsection \<open>Dialling\<close>

datatype attempt = Connects | Fails | Abandoned

datatype dial_result =
    DialInvalidAddress
  | DialForbidden ssrf_error
  | DialLookupFailed
  | DialNoAddresses
  | DialUnreachable nat nat
  | DialConnected "nat list"

text \<open>The addresses tried, and the one reached.\<close>

fun try_addresses :: "(nat list \<Rightarrow> attempt) \<Rightarrow> nat list list \<Rightarrow> nat list list \<times> nat list option" where
  "try_addresses dial [] = ([], None)"
| "try_addresses dial (ip # ips) =
     (case dial ip of
        Connects \<Rightarrow> ([ip], Some ip)
      | Abandoned \<Rightarrow> ([ip], None)
      | Fails \<Rightarrow> (let (tried, reached) = try_addresses dial ips in (ip # tried, reached)))"

definition dial_policy :: "policy \<Rightarrow> bool \<Rightarrow> policy" where
  "dial_policy policy redirect_hop = (if policy = PolicyService \<and> redirect_hop then PolicyLANLoopback else policy)"

definition new_dial_context ::
    "ssrf_env \<Rightarrow> (string \<Rightarrow> nat list list option) \<Rightarrow> (nat list \<Rightarrow> attempt) \<Rightarrow> policy \<Rightarrow> bool \<Rightarrow> string
     \<Rightarrow> nat list list \<times> dial_result" where
  "new_dial_context env lookup dial policy0 redirect_hop addr =
     (let policy = dial_policy policy0 redirect_hop in
      case split_host_port addr of
        None \<Rightarrow> ([], DialInvalidAddress)
      | Some (host, port) \<Rightarrow>
          (case parse_ip host of
             Some ip \<Rightarrow>
               (case check_ip env ip policy of
                  Some e \<Rightarrow> ([], DialForbidden e)
                | None \<Rightarrow> ([ip], if dial ip = Connects then DialConnected ip else DialUnreachable 1 1))
           | None \<Rightarrow>
               (case lookup host of
                  None \<Rightarrow> ([], DialLookupFailed)
                | Some ips \<Rightarrow>
                    if ips = [] then ([], DialNoAddresses)
                    else
                      (case check_all env policy ips of
                         Some e \<Rightarrow> ([], DialForbidden e)
                       | None \<Rightarrow>
                           (let (tried, reached) = try_addresses dial ips in
                            (tried, case reached of
                               Some ip \<Rightarrow> DialConnected ip
                             | None \<Rightarrow> DialUnreachable (length tried) (length ips)))))))"

text \<open>\<open>RedirectGuard\<close>: whether a hop is followed, and whether its dial is marked.\<close>

datatype redirect_result = TooManyRedirects | RedirectBlocked ssrf_error | FollowRedirect bool

definition redirect_guard ::
    "unicode \<Rightarrow> (string \<Rightarrow> (string \<times> string) option) \<Rightarrow> (string \<Rightarrow> nat list list option) \<Rightarrow> ssrf_env \<Rightarrow> policy \<Rightarrow> string \<Rightarrow> nat
     \<Rightarrow> redirect_result" where
  "redirect_guard uc parse_url lookup env policy url hops =
     (if hops \<ge> 10 then TooManyRedirects
      else
        (let hop = (if policy = PolicyService then PolicyLANLoopback else policy) in
         case validate_with_resolver uc parse_url lookup env url hop of
           Some e \<Rightarrow> RedirectBlocked e
         | None \<Rightarrow> FollowRedirect (policy = PolicyService)))"

subsection \<open>The outbound proxy\<close>

record outbound_proxy =
  op_scheme :: string
  op_host :: string
  op_port :: string

definition is_proxy_addr :: "unicode \<Rightarrow> outbound_proxy option \<Rightarrow> string \<Rightarrow> bool" where
  "is_proxy_addr uc proxy addr =
     (case proxy of
        None \<Rightarrow> False
      | Some u \<Rightarrow>
          (case split_host_port addr of
             None \<Rightarrow> False
           | Some (host, port) \<Rightarrow>
               (let scheme = to_lower uc (op_scheme u);
                    pport = (if op_port u = [] then
                        (if scheme = ''https'' then ''443'' else if scheme = ''socks5'' then ''1080'' else ''80'')
                      else op_port u)
                in equal_fold uc host (op_host u) \<and> port = pport)))"

definition guarded_dial_context ::
    "unicode \<Rightarrow> outbound_proxy option \<Rightarrow> ssrf_env \<Rightarrow> (string \<Rightarrow> nat list list option) \<Rightarrow> (nat list \<Rightarrow> attempt)
     \<Rightarrow> (string \<Rightarrow> nat list list \<times> dial_result) \<Rightarrow> policy \<Rightarrow> bool \<Rightarrow> string \<Rightarrow> nat list list \<times> dial_result" where
  "guarded_dial_context uc proxy env lookup dial plain policy redirect_hop addr =
     (if proxy = None then new_dial_context env lookup dial policy redirect_hop addr
      else if is_proxy_addr uc proxy addr then plain addr
      else new_dial_context env lookup dial policy redirect_hop addr)"

definition parse_no_proxy :: "unicode \<Rightarrow> string \<Rightarrow> string list" where
  "parse_no_proxy uc raw = filter (\<lambda>r. r \<noteq> []) (map (\<lambda>part. to_lower uc (trim_space part)) (split_on CHR '','' raw))"

definition match_no_proxy_rule :: "string \<Rightarrow> string \<Rightarrow> bool" where
  "match_no_proxy_rule rule host =
     (if CHR ''/'' \<in> set rule then
        (case parse_cidr rule of
           None \<Rightarrow> False
         | Some net \<Rightarrow> (case parse_ip host of None \<Rightarrow> False | Some ip \<Rightarrow> net_contains net ip))
      else (let r = trim_prefix rule ''.'' in host = r \<or> has_suffix host (''.'' @ r)))"

definition is_private_ip :: "nat list \<Rightarrow> bool" where
  "is_private_ip ip0 =
     (let ip = to4 ip0 in is_loopback ip \<or> is_link_local_unicast ip \<or> is_rfc1918 ip \<or> is_ipv6_ula ip)"

definition bypass_proxy_for_host :: "unicode \<Rightarrow> string list \<Rightarrow> bool \<Rightarrow> string \<Rightarrow> bool" where
  "bypass_proxy_for_host uc no_proxy bypass_local host =
     (if host = [] then False
      else
        (let h = to_lower uc (trim_suffix host ''.'') in
         if list_ex (\<lambda>rule. rule = ''*'' \<or> match_no_proxy_rule rule h) no_proxy then True
         else if \<not> bypass_local then False
         else
           (case parse_ip host of
              Some ip \<Rightarrow> is_private_ip ip
            | None \<Rightarrow> h = ''localhost'' \<or> has_suffix h ''.local'' \<or> has_suffix h ''.lan'' \<or> has_suffix h ''.internal''
                \<or> CHR ''.'' \<notin> set h)))"

subsection \<open>The policy as networks\<close>

text \<open>The networks that each policy refuses, as an operator would write them.\<close>

definition forbidden_texts :: "ssrf_env \<Rightarrow> policy \<Rightarrow> string list" where
  "forbidden_texts env policy =
     [''0.0.0.0/32'', ''::/128'', ''169.254.169.254/32'', ''169.254.170.2/32'', ''fd00:ec2::254/128'']
     @ (if policy \<in> {PolicyStrict, PolicyLAN} \<and> \<not> se_test_allow_loopback env then [''127.0.0.0/8'', ''::1/128''] else [])
     @ (if policy = PolicyService \<and> se_link_local_services env then [] else [''169.254.0.0/16'', ''fe80::/10''])
     @ (if policy = PolicyStrict then [''10.0.0.0/8'', ''172.16.0.0/12'', ''192.168.0.0/16'', ''fc00::/7''] else [])"

definition forbidden_networks :: "ssrf_env \<Rightarrow> policy \<Rightarrow> ip_net list" where
  "forbidden_networks env policy = map (\<lambda>t. the (parse_cidr t)) (forbidden_texts env policy)"

definition ip_networks :: "ssrf_env \<Rightarrow> policy \<Rightarrow> ip_net list" where
  "ip_networks env policy =
     [([0,0,0,0], 32), (replicate 16 0, 128), ([169,254,169,254], 32), ([169,254,170,2], 32),
      ([253,0,14,194,0,0,0,0,0,0,0,0,0,0,2,84], 128)]
     @ (if policy \<in> {PolicyStrict, PolicyLAN} \<and> \<not> se_test_allow_loopback env
        then [([127,0,0,0], 8), (replicate 15 0 @ [1], 128)] else [])
     @ (if policy = PolicyService \<and> se_link_local_services env then []
        else [([169,254,0,0], 16), ([254,128] @ replicate 14 0, 10)])
     @ (if policy = PolicyStrict
        then [([10,0,0,0], 8), ([172,16,0,0], 12), ([192,168,0,0], 16), (252 # replicate 15 0, 7)] else [])"

lemma parsed_networks:
  "parse_cidr ''0.0.0.0/32'' = Some ([0,0,0,0], 32)"
  "parse_cidr ''::/128'' = Some (replicate 16 0, 128)"
  "parse_cidr ''169.254.169.254/32'' = Some ([169,254,169,254], 32)"
  "parse_cidr ''169.254.170.2/32'' = Some ([169,254,170,2], 32)"
  "parse_cidr ''fd00:ec2::254/128'' = Some ([253,0,14,194,0,0,0,0,0,0,0,0,0,0,2,84], 128)"
  "parse_cidr ''127.0.0.0/8'' = Some ([127,0,0,0], 8)"
  "parse_cidr ''::1/128'' = Some (replicate 15 0 @ [1], 128)"
  "parse_cidr ''169.254.0.0/16'' = Some ([169,254,0,0], 16)"
  "parse_cidr ''fe80::/10'' = Some ([254,128] @ replicate 14 0, 10)"
  "parse_cidr ''10.0.0.0/8'' = Some ([10,0,0,0], 8)"
  "parse_cidr ''172.16.0.0/12'' = Some ([172,16,0,0], 12)"
  "parse_cidr ''192.168.0.0/16'' = Some ([192,168,0,0], 16)"
  "parse_cidr ''fc00::/7'' = Some (252 # replicate 15 0, 7)"
  "parse_ip ''fd00:ec2::254'' = Some [253,0,14,194,0,0,0,0,0,0,0,0,0,0,2,84]"
  by code_simp+

lemma bytes4: "\<lbrakk> length ip = 4; list_all (\<lambda>b. b < 256) ip \<rbrakk> \<Longrightarrow>
    \<exists>a b c d. ip = [a, b, c, d] \<and> a < 256 \<and> b < 256 \<and> c < 256 \<and> d < (256::nat)"
  by (auto simp: numeral_eq_Suc length_Suc_conv)

lemma to4_ok: "ip_ok ip \<Longrightarrow> ip_ok (to4 ip)"
  by (auto simp: ip_ok_def to4_def list_all_iff dest: in_set_dropD)

lemma contains_v4:
  assumes "length nn = 4" "list_all (\<lambda>b. b < 256) nn" "ip_ok ip"
  shows "net_contains (nn, n) ip \<longleftrightarrow> length (to4 ip) = 4 \<and> mask_bytes n nn = mask_bytes n (to4 ip)"
  using assms by (auto simp: net_contains_def Let_def to4_def)

lemma mask_bytes_full: "8 * length ip \<le> n \<Longrightarrow> mask_bytes n ip = ip"
  by (induction n ip rule: mask_bytes.induct) (auto simp: min_def)

lemma mask_bytes_none: "list_all (\<lambda>b. b < 256) ip \<Longrightarrow> mask_bytes 0 ip = replicate (length ip) 0"
  by (induction ip) auto

lemma contains_v6:
  assumes "length nn = 16" "to4 nn = nn" 
  shows "net_contains (nn, n) ip \<longleftrightarrow> length (to4 ip) = 16 \<and> mask_bytes n nn = mask_bytes n (to4 ip)"
  using assms by (auto simp: net_contains_def Let_def to4_def)

lemma v4_masks:
  assumes "a < 256" "b < 256" "c < 256" "d < (256::nat)"
  shows "mask_bytes 8 [a, b, c, d] = [a, 0, 0, 0]" "mask_bytes 16 [a, b, c, d] = [a, b, 0, 0]"
    "mask_bytes 12 [a, b, c, d] = [a, b div 16 * 16, 0, 0]" "mask_bytes 32 [a, b, c, d] = [a, b, c, d]"
  using assms by simp_all

lemma bytes16_front: "\<lbrakk> length ip = 16; list_all (\<lambda>b. b < 256) ip \<rbrakk> \<Longrightarrow>
    \<exists>a b r. ip = a # b # r \<and> length r = 14 \<and> a < 256 \<and> b < 256 \<and> list_all (\<lambda>b. b < (256::nat)) r"
  by (cases ip; cases "tl ip") auto

lemma v6_masks:
  assumes "length r = 14" "a < 256" "b < (256::nat)" "list_all (\<lambda>b. b < 256) r"
  shows "mask_bytes 7 (a # b # r) = (a div 2 * 2) # replicate 15 0"
    "mask_bytes 10 (a # b # r) = a # (b div 64 * 64) # replicate 14 0"
  using assms mask_bytes_none [of r] replicate_Suc [of 14 "0::nat"] by simp_all

lemma to4_twice [simp]: "to4 (to4 ip) = to4 ip"
  by (simp add: to4_def)

lemma check_ip_to4: "check_ip env (to4 ip) policy = check_ip env ip policy"
  by (simp add: check_ip_def to4_twice)

lemma forbidden_networks_parsed: "forbidden_networks env policy = ip_networks env policy"
  by (simp add: forbidden_networks_def forbidden_texts_def ip_networks_def parsed_networks)

lemma list_ex_guard:
  "list_ex P (if c then xs else []) \<longleftrightarrow> c \<and> list_ex P xs"
  "list_ex P (if c then [] else xs) \<longleftrightarrow> \<not> c \<and> list_ex P xs"
  by simp_all

lemma v4_contained:
  assumes "ip_ok ip" "to4 ip = [a, b, c, d]" 
  shows "list_ex (\<lambda>n. net_contains n ip) (ip_networks env policy) \<longleftrightarrow>
      [a, b, c, d] = [0, 0, 0, 0]
      \<or> [a, b, c, d] = [169, 254, 169, 254] \<or> [a, b, c, d] = [169, 254, 170, 2]
      \<or> (policy \<in> {PolicyStrict, PolicyLAN} \<and> \<not> se_test_allow_loopback env \<and> a = 127)
      \<or> (\<not> (policy = PolicyService \<and> se_link_local_services env) \<and> a = 169 \<and> b = 254)
      \<or> (policy = PolicyStrict \<and> (a = 10 \<or> a = 172 \<and> b div 16 * 16 = 16 \<or> a = 192 \<and> b = 168))"
proof -
  have len: "length (to4 ip) = 4" using assms(2) by simp
  have bytes: "a < 256" "b < 256" "c < 256" "d < 256"
    using to4_ok [OF assms(1)] assms(2) by (auto simp: ip_ok_def)
  note v4 = contains_v4 [OF _ _ assms(1)] v4_masks [OF bytes]
  have v6: "length nn = 16 \<Longrightarrow> to4 nn = nn \<Longrightarrow> \<not> net_contains (nn, n) ip" for nn n
    using len by (simp add: contains_v6)
  have "\<not> net_contains (replicate 16 0, 128) ip" "\<not> net_contains ([253,0,14,194,0,0,0,0,0,0,0,0,0,0,2,84], 128) ip"
    "\<not> net_contains (replicate 15 0 @ [1], 128) ip" "\<not> net_contains ([254,128] @ replicate 14 0, 10) ip"
    "\<not> net_contains (252 # replicate 15 0, 7) ip"
    by (rule v6; simp add: to4_def numeral_eq_Suc)+
  moreover have "net_contains ([0,0,0,0], 32) ip \<longleftrightarrow> [a, b, c, d] = [0, 0, 0, 0]"
    "net_contains ([169,254,169,254], 32) ip \<longleftrightarrow> [a, b, c, d] = [169, 254, 169, 254]"
    "net_contains ([169,254,170,2], 32) ip \<longleftrightarrow> [a, b, c, d] = [169, 254, 170, 2]"
    "net_contains ([127,0,0,0], 8) ip \<longleftrightarrow> a = 127" "net_contains ([169,254,0,0], 16) ip \<longleftrightarrow> a = 169 \<and> b = 254"
    "net_contains ([10,0,0,0], 8) ip \<longleftrightarrow> a = 10"
    "net_contains ([172,16,0,0], 12) ip \<longleftrightarrow> a = 172 \<and> b div 16 * 16 = 16"
    "net_contains ([192,168,0,0], 16) ip \<longleftrightarrow> a = 192 \<and> b = 168"
    using len bytes by (auto simp: v4 assms(2))
  ultimately show ?thesis
    by (simp only: ip_networks_def list_ex_append list_ex_Nil_iff list_ex_Cons_iff list_ex_guard simp_thms disj_assoc conj_assoc)
qed

lemma v6_closed:
  "to4 (replicate 16 0) = replicate 16 0" "to4 (replicate 15 0 @ [1]) = replicate 15 0 @ [1]"
  "to4 [253,0,14,194,0,0,0,0,0,0,0,0,0,0,2,84] = [253,0,14,194,0,0,0,0,0,0,0,0,0,0,2,84]"
  "to4 ([254,128] @ replicate 14 0) = [254,128] @ replicate 14 0" "to4 (252 # replicate 15 0) = 252 # replicate 15 0"
  "mask_bytes 10 ([254,128] @ replicate 14 0) = 254 # 128 # replicate 14 0"
  "mask_bytes 7 (252 # replicate 15 0) = 252 # replicate 15 0"
  by code_simp+

lemma v6_len: "length ([254,128] @ replicate 14 (0::nat)) = 16" "length (252 # replicate 15 (0::nat)) = 16"
  by simp_all

lemma v6_contained:
  assumes "ip_ok ip" "to4 ip = a # b # r" "length r = 14"
  shows "list_ex (\<lambda>n. net_contains n ip) (ip_networks env policy) \<longleftrightarrow>
      to4 ip = replicate 16 0 \<or> to4 ip = [253,0,14,194,0,0,0,0,0,0,0,0,0,0,2,84]
      \<or> (policy \<in> {PolicyStrict, PolicyLAN} \<and> \<not> se_test_allow_loopback env \<and> to4 ip = replicate 15 0 @ [1])
      \<or> (\<not> (policy = PolicyService \<and> se_link_local_services env) \<and> a = 254 \<and> b div 64 = 2)
      \<or> (policy = PolicyStrict \<and> a div 2 = 126)"
proof -
  have len: "length (to4 ip) = 16" using assms(2,3) by simp
  have bytes: "a < 256" "b < 256" "list_all (\<lambda>b. b < 256) r"
    using to4_ok [OF assms(1)] assms(2) by (auto simp: ip_ok_def)
  have v4: "length nn = 4 \<Longrightarrow> list_all (\<lambda>b. b < 256) nn \<Longrightarrow> \<not> net_contains (nn, n) ip" for nn n
    using len by (simp add: contains_v4 [OF _ _ assms(1)])
  have "\<not> net_contains ([0,0,0,0], 32) ip" "\<not> net_contains ([169,254,169,254], 32) ip"
    "\<not> net_contains ([169,254,170,2], 32) ip" "\<not> net_contains ([127,0,0,0], 8) ip"
    "\<not> net_contains ([169,254,0,0], 16) ip" "\<not> net_contains ([10,0,0,0], 8) ip"
    "\<not> net_contains ([172,16,0,0], 12) ip" "\<not> net_contains ([192,168,0,0], 16) ip"
    by (rule v4; simp)+
  moreover have c: "net_contains (nn, n) ip \<longleftrightarrow> mask_bytes n nn = mask_bytes n (to4 ip)"
    if "length nn = 16" "to4 nn = nn" for nn n
    using len that by (simp add: contains_v6)
  have full: "net_contains (nn, 128) ip \<longleftrightarrow> to4 ip = nn" if "length nn = 16" "to4 nn = nn" for nn
    using len that by (auto simp: c mask_bytes_full)
  have "net_contains (replicate 16 0, 128) ip \<longleftrightarrow> to4 ip = replicate 16 0"
    "net_contains ([253,0,14,194,0,0,0,0,0,0,0,0,0,0,2,84], 128) ip \<longleftrightarrow>
       to4 ip = [253,0,14,194,0,0,0,0,0,0,0,0,0,0,2,84]"
    "net_contains (replicate 15 0 @ [1], 128) ip \<longleftrightarrow> to4 ip = replicate 15 0 @ [1]"
    by (rule full; simp add: v6_closed del: One_nat_def)+
  moreover have "net_contains ([254,128] @ replicate 14 0, 10) ip \<longleftrightarrow> a = 254 \<and> b div 64 = 2"
    unfolding c [OF v6_len(1) v6_closed(4)] v6_closed assms(2)
      v6_masks(2) [OF assms(3) bytes] by auto
  moreover have "net_contains (252 # replicate 15 0, 7) ip \<longleftrightarrow> a div 2 = 126"
    unfolding c [OF v6_len(2) v6_closed(5)] v6_closed assms(2) v6_masks(1) [OF assms(3) bytes] by auto
  ultimately show ?thesis
    by (simp only: ip_networks_def list_ex_append list_ex_Nil_iff list_ex_Cons_iff list_ex_guard simp_thms disj_assoc conj_assoc)
qed

lemma check_ip_v4:
  assumes "to4 ip = [a, b, c, d]"
  shows "check_ip env ip policy = None \<longleftrightarrow> \<not> (
      [a, b, c, d] = [0, 0, 0, 0]
      \<or> [a, b, c, d] = [169, 254, 169, 254] \<or> [a, b, c, d] = [169, 254, 170, 2]
      \<or> (policy \<in> {PolicyStrict, PolicyLAN} \<and> \<not> se_test_allow_loopback env \<and> a = 127)
      \<or> (\<not> (policy = PolicyService \<and> se_link_local_services env) \<and> a = 169 \<and> b = 254)
      \<or> (policy = PolicyStrict \<and> (a = 10 \<or> a = 172 \<and> b div 16 * 16 = 16 \<or> a = 192 \<and> b = 168)))"
proof -
  have t: "to4 [a, b, c, d] = [a, b, c, d]" by (simp add: to4_def)
  have zeros4: "replicate 4 0 = [0, 0, 0, 0::nat]" "[a, b, c, d] \<noteq> replicate 16 0" "[a, b, c, d] \<noteq> replicate 15 0 @ [1]"
    by (simp_all add: numeral_eq_Suc)
  have r: "16 \<le> b \<and> b \<le> 31 \<longleftrightarrow> b div 16 * 16 = 16" by arith
  show ?thesis
    unfolding check_ip_def assms Let_def is_unspecified_def is_loopback_def is_link_local_unicast_def
      is_cloud_metadata_def is_rfc1918_def is_ipv6_ula_def t
    by (cases policy) (auto simp: r [symmetric] zeros4)
qed

lemma check_ip_v6:
  assumes "to4 ip = a # b # r" "length r = 14"
  shows "check_ip env ip policy = None \<longleftrightarrow> \<not> (
      to4 ip = replicate 16 0 \<or> to4 ip = [253,0,14,194,0,0,0,0,0,0,0,0,0,0,2,84]
      \<or> (policy \<in> {PolicyStrict, PolicyLAN} \<and> \<not> se_test_allow_loopback env \<and> to4 ip = replicate 15 0 @ [1])
      \<or> (\<not> (policy = PolicyService \<and> se_link_local_services env) \<and> a = 254 \<and> b div 64 = 2)
      \<or> (policy = PolicyStrict \<and> a div 2 = 126))"
proof -
  have len: "length (to4 ip) = 16" using assms by simp
  then have "to4 ip \<noteq> replicate 4 0" by auto
  then show ?thesis
    unfolding check_ip_def Let_def is_unspecified_def is_loopback_def is_link_local_unicast_def
      is_cloud_metadata_def is_rfc1918_def is_ipv6_ula_def to4_twice
    using len parsed_networks(14) by (cases policy) (auto simp: assms(1))
qed

lemma address_check:
  assumes "ip_ok ip"
  shows "check_ip env ip policy = None \<longleftrightarrow> \<not> list_ex (\<lambda>n. net_contains n ip) (forbidden_networks env policy)"
proof -
  have ok: "length (to4 ip) = 4 \<or> length (to4 ip) = 16" "list_all (\<lambda>b. b < 256) (to4 ip)"
    using to4_ok [OF assms] by (auto simp: ip_ok_def)
  from ok(1) show ?thesis
  proof
    assume "length (to4 ip) = 4"
    then obtain a b c d where "to4 ip = [a, b, c, d]" using bytes4 [OF _ ok(2)] by blast
    then show ?thesis
      by (simp only: forbidden_networks_parsed v4_contained [OF assms] check_ip_v4)
  next
    assume "length (to4 ip) = 16"
    then obtain a b r where "to4 ip = a # b # r" "length r = 14" using bytes16_front [OF _ ok(2)] by blast
    then show ?thesis
      by (simp only: forbidden_networks_parsed v6_contained [OF assms] check_ip_v6)
  qed
qed

text \<open>The address check refuses exactly the addresses of the networks its policy names. For every
  well-formed IPv4 or IPv6 address, mapped addresses included, \<open>checkIP\<close> lets it pass if and only if no
  network of the policy's list, as Go's \<open>ParseCIDR\<close> and \<open>Contains\<close> read it, contains the address: the
  unspecified and the metadata addresses always, loopback, link-local and the private ranges as each
  policy and the operator's opt-in say.\<close>

theorem check_ip_networks:
  assumes "ip_ok ip"
  shows "check_ip env ip policy = None \<longleftrightarrow> \<not> list_ex (\<lambda>n. net_contains n ip) (forbidden_networks env policy)"
  by (rule address_check [OF assms])

theorem check_ip_networks_witness:
  "ip_ok [169, 254, 1, 2] \<and>
   check_ip \<lparr> se_link_local_services = True, se_test_allow_loopback = False \<rparr> [169, 254, 1, 2] PolicyService = None \<and>
   \<not> list_ex (\<lambda>n. net_contains n [169, 254, 1, 2])
      (forbidden_networks \<lparr> se_link_local_services = True, se_test_allow_loopback = False \<rparr> PolicyService)"
  using check_ip_networks [of "[169, 254, 1, 2]" "\<lparr> se_link_local_services = True, se_test_allow_loopback = False \<rparr>" PolicyService]
  by (simp add: ip_ok_def check_ip_def to4_def is_unspecified_def is_loopback_def is_link_local_unicast_def
      is_cloud_metadata_def numeral_eq_Suc)

lemma check_all_ok: "check_all env policy ips = None \<longleftrightarrow> list_all (\<lambda>ip. check_ip env ip policy = None) ips"
  by (induction ips) (auto split: option.splits)

lemma try_addresses_tried:
  "try_addresses dial ips = (tried, reached) \<Longrightarrow>
    set tried \<subseteq> set ips \<and> (case reached of None \<Rightarrow> True | Some ip \<Rightarrow> ip \<in> set tried \<and> dial ip = Connects)"
  by (induction ips arbitrary: tried) (auto split: attempt.splits prod.splits option.splits)

lemma dial_checked:
  assumes "new_dial_context env lookup dial policy redirect_hop addr = (tried, result)"
  shows "ip \<in> set tried \<Longrightarrow> check_ip env ip (dial_policy policy redirect_hop) = None
      \<and> (\<exists>h. parse_ip h = Some ip \<or> (\<exists>ips. lookup h = Some ips \<and> ip \<in> set ips))"
    and "result = DialConnected ip \<Longrightarrow> ip \<in> set tried \<and> dial ip = Connects"
  using assms unfolding new_dial_context_def Let_def
  by (auto simp: check_all_ok list_all_iff split: option.splits prod.splits if_splits dest!: try_addresses_tried)

text \<open>C25: no connection is attempted to a forbidden address. Whatever the address text, the resolver's answer
  (well-formed addresses, as the resolver returns them) and the network do, every address that the
  guarded dial tries lies outside all networks that the policy of this hop refuses, which for a followed
  redirect of a service URL no longer includes the link-local allowance; and a connection it returns is
  one it tried.\<close>

theorem dial_respects_policy:
  assumes "\<And>h ips. lookup h = Some ips \<Longrightarrow> list_all ip_ok ips"
    and "new_dial_context env lookup dial policy redirect_hop addr = (tried, result)"
  shows "(\<forall>ip \<in> set tried. \<not> list_ex (\<lambda>n. net_contains n ip)
        (forbidden_networks env (if policy = PolicyService \<and> redirect_hop then PolicyLANLoopback else policy)))
    \<and> (\<forall>ip. result = DialConnected ip \<longrightarrow> ip \<in> set tried \<and> dial ip = Connects)"
proof (intro conjI ballI allI impI)
  fix ip assume tried: "ip \<in> set tried"
  have "ip_ok ip" using dial_checked(1) [OF assms(2) tried] assms(1) parse_ip_ok by (auto simp: list_all_iff)
  then show "\<not> list_ex (\<lambda>n. net_contains n ip) (forbidden_networks env (if policy = PolicyService \<and> redirect_hop then PolicyLANLoopback else policy))"
    using dial_checked(1) [OF assms(2) tried] address_check unfolding dial_policy_def by blast
qed (use dial_checked(2) [OF assms(2)] in auto)

theorem dial_respects_policy_witness:
  "new_dial_context \<lparr> se_link_local_services = True, se_test_allow_loopback = False \<rparr>
      (\<lambda>h. if h = ''nas'' then Some [[192, 168, 1, 9], [10, 0, 0, 9]] else None)
      (\<lambda>ip. if ip = [10, 0, 0, 9] then Connects else Fails) PolicyService True ''nas:8080''
     = ([[192, 168, 1, 9], [10, 0, 0, 9]], DialConnected [10, 0, 0, 9]) \<and>
   \<not> list_ex (\<lambda>n. net_contains n [10, 0, 0, 9])
      (forbidden_networks \<lparr> se_link_local_services = True, se_test_allow_loopback = False \<rparr> PolicyLANLoopback)"
proof -
  let ?env = "\<lparr> se_link_local_services = True, se_test_allow_loopback = False \<rparr>"
  let ?lookup = "\<lambda>h. if h = ''nas'' then Some [[192, 168, 1, 9], [10, 0, 0, 9]] else None"
  let ?dial = "\<lambda>ip. if ip = [10, 0, 0, 9::nat] then Connects else Fails"
  have run: "new_dial_context ?env ?lookup ?dial PolicyService True ''nas:8080''
      = ([[192, 168, 1, 9], [10, 0, 0, 9]], DialConnected [10, 0, 0, 9])"
    by code_simp
  have names: "\<And>h ips. ?lookup h = Some ips \<Longrightarrow> list_all ip_ok ips"
    by (auto simp: ip_ok_def split: if_splits)
  show ?thesis using dial_respects_policy [OF names run] run by simp
qed

end
