(* ===== verification/Author_Name.thy ===== *)
theory Author_Name
  imports Go_Strings "HOL-Library.Multiset"
begin

text \<open>
  \<open>internal/textutil/authorquery.go\<close>: the sort form of an author's name and the queries a name is
  looked up by. The Unicode tables beyond ASCII are arguments, and so is \<open>NormalizeAuthorName\<close>
  (\<open>norm_name\<close>), which rests on Unicode normalisation.
\<close>

record rune_tables =
  rt_uc :: unicode
  rt_upper_string :: "string \<Rightarrow> string"
  rt_letter :: "nat \<Rightarrow> bool"
  rt_digit :: "nat \<Rightarrow> bool"
  rt_upper :: "nat \<Rightarrow> bool"
  rt_to_upper :: "nat \<Rightarrow> nat"
  rt_to_lower :: "nat \<Rightarrow> nat"
  rt_cjk :: "nat \<Rightarrow> bool"

definition ascii_tables :: rune_tables where
  "ascii_tables = \<lparr> rt_uc = ascii_uc, rt_upper_string = (\<lambda>s. s), rt_letter = (\<lambda>r. False), rt_digit = (\<lambda>r. False),
     rt_upper = (\<lambda>r. False), rt_to_upper = (\<lambda>r. r), rt_to_lower = (\<lambda>r. r), rt_cjk = (\<lambda>r. False) \<rparr>"

text \<open>\<open>unicode.IsLetter\<close>, \<open>IsDigit\<close>, \<open>IsUpper\<close>, \<open>ToUpper\<close> and \<open>ToLower\<close>; the script tables hold no ASCII rune.\<close>

definition upper_rune :: "nat \<Rightarrow> bool" where
  "upper_rune r \<longleftrightarrow> 65 \<le> r \<and> r \<le> 90"

definition lower_rune :: "nat \<Rightarrow> bool" where
  "lower_rune r \<longleftrightarrow> 97 \<le> r \<and> r \<le> 122"

definition is_letter :: "rune_tables \<Rightarrow> nat \<Rightarrow> bool" where
  "is_letter rt r \<longleftrightarrow> (if r < 128 then upper_rune r \<or> lower_rune r else rt_letter rt r)"

definition is_digit_rune :: "rune_tables \<Rightarrow> nat \<Rightarrow> bool" where
  "is_digit_rune rt r \<longleftrightarrow> (if r < 128 then 48 \<le> r \<and> r \<le> 57 else rt_digit rt r)"

definition is_upper :: "rune_tables \<Rightarrow> nat \<Rightarrow> bool" where
  "is_upper rt r \<longleftrightarrow> (if r < 128 then upper_rune r else rt_upper rt r)"

definition rune_to_upper :: "rune_tables \<Rightarrow> nat \<Rightarrow> nat" where
  "rune_to_upper rt r = (if r < 128 then (if lower_rune r then r - 32 else r) else rt_to_upper rt r)"

definition rune_to_lower :: "rune_tables \<Rightarrow> nat \<Rightarrow> nat" where
  "rune_to_lower rt r = (if r < 128 then (if upper_rune r then r + 32 else r) else rt_to_lower rt r)"

definition to_upper :: "rune_tables \<Rightarrow> string \<Rightarrow> string" where
  "to_upper rt s = (if is_ascii s then map (\<lambda>c. char_of (rune_to_upper rt (byte_of c))) s else rt_upper_string rt s)"

subsection \<open>Sort names\<close>

definition trailing_particles :: "string list" where
  "trailing_particles = [''von'', ''zu'', ''van'', ''der'', ''den'', ''ter'', ''ten'', ''de'', ''del'', ''da'',
     ''das'', ''dos'', ''do'', ''d'' @ [CHR 0x27], ''af'', ''av'']"

definition leading_particles :: "string list" where
  "leading_particles = [''le'', ''la'', ''les'', ''du'', ''des'', ''el'', ''los'', ''las'', ''ver'', ''mac'',
     ''mc'', ''o'' @ [CHR 0x27], ''fitz'', ''st'', ''saint'']"

definition generational_suffixes :: "string list" where
  "generational_suffixes = [''jr'', ''sr'', ''ii'', ''iii'', ''iv'']"

definition particle_key :: "rune_tables \<Rightarrow> string \<Rightarrow> string" where
  "particle_key rt tok = trim_suffix (to_lower (rt_uc rt) tok) ''.''"

definition starts_upper :: "rune_tables \<Rightarrow> string \<Rightarrow> bool" where
  "starts_upper rt tok = (case runes tok of [] \<Rightarrow> False | r # _ \<Rightarrow> is_upper rt r)"

text \<open>Letters other than those of the CJK scripts decide at once.\<close>

definition is_all_cjk :: "rune_tables \<Rightarrow> string \<Rightarrow> bool" where
  "is_all_cjk rt s =
     (let letters = filter (is_letter rt) (runes s) in
      letters \<noteq> [] \<and> list_all (\<lambda>r. 128 \<le> r \<and> rt_cjk rt r) letters)"

definition capitalise_first :: "rune_tables \<Rightarrow> string \<Rightarrow> string" where
  "capitalise_first rt s =
     (case runes s of
        [] \<Rightarrow> s
      | r # _ \<Rightarrow> encode_rune (rune_to_upper rt r) @ drop (length (encode_rune r)) s)"

text \<open>A word that belongs to the run of particles before the last word.\<close>

definition is_particle :: "rune_tables \<Rightarrow> string \<Rightarrow> bool" where
  "is_particle rt tok \<longleftrightarrow> particle_key rt tok \<in> set trailing_particles \<or> particle_key rt tok \<in> set leading_particles"

text \<open>
  Where the run starts, and where the surname does: the loop walks back from the last word but one and
  never reaches the first.
\<close>

definition run_start :: "rune_tables \<Rightarrow> string list \<Rightarrow> nat" where
  "run_start rt parts = length parts - 1 - length (takeWhile (is_particle rt) (rev (tl (butlast parts))))"

definition surname_start :: "rune_tables \<Rightarrow> string list \<Rightarrow> nat" where
  "surname_start rt parts =
     (let start = run_start rt parts; last_i = length parts - 1 in
      if start < last_i then
        (let first = parts ! start; k = particle_key rt first in
         if k \<in> set leading_particles then start
         else if k \<in> set trailing_particles \<and> \<not> starts_upper rt first then last_i
         else start)
      else last_i)"

definition sort_name :: "rune_tables \<Rightarrow> string \<Rightarrow> string" where
  "sort_name rt name =
     (let s = trim_space name in
      if s = [] \<or> CHR '','' \<in> set s then name
      else
        (let parts0 = str_fields s in
         if length parts0 < 2 \<or> is_all_cjk rt s then name
         else
           (let has_suffix = (2 < length parts0 \<and> particle_key rt (List.last parts0) \<in> set generational_suffixes);
                suffix = (if has_suffix then [List.last parts0] else []);
                parts = (if has_suffix then butlast parts0 else parts0)
            in if length parts < 2 then name
               else
                 (let start = run_start rt parts; surname_i = surname_start rt parts;
                      forename = take start parts @ take (surname_i - start) (drop start parts) @ suffix;
                      surname0 = str_join '' '' (drop surname_i parts);
                      surname = (if surname_i < length parts - 1 \<and> \<not> starts_upper rt (parts ! surname_i)
                                 then capitalise_first rt surname0 else surname0)
                  in if forename = [] then name
                     else surname @ '', '' @ str_join '' '' forename))))"

subsection \<open>Search queries\<close>

definition author_initial :: "rune_tables \<Rightarrow> string \<Rightarrow> string option" where
  "author_initial rt token =
     (let letters = map (rune_to_lower rt) (filter (\<lambda>r. is_letter rt r \<or> is_digit_rune rt r) (runes token)) in
      if length letters \<noteq> 1 then None else Some (encode_rune (hd letters)))"

definition compact_initials_author_query :: "rune_tables \<Rightarrow> string \<Rightarrow> string" where
  "compact_initials_author_query rt name =
     (let fs = str_fields name in
      if length fs < 3 then []
      else
        (let lead = takeWhile (\<lambda>f. author_initial rt f \<noteq> None) (butlast fs);
             initials = map (\<lambda>f. to_upper rt (the (author_initial rt f)) @ ''.'') lead
         in if length initials < 2 then []
            else concat initials @ '' '' @ str_join '' '' (drop (length lead) fs)))"

definition initialed_surname_fallback :: "string \<Rightarrow> string" where
  "initialed_surname_fallback normalized =
     (let fs = str_fields normalized in
      if length fs < 2 then []
      else if list_ex (\<lambda>f. length (runes f) \<noteq> 1) (butlast fs) then []
      else List.last fs)"

fun dedupe_from :: "unicode \<Rightarrow> string list \<Rightarrow> string list \<Rightarrow> string list" where
  "dedupe_from uc seen [] = []"
| "dedupe_from uc seen (v # vs) =
     (let value = trim_space v; key = to_lower uc value in
      if value = [] \<or> key \<in> set seen then dedupe_from uc seen vs
      else value # dedupe_from uc (key # seen) vs)"

definition dedupe_fold :: "unicode \<Rightarrow> string list \<Rightarrow> string list" where
  "dedupe_fold uc values = dedupe_from uc [] values"

definition author_search_queries :: "rune_tables \<Rightarrow> (string \<Rightarrow> string) \<Rightarrow> string \<Rightarrow> string list" where
  "author_search_queries rt norm_name name0 =
     (let name = trim_space name0 in
      if name = [] then []
      else
        (let compact = compact_initials_author_query rt name;
             norm = norm_name name;
             surname = (if norm = [] then [] else initialed_surname_fallback norm)
         in dedupe_fold (rt_uc rt)
              ([name] @ (if compact = [] then [] else [compact]) @ (if norm = [] then [] else [norm])
               @ (if surname = [] then [] else [surname]))))"

subsection \<open>What the sort form keeps\<close>

lemma trim_keeps_comma: "CHR '','' \<in> set s \<Longrightarrow> CHR '','' \<in> set (trim_space s)"
  unfolding trim_space_def trim_left_def trim_right_def set_rev
  by (rule strip_lead_keeps, simp add: space1_def space2_def space3_def, simp,
      rule strip_lead_keeps, simp_all add: space1_def space2_def space3_def)

lemma run_start_le: "run_start rt parts \<le> length parts - 1"
  by (simp add: run_start_def)

lemma surname_start_range:
  assumes "2 \<le> length parts"
  shows "run_start rt parts \<le> surname_start rt parts" "surname_start rt parts \<le> length parts - 1" "1 \<le> run_start rt parts"
proof -
  have "length (takeWhile (is_particle rt) (rev (tl (butlast parts)))) \<le> length parts - 2"
    using length_takeWhile_le [of "is_particle rt" "rev (tl (butlast parts))"] by simp
  then show "1 \<le> run_start rt parts" using assms by (simp add: run_start_def)
qed (use run_start_le [of rt parts] in \<open>auto simp: surname_start_def Let_def\<close>)

lemma sort_name_form:
  "sort_name rt name = name \<or> (\<exists>parts suffix i sur. 2 \<le> length parts \<and> 1 \<le> i \<and> i \<le> length parts - 1 \<and>
     parts @ suffix = str_fields (trim_space name) \<and>
     sur \<in> {str_join '' '' (drop i parts), capitalise_first rt (str_join '' '' (drop i parts))} \<and>
     sort_name rt name = sur @ '', '' @ str_join '' '' (take i parts @ suffix))"
proof -
  have front: "take (run_start rt parts) parts @
      take (surname_start rt parts - run_start rt parts) (drop (run_start rt parts) parts) @ suffix
      = take (surname_start rt parts) parts @ suffix" if "2 \<le> length parts" for parts suffix
    using surname_start_range(1) [OF that] by (metis append.assoc le_add_diff_inverse take_add)
  define fs where "fs = str_fields (trim_space name)"
  define hs where "hs = (2 < length fs \<and> particle_key rt (List.last fs) \<in> set generational_suffixes)"
  define parts where "parts = (if hs then butlast fs else fs)"
  define suffix where "suffix = (if hs then [List.last fs] else [])"
  have split: "parts @ suffix = fs"
    by (cases "fs = []") (simp_all add: parts_def suffix_def hs_def)
  show ?thesis
  proof (cases "sort_name rt name = name")
    case False
    then have two: "2 \<le> length parts"
      by (auto simp: sort_name_def Let_def fs_def [symmetric] hs_def [symmetric] parts_def split: if_splits)
    define sur where "sur = (if surname_start rt parts < length parts - 1 \<and> \<not> starts_upper rt (parts ! surname_start rt parts)
                 then capitalise_first rt (str_join '' '' (drop (surname_start rt parts) parts))
                 else str_join '' '' (drop (surname_start rt parts) parts))"
    have "sort_name rt name = sur @ '', '' @ str_join '' '' (take (surname_start rt parts) parts @ suffix)"
      using False two
      by (simp add: sort_name_def Let_def fs_def [symmetric] hs_def [symmetric] parts_def [symmetric]
          suffix_def [symmetric] sur_def front split: if_splits; auto)
    moreover have "sur \<in> {str_join '' '' (drop (surname_start rt parts) parts),
        capitalise_first rt (str_join '' '' (drop (surname_start rt parts) parts))}"
      by (simp add: sur_def)
    ultimately show ?thesis
      using split two surname_start_range [OF two] unfolding fs_def by (meson le_trans)
  qed simp
qed

lemma sort_name_comma: "CHR '','' \<in> set name \<Longrightarrow> sort_name rt name = name"
  by (simp add: sort_name_def trim_keeps_comma)

text \<open>The sort form is stable and loses no word. Applying \<open>SortName\<close> to its own result changes nothing, and
  a name it rewrites consists of exactly the same words, split into a surname and a forename part that are
  both non-empty and joined by ", ", where at most the first letter of the surname is capitalised.\<close>

theorem sort_name_rearranges:
  "sort_name rt (sort_name rt name) = sort_name rt name \<and>
   (sort_name rt name = name \<or>
    (\<exists>surname forename s. surname \<noteq> [] \<and> forename \<noteq> [] \<and>
       mset (surname @ forename) = mset (str_fields (trim_space name)) \<and>
       s \<in> {str_join '' '' surname, capitalise_first rt (str_join '' '' surname)} \<and>
       sort_name rt name = s @ '', '' @ str_join '' '' forename))"
proof (cases "sort_name rt name = name")
  case False
  then obtain parts suffix i s where f: "2 \<le> length parts" "1 \<le> i" "i \<le> length parts - 1"
    "parts @ suffix = str_fields (trim_space name)"
    "s \<in> {str_join '' '' (drop i parts), capitalise_first rt (str_join '' '' (drop i parts))}"
    "sort_name rt name = s @ '', '' @ str_join '' '' (take i parts @ suffix)"
    using sort_name_form [of rt name] by blast
  have "mset (drop i parts @ take i parts @ suffix) = mset (str_fields (trim_space name))"
    unfolding f(4) [symmetric] by (metis append_take_drop_id mset_append union_assoc union_commute)
  moreover have "sort_name rt (sort_name rt name) = sort_name rt name"
    by (rule sort_name_comma) (simp add: f(6))
  moreover have "drop i parts \<noteq> []" "take i parts @ suffix \<noteq> []" using f(1-3) by auto
  ultimately show ?thesis using f(5,6) by blast
qed simp

end
