(* ===== verification/Naming.thy ===== *)
theory Naming
  imports Author_Name Go_Path Go_Strconv
begin

text \<open>
  \<open>internal/importer/renamer.go\<close>: the naming templates that decide where an imported book is stored,
  on a POSIX path flavour with the Windows trimming as a flag, and \<open>pathkey.go\<close>. What a content sniff of
  the source file finds is an argument.
\<close>

subsection \<open>Values made safe for a path\<close>

definition max_path_component_bytes :: nat where
  "max_path_component_bytes = 200"

definition max_segment_bytes :: nat where
  "max_segment_bytes = 255 - (length ''.bindery-stage-'' + 19 + 1) - length '' (999)''"

definition path_char :: "char \<Rightarrow> string" where
  "path_char c =
     (if c \<in> {CHR ''/'', CHR 0x5C, CHR '':''} then ''-''
      else if c \<in> {CHR ''*'', CHR ''?'', CHR 0x22, CHR ''<'', CHR ''>'', CHR ''|''} then []
      else [c])"

definition path_char_replace :: "string \<Rightarrow> string" where
  "path_char_replace s = concat (map path_char s)"

definition printable :: "nat \<Rightarrow> bool" where
  "printable r \<longleftrightarrow> \<not> (r < 32 \<or> r = 127)"

definition sanitize_inline :: "string \<Rightarrow> string" where
  "sanitize_inline s = keep_runes printable (path_char_replace s)"

text \<open>One component of a value: trimmed, dropped when it is a traversal, cut to its budget.\<close>

definition sanitize_part :: "string \<Rightarrow> string list" where
  "sanitize_part p0 =
     (let p = trim_space p0 in
      if p = [] \<or> p = ''.'' \<or> p = ''..'' then []
      else [if length p > max_path_component_bytes then trim_space (truncate_utf8 p max_path_component_bytes) else p])"

definition sanitize_path :: "string \<Rightarrow> string" where
  "sanitize_path s0 =
     (let s = replace_all '': '' '' - '' (replace_all '' : '' '' - '' s0);
          cleaned = keep_runes printable (trim_space (path_char_replace s));
          kept = concat (map sanitize_part (split_on CHR ''/'' cleaned))
      in if kept = [] then [] else str_join ''/'' kept)"

subsection \<open>The groups of a template\<close>

text \<open>
  The literals around the groups, one more than the groups, and what stands between the braces of
  each: the matches of \<open>templateGroupRe\<close> from left to right.
\<close>

definition onto_first :: "char \<Rightarrow> string list \<times> string list \<Rightarrow> string list \<times> string list" where
  "onto_first c r = ((c # hd (fst r)) # tl (fst r), snd r)"

abbreviation not_brace :: "char \<Rightarrow> bool" where
  "not_brace \<equiv> \<lambda>c. c \<noteq> CHR ''{'' \<and> c \<noteq> CHR ''}''"

lemma dropWhile_tl_shorter: "length (tl (dropWhile P s)) \<le> length s"
  using length_dropWhile_le [of P s] by simp

function template_groups :: "string \<Rightarrow> string list \<times> string list" where
  "template_groups [] = ([[]], [])"
| "template_groups (c # s) =
     (if c = CHR ''{'' \<and> dropWhile not_brace s \<noteq> [] \<and> hd (dropWhile not_brace s) = CHR ''}'' then
        (let r = template_groups (tl (dropWhile not_brace s))
         in ([] # fst r, takeWhile not_brace s # snd r))
      else onto_first c (template_groups s))"
  by pat_completeness auto

termination
  by (relation "measure length") (auto intro: le_imp_less_Suc dropWhile_tl_shorter [simplified])

definition word_char :: "char \<Rightarrow> bool" where
  "word_char c \<longleftrightarrow> dec_digit c \<or> (65 \<le> byte_of c \<and> byte_of c \<le> 90) \<or> (97 \<le> byte_of c \<and> byte_of c \<le> 122) \<or> c = CHR ''_''"

text \<open>\<open>simpleGroupRe\<close>: the keyword and its modifier, empty when there is none.\<close>

definition simple_group :: "string \<Rightarrow> (string \<times> string) option" where
  "simple_group content =
     (let w = takeWhile word_char content; r = dropWhile word_char content in
      if w = [] then None
      else if r = [] then Some (w, [])
      else if hd r = CHR '':'' \<and> list_all not_brace (tl r) then Some (w, tl r)
      else None)"

definition width_then_literal :: "string \<Rightarrow> bool" where
  "width_then_literal m =
     (let d = takeWhile dec_digit m in 1 \<le> length d \<and> length d \<le> 2 \<and> length d < length m)"

text \<open>\<open>groupWordRe\<close>: the words of a group, each after the text since the last match and with its width.\<close>

definition width_after :: "string \<Rightarrow> string" where
  "width_after r = (if r \<noteq> [] \<and> hd r = CHR '':'' then take 2 (takeWhile dec_digit (tl r)) else [])"

definition width_text :: "string \<Rightarrow> string" where
  "width_text wd = (if wd = [] then [] else CHR '':'' # wd)"

lemma dropWhile_word_shorter:
  assumes "dropWhile (\<lambda>c. \<not> word_char c) s \<noteq> []"
  shows "length (dropWhile word_char (dropWhile (\<lambda>c. \<not> word_char c) s)) < length s"
proof -
  obtain x xs where x: "dropWhile (\<lambda>c. \<not> word_char c) s = x # xs" using assms by (cases "dropWhile (\<lambda>c. \<not> word_char c) s") auto
  then have "word_char x" using hd_dropWhile [of "\<lambda>c. \<not> word_char c" s] by simp
  moreover have "length (x # xs) \<le> length s" using x length_dropWhile_le [of "\<lambda>c. \<not> word_char c" s] by simp
  ultimately show ?thesis using x length_dropWhile_le [of word_char xs] by simp
qed

function group_words :: "string \<Rightarrow> (string \<times> string \<times> string) list \<times> string" where
  "group_words s =
     (let r = dropWhile (\<lambda>c. \<not> word_char c) s in
      if r = [] then ([], s)
      else
        (let w = takeWhile word_char r; r2 = dropWhile word_char r; wd = width_after r2;
             rest = group_words (drop (length (width_text wd)) r2)
         in ((takeWhile (\<lambda>c. \<not> word_char c) s, w, wd) # fst rest, snd rest)))"
  by pat_completeness auto

termination
  by (relation "measure length") (auto intro: le_less_trans [OF diff_le_self dropWhile_word_shorter])

declare group_words.simps [simp del]

subsection \<open>Rendering a group\<close>

definition parse_width :: "string \<Rightarrow> nat option" where
  "parse_width md =
     (if md = [] \<or> 2 < length md \<or> \<not> list_all dec_digit md then None
      else (let w = nat (digits_value md) in if w > 0 then Some w else None))"

definition zero_pad :: "string \<Rightarrow> nat \<Rightarrow> string" where
  "zero_pad v width =
     (if v = [] \<or> length v \<ge> width then v
      else if \<not> list_all dec_digit v then v
      else replicate (width - length v) CHR ''0'' @ v)"

type_synonym naming_values = "string \<Rightarrow> string option"

text \<open>
  The words of a conditional group: whether one is a token, whether one has a value, and the text.
  \<open>lit\<close> is the literal text since the last token.
\<close>

fun render_words :: "naming_values \<Rightarrow> string \<Rightarrow> (string \<times> string \<times> string) list \<Rightarrow> string \<Rightarrow> bool \<times> bool \<times> string" where
  "render_words values lit [] rest = (False, False, sanitize_inline (lit @ rest))"
| "render_words values lit ((gap, w, wd) # ws) rest =
     (case values w of
        None \<Rightarrow> render_words values (lit @ gap @ w @ width_text wd) ws rest
      | Some v0 \<Rightarrow>
          (let v = (case parse_width wd of None \<Rightarrow> v0 | Some n \<Rightarrow> zero_pad v0 n);
               (known, valued, out) = render_words values [] ws rest
           in (True, v \<noteq> [] \<or> valued, sanitize_inline (lit @ gap) @ v @ out)))"

text \<open>\<open>None\<close>: no known token, the caller keeps the group as written.\<close>

definition render_conditional :: "naming_values \<Rightarrow> string \<Rightarrow> string option" where
  "render_conditional values content =
     (let (ws, rest) = group_words content; (known, valued, out) = render_words values [] ws rest
      in if \<not> known then None else if \<not> valued then Some [] else Some out)"

definition render_group :: "naming_values \<Rightarrow> string \<Rightarrow> string option" where
  "render_group values content =
     (case simple_group content of
        Some (word, md) \<Rightarrow>
          if width_then_literal md then render_conditional values content
          else
            (case values word of
               None \<Rightarrow> None
             | Some v \<Rightarrow>
                 Some (if md = [] then v
                       else (case parse_width md of
                               Some w \<Rightarrow> zero_pad v w
                             | None \<Rightarrow> if v = [] then sanitize_path md else v)))
      | None \<Rightarrow> render_conditional values content)"

subsection \<open>A segment within its budget\<close>

fun join_lits :: "string list \<Rightarrow> string list \<Rightarrow> string" where
  "join_lits (l # ls) (v # vs) = l @ v @ join_lits ls vs"
| "join_lits ls vs = concat ls"

text \<open>A value under a byte cap; values that are no token's are left alone.\<close>

definition cap_value :: "nat \<Rightarrow> string \<times> bool \<Rightarrow> string" where
  "cap_value budget p =
     (if snd p \<and> length (fst p) > budget then trim_right_set (truncate_utf8 (fst p) budget) '' '' else fst p)"

definition fit :: "string list \<Rightarrow> (string \<times> bool) list \<Rightarrow> nat \<Rightarrow> string" where
  "fit lits vals budget = join_lits lits (map (cap_value budget) vals)"

text \<open>The bisection: \<open>lo\<close> fits and gives \<open>best\<close>, \<open>hi\<close> does not fit.\<close>

function bisect_cap :: "(nat \<Rightarrow> string) \<Rightarrow> nat \<Rightarrow> nat \<Rightarrow> string \<Rightarrow> string" where
  "bisect_cap fitted lo hi best =
     (if lo + 1 < hi then
        (let mid = (lo + hi) div 2; s = fitted mid in
         if length s \<le> max_segment_bytes then bisect_cap fitted mid hi s else bisect_cap fitted lo mid best)
      else best)"
  by pat_completeness auto

termination
  by (relation "measure (\<lambda>(fitted, lo, hi, best). hi - lo)") auto

declare bisect_cap.simps [simp del]

definition compose_capped :: "string list \<Rightarrow> (string \<times> bool) list \<Rightarrow> string" where
  "compose_capped lits vals =
     (let full = join_lits lits (map fst vals) in
      if length full \<le> max_segment_bytes then full
      else
        (let best = fit lits vals 0 in
         if \<not> length best \<le> max_segment_bytes then truncate_utf8 best max_segment_bytes
         else bisect_cap (fit lits vals) 0 (max_segment_bytes + 1) best))"

text \<open>The separators after leading empty tokens are dropped.\<close>

fun drop_glue :: "string list \<Rightarrow> string list \<Rightarrow> string list" where
  "drop_glue (l # l2 # ls) (v # vs) =
     (if v \<noteq> [] \<or> trim_space l \<noteq> [] then l # l2 # ls else l # drop_glue ([] # ls) vs)"
| "drop_glue ls vs = ls"

definition render_segment :: "string \<Rightarrow> naming_values \<Rightarrow> string" where
  "render_segment seg values =
     (let (lits, contents) = template_groups seg in
      if contents = [] then trim_space (truncate_utf8 (trim_space seg) max_segment_bytes)
      else
        (let vals = map (\<lambda>content. case render_group values content of
                           None \<Rightarrow> (''{'' @ content @ ''}'', False) | Some v \<Rightarrow> (v, True)) contents
         in trim_space (compose_capped (drop_glue lits (map fst vals)) vals)))"

subsection \<open>Rendering a template\<close>

record naming_book =
  nb_title :: string
  nb_asin :: string
  nb_year :: "int option"
  nb_genres :: "string list"
  nb_language :: string
  nb_narrator :: string

definition first_genre :: "string list \<Rightarrow> string" where
  "first_genre genres = (case genres of [] \<Rightarrow> [] | g # _ \<Rightarrow> g)"

definition naming_values_of ::
    "rune_tables \<Rightarrow> string option \<Rightarrow> naming_book \<Rightarrow> string \<Rightarrow> string \<Rightarrow> string \<Rightarrow> naming_values" where
  "naming_values_of rt author book series series_number ext =
     (let name = (case author of None \<Rightarrow> ''Unknown Author'' | Some n \<Rightarrow> n) in
      map_of
       [(''Author'', sanitize_path name),
        (''SortAuthor'', sanitize_path (sort_name rt name)),
        (''Title'', sanitize_path (nb_title book)),
        (''Year'', case nb_year book of None \<Rightarrow> [] | Some y \<Rightarrow> show_int y),
        (''ASIN'', sanitize_path (nb_asin book)),
        (''Series'', sanitize_path series),
        (''SeriesNumber'', sanitize_path series_number),
        (''Genre'', sanitize_path (first_genre (nb_genres book))),
        (''Lang'', sanitize_path (nb_language book)),
        (''Narrator'', sanitize_path (nb_narrator book)),
        (''ext'', ext)])"

definition trim_windows_name :: "string \<Rightarrow> string" where
  "trim_windows_name name = trim_right_set name ''. ''"

definition windows_segment :: "string \<Rightarrow> string" where
  "windows_segment rendered =
     (let trimmed = trim_windows_name rendered in if trimmed \<noteq> [] \<or> rendered = [] then trimmed else ''_'')"

definition render_template :: "bool \<Rightarrow> naming_values \<Rightarrow> string \<Rightarrow> string" where
  "render_template windows values template =
     str_join ''/'' (filter (\<lambda>s. s \<noteq> [])
       (map (\<lambda>seg. (let rendered = render_segment seg values in if windows then windows_segment rendered else rendered))
         (split_on CHR ''/'' template)))"

definition apply_with_extra ::
    "rune_tables \<Rightarrow> bool \<Rightarrow> string \<Rightarrow> string option \<Rightarrow> naming_book \<Rightarrow> string \<Rightarrow> string \<Rightarrow> string
     \<Rightarrow> (string \<times> string) list \<Rightarrow> string" where
  "apply_with_extra rt windows template author book series series_number ext extra =
     render_template windows (naming_values_of rt author book series series_number ext ++ map_of extra) template"

definition default_naming_template :: string where
  "default_naming_template = ''{Author}/{Title} ({Year})/{Title} - {Author}.{ext}''"

definition default_audiobook_template :: string where
  "default_audiobook_template = ''{Author}/{Title} ({Year})''"

definition default_audiobook_file_template :: string where
  "default_audiobook_file_template = ''{Title} - Part {Part:3}.{ext}''"

record renamer =
  rn_template :: string
  rn_audiobook_template :: string
  rn_windows_names :: bool

definition new_renamer :: "bool \<Rightarrow> string \<Rightarrow> string \<Rightarrow> renamer" where
  "new_renamer on_windows ebook audiobook =
     \<lparr> rn_template = (if ebook = [] then default_naming_template else ebook),
       rn_audiobook_template = (if audiobook = [] then default_audiobook_template else audiobook),
       rn_windows_names = on_windows \<rparr>"

text \<open>\<open>ResolveNamingTemplates\<close>, over the settings as a map; an unset key and a failing read are both \<open>None\<close>.\<close>

definition resolve_naming_templates :: "(string \<Rightarrow> string option) \<Rightarrow> string \<times> string" where
  "resolve_naming_templates settings =
     (let get = (\<lambda>key. case settings key of None \<Rightarrow> [] | Some v \<Rightarrow> v);
          ebook = get ''naming.bookTemplate''
      in (if ebook = [] then get ''naming_template'' else ebook, get ''naming_template_audiobook''))"

subsection \<open>What a template names\<close>

definition plain_token :: "string \<Rightarrow> string option" where
  "plain_token content =
     (case simple_group content of
        None \<Rightarrow> None | Some (word, md) \<Rightarrow> if width_then_literal md then None else Some word)"

definition template_has_token :: "string \<Rightarrow> string \<Rightarrow> bool" where
  "template_has_token template name =
     list_ex (\<lambda>g. case plain_token g of
                    Some word \<Rightarrow> word = name
                  | None \<Rightarrow> list_ex (\<lambda>(gap, w, wd). w = name) (fst (group_words g)))
       (snd (template_groups template))"

definition audiobook_part_is_conditional :: "string \<Rightarrow> bool" where
  "audiobook_part_is_conditional template = list_all (\<lambda>g. plain_token g \<noteq> Some ''Part'') (snd (template_groups template))"

text \<open>The text before each group of a segment, back to the segment's start.\<close>

fun group_prefixes :: "string \<Rightarrow> string list \<Rightarrow> string list \<Rightarrow> (string \<times> string) list" where
  "group_prefixes before (l # ls) (g # gs) =
     (before @ l, g) # group_prefixes (before @ l @ ''{'' @ g @ ''}'') ls gs"
| "group_prefixes before ls gs = []"

definition ebook_template_ext_needs_dot :: "string \<Rightarrow> bool" where
  "ebook_template_ext_needs_dot template =
     list_ex (\<lambda>seg. list_ex (\<lambda>(before, g). g = ''ext'' \<and> \<not> has_suffix before ''.'')
                 (group_prefixes [] (fst (template_groups seg)) (snd (template_groups seg))))
       (split_on CHR ''/'' template)"

subsection \<open>Destinations\<close>

datatype dest_error = ErrEbookNoExtension | EscapesBaseDirectory

definition ensure_contained :: "string \<Rightarrow> string \<Rightarrow> dest_error + string" where
  "ensure_contained dest base_dir =
     (let clean_dest = path_clean dest; clean_base = path_clean base_dir in
      if \<not> has_prefix clean_dest (clean_base @ ''/'') \<and> clean_dest \<noteq> clean_base then Inl EscapesBaseDirectory
      else Inr clean_dest)"

definition ebook_extension_formats :: "string list" where
  "ebook_extension_formats =
     [''azw'', ''epub'', ''mobi'', ''pdf'', ''djvu'', ''cbz'', ''cbr'', ''azw3'', ''fb2'', ''txt'', ''rtf'']"

definition ebook_ext :: "string \<Rightarrow> string \<Rightarrow> string" where
  "ebook_ext sniffed src_path =
     (let ext = trim_prefix (file_ext src_path) ''.'' in
      if ext \<noteq> [] then ext else if sniffed \<in> set ebook_extension_formats then sniffed else [])"

definition dest_path ::
    "rune_tables \<Rightarrow> renamer \<Rightarrow> string \<Rightarrow> string option \<Rightarrow> naming_book \<Rightarrow> string \<Rightarrow> string \<Rightarrow> string \<Rightarrow> string
     \<Rightarrow> dest_error + string" where
  "dest_path rt r root author book series series_number sniffed src_path =
     (let ext = ebook_ext sniffed src_path;
          dest = path_join root
            (apply_with_extra rt (rn_windows_names r) (rn_template r) author book series series_number ext [])
      in if ext = [] \<or> length (file_ext dest) < 2 then Inl ErrEbookNoExtension
         else if template_has_token (rn_template r) ''ext'' then
           (if \<not> has_suffix (to_lower (rt_uc rt) dest) (''.'' @ to_lower (rt_uc rt) ext) then Inl ErrEbookNoExtension
            else ensure_contained dest root)
         else if list_ex (\<lambda>c. c = CHR '' '' \<or> c = CHR 0x09) (file_ext dest) then Inl ErrEbookNoExtension
         else ensure_contained dest root)"

definition audiobook_dest_dir ::
    "rune_tables \<Rightarrow> renamer \<Rightarrow> string \<Rightarrow> string option \<Rightarrow> naming_book \<Rightarrow> string \<Rightarrow> string \<Rightarrow> dest_error + string" where
  "audiobook_dest_dir rt r root author book series series_number =
     ensure_contained
       (path_join root
          (apply_with_extra rt (rn_windows_names r) (rn_audiobook_template r) author book series series_number [] []))
       root"

definition audiobook_file_name ::
    "rune_tables \<Rightarrow> renamer \<Rightarrow> string \<Rightarrow> string option \<Rightarrow> naming_book \<Rightarrow> string \<Rightarrow> string \<Rightarrow> string \<Rightarrow> string \<Rightarrow> string" where
  "audiobook_file_name rt r template author book series series_number ext part =
     path_base (apply_with_extra rt (rn_windows_names r)
       (if template = [] then default_audiobook_file_template else template)
       author book series series_number ext [(''Part'', part)])"

definition audiobook_single_file_name ::
    "rune_tables \<Rightarrow> renamer \<Rightarrow> string \<Rightarrow> string option \<Rightarrow> naming_book \<Rightarrow> string \<Rightarrow> string \<Rightarrow> string \<Rightarrow> string" where
  "audiobook_single_file_name rt r template0 author book series series_number ext =
     (let template = (if template0 = [] then default_audiobook_file_template else template0) in
      audiobook_file_name rt r template author book series series_number ext
        (if audiobook_part_is_conditional template then [] else ''1''))"

definition drop_ebook_name ::
    "rune_tables \<Rightarrow> renamer \<Rightarrow> string option \<Rightarrow> naming_book \<Rightarrow> string \<Rightarrow> string \<Rightarrow> string" where
  "drop_ebook_name rt r author book sniffed src_path =
     path_base (apply_with_extra rt (rn_windows_names r) ''{Title} - {Author}.{ext}'' author book [] []
       (ebook_ext sniffed src_path) [])"

definition drop_audiobook_name :: "rune_tables \<Rightarrow> renamer \<Rightarrow> string option \<Rightarrow> naming_book \<Rightarrow> string" where
  "drop_audiobook_name rt r author book =
     path_base (apply_with_extra rt (rn_windows_names r) ''{Title} - {Author}'' author book [] [] [] [])"

text \<open>\<open>UniqueDir\<close>: the first name that is free, over a predicate saying what exists.\<close>

definition unique_dir :: "(string \<Rightarrow> bool) \<Rightarrow> string \<Rightarrow> string" where
  "unique_dir exists dst =
     (if \<not> exists dst then dst
      else (case find (\<lambda>c. \<not> exists c) (map (\<lambda>i. dst @ '' ('' @ show_nat i @ '')'') [2..<1000]) of
              Some c \<Rightarrow> c | None \<Rightarrow> dst))"

subsection \<open>Keys of stored paths\<close>

fun path_key_parts :: "bool \<Rightarrow> string list \<Rightarrow> string list" where
  "path_key_parts first [] = []"
| "path_key_parts first (part0 # ps) =
     (let part = (if part0 \<noteq> [] \<and> part0 \<noteq> ''.'' \<and> part0 \<noteq> ''..'' then
                    (let trimmed = trim_windows_name part0 in if trimmed \<noteq> [] then trimmed else part0)
                  else part0)
      in if part = [] \<and> \<not> first then path_key_parts False ps else part # path_key_parts False ps)"

definition path_key :: "unicode \<Rightarrow> string \<Rightarrow> bool \<Rightarrow> string" where
  "path_key uc p windows =
     (if \<not> windows then path_clean p
      else to_lower uc (str_join ''/''
        (path_key_parts True (split_on CHR ''/'' (map (\<lambda>c. if c = CHR 0x5C then CHR ''/'' else c) p)))))"

end
