(* ===== verification/Naming_Proofs.thy ===== *)
theory Naming_Proofs
  imports Naming "HOL-Library.Code_Target_Nat"
begin

text \<open>
  What the naming templates guarantee: values are single safe components, a segment keeps its budget and
  its structure, no metadata adds a folder level, and a destination stays inside the library.
\<close>

subsection \<open>Safe components\<close>

text \<open>A character a path component may hold.\<close>

definition path_safe :: "char \<Rightarrow> bool" where
  "path_safe c \<longleftrightarrow> c \<notin> {CHR ''/'', CHR 0x5C, CHR '':'', CHR ''*'', CHR ''?'', CHR 0x22, CHR ''<'', CHR ''>'', CHR ''|''}
     \<and> 32 \<le> byte_of c \<and> byte_of c \<noteq> (127::nat)"

lemma path_char_safe: "c \<in> set (path_char_replace s) \<Longrightarrow>
    c \<notin> {CHR ''/'', CHR 0x5C, CHR '':'', CHR ''*'', CHR ''?'', CHR 0x22, CHR ''<'', CHR ''>'', CHR ''|''}"
  by (auto simp: path_char_replace_def path_char_def split: if_splits)

lemma kept_safe:
  assumes "c \<in> set (keep_runes printable s)" "set s \<subseteq> set (path_char_replace t)"
  shows "path_safe c"
proof (cases "byte_of c < (128::nat)")
  case True
  then show ?thesis
    using keep_runes_low [OF assms(1) True] path_char_safe [of c t] assms(2)
    by (auto simp: path_safe_def printable_def)
next
  case False
  then show ?thesis by (auto simp: path_safe_def)
qed

lemma sanitize_inline_safe: "list_all path_safe (sanitize_inline s)"
  using kept_safe [of _ "path_char_replace s" s] by (auto simp: sanitize_inline_def list_all_iff)

lemma sanitize_part_subset: "set (concat (sanitize_part p)) \<subseteq> set p"
  using trim_space_subset truncate_subset unfolding sanitize_part_def Let_def
  by (auto split: if_splits) (meson subsetD)+

lemma sanitize_part_length: "length (concat (sanitize_part p)) \<le> max_path_component_bytes"
  using trim_length [of "truncate_utf8 (trim_space p) max_path_component_bytes"]
    truncate_length [of "trim_space p" max_path_component_bytes]
  by (auto simp: sanitize_part_def Let_def)

lemma sanitize_path_part: "\<exists>p. list_all path_safe p \<and> sanitize_path s = concat (sanitize_part p)"
proof -
  define t where "t = path_char_replace (replace_all '': '' '' - '' (replace_all '' : '' '' - '' s))"
  define p where "p = keep_runes printable (trim_space t)"
  have safe: "list_all path_safe p"
    using kept_safe [of _ "trim_space t"] trim_space_subset [of t]
    by (auto simp: p_def t_def list_all_iff)
  then have "CHR ''/'' \<notin> set p" by (auto simp: list_all_iff path_safe_def)
  then have "sanitize_path s = concat (sanitize_part p)"
    by (auto simp: sanitize_path_def Let_def p_def t_def split_on_single sanitize_part_def)
  then show ?thesis using safe by blast
qed

lemma sanitize_path_safe: "list_all path_safe (sanitize_path s)"
proof -
  obtain p where p: "list_all path_safe p" "sanitize_path s = concat (sanitize_part p)"
    using sanitize_path_part by blast
  then show ?thesis using sanitize_part_subset [of p] by (auto simp: list_all_iff)
qed

lemma sanitize_path_length: "length (sanitize_path s) \<le> 200"
  using sanitize_path_part [of s] sanitize_part_length by (auto simp: max_path_component_bytes_def)

subsection \<open>The budget\<close>

lemma trunc_trim_mono:
  assumes "a \<le> b"
  shows "length (trim_right_set (truncate_utf8 v a) cs) \<le> length (trim_right_set (truncate_utf8 v b) cs)"
proof -
  have prefix: "length (trim_right_set (take m s) cs) \<le> length (trim_right_set (take n s) cs)" if mn: "m \<le> n" for m n s
  proof -
    have u: "take n s = take m s @ take (n - m) (drop m s)" (is "_ = _ @ ?u")
      using mn take_add [of m "n - m" s] by simp
    show ?thesis
      unfolding u trim_right_set_def rev_append length_rev
      using length_dropWhile_le [of "\<lambda>c. c \<in> set cs" "rev (take m s)"]
      by (cases "\<forall>c \<in> set (rev ?u). c \<in> set cs") (auto simp: dropWhile_append min_def)
  qed
  obtain m where m: "truncate_utf8 v a = take m v" "m = (if length v \<le> a then length v else cut_point v a)"
    by (auto simp: truncate_utf8_def)
  obtain n where n: "truncate_utf8 v b = take n v" "n = (if length v \<le> b then length v else cut_point v b)"
    by (auto simp: truncate_utf8_def)
  have "m \<le> n" using assms m(2) n(2) cut_point_mono [OF assms, of v] cut_point_le [of v a] by (auto split: if_splits)
  then show ?thesis using prefix m(1) n(1) by simp
qed

lemma cap_value_mono: "a \<le> b \<Longrightarrow> length (cap_value a p) \<le> length (cap_value b p)"
proof -
  assume ab: "a \<le> b"
  have "length (trim_right_set (truncate_utf8 v a) cs) \<le> length v" for v cs
  proof -
    have "length (truncate_utf8 v a) \<le> length v" using truncate_take [of v a] by auto
    then show ?thesis using trim_right_set_length [of "truncate_utf8 v a" cs] by linarith
  qed
  then show ?thesis using ab trunc_trim_mono [OF ab] by (auto simp: cap_value_def)
qed

lemma join_lits_mono:
  "list_all2 (\<lambda>v w. length v \<le> length w) vs ws \<Longrightarrow> length (join_lits ls vs) \<le> length (join_lits ls ws)"
proof (induction vs ws arbitrary: ls rule: list_all2_induct)
  case (Cons v vs w ws)
  then show ?case by (cases ls) (auto simp: add_mono)
qed simp

lemma fit_mono: "a \<le> b \<Longrightarrow> length (fit ls vals a) \<le> length (fit ls vals b)"
  unfolding fit_def by (rule join_lits_mono) (simp add: list_all2_conv_all_nth cap_value_mono)

lemma bisect_cap_spec:
  assumes mono: "\<And>a b. a \<le> b \<Longrightarrow> length (f a) \<le> length (f b)"
  shows "\<lbrakk> lo < hi; hi \<le> Suc limit; length (f lo) \<le> max_segment_bytes; best = f lo;
     \<And>x. hi \<le> x \<Longrightarrow> x \<le> limit \<Longrightarrow> \<not> length (f x) \<le> max_segment_bytes \<rbrakk> \<Longrightarrow>
   \<exists>c \<le> limit. bisect_cap f lo hi best = f c \<and> length (f c) \<le> max_segment_bytes
     \<and> (\<forall>x. c < x \<and> x \<le> limit \<longrightarrow> \<not> length (f x) \<le> max_segment_bytes)"
  using mono
proof (induction f lo hi best rule: bisect_cap.induct)
  case (1 f lo hi best)
  define mid where "mid = (lo + hi) div 2"
  show ?case
  proof (cases "lo + 1 < hi")
    case False
    then have "hi = Suc lo" using 1(3) by simp
    moreover have "bisect_cap f lo hi best = f lo" by (subst bisect_cap.simps) (use False 1(6) in simp)
    ultimately show ?thesis using 1(4,5,7) by (intro exI [of _ lo]) auto
  next
    case True
    then have m: "lo < mid" "mid < hi" by (auto simp: mid_def)
    show ?thesis
    proof (cases "length (f mid) \<le> max_segment_bytes")
      case fits: True
      have "bisect_cap f lo hi best = bisect_cap f mid hi (f mid)"
        by (subst bisect_cap.simps) (use True fits in \<open>simp add: mid_def [symmetric] Let_def\<close>)
      then show ?thesis using "1.IH"(1) [OF True mid_def refl fits m(2) 1(4) fits refl 1(7) 1(8)] by simp
    next
      case large: False
      have "bisect_cap f lo hi best = bisect_cap f lo mid best"
        by (subst bisect_cap.simps) (use True large in \<open>simp add: mid_def [symmetric] Let_def\<close>)
      moreover have "\<not> length (f x) \<le> max_segment_bytes" if "mid \<le> x" "x \<le> limit" for x
        using 1(8) [OF that(1)] large by simp
      ultimately show ?thesis
        using "1.IH"(2) [OF True mid_def refl large m(1) _ 1(5,6) _ 1(8)] m(2) 1(4) by simp
    qed
  qed
qed

lemma max_segment_value: "max_segment_bytes = 214"
  by (simp add: max_segment_bytes_def)

text \<open>The length budget of a segment is met without touching its structure. The text composed from literals
  and values never exceeds 214 bytes (255, less the staging prefix and the uniqueness suffix); a text that
  fits is left alone; one that does not is the composition under the largest cap on the values that makes
  it fit, which the bisection finds, and only when the literals alone overflow is the text itself cut.\<close>

theorem compose_capped_largest:
  "length (compose_capped lits vals) \<le> 214 \<and>
   compose_capped lits vals =
     (if length (join_lits lits (map fst vals)) \<le> 214 then join_lits lits (map fst vals)
      else if length (fit lits vals 0) \<le> 214 then fit lits vals (Max {c. c \<le> 214 \<and> length (fit lits vals c) \<le> 214})
      else truncate_utf8 (fit lits vals 0) 214)"
proof (cases "length (join_lits lits (map fst vals)) \<le> 214 \<or> \<not> length (fit lits vals 0) \<le> 214")
  case True
  then show ?thesis
    using truncate_length [of "fit lits vals 0" 214]
    by (auto simp: compose_capped_def max_segment_value Let_def)
next
  case False
  then have eq: "compose_capped lits vals = bisect_cap (fit lits vals) 0 215 (fit lits vals 0)"
    by (simp add: compose_capped_def max_segment_value Let_def)
  obtain c where c: "c \<le> 214" "compose_capped lits vals = fit lits vals c" "length (fit lits vals c) \<le> 214"
    "\<And>x. c < x \<Longrightarrow> x \<le> 214 \<Longrightarrow> \<not> length (fit lits vals x) \<le> 214"
    using bisect_cap_spec [where f = "fit lits vals" and lo = 0 and hi = 215 and limit = 214
        and best = "fit lits vals 0", OF fit_mono] False
    by (auto simp: eq max_segment_value)
  have "Max {c. c \<le> 214 \<and> length (fit lits vals c) \<le> 214} = c"
  proof (rule Max_eqI)
    show "finite {c. c \<le> (214::nat) \<and> length (fit lits vals c) \<le> 214}" by simp
    show "y \<le> c" if "y \<in> {c. c \<le> 214 \<and> length (fit lits vals c) \<le> 214}" for y
      using that c(4) [of y] by (auto simp: not_le [symmetric])
  qed (use c in simp)
  then show ?thesis using c False by simp
qed

subsection \<open>No value adds a folder level\<close>

abbreviation flat :: "string \<Rightarrow> bool" where
  "flat s \<equiv> CHR ''/'' \<notin> set s"

lemma safe_flat: "list_all path_safe s \<Longrightarrow> flat s"
  by (auto simp: list_all_iff path_safe_def)

lemmas sanitized_flat = safe_flat [OF sanitize_path_safe] safe_flat [OF sanitize_inline_safe]

lemma flat_parts:
  "flat s \<Longrightarrow> flat (takeWhile P s)" "flat s \<Longrightarrow> flat (dropWhile P s)" "flat s \<Longrightarrow> flat (trim_space s)"
  "flat s \<Longrightarrow> flat (truncate_utf8 s n)" "flat s \<Longrightarrow> flat (trim_right_set s cs)"
  by (auto dest: set_takeWhileD set_dropWhileD)
    (meson trim_space_subset truncate_subset trim_right_set_subset subsetD)+

lemma template_groups_flat:
  "flat s \<Longrightarrow> list_all flat (fst (template_groups s)) \<and> list_all flat (snd (template_groups s))
     \<and> length (fst (template_groups s)) = Suc (length (snd (template_groups s)))"
proof (induction s rule: template_groups.induct)
  case (2 c s)
  show ?case
  proof (cases "c = CHR ''{'' \<and> dropWhile not_brace s \<noteq> [] \<and> hd (dropWhile not_brace s) = CHR ''}''")
    case True
    have "flat s" using 2(3) by simp
    then have "flat (tl (dropWhile not_brace s))"
      using flat_parts(2) [of s not_brace] True list.set_sel(2) [of "dropWhile not_brace s" "CHR ''/''"] by blast
    note IH = 2(1) [OF True this]
    have "template_groups (c # s) =
        ([] # fst (template_groups (tl (dropWhile not_brace s))),
         takeWhile not_brace s # snd (template_groups (tl (dropWhile not_brace s))))"
      unfolding template_groups.simps(2) [of c s] Let_def using True by (rule if_P)
    then show ?thesis using IH 2(3) flat_parts(1) [of s not_brace] by simp
  next
    case False
    then have IH: "list_all flat (fst (template_groups s)) \<and> list_all flat (snd (template_groups s))
        \<and> length (fst (template_groups s)) = Suc (length (snd (template_groups s)))"
      using 2(2) 2(3) by simp
    then obtain l ls where "fst (template_groups s) = l # ls" by (cases "fst (template_groups s)") auto
    moreover have "template_groups (c # s) = onto_first c (template_groups s)"
      by (subst template_groups.simps) (simp only: False if_False)
    ultimately show ?thesis using IH 2(3) by (simp add: onto_first_def)
  qed
qed simp

lemma flat_filter_map:
  "list_all flat xs \<Longrightarrow> (\<And>s. flat s \<Longrightarrow> flat (f s)) \<Longrightarrow> list_all flat (filter P (map f xs))"
  by (auto simp: list_all_iff)

lemma zero_pad_flat: "flat v \<Longrightarrow> flat (zero_pad v w)"
  by (auto simp: zero_pad_def)

lemma render_words_flat:
  assumes "\<And>w v. tokens w = Some v \<Longrightarrow> flat v"
  shows "flat (snd (snd (render_words tokens lit ws rest)))"
proof (induction ws arbitrary: lit)
  case (Cons p ws)
  obtain gap w wd where p: "p = (gap, w, wd)" by (cases p)
  show ?case
    using Cons.IH assms [of w]
    by (cases "tokens w") (auto simp: p sanitized_flat zero_pad_flat Let_def split: option.splits prod.splits,
        (metis snd_conv)+)
qed (simp add: sanitized_flat)

lemma render_conditional_flat:
  assumes "\<And>w v. tokens w = Some v \<Longrightarrow> flat v" "render_conditional tokens content = Some v"
  shows "flat v"
proof -
  obtain ws rest where g: "group_words content = (ws, rest)" by fastforce
  obtain known valued out where r: "render_words tokens [] ws rest = (known, valued, out)"
    by (cases "render_words tokens [] ws rest") auto
  then show ?thesis
    using render_words_flat [where tokens = tokens and lit = "[]" and ws = ws and rest = rest] assms g
    by (auto simp: render_conditional_def split: if_splits)
qed

lemma render_group_flat:
  assumes "\<And>w v. tokens w = Some v \<Longrightarrow> flat v" "render_group tokens content = Some v"
  shows "flat v"
  using assms(2) render_conditional_flat [where tokens = tokens and content = content and v = v] assms(1)
  by (auto simp: render_group_def zero_pad_flat sanitized_flat split: option.splits if_splits)

lemma join_lits_flat: "list_all flat ls \<Longrightarrow> list_all flat vs \<Longrightarrow> flat (join_lits ls vs)"
  by (induction ls vs rule: join_lits.induct) (auto simp: list_all_iff)

lemma drop_glue_flat: "list_all flat ls \<Longrightarrow> list_all flat (drop_glue ls vs)"
  by (induction ls vs rule: drop_glue.induct) auto

lemma cap_value_flat: "flat (fst p) \<Longrightarrow> flat (cap_value c p)"
  by (simp add: cap_value_def flat_parts)

lemma windows_segment_flat: "flat s \<Longrightarrow> flat (windows_segment s)"
  by (simp add: windows_segment_def trim_windows_name_def Let_def flat_parts)

lemma compose_flat:
  assumes "list_all flat lits" "list_all (\<lambda>p. flat (fst p)) vals"
  shows "flat (compose_capped lits vals)"
proof -
  have fit: "flat (fit lits vals c)" for c
    unfolding fit_def by (rule join_lits_flat) (use assms cap_value_flat in \<open>auto simp: list_all_iff\<close>)
  then show ?thesis
    using join_lits_flat [OF assms(1), of "map fst vals"] assms(2)
    unfolding compose_capped_largest [THEN conjunct2]
    by (auto simp: list_all_iff intro!: flat_parts)
qed

lemma render_segment_flat:
  assumes "flat seg" "\<And>w v. tokens w = Some v \<Longrightarrow> flat v"
  shows "flat (render_segment seg tokens)"
proof -
  obtain lits contents where g: "template_groups seg = (lits, contents)" by fastforce
  then have f: "list_all flat lits" "list_all flat contents"
    using template_groups_flat [OF assms(1)] by auto
  have "list_all (\<lambda>p. flat (fst p)) (map (\<lambda>content. case render_group tokens content of
          None \<Rightarrow> (''{'' @ content @ ''}'', False) | Some v \<Rightarrow> (v, True)) contents)"
    using f(2) render_group_flat [OF assms(2)] by (auto simp: list_all_iff split: option.splits)
  then show ?thesis
    using compose_flat [OF drop_glue_flat [OF f(1)]] assms(1)
    by (auto simp: render_segment_def g Let_def intro!: flat_parts)
qed

lemma naming_values_flat:
  assumes "flat ext" "naming_values_of rt author book series num ext w = Some v"
  shows "flat v"
proof -
  have "flat (show_int y)" for y
  proof -
    have "flat (show_nat n)" for n using show_nat_digits [of n] by (auto simp: list_all_iff dec_digit_def)
    then show ?thesis by (simp add: show_int_def)
  qed
  then show ?thesis
    using assms by (auto simp: naming_values_of_def Let_def sanitized_flat split: if_splits option.splits)
qed

lemma split_join_le:
  "list_all flat xs \<Longrightarrow> length (split_on CHR ''/'' (str_join ''/'' xs)) \<le> max 1 (length xs)"
  by (cases "xs = []") (simp_all add: split_str_join)

text \<open>C22: no metadata adds a folder level. Whatever the author, title, series and the other values contain, the
  rendered path has at most as many components as the template, provided the file extension and the extra
  tokens hold no slash.\<close>

theorem metadata_adds_no_level:
  assumes "list_all flat (ext # map snd extra)"
  shows "length (split_on CHR ''/'' (apply_with_extra rt windows template author book series num ext extra))
      \<le> length (split_on CHR ''/'' template)"
proof -
  let ?tokens = "naming_values_of rt author book series num ext ++ map_of extra"
  have tok: "flat v" if "?tokens w = Some v" for w v
  proof (cases "map_of extra w")
    case None
    then show ?thesis using that naming_values_flat [of ext rt author book series num w v] assms by (simp add: map_add_Some_iff)
  next
    case (Some v')
    then have "(w, v) \<in> set extra" using that by (simp add: map_of_SomeD)
    then show ?thesis using assms by (auto simp: list_all_iff)
  qed
  let ?render = "\<lambda>seg. if windows then windows_segment (render_segment seg ?tokens) else render_segment seg ?tokens"
  have segs: "list_all flat (split_on CHR ''/'' template)" by (rule split_on_free)
  have flats: "list_all flat (filter (\<lambda>s. s \<noteq> []) (map ?render (split_on CHR ''/'' template)))"
  proof -
    have "flat (?render seg)" if "flat seg" for seg
      using render_segment_flat [of seg ?tokens] that tok windows_segment_flat by simp
    then show ?thesis by (rule flat_filter_map [OF segs])
  qed
  have "length (split_on CHR ''/'' (apply_with_extra rt windows template author book series num ext extra))
      \<le> max 1 (length (filter (\<lambda>s. s \<noteq> []) (map ?render (split_on CHR ''/'' template))))"
    using split_join_le [OF flats] by (simp add: apply_with_extra_def render_template_def Let_def)
  also have "\<dots> \<le> length (split_on CHR ''/'' template)"
    using length_filter_le [of "\<lambda>s. s \<noteq> []" "map ?render (split_on CHR ''/'' template)"] by (simp add: Suc_leI)
  finally show ?thesis .
qed

theorem metadata_adds_no_level_witness:
  "list_all flat (''m4b'' # map snd [(''Part'', ''1'')]) \<and>
   length (split_on CHR ''/'' (apply_with_extra ascii_tables False ''{Author}/{Title}'' (Some ''../../etc'')
      \<lparr> nb_title = ''a/b'', nb_asin = [], nb_year = None, nb_genres = [], nb_language = [], nb_narrator = [] \<rparr>
      [] [] ''m4b'' [(''Part'', ''1'')])) \<le> 2"
  using metadata_adds_no_level [of "''m4b''" "[(''Part'', ''1'')]" ascii_tables False "''{Author}/{Title}''"
      "Some ''../../etc''" "\<lparr> nb_title = ''a/b'', nb_asin = [], nb_year = None, nb_genres = [], nb_language = [], nb_narrator = [] \<rparr>"
      "[]" "[]"]
  by simp

subsection \<open>Destinations stay inside the library\<close>

lemma clean_parts_flat:
  "\<lbrakk> list_all (\<lambda>x. x \<noteq> [] \<and> x \<noteq> ''.'' \<and> x \<noteq> ''..'' \<and> flat x) st; list_all flat xs \<rbrakk> \<Longrightarrow>
    list_all (\<lambda>x. x \<noteq> [] \<and> x \<noteq> ''.'' \<and> x \<noteq> ''..'' \<and> flat x) (clean_parts True st xs)"
  by (induction "True" st xs rule: clean_parts.induct) (auto split: list.splits)

lemma clean_parts_id:
  "list_all (\<lambda>x. x \<noteq> [] \<and> x \<noteq> ''.'' \<and> x \<noteq> ''..'') xs \<Longrightarrow> clean_parts r st xs = rev st @ xs"
  by (induction r st xs rule: clean_parts.induct) auto

lemma path_clean_rooted:
  assumes "p \<noteq> []" "hd p = CHR ''/''"
  obtains ps where "path_clean p = CHR ''/'' # str_join ''/'' ps"
    "list_all (\<lambda>x. x \<noteq> [] \<and> x \<noteq> ''.'' \<and> x \<noteq> ''..'' \<and> flat x) ps"
  using clean_parts_flat [of "[]" "split_on CHR ''/'' p"] split_on_free [of "CHR ''/''" p] assms
  by (simp add: path_clean_def Let_def)

lemma split_rooted:
  assumes "list_all (\<lambda>x. x \<noteq> [] \<and> x \<noteq> ''.'' \<and> x \<noteq> ''..'' \<and> flat x) ps"
  shows "split_on CHR ''/'' (CHR ''/'' # str_join ''/'' ps) = [] # (if ps = [] then [[]] else ps)"
  using assms by (simp add: split_str_join list_all_iff)

lemma path_clean_idem:
  assumes "p \<noteq> []" "hd p = CHR ''/''"
  shows "path_clean (path_clean p) = path_clean p"
proof -
  obtain ps where ps: "path_clean p = CHR ''/'' # str_join ''/'' ps"
    "list_all (\<lambda>x. x \<noteq> [] \<and> x \<noteq> ''.'' \<and> x \<noteq> ''..'' \<and> flat x) ps"
    using path_clean_rooted [OF assms] .
  have "clean_parts True [] ps = ps" using clean_parts_id [of ps True "[]"] ps(2) by (simp add: list_all_iff)
  then have "clean_parts True [] (split_on CHR ''/'' (path_clean p)) = ps"
    using split_rooted [OF ps(2)] by (simp add: ps(1))
  then show ?thesis unfolding path_clean_def [of "path_clean p"] by (simp add: ps(1) Let_def)
qed

definition inside :: "string \<Rightarrow> string \<Rightarrow> bool" where
  "inside root d \<longleftrightarrow>
     (let base = path_clean root; rest = drop (length base) d in
      take (length base) d = base \<and> (rest = [] \<or> hd rest = CHR ''/'') \<and> ''..'' \<notin> set (split_on CHR ''/'' d))"

lemma contained_inside:
  assumes "ensure_contained dest root = Inr d" "dest \<noteq> []" "hd dest = CHR ''/''"
  shows "d = path_clean dest \<and> inside root d"
proof -
  obtain ps where ps: "path_clean dest = CHR ''/'' # str_join ''/'' ps"
    "list_all (\<lambda>x. x \<noteq> [] \<and> x \<noteq> ''.'' \<and> x \<noteq> ''..'' \<and> flat x) ps"
    using path_clean_rooted [OF assms(2,3)] .
  have "''..'' \<notin> set (split_on CHR ''/'' (path_clean dest))"
    unfolding ps(1) split_rooted [OF ps(2)] using ps(2) by (auto simp: list_all_iff)
  moreover have d: "d = path_clean dest"
    "has_prefix (path_clean dest) (path_clean root @ ''/'') \<or> path_clean dest = path_clean root"
    using assms(1) by (auto simp: ensure_contained_def Let_def split: if_splits)
  moreover have "take (length (path_clean root)) d = path_clean root
      \<and> (drop (length (path_clean root)) d = [] \<or> hd (drop (length (path_clean root)) d) = CHR ''/'')"
  proof (cases "path_clean dest = path_clean root")
    case False
    then have "path_clean dest = (path_clean root @ ''/'') @ drop (length (path_clean root @ ''/'')) (path_clean dest)"
      using d(2) unfolding has_prefix_def by (metis append_take_drop_id)
    then obtain x where "d = path_clean root @ CHR ''/'' # x" using d(1) by simp
    then show ?thesis by simp
  qed (simp add: d(1))
  ultimately show ?thesis by (simp add: inside_def Let_def)
qed

lemma path_join_rooted:
  assumes "root \<noteq> []" "hd root = CHR ''/''"
  shows "path_join root x \<noteq> [] \<and> hd (path_join root x) = CHR ''/'' \<and> path_clean (path_join root x) = path_join root x"
proof -
  define p where "p = str_join ''/'' (filter (\<lambda>e. e \<noteq> []) [root, x])"
  have p: "p \<noteq> []" "hd p = CHR ''/''" using assms by (auto simp: p_def)
  have eq: "path_join root x = path_clean p" using assms(1) by (simp add: path_join_def p_def)
  obtain ps where "path_clean p = CHR ''/'' # str_join ''/'' ps" using path_clean_rooted [OF p] .
  then show ?thesis unfolding eq using path_clean_idem [OF p] by simp
qed

text \<open>C19: an accepted ebook destination lies inside the library and keeps its extension. For an absolute root,
  whatever the template and the metadata, a destination that \<open>DestPath\<close> returns is the root or below it, has
  no ".." component and ends in an extension, which is the one of the source when the template names it.\<close>

theorem dest_path_contained:
  assumes "root \<noteq> []" "hd root = CHR ''/''"
    and "dest_path rt r root author book series num sniffed src = Inr d"
  shows "inside root d \<and> 2 \<le> length (file_ext d) \<and>
    (template_has_token (rn_template r) ''ext'' \<longrightarrow>
       has_suffix (to_lower (rt_uc rt) d) (''.'' @ to_lower (rt_uc rt) (ebook_ext sniffed src)))"
proof -
  define x where "x = apply_with_extra rt (rn_windows_names r) (rn_template r) author book series num (ebook_ext sniffed src) []"
  have "ensure_contained (path_join root x) root = Inr d" "2 \<le> length (file_ext (path_join root x))"
    "template_has_token (rn_template r) ''ext'' \<longrightarrow>
       has_suffix (to_lower (rt_uc rt) (path_join root x)) (''.'' @ to_lower (rt_uc rt) (ebook_ext sniffed src))"
    using assms(3) by (auto simp: dest_path_def x_def Let_def split: if_splits)
  then show ?thesis
    using contained_inside [of "path_join root x" root d] path_join_rooted [OF assms(1,2), of x] by auto
qed

theorem dest_path_contained_witness:
  "dest_path ascii_tables (new_renamer False [] []) ''/books'' (Some ''Frank Herbert'')
      \<lparr> nb_title = ''Dune: Messiah'', nb_asin = [], nb_year = Some 1969, nb_genres = [], nb_language = [], nb_narrator = [] \<rparr>
      [] [] [] ''/dl/x.epub''
    = Inr ''/books/Frank Herbert/Dune - Messiah (1969)/Dune - Messiah - Frank Herbert.epub'' \<and>
   inside ''/books'' ''/books/Frank Herbert/Dune - Messiah (1969)/Dune - Messiah - Frank Herbert.epub''"
proof -
  have run: "dest_path ascii_tables (new_renamer False [] []) ''/books'' (Some ''Frank Herbert'')
      \<lparr> nb_title = ''Dune: Messiah'', nb_asin = [], nb_year = Some 1969, nb_genres = [], nb_language = [], nb_narrator = [] \<rparr>
      [] [] [] ''/dl/x.epub''
    = Inr ''/books/Frank Herbert/Dune - Messiah (1969)/Dune - Messiah - Frank Herbert.epub''"
    by code_simp
  show ?thesis using dest_path_contained [OF _ _ run] run by simp
qed

lemma audiobook_dest_contained:
  assumes "root \<noteq> []" "hd root = CHR ''/''"
    and "audiobook_dest_dir rt r root author book series num = Inr d"
  shows "inside root d"
  using assms(3) contained_inside path_join_rooted [OF assms(1,2)] unfolding audiobook_dest_dir_def by blast

lemma unique_dir_second:
  "exists dst \<Longrightarrow> \<not> exists (dst @ '' (2)'') \<Longrightarrow> unique_dir exists dst = dst @ '' (2)''"
proof -
  have "[2..<1000] = 2 # [Suc 2..<1000]" by (rule upt_conv_Cons) simp
  moreover have "show_nat 2 = ''2''" by code_simp
  ultimately show "exists dst \<Longrightarrow> \<not> exists (dst @ '' (2)'') \<Longrightarrow> unique_dir exists dst = dst @ '' (2)''"
    by (simp add: unique_dir_def del: upt_Suc)
qed

text \<open>A crafted title leaves the library. Two dots, blanks up to the 200-byte budget and one more character
  pass the traversal check, and the cut and the second trim then leave "..": with the audiobook template
  "{Author}/{Title}" the destination is the library root itself, which passes the containment check, and
  as the root exists the collision suffix turns it into a sibling directory outside the library.\<close>

theorem dotdot_title_escapes:
  "sanitize_path (''..'' @ replicate 198 CHR '' '' @ ''x'') = ''..'' \<and>
   audiobook_dest_dir ascii_tables (new_renamer False [] ''{Author}/{Title}'') ''/books'' (Some ''A. Author'')
      \<lparr> nb_title = ''..'' @ replicate 198 CHR '' '' @ ''x'', nb_asin = [], nb_year = None, nb_genres = [],
        nb_language = [], nb_narrator = [] \<rparr> [] [] = Inr ''/books'' \<and>
   unique_dir (\<lambda>p. p = ''/books'') ''/books'' = ''/books (2)'' \<and> \<not> inside ''/books'' ''/books (2)''"
proof (intro conjI)
  show "unique_dir (\<lambda>p. p = ''/books'') ''/books'' = ''/books (2)''"
    using unique_dir_second [of "\<lambda>p. p = ''/books''" "''/books''"] by simp
qed (code_simp+)

end
