(* ===== verification/Blocklist.thy ===== *)
theory Blocklist
  imports Sql_Table Decision
begin

text \<open>
  \<open>internal/db/blocklist.go\<close>: the blocklist table, and how its SQL predicate and the one of search
  (\<open>Decision\<close>) agree on every table the repository can write. A book's deletion sets \<open>book_id\<close> to NULL
  (the foreign key of the table).
\<close>

subsection \<open>The repository\<close>

record blocklist_row =
  br_id :: int
  br_book_id :: "int option"
  br_guid :: string
  br_title :: string
  br_indexer_id :: "int option"
  br_reason :: string
  br_created_at :: time
  br_created_by_user_id :: "int option"
  br_scope :: string

type_synonym bl_db = "blocklist_row conn"

definition bl_entry_of :: "blocklist_row \<Rightarrow> blocklist_entry" where
  "bl_entry_of r = \<lparr> bl_book_id = br_book_id r, bl_guid = br_guid r, bl_scope = br_scope r \<rparr>"

definition insert_blocklist_entry ::
    "time \<Rightarrow> blocklist_row \<Rightarrow> int option \<Rightarrow> bl_db \<Rightarrow> (db_error + blocklist_row) \<times> bl_db" where
  "insert_blocklist_entry now e0 user_id c =
     (let e1 = (if br_book_id e0 = None then e0\<lparr>br_scope := ''release''\<rparr> else e0);
          e = e1\<lparr>br_scope := effective_scope (bl_entry_of e1)\<rparr>;
          stored = (\<lambda>i. e\<lparr>br_id := i, br_created_at := now, br_created_by_user_id := user_id\<rparr>)
      in case db_insert (\<lambda>_. False) stored c of
           (Inl er, c') \<Rightarrow> (Inl er, c')
         | (Inr i, c') \<Rightarrow> (Inr (stored i), c'))"

definition bl_create :: "time \<Rightarrow> blocklist_row \<Rightarrow> bl_db \<Rightarrow> (db_error + blocklist_row) \<times> bl_db" where
  "bl_create now e c = insert_blocklist_entry now e None c"

definition bl_create_by_user ::
    "time \<Rightarrow> blocklist_row \<Rightarrow> int \<Rightarrow> bl_db \<Rightarrow> (db_error + blocklist_row) \<times> bl_db" where
  "bl_create_by_user now e user_id c = insert_blocklist_entry now e (Some user_id) c"

definition bl_list :: "bl_db \<Rightarrow> (db_error + blocklist_row list) \<times> bl_db" where
  "bl_list c = db_query (sort_key (\<lambda>r. - br_created_at r)) c"

definition is_blocked :: "string \<Rightarrow> bl_db \<Rightarrow> (db_error + bool) \<times> bl_db" where
  "is_blocked guid c = db_query (\<lambda>t. length (filter (\<lambda>r. br_guid r = guid) t) > 0) c"

text \<open>A NULL on either side of \<open>book_id = ?\<close> is not a match.\<close>

definition sql_blocks :: "string \<Rightarrow> int option \<Rightarrow> blocklist_row \<Rightarrow> bool" where
  "sql_blocks guid book_id r \<longleftrightarrow>
     br_guid r = guid \<and> (br_scope r = ''release'' \<or> (book_id \<noteq> None \<and> br_book_id r = book_id))"

definition blocklist_blocks_book :: "string \<Rightarrow> int option \<Rightarrow> bl_db \<Rightarrow> (db_error + bool) \<times> bl_db" where
  "blocklist_blocks_book guid book_id c = db_query (\<lambda>t. length (filter (sql_blocks guid book_id) t) > 0) c"

definition bl_delete_by_id :: "int \<Rightarrow> bl_db \<Rightarrow> (db_error + nat) \<times> bl_db" where
  "bl_delete_by_id i c = db_exec (sql_delete (\<lambda>r. br_id r = i)) c"

definition bl_delete_by_book_id :: "int \<Rightarrow> bl_db \<Rightarrow> (db_error + nat) \<times> bl_db" where
  "bl_delete_by_book_id b c = db_exec (sql_delete (\<lambda>r. br_book_id r = Some b)) c"

definition bl_book_deleted :: "int \<Rightarrow> bl_db \<Rightarrow> bl_db" where
  "bl_book_deleted b c = c\<lparr>rows := map (\<lambda>r. if br_book_id r = Some b then r\<lparr>br_book_id := None\<rparr> else r) (rows c)\<rparr>"

subsection \<open>Every table the operations can write\<close>

datatype bl_op =
    BlCreate time blocklist_row "int option" | BlDeleteById int | BlDeleteByBookId int | BlBookDeleted int

fun bl_step :: "bl_op \<Rightarrow> bl_db \<Rightarrow> bl_db" where
  "bl_step (BlCreate now e user) c = snd (insert_blocklist_entry now e user c)"
| "bl_step (BlDeleteById i) c = snd (bl_delete_by_id i c)"
| "bl_step (BlDeleteByBookId b) c = snd (bl_delete_by_book_id b c)"
| "bl_step (BlBookDeleted b) c = bl_book_deleted b c"

definition bl_row_ok :: "blocklist_row \<Rightarrow> bool" where
  "bl_row_ok r \<longleftrightarrow> br_scope r \<in> {''release'', ''book''}"

lemma effective_scope_cases: "effective_scope e \<in> {''release'', ''book''}"
  by (simp add: effective_scope_def)

lemma bl_step_ok: "list_all bl_row_ok (rows c) \<Longrightarrow> list_all bl_row_ok (rows (bl_step op c))"
  using effective_scope_cases
  by (cases op) (auto simp: insert_blocklist_entry_def db_insert_def bl_delete_by_id_def bl_delete_by_book_id_def
      bl_book_deleted_def db_exec_def bl_row_ok_def list_all_iff Let_def split: prod.splits)

lemma bl_history_ok: "list_all bl_row_ok (rows c) \<Longrightarrow> list_all bl_row_ok (rows (fold bl_step ops c))"
  by (induction ops arbitrary: c) (simp_all add: bl_step_ok)

lemma sql_blocks_iff: "bl_row_ok r \<Longrightarrow> sql_blocks guid (Some b) r \<longleftrightarrow> br_guid r = guid \<and> blocks_book (bl_entry_of r) b"
  by (auto simp: sql_blocks_def blocks_book_def effective_scope_def bl_entry_of_def bl_row_ok_def)

text \<open>C24: the database and the search give the same answer. After any history of creations, deletions and book
  deletions on an empty table, whichever statements failed, the query a writer asks before adding an entry
  (\<open>BlocksBook\<close>) says that a release is blocked for a book exactly when the blocklist specification of
  search, fed with the listed rows, refuses that release for that book.\<close>

theorem blocks_book_matches_search:
  assumes "rows c0 = []" "c = fold bl_step ops c0"
    and "bl_list c = (Inr listed, c1)" "blocklist_blocks_book (rl_guid rel) (Some (bk_id bk)) c = (Inr blocked, c2)"
  shows "blocked \<longleftrightarrow> \<not> fst (blocklisted_spec (new_blocklisted_spec (map bl_entry_of listed)) rel bk)"
proof -
  have ok: "list_all bl_row_ok (rows c)" using bl_history_ok [of c0 ops] assms(1,2) by simp
  have listed: "set listed = set (rows c)" using assms(3) by (auto simp: bl_list_def db_query_def split: if_splits)
  have "blocked \<longleftrightarrow> (\<exists>r \<in> set (rows c). sql_blocks (rl_guid rel) (Some (bk_id bk)) r)"
    using assms(4) by (auto simp: blocklist_blocks_book_def db_query_def filter_empty_conv split: if_splits)
  also have "\<dots> \<longleftrightarrow> (\<exists>r \<in> set listed. br_guid r = rl_guid rel \<and> blocks_book (bl_entry_of r) (bk_id bk))"
    using ok listed sql_blocks_iff by (auto simp: list_all_iff)
  finally show ?thesis
    by (auto simp: blocklisted_spec_def new_blocklisted_filter list_ex_iff bl_entry_of_def)
qed

theorem blocks_book_matches_search_witness:
  "\<exists>c0 c c1 c2 listed ops. rows c0 = [] \<and> c = fold bl_step ops c0 \<and> bl_list c = (Inr listed, c1) \<and>
     blocklist_blocks_book ''g'' (Some 7) c = (Inr True, c2) \<and>
     \<not> fst (blocklisted_spec (new_blocklisted_spec (map bl_entry_of listed))
        (undefined\<lparr>rl_guid := ''g''\<rparr>) (undefined\<lparr>bk_id := 7\<rparr>))"
proof -
  let ?row = "\<lparr> br_id = 0, br_book_id = None, br_guid = ''g'', br_title = [], br_indexer_id = None,
    br_reason = ''stalled'', br_created_at = 0, br_created_by_user_id = None, br_scope = ''book'' \<rparr>"
  let ?c0 = "\<lparr> rows = [], last_id = 0, faults = [] \<rparr> :: bl_db"
  let ?c = "fold bl_step [BlCreate 5 ?row None] ?c0"
  have c: "?c = \<lparr> rows = [?row\<lparr>br_id := 1, br_created_at := 5, br_scope := ''release''\<rparr>], last_id = 1, faults = [] \<rparr>"
    by (simp add: insert_blocklist_entry_def db_insert_def effective_scope_def bl_entry_of_def next_fault_def)
  have l: "bl_list ?c = (Inr (rows ?c), ?c)" unfolding c by (simp add: bl_list_def db_query_def next_fault_def)
  have q: "blocklist_blocks_book ''g'' (Some 7) ?c = (Inr True, ?c)"
    unfolding c by (simp add: blocklist_blocks_book_def db_query_def next_fault_def sql_blocks_def)
  have "True \<longleftrightarrow> \<not> fst (blocklisted_spec (new_blocklisted_spec (map bl_entry_of (rows ?c)))
        (undefined\<lparr>rl_guid := ''g''\<rparr>) (undefined\<lparr>bk_id := 7\<rparr>))"
    by (rule blocks_book_matches_search [OF _ refl l]) (use q in simp_all)
  then show ?thesis using l q by (metis conn.select_convs(1))
qed

end
