(* ===== verification/Content_Breaker.thy ===== *)
theory Content_Breaker
  imports Go_Strings "HOL-Library.AList"
begin

text \<open>
  The evidence for NZBGet's failure verdicts: \<open>ClassifyFailureLog\<close> and the status predicates of
  \<open>internal/downloader/nzbget\<close>, and the breaker of \<open>internal/importer/content_failure_breaker.go\<close> that
  counts the failures without evidence. Its map is an association list, the clock an argument.
\<close>

subsection \<open>Statuses\<close>

record history_item =
  hi_status :: string
  hi_par_status :: string
  hi_unpack_status :: string

definition nzbget_is_success :: "string \<Rightarrow> bool" where
  "nzbget_is_success status \<longleftrightarrow> length status \<ge> 7 \<and> take 7 status = ''SUCCESS''"

definition nzbget_is_failure :: "string \<Rightarrow> bool" where
  "nzbget_is_failure status \<longleftrightarrow> (length status \<ge> 7 \<and> take 7 status = ''FAILURE'') \<or> status = ''DELETED''
     \<or> (length status \<ge> 6 \<and> take 6 status = ''SCRIPT'')"

definition is_content_failure :: "string \<Rightarrow> bool" where
  "is_content_failure status \<longleftrightarrow>
     status \<in> {''FAILURE/PAR'', ''FAILURE/UNPACK'', ''FAILURE/HEALTH'', ''FAILURE/SCAN'', ''FAILURE/BAD''}"

definition needs_log_evidence :: "string \<Rightarrow> bool" where
  "needs_log_evidence status \<longleftrightarrow> status \<in> {''FAILURE/PAR'', ''FAILURE/UNPACK'', ''FAILURE/SCAN''}"

definition stage_succeeded_item :: "string \<Rightarrow> history_item \<Rightarrow> bool" where
  "stage_succeeded_item status item =
     (if status = ''FAILURE/UNPACK'' then hi_unpack_status item = ''SUCCESS''
      else if status = ''FAILURE/PAR'' then hi_par_status item = ''SUCCESS''
      else if status = ''FAILURE/SCAN'' then nzbget_is_success (hi_status item)
      else False)"

text \<open>A tool of NZBGet's sysinfo: its name and path.\<close>

definition missing_unpackers :: "(string \<times> string) list \<Rightarrow> string list" where
  "missing_unpackers tools =
     map fst (filter (\<lambda>(name, path). (name = ''UnRAR'' \<or> name = ''7-Zip'') \<and> trim_space path = []) tools)"

subsection \<open>The job log\<close>

datatype evidence = EvidenceUnknown | EvidenceContent | EvidenceHost

definition host_fault_markers :: "string list" where
  "host_fault_markers =
     [''Unrar error code: 8'', ''Unrar error code: 9'', ''Could not move file '', ''Could not create directory '',
      ''Could not rename file '', '': an error occurred when accessing files'', '': out of memory'']"

definition content_markers :: "string list" where
  "content_markers =
     ['' - CRC failed'', '' - checksum failed'', '' - checksum error'', '' : packed data CRC failed in volume'',
      '' : packed data checksum error in volume'', ''You need to start extraction from a previous volume'',
      ''Cannot find volume'', ''is not RAR archive'', ''Unexpected end of archive'', ''Unrar error code: 3'',
      ''7-Zip: ERROR: CRC Failed'', ''7-Zip: ERROR: Data Error'', ''Data Error : '', ''CRC Failed : '',
      ''Headers Error'', ''Can not open the file as archive'', ''Unexpected end of data'', ''Missing volume'',
      ''due to renamed archive files'', '': data files are damaged and there is insufficient recovery data'',
      '': the PAR2 files did not contain sufficient information'',
      '': repair completed but the data files still appear to be damaged'', ''Skipping par-check for '']"

definition seven_zip_exit_marker :: string where
  "seven_zip_exit_marker = ''7-Zip error code: ''"

definition unpacker_could_not_start :: "string \<Rightarrow> bool" where
  "unpacker_could_not_start text \<longleftrightarrow>
     list_ex (has_prefix text)
       [''Unrar: Could not start '', ''7-Zip: Could not start '', ''Could not start unrar'', ''Could not start 7-Zip'']"

fun classify_from :: "string \<Rightarrow> string \<Rightarrow> string list \<Rightarrow> evidence \<times> string" where
  "classify_from content_line seven_zip_exit [] =
     (if content_line \<noteq> [] then (EvidenceContent, content_line)
      else if seven_zip_exit \<noteq> [] then (EvidenceHost, seven_zip_exit)
      else (EvidenceUnknown, []))"
| "classify_from content_line seven_zip_exit (text # es) =
     (if unpacker_could_not_start text then (EvidenceHost, text)
      else if list_ex (contains_str text) host_fault_markers then (EvidenceHost, text)
      else classify_from
        (if content_line = [] \<and> list_ex (contains_str text) content_markers then text else content_line)
        (if seven_zip_exit = [] \<and> contains_str text seven_zip_exit_marker then text else seven_zip_exit) es)"

definition classify_failure_log :: "string list \<Rightarrow> evidence \<times> string" where
  "classify_failure_log entries = classify_from [] [] entries"

subsection \<open>The breaker\<close>

definition content_breaker_window :: duration where
  "content_breaker_window = 2 * hour"

definition content_breaker_distinct :: nat where
  "content_breaker_distinct = 3"

type_synonym breaker_key = "int \<times> string"

record breaker_state =
  bs_recent :: "(string \<times> time) list"
  bs_reason :: string

type_synonym content_breaker = "(breaker_key \<times> breaker_state) list"

definition breaker_of :: "content_breaker \<Rightarrow> breaker_key \<Rightarrow> breaker_state" where
  "breaker_of b k = (case map_of b k of None \<Rightarrow> \<lparr> bs_recent = [], bs_reason = [] \<rparr> | Some st \<Rightarrow> st)"

definition trip_reason :: "nat \<Rightarrow> string \<Rightarrow> string" where
  "trip_reason n kind =
     show_nat n @ '' different releases failed with '' @ kind
       @ '' within two hours and none completed that step in between''"

text \<open>\<open>recordFailure\<close>: whether the release may be blocklisted, and whether this call opened the breaker.\<close>

definition record_content_failure ::
    "time \<Rightarrow> int \<Rightarrow> string \<Rightarrow> string \<Rightarrow> content_breaker \<Rightarrow> (bool \<times> bool \<times> nat) \<times> content_breaker" where
  "record_content_failure now client_id guid kind b =
     (let st = breaker_of b (client_id, kind);
          kept = filter (\<lambda>f. snd f > now - content_breaker_window) (bs_recent st);
          recent = kept @ [(guid, now)];
          n = length (remdups (map fst recent))
      in if bs_reason st \<noteq> [] then
           ((False, False, n), AList.update (client_id, kind) (st\<lparr>bs_recent := recent\<rparr>) b)
         else if n \<ge> content_breaker_distinct then
           ((False, True, n),
            AList.update (client_id, kind) (st\<lparr>bs_recent := recent, bs_reason := trip_reason n kind\<rparr>) b)
         else ((True, False, n), AList.update (client_id, kind) (st\<lparr>bs_recent := recent\<rparr>) b))"

definition open_breaker :: "int \<Rightarrow> string \<Rightarrow> string \<Rightarrow> content_breaker \<Rightarrow> bool \<times> content_breaker" where
  "open_breaker client_id kind reason b =
     (let st = breaker_of b (client_id, kind)
      in (bs_reason st = [], AList.update (client_id, kind) (st\<lparr>bs_reason := reason\<rparr>) b))"

definition stage_succeeded :: "int \<Rightarrow> string \<Rightarrow> content_breaker \<Rightarrow> bool \<times> content_breaker" where
  "stage_succeeded client_id kind b =
     (let st = map_of b (client_id, kind)
      in (st \<noteq> None \<and> bs_reason (the st) \<noteq> [], AList.delete (client_id, kind) b))"

definition reset_breaker :: "int \<Rightarrow> content_breaker \<Rightarrow> content_breaker" where
  "reset_breaker client_id b = filter (\<lambda>(k, st). fst k \<noteq> client_id) b"

definition open_reasons :: "int \<Rightarrow> content_breaker \<Rightarrow> string list" where
  "open_reasons client_id b =
     sort (map (\<lambda>(k, st). snd k @ '': '' @ bs_reason st)
       (filter (\<lambda>(k, st). fst k = client_id \<and> bs_reason st \<noteq> []) b))"


subsection \<open>The log decides by its first telling line\<close>

definition host_line :: "string \<Rightarrow> bool" where
  "host_line text \<longleftrightarrow> unpacker_could_not_start text \<or> list_ex (contains_str text) host_fault_markers"

definition content_line :: "string \<Rightarrow> bool" where
  "content_line text \<longleftrightarrow> list_ex (contains_str text) content_markers"

lemma classify_from_spec:
  "classify_from cl sz es =
     (case find host_line es of
        Some text \<Rightarrow> (EvidenceHost, text)
      | None \<Rightarrow>
          (let cl' = (if cl \<noteq> [] then Some cl else find (\<lambda>t. content_line t \<and> t \<noteq> []) es);
               sz' = (if sz \<noteq> [] then Some sz else find (\<lambda>t. contains_str t seven_zip_exit_marker \<and> t \<noteq> []) es)
           in case cl' of
                Some t \<Rightarrow> (EvidenceContent, t)
              | None \<Rightarrow> (case sz' of Some t \<Rightarrow> (EvidenceHost, t) | None \<Rightarrow> (EvidenceUnknown, []))))"
  by (induction cl sz es rule: classify_from.induct)
    (auto simp: host_line_def content_line_def Let_def split: option.splits)

lemma markers_nonempty: "\<not> contains_str [] seven_zip_exit_marker" "\<not> content_line []" "\<not> host_line []"
  by code_simp+

text \<open>The verdict of a job's log: the first line that shows a fault of NZBGet's own machine wins wherever it
  stands; without one the first line that shows broken content; without that a bare 7-Zip exit code counts
  against the machine; otherwise the log says nothing.\<close>

theorem classify_decides:
  "classify_failure_log entries =
     (case find host_line entries of
        Some text \<Rightarrow> (EvidenceHost, text)
      | None \<Rightarrow>
          (case find content_line entries of
             Some text \<Rightarrow> (EvidenceContent, text)
           | None \<Rightarrow>
               (case find (\<lambda>t. contains_str t seven_zip_exit_marker) entries of
                  Some text \<Rightarrow> (EvidenceHost, text)
                | None \<Rightarrow> (EvidenceUnknown, []))))"
proof -
  have "find (\<lambda>t. content_line t \<and> t \<noteq> []) entries = find content_line entries"
    "find (\<lambda>t. contains_str t seven_zip_exit_marker \<and> t \<noteq> []) entries = find (\<lambda>t. contains_str t seven_zip_exit_marker) entries"
    using markers_nonempty by (metis (mono_tags, lifting))+
  then show ?thesis unfolding classify_failure_log_def classify_from_spec Let_def by (simp split: option.split)
qed

subsection \<open>The breaker against its history\<close>

datatype breaker_op =
    BkFail time int string string | BkOpen int string string | BkSucceeded int string | BkReset int

fun breaker_step :: "breaker_op \<Rightarrow> content_breaker \<Rightarrow> content_breaker" where
  "breaker_step (BkFail now c guid kind) b = snd (record_content_failure now c guid kind b)"
| "breaker_step (BkOpen c kind reason) b = snd (open_breaker c kind reason b)"
| "breaker_step (BkSucceeded c kind) b = snd (stage_succeeded c kind b)"
| "breaker_step (BkReset c) b = reset_breaker c b"

text \<open>What happened to one key since it was last cleared.\<close>

datatype signal = Failed string time | HostFault

fun signal_step :: "breaker_key \<Rightarrow> breaker_op \<Rightarrow> signal list \<Rightarrow> signal list" where
  "signal_step k (BkFail now c guid kind) s = (if k = (c, kind) then s @ [Failed guid now] else s)"
| "signal_step k (BkOpen c kind reason) s = (if k = (c, kind) then s @ [HostFault] else s)"
| "signal_step k (BkSucceeded c kind) s = (if k = (c, kind) then [] else s)"
| "signal_step k (BkReset c) s = (if fst k = c then [] else s)"

definition signals :: "breaker_key \<Rightarrow> breaker_op list \<Rightarrow> signal list" where
  "signals k ops = fold (signal_step k) ops []"

fun failures :: "signal list \<Rightarrow> (string \<times> time) list" where
  "failures [] = []"
| "failures (Failed g t # s) = (g, t) # failures s"
| "failures (HostFault # s) = failures s"

definition within_window :: "time \<Rightarrow> (string \<times> time) list \<Rightarrow> (string \<times> time) list" where
  "within_window now fs = filter (\<lambda>f. snd f > now - content_breaker_window) fs"

text \<open>The last signal opens the breaker: a host fault, or the third release within the window.\<close>

definition trips :: "signal list \<Rightarrow> bool" where
  "trips s = (case List.last s of
      HostFault \<Rightarrow> True
    | Failed g t \<Rightarrow> 3 \<le> length (remdups (map fst (within_window t (failures s)))))"

definition paused :: "signal list \<Rightarrow> bool" where
  "paused s = list_ex (\<lambda>n. trips (take n s)) [1..<Suc (length s)]"

lemma paused_Nil [simp]: "\<not> paused []"
  by (simp add: paused_def)

lemma paused_snoc: "paused (s @ [x]) \<longleftrightarrow> paused s \<or> trips (s @ [x])"
proof -
  have "[1..<Suc (length (s @ [x]))] = [1..<Suc (length s)] @ [Suc (length s)]" by simp
  moreover have "list_ex (\<lambda>n. trips (take n (s @ [x]))) [1..<Suc (length s)] = list_ex (\<lambda>n. trips (take n s)) [1..<Suc (length s)]"
    by (auto simp: list_ex_iff)
  ultimately show ?thesis unfolding paused_def by (simp del: upt_Suc)
qed

lemma failures_append [simp]: "failures (s @ t) = failures s @ failures t"
  by (induction s rule: failures.induct) auto

lemma breaker_of_update: "breaker_of (AList.update k v b) k' = (if k = k' then v else breaker_of b k')"
  by (simp add: breaker_of_def update_conv')

lemma breaker_of_delete:
  "breaker_of (AList.delete k b) k' = (if k = k' then \<lparr> bs_recent = [], bs_reason = [] \<rparr> else breaker_of b k')"
  by (simp add: breaker_of_def delete_conv')

lemma breaker_of_reset:
  "breaker_of (reset_breaker c b) k = (if fst k = c then \<lparr> bs_recent = [], bs_reason = [] \<rparr> else breaker_of b k)"
proof -
  have "map_of (filter (\<lambda>(k, st). fst k \<noteq> c) b) k = (if fst k = c then None else map_of b k)"
    by (induction b) auto
  then show ?thesis by (simp add: breaker_of_def reset_breaker_def)
qed

lemmas breaker_of_simps = breaker_of_update breaker_of_delete breaker_of_reset

fun op_time :: "breaker_op \<Rightarrow> time list" where
  "op_time (BkFail now c guid kind) = [now]"
| "op_time op = []"

fun op_reasoned :: "breaker_op \<Rightarrow> bool" where
  "op_reasoned (BkOpen c kind reason) = (reason \<noteq> [])"
| "op_reasoned op = True"

lemma within_window_twice: "t \<le> now \<Longrightarrow> within_window now (within_window t fs) = within_window now fs"
  by (auto simp: within_window_def intro!: filter_cong)

lemma within_window_append [simp]: "within_window now (fs @ gs) = within_window now fs @ within_window now gs"
  by (simp add: within_window_def)

lemma trip_reason_ne: "trip_reason n kind \<noteq> []"
  by (simp add: trip_reason_def)

definition breaker_agrees :: "time \<Rightarrow> content_breaker \<Rightarrow> breaker_key \<Rightarrow> signal list \<Rightarrow> bool" where
  "breaker_agrees t0 b k s \<longleftrightarrow> (bs_reason (breaker_of b k) \<noteq> [] \<longleftrightarrow> paused s) \<and>
     (\<forall>now \<ge> t0. within_window now (bs_recent (breaker_of b k)) = within_window now (failures s))"

lemma record_content_failure_agrees:
  assumes "breaker_agrees t0 b (c, kind) s" "t0 \<le> now"
  shows "fst (fst (record_content_failure now c guid kind b)) \<longleftrightarrow> \<not> paused (s @ [Failed guid now])"
    and "fst (snd (fst (record_content_failure now c guid kind b))) \<longleftrightarrow> paused (s @ [Failed guid now]) \<and> \<not> paused s"
    and "breaker_agrees now (snd (record_content_failure now c guid kind b)) (c, kind) (s @ [Failed guid now])"
proof -
  let ?st = "breaker_of b (c, kind)"
  have w: "0 < content_breaker_window" by (simp add: content_breaker_window_def hour_def minute_def second_def)
  have recent: "filter (\<lambda>f. snd f > now - content_breaker_window) (bs_recent ?st) @ [(guid, now)]
      = within_window now (failures (s @ [Failed guid now]))"
    using assms w by (auto simp: breaker_agrees_def within_window_def)
  have reason: "bs_reason ?st \<noteq> [] \<longleftrightarrow> paused s" using assms(1) by (simp add: breaker_agrees_def)
  have trips: "trips (s @ [Failed guid now]) \<longleftrightarrow>
      3 \<le> length (remdups (map fst (within_window now (failures (s @ [Failed guid now])))))"
    by (simp add: trips_def)
  have kept: "within_window n (within_window now (failures (s @ [Failed guid now]))) = within_window n (failures (s @ [Failed guid now]))"
    if "now \<le> n" for n
    by (rule within_window_twice [OF that])
  show "fst (fst (record_content_failure now c guid kind b)) \<longleftrightarrow> \<not> paused (s @ [Failed guid now])"
    and "fst (snd (fst (record_content_failure now c guid kind b))) \<longleftrightarrow> paused (s @ [Failed guid now]) \<and> \<not> paused s"
    and "breaker_agrees now (snd (record_content_failure now c guid kind b)) (c, kind) (s @ [Failed guid now])"
    unfolding record_content_failure_def recent Let_def breaker_agrees_def
    using reason trips kept
    by (auto simp: paused_snoc content_breaker_distinct_def breaker_of_update trip_reason_ne)
qed

lemma breaker_agrees_later: "breaker_agrees t0 b k s \<Longrightarrow> t0 \<le> t1 \<Longrightarrow> breaker_agrees t1 b k s"
  by (simp add: breaker_agrees_def)

lemma breaker_agrees_other:
  "k \<noteq> (c, kind) \<Longrightarrow> breaker_agrees t b k s \<Longrightarrow> breaker_agrees t (snd (record_content_failure now c guid kind b)) k s"
  by (auto simp: record_content_failure_def Let_def breaker_agrees_def breaker_of_update)

lemma breaker_step_agrees:
  assumes "breaker_agrees t0 b k s" "list_all (\<lambda>t. t0 \<le> t) (op_time op)" "op_reasoned op"
  shows "breaker_agrees (last (t0 # op_time op)) (breaker_step op b) k (signal_step k op s)"
proof (cases op)
  case (BkFail now c guid kind)
  show ?thesis
  proof (cases "k = (c, kind)")
    case True
    then show ?thesis using record_content_failure_agrees(3) [of t0 b c kind s now guid] assms BkFail by simp
  next
    case False
    then show ?thesis using breaker_agrees_other breaker_agrees_later assms BkFail by simp
  qed
next
  case (BkOpen c kind reason)
  then show ?thesis
    using assms by (auto simp: open_breaker_def Let_def breaker_agrees_def breaker_of_update paused_snoc trips_def)
qed (use assms in \<open>auto simp: stage_succeeded_def Let_def breaker_agrees_def breaker_of_simps\<close>)

lemma breaker_history_agrees:
  "\<lbrakk> sorted (t0 # concat (map op_time ops)); list_all op_reasoned ops; breaker_agrees t0 b k s \<rbrakk> \<Longrightarrow>
    breaker_agrees (last (t0 # concat (map op_time ops))) (fold breaker_step ops b) k (fold (signal_step k) ops s)"
proof (induction ops arbitrary: t0 b s)
  case (Cons op ops)
  have "breaker_agrees (last (t0 # op_time op)) (breaker_step op b) k (signal_step k op s)"
    using breaker_step_agrees [OF Cons.prems(3)] Cons.prems(1,2) by (auto simp: list_all_iff)
  moreover have "sorted (last (t0 # op_time op) # concat (map op_time ops))"
    using Cons.prems(1) by (cases op) auto
  moreover have "last (last (t0 # op_time op) # concat (map op_time ops)) = last (t0 # concat (map op_time (op # ops)))"
    by (cases op) auto
  ultimately show ?case using Cons.IH [of "last (t0 # op_time op)"] Cons.prems(2) by simp
qed simp

lemma sorted_hd_first: "sorted (xs @ [n]) \<Longrightarrow> sorted (hd (xs @ [n]) # xs @ [n :: int])"
  by (cases xs) auto

text \<open>C20: the breaker decides as its comment says. After any history of failures, host faults, completed stages and
  resets of any clients under a clock that does not run backwards, a failure without evidence may blocklist
  its release exactly when, since the last completion of that stage or reset of that client, no host fault
  was logged for the status and at no failure, this one included, three different releases had failed with
  it within two hours; and it is the failure that opens the breaker exactly when it is the first to break
  the rule.\<close>

theorem breaker_matches_history:
  assumes "sorted (concat (map op_time ops) @ [now])" "list_all op_reasoned ops"
    and "record_content_failure now c guid kind (fold breaker_step ops []) = ((allow, tripped, n), b)"
  shows "(allow \<longleftrightarrow> \<not> paused (signals (c, kind) ops @ [Failed guid now])) \<and>
    (tripped \<longleftrightarrow> paused (signals (c, kind) ops @ [Failed guid now]) \<and> \<not> paused (signals (c, kind) ops))"
proof -
  define t0 where "t0 = hd (concat (map op_time ops) @ [now])"
  have sorted: "sorted (t0 # concat (map op_time ops) @ [now])"
    unfolding t0_def by (rule sorted_hd_first [OF assms(1)])
  have "breaker_agrees t0 [] (c, kind) []"
    by (simp add: breaker_agrees_def breaker_of_def)
  then have ag: "breaker_agrees (last (t0 # concat (map op_time ops))) (fold breaker_step ops []) (c, kind) (signals (c, kind) ops)"
    unfolding signals_def
    by (intro breaker_history_agrees) (use sorted assms(2) in \<open>auto simp: sorted_append\<close>)
  have le: "last (t0 # concat (map op_time ops)) \<le> now"
  proof -
    have "\<forall>x \<in> set (t0 # concat (map op_time ops)). x \<le> now" using sorted by (auto simp: sorted_append)
    then show ?thesis using last_in_set [of "t0 # concat (map op_time ops)"] by blast
  qed
  show ?thesis
    using record_content_failure_agrees(1,2) [OF ag le, of guid] assms(3) by simp
qed

theorem breaker_matches_history_witness:
  "fst (record_content_failure 300 1 ''c'' ''FAILURE/PAR''
      (fold breaker_step [BkFail 100 1 ''a'' ''FAILURE/PAR'', BkFail 200 1 ''b'' ''FAILURE/PAR''] [])) = (False, True, 3) \<and>
   paused (signals (1, ''FAILURE/PAR'') [BkFail 100 1 ''a'' ''FAILURE/PAR'', BkFail 200 1 ''b'' ''FAILURE/PAR'']
      @ [Failed ''c'' 300])"
proof -
  let ?ops = "[BkFail 100 1 ''a'' ''FAILURE/PAR'', BkFail 200 1 ''b'' ''FAILURE/PAR'']"
  obtain r b where run: "record_content_failure 300 1 ''c'' ''FAILURE/PAR'' (fold breaker_step ?ops []) = (r, b)"
    by (cases "record_content_failure 300 1 ''c'' ''FAILURE/PAR'' (fold breaker_step ?ops [])") auto
  have "fst (record_content_failure 300 1 ''c'' ''FAILURE/PAR'' (fold breaker_step ?ops [])) = (False, True, 3)"
    by code_simp
  then have r: "r = (False, True, 3)" using run by simp
  show ?thesis
    using breaker_matches_history [of ?ops 300 1 "''c''" "''FAILURE/PAR''", OF _ _ run [unfolded r]] run r by simp
qed

end
