(* ===== verification/Client_Health.thy ===== *)
theory Client_Health
  imports Go_Strings "HOL-Library.AList"
begin

text \<open>
  The download-client health store (\<open>internal/downloader/health.go\<close>, \<open>unpackers.go\<close>): the result of the last
  path probe of each client, the advisories other parts put beside it, and what it announces to the
  notifier. A probe's result and a sysinfo answer are arguments; an announcement is appended to \<open>hs_sent\<close>.
\<close>

subsection \<open>The health store\<close>

record client_health =
  ch_status :: string
  ch_message :: string

record unpacker_entry =
  ue_missing :: "string list"
  ue_known :: bool
  ue_checked_at :: time
  ue_tried_at :: time

record health_store =
  hs_by_id :: "int \<rightharpoonup> client_health"
  hs_advisory :: "int \<Rightarrow> (string \<times> client_health) list"
  hs_notif :: bool
  hs_sent :: "(int \<times> client_health) list"
  hs_unpackers :: "int \<rightharpoonup> unpacker_entry"

definition send_health :: "int \<Rightarrow> client_health \<Rightarrow> health_store \<Rightarrow> health_store" where
  "send_health i h s = (if hs_notif s then s\<lparr>hs_sent := hs_sent s @ [(i, h)]\<rparr> else s)"

definition set_advisory :: "int \<Rightarrow> string \<Rightarrow> client_health \<Rightarrow> health_store \<Rightarrow> health_store" where
  "set_advisory i source h s =
     (if i = 0 then s
      else
        (let had = (map_of (hs_advisory s i) source \<noteq> None);
             s1 = s\<lparr>hs_advisory := (hs_advisory s)(i := AList.update source h (hs_advisory s i))\<rparr>
         in if had then s1 else send_health i h s1))"

definition clear_advisory :: "int \<Rightarrow> string \<Rightarrow> health_store \<Rightarrow> health_store" where
  "clear_advisory i source s =
     (if i = 0 then s else s\<lparr>hs_advisory := (hs_advisory s)(i := AList.delete source (hs_advisory s i))\<rparr>)"

definition health_forget :: "int \<Rightarrow> health_store \<Rightarrow> health_store" where
  "health_forget i s =
     (if i = 0 then s
      else s\<lparr>hs_advisory := (hs_advisory s)(i := []), hs_unpackers := (hs_unpackers s)(i := None)\<rparr>)"

definition health_set :: "int \<Rightarrow> client_health \<Rightarrow> health_store \<Rightarrow> health_store" where
  "health_set i h s =
     (if i = 0 then s
      else
        (let prev = hs_by_id s i; s1 = s\<lparr>hs_by_id := (hs_by_id s)(i \<mapsto> h)\<rparr> in
         if ch_status h \<noteq> ''error'' then s1
         else (case prev of
                 Some p \<Rightarrow> if ch_status p = ''error'' \<or> ch_status p = ''checking'' then s1 else send_health i h s1
               | None \<Rightarrow> send_health i h s1)))"

definition health_delete :: "int \<Rightarrow> health_store \<Rightarrow> health_store" where
  "health_delete i s = (if i = 0 then s else s\<lparr>hs_by_id := (hs_by_id s)(i := None)\<rparr>)"

definition health_get :: "int \<Rightarrow> health_store \<Rightarrow> client_health option" where
  "health_get i s =
     (if i = 0 then None
      else if hs_advisory s i = [] then hs_by_id s i
      else
        (let sources = sort (map fst (hs_advisory s i));
             path = (case hs_by_id s i of
                       Some h \<Rightarrow> if ch_status h = ''error'' then [trim_right_set (ch_message h) ''. ''] else []
                     | None \<Rightarrow> []);
             msgs = path @ map (\<lambda>src. trim_right_set (ch_message (the (map_of (hs_advisory s i) src))) ''. '') sources
         in Some \<lparr> ch_status = ''error'', ch_message = str_join ''. '' msgs \<rparr>))"

definition probe_status :: "int \<Rightarrow> health_store \<Rightarrow> string" where
  "probe_status i s =
     (if i = 0 then [] else (case hs_by_id s i of None \<Rightarrow> [] | Some h \<Rightarrow> ch_status h))"

subsection \<open>The unpackers of an NZBGet\<close>

record download_client =
  dc_id :: int
  dc_name :: string
  dc_type :: string

definition unpacker_check_ttl :: duration where
  "unpacker_check_ttl = 6 * hour"

definition unpacker_retry_after_failure :: duration where
  "unpacker_retry_after_failure = 15 * minute"

definition unpackers_message :: "string list \<Rightarrow> string" where
  "unpackers_message missing =
     ''NZBGet cannot find '' @ str_join '' or '' missing @ '', so it cannot unpack RAR releases. '' @
     ''Check UnrarCmd in NZBGet's settings. Until it can, Bindery does not blocklist releases NZBGet fails to unpack''"

definition nzbget_unpackers ::
    "time \<Rightarrow> download_client \<Rightarrow> bool \<Rightarrow> string list option \<Rightarrow> health_store \<Rightarrow> string list \<times> health_store" where
  "nzbget_unpackers now client force sysinfo s =
     (if dc_id client = 0 \<or> dc_type client \<noteq> ''nzbget'' then ([], s)
      else
        (let i = dc_id client;
             e = (case hs_unpackers s i of
                    Some e \<Rightarrow> e
                  | None \<Rightarrow> \<lparr> ue_missing = [], ue_known = False, ue_checked_at = time_zero, ue_tried_at = time_zero \<rparr>);
             fresh = (ue_known e \<and> time_sub now (ue_checked_at e) < unpacker_check_ttl);
             backing_off = (ue_tried_at e \<noteq> time_zero \<and> time_sub now (ue_tried_at e) < unpacker_retry_after_failure
               \<and> ue_tried_at e > ue_checked_at e)
         in if \<not> force \<and> (fresh \<or> backing_off)
            then (ue_missing e, s\<lparr>hs_unpackers := (hs_unpackers s)(i \<mapsto> e)\<rparr>)
            else
              (case sysinfo of
                 None \<Rightarrow> (ue_missing e, s\<lparr>hs_unpackers := (hs_unpackers s)(i \<mapsto> e\<lparr>ue_tried_at := now\<rparr>)\<rparr>)
               | Some missing \<Rightarrow>
                   (let s1 = s\<lparr>hs_unpackers := (hs_unpackers s)(i \<mapsto>
                          \<lparr> ue_missing = missing, ue_known = True, ue_checked_at = now, ue_tried_at = now \<rparr>)\<rparr>
                    in (missing,
                        if ''UnRAR'' \<in> set missing
                        then set_advisory i ''unpackers'' \<lparr> ch_status = ''error'', ch_message = unpackers_message missing \<rparr> s1
                        else clear_advisory i ''unpackers'' s1)))))"

subsection \<open>The periodic probe\<close>

text \<open>\<open>RefreshDownloadClientHealthAsync\<close>: a placeholder for every enabled client, then its probe's result in a
  goroutine; a group that is shutting down takes the placeholder back.\<close>

definition checking_health :: client_health where
  "checking_health = \<lparr> ch_status = ''checking'', ch_message = ''Checking download client paths'' \<rparr>"

datatype probe_event = ProbeStart int | ProbeDone int client_health | ProbeDropped int

fun probe_step :: "probe_event \<Rightarrow> health_store \<Rightarrow> health_store" where
  "probe_step (ProbeStart i) s = health_set i checking_health s"
| "probe_step (ProbeDone i h) s = health_set i h s"
| "probe_step (ProbeDropped i) s = health_delete i s"

text \<open>Probes of several clients run side by side, those of one client one after the other.\<close>

fun probes_in_turn :: "int list \<Rightarrow> probe_event list \<Rightarrow> bool" where
  "probes_in_turn running [] = True"
| "probes_in_turn running (ProbeStart i # es) = (i \<notin> set running \<and> probes_in_turn (i # running) es)"
| "probes_in_turn running (ProbeDone i h # es) = (i \<in> set running \<and> probes_in_turn (removeAll i running) es)"
| "probes_in_turn running (ProbeDropped i # es) = (i \<in> set running \<and> probes_in_turn (removeAll i running) es)"

lemma health_set_sent_checking:
  "hs_by_id s i = Some checking_health \<Longrightarrow> hs_sent (health_set i h s) = hs_sent s"
  by (simp add: health_set_def Let_def checking_health_def)

lemma health_set_checking_sent [simp]: "hs_sent (health_set i checking_health s) = hs_sent s"
  by (simp add: health_set_def Let_def checking_health_def)

lemma health_delete_sent [simp]: "hs_sent (health_delete i s) = hs_sent s"
  by (simp add: health_delete_def)

lemma health_set_zero [simp]: "health_set 0 h s = s"
  by (simp add: health_set_def)

lemma hs_by_id_set [simp]: "i \<noteq> 0 \<Longrightarrow> hs_by_id (health_set i h s) = (hs_by_id s)(i \<mapsto> h)"
  by (auto simp: health_set_def Let_def send_health_def split: option.split)

lemma hs_by_id_delete: "j \<noteq> i \<Longrightarrow> hs_by_id (health_delete i s) j = hs_by_id s j"
  by (simp add: health_delete_def)

lemma probes_keep_sent:
  "\<lbrakk> probes_in_turn running es; \<And>i. i \<in> set running \<Longrightarrow> i \<noteq> 0 \<Longrightarrow> hs_by_id s i = Some checking_health \<rbrakk> \<Longrightarrow>
    hs_sent (fold probe_step es s) = hs_sent s"
proof (induction running es arbitrary: s rule: probes_in_turn.induct)
  case (2 running i es)
  have "hs_by_id (health_set i checking_health s) j = Some checking_health" if "j \<in> set (i # running)" "j \<noteq> 0" for j
    using 2(3) [of j] that by (cases "i = 0") auto
  then show ?case using 2(1) [of "health_set i checking_health s"] 2(2) by simp
next
  case (3 running i h es)
  have "hs_sent (health_set i h s) = hs_sent s"
    using 3(2,3) health_set_sent_checking by (cases "i = 0") auto
  moreover have "hs_by_id (health_set i h s) j = Some checking_health" if "j \<in> set running" "j \<noteq> i" "j \<noteq> 0" for j
    using 3(3) [of j] that by (cases "i = 0") auto
  ultimately show ?case using 3(1) [of "health_set i h s"] 3(2) by auto
next
  case (4 running i es)
  have "hs_by_id (health_delete i s) j = Some checking_health" if "j \<in> set running" "j \<noteq> i" "j \<noteq> 0" for j
    using 4(3) [of j] that by (simp add: hs_by_id_delete)
  then show ?case using 4(1) [of "health_delete i s"] 4(2) by auto
qed simp

text \<open>C40: the periodic probe announces nothing. The placeholder hides the status that was there before, so a client
  that was healthy and is found broken goes from checking to error, which \<open>Set\<close> keeps silent: whatever the
  probes of any clients find, as long as one client is not probed twice at a time, no event is sent.\<close>

theorem probe_announces_nothing:
  assumes "probes_in_turn [] es"
  shows "hs_sent (fold probe_step es s) = hs_sent s"
  by (rule probes_keep_sent [OF assms]) simp

theorem probe_announces_nothing_witness:
  "\<exists>s. hs_notif s \<and> hs_sent s = [] \<and> health_get 1 s = Some \<lparr> ch_status = ''error'', ch_message = ''gone'' \<rparr> \<and>
     s = fold probe_step [ProbeStart 1, ProbeDone 1 \<lparr> ch_status = ''ok'', ch_message = ''fine'' \<rparr>,
       ProbeStart 1, ProbeDone 1 \<lparr> ch_status = ''error'', ch_message = ''gone'' \<rparr>]
       \<lparr> hs_by_id = (\<lambda>_. None), hs_advisory = (\<lambda>_. []), hs_notif = True, hs_sent = [], hs_unpackers = (\<lambda>_. None) \<rparr>"
proof -
  let ?es = "[ProbeStart 1, ProbeDone 1 \<lparr> ch_status = ''ok'', ch_message = ''fine'' \<rparr>,
       ProbeStart 1, ProbeDone 1 \<lparr> ch_status = ''error'', ch_message = ''gone'' \<rparr>]"
  let ?s = "\<lparr> hs_by_id = (\<lambda>_. None), hs_advisory = (\<lambda>_. []), hs_notif = True, hs_sent = [], hs_unpackers = (\<lambda>_. None) \<rparr>"
  have "hs_sent (fold probe_step ?es ?s) = hs_sent ?s"
    by (rule probe_announces_nothing) simp
  moreover have "hs_notif (fold probe_step ?es ?s)"
    "health_get 1 (fold probe_step ?es ?s) = Some \<lparr> ch_status = ''error'', ch_message = ''gone'' \<rparr>"
    by (simp_all add: health_set_def Let_def checking_health_def health_get_def)
  ultimately show ?thesis by simp
qed

end
