(* ===== verification/Content_Verdict.thy ===== *)
theory Content_Verdict
  imports Content_Breaker Client_Health Blocklist Download_State "HOL-Library.Multiset"
begin

text \<open>
  The verdict that ties the health store (\<open>Client_Health\<close>), the breaker (\<open>Content_Breaker\<close>) and the
  blocklist (\<open>Blocklist\<close>) together: \<open>handleNZBGetContentFailure\<close> and its siblings. The job log and the
  sysinfo answer are arguments, \<open>None\<close> when they cannot be had.
\<close>

subsection \<open>The verdict\<close>

record verdict_sys =
  vs_breaker :: content_breaker
  vs_health :: health_store
  vs_blocklist :: "bl_db option"

text \<open>\<open>blocklistRejectedRelease\<close>: an entry unless one blocks the release already; a failing check adds one.\<close>

definition blocklist_rejected_release :: "time \<Rightarrow> download \<Rightarrow> string \<Rightarrow> string \<Rightarrow> bl_db \<Rightarrow> bl_db" where
  "blocklist_rejected_release now dl scope reason c =
     (if trim_space (dl_guid dl) = [] then c
      else
        (let for_book = (if scope = ''release'' then None else dl_book_id dl) in
         case blocklist_blocks_book (dl_guid dl) for_book c of
           (Inr True, c1) \<Rightarrow> c1
         | (_, c1) \<Rightarrow>
             snd (bl_create now
               \<lparr> br_id = 0, br_book_id = dl_book_id dl, br_guid = dl_guid dl, br_title = dl_title dl,
                 br_indexer_id = dl_indexer_id dl, br_reason = reason, br_created_at = time_zero,
                 br_created_by_user_id = None, br_scope = scope \<rparr> c1)))"

definition paused_message :: "string list \<Rightarrow> string" where
  "paused_message reasons =
     ''Automatic blocklisting is paused for some failures, because they look like a problem with the download client rather than the releases ('' @
     str_join ''; '' reasons @
     ''). Check its unrar and 7-Zip, free space and folder permissions. Failed downloads are retried as usual; blocklisting resumes once the client completes that step again''"

definition sync_breaker_advisory :: "int \<Rightarrow> verdict_sys \<Rightarrow> verdict_sys" where
  "sync_breaker_advisory i s =
     (let reasons = open_reasons i (vs_breaker s) in
      if reasons = [] then s\<lparr>vs_health := clear_advisory i ''blocklist'' (vs_health s)\<rparr>
      else s\<lparr>vs_health := set_advisory i ''blocklist''
        \<lparr> ch_status = ''error'', ch_message = paused_message reasons \<rparr> (vs_health s)\<rparr>)"

definition blocklist_release :: "time \<Rightarrow> download \<Rightarrow> string \<Rightarrow> verdict_sys \<Rightarrow> verdict_sys" where
  "blocklist_release now dl status s =
     s\<lparr>vs_blocklist := map_option (blocklist_rejected_release now dl ''release'' (''downloadFailed: '' @ status))
        (vs_blocklist s)\<rparr>"

text \<open>The end of the handler: a failure without evidence is counted.\<close>

definition count_failure :: "time \<Rightarrow> download_client \<Rightarrow> download \<Rightarrow> string \<Rightarrow> verdict_sys \<Rightarrow> verdict_sys" where
  "count_failure now client dl status s =
     (let ((allow, tripped, n), b) = record_content_failure now (dc_id client) (dl_guid dl) status (vs_breaker s);
          s1 = s\<lparr>vs_breaker := b\<rparr>
      in if allow then blocklist_release now dl status s1
         else if tripped then sync_breaker_advisory (dc_id client) s1
         else s1)"

definition handle_content_failure ::
    "unicode \<Rightarrow> time \<Rightarrow> download_client option \<Rightarrow> download option \<Rightarrow> string \<Rightarrow> string list option \<Rightarrow> string list option
     \<Rightarrow> verdict_sys \<Rightarrow> verdict_sys" where
  "handle_content_failure uc now client0 dl0 status job_log sysinfo s =
     (case (vs_blocklist s, client0, dl0) of
        (Some _, Some client, Some dl) \<Rightarrow>
          if \<not> needs_log_evidence status then blocklist_release now dl status s
          else
            (case classify_failure_log (coalesce job_log []) of
               (EvidenceContent, detail) \<Rightarrow> blocklist_release now dl status s
             | (EvidenceHost, detail) \<Rightarrow>
                 sync_breaker_advisory (dc_id client)
                   (s\<lparr>vs_breaker := snd (open_breaker (dc_id client) status (''NZBGet logged '' @ go_quote uc detail)
                        (vs_breaker s))\<rparr>)
             | (EvidenceUnknown, detail) \<Rightarrow>
                 (let (missing, health) = (if status = ''FAILURE/UNPACK''
                          then nzbget_unpackers now client False sysinfo (vs_health s) else ([], vs_health s));
                      s1 = s\<lparr>vs_health := health\<rparr>
                  in if ''UnRAR'' \<in> set missing then s1 else count_failure now client dl status s1))
      | _ \<Rightarrow> s)"

definition breaker_kinds :: "string list" where
  "breaker_kinds = [''FAILURE/UNPACK'', ''FAILURE/PAR'', ''FAILURE/SCAN'']"

definition note_kind :: "int \<Rightarrow> history_item \<Rightarrow> string \<Rightarrow> bool \<times> verdict_sys \<Rightarrow> bool \<times> verdict_sys" where
  "note_kind i item kind p =
     (if stage_succeeded_item kind item then
        (let (was_open, b) = stage_succeeded i kind (vs_breaker (snd p))
         in (fst p \<or> was_open, (snd p)\<lparr>vs_breaker := b\<rparr>))
      else p)"

definition note_completion :: "int \<Rightarrow> history_item \<Rightarrow> verdict_sys \<Rightarrow> verdict_sys" where
  "note_completion i item s =
     (let (changed, s1) = fold (note_kind i item) breaker_kinds (False, s)
      in if changed then sync_breaker_advisory i s1 else s1)"

definition reset_content_breaker :: "int \<Rightarrow> verdict_sys \<Rightarrow> verdict_sys" where
  "reset_content_breaker i s =
     s\<lparr>vs_breaker := reset_breaker i (vs_breaker s), vs_health := clear_advisory i ''blocklist'' (vs_health s)\<rparr>"

text \<open>\<open>forgetClient\<close> of the download client API, called when a client is disabled or deleted.\<close>

definition forget_client :: "int \<Rightarrow> verdict_sys \<Rightarrow> verdict_sys" where
  "forget_client i s =
     (let s1 = reset_content_breaker i s;
          s2 = s1\<lparr>vs_health := clear_advisory i ''blocklist'' (vs_health s1)\<rparr>
      in s2\<lparr>vs_health := health_forget i (vs_health s2)\<rparr>)"


subsection \<open>The published advisory\<close>

definition advice :: "int \<Rightarrow> health_store \<Rightarrow> client_health option" where
  "advice i s = map_of (hs_advisory s i) ''blocklist''"

definition due_advice :: "int \<Rightarrow> content_breaker \<Rightarrow> client_health option" where
  "due_advice i b =
     (if open_reasons i b = [] then None
      else Some \<lparr> ch_status = ''error'', ch_message = paused_message (open_reasons i b) \<rparr>)"

definition verdict_inv :: "verdict_sys \<Rightarrow> bool" where
  "verdict_inv s \<longleftrightarrow> distinct (map fst (vs_breaker s)) \<and>
     (\<forall>i. i \<noteq> 0 \<longrightarrow> advice i (vs_health s) = due_advice i (vs_breaker s))"

lemma advice_set [simp]:
  "advice j (set_advisory i src h s) = (if i = j \<and> i \<noteq> 0 \<and> src = ''blocklist'' then Some h else advice j s)"
  by (auto simp: advice_def set_advisory_def send_health_def Let_def update_conv')

lemma advice_clear [simp]:
  "advice j (clear_advisory i src s) = (if i = j \<and> i \<noteq> 0 \<and> src = ''blocklist'' then None else advice j s)"
  by (auto simp: advice_def clear_advisory_def delete_conv')

lemma distinct_fstI: "distinct (map fst xs) \<Longrightarrow> distinct xs"
  by (simp add: distinct_map)

lemma distinct_open:
  "distinct (map fst b) \<Longrightarrow> distinct (map (\<lambda>(k, st). (k, bs_reason st)) (filter (\<lambda>(k, st). fst k = i \<and> bs_reason st \<noteq> []) b))"
  by (rule distinct_fstI) (simp add: comp_def split_def distinct_map_filter)

lemma sort_mset_cong: "mset xs = mset ys \<Longrightarrow> sort xs = sort (ys :: 'a :: linorder list)"
  by (rule properties_for_sort) simp_all

lemma open_reasons_eqI:
  assumes "distinct (map fst a)" "distinct (map fst b)"
    and "\<And>kind. bs_reason (breaker_of a (i, kind)) = bs_reason (breaker_of b (i, kind))"
  shows "open_reasons i a = open_reasons i b"
proof -
  define X where "X = (\<lambda>b :: content_breaker. map (\<lambda>(k, st). (k, bs_reason st)) (filter (\<lambda>(k, st). fst k = i \<and> bs_reason st \<noteq> []) b))"
  have mem: "(k, r) \<in> set (X b) \<longleftrightarrow> fst k = i \<and> r = bs_reason (breaker_of b k) \<and> r \<noteq> []" if "distinct (map fst b)" for b k r
  proof -
    have "(k, r) \<in> set (X b) \<longleftrightarrow> (\<exists>st. (k, st) \<in> set b \<and> fst k = i \<and> r = bs_reason st \<and> r \<noteq> [])"
      by (cases k) (auto simp: X_def image_iff)
    also have "\<dots> \<longleftrightarrow> (\<exists>st. map_of b k = Some st \<and> fst k = i \<and> r = bs_reason st \<and> r \<noteq> [])"
      by (simp add: map_of_eq_Some_iff [OF that])
    finally show ?thesis by (auto simp: breaker_of_def split: option.splits)
  qed
  have dX: "distinct (X b)" if "distinct (map fst b)" for b
    using distinct_open [OF that] by (simp add: X_def)
  have reason: "bs_reason (breaker_of a k) = bs_reason (breaker_of b k)" if "fst k = i" for k
    using assms(3) [of "snd k"] that by (metis prod.collapse)
  have "set (X a) = set (X b)"
    using mem [OF assms(1)] mem [OF assms(2)] reason by (auto simp: set_eq_iff)
  then have "mset (X a) = mset (X b)"
    using dX [OF assms(1)] dX [OF assms(2)] by (simp only: set_eq_iff_mset_eq_distinct [symmetric])
  then have "sort (map (\<lambda>(k, r). snd k @ '': '' @ r) (X a)) = sort (map (\<lambda>(k, r). snd k @ '': '' @ r) (X b))"
    by (intro sort_mset_cong) (simp only: mset_map)
  moreover have "open_reasons i b = sort (map (\<lambda>(k, r). snd k @ '': '' @ r) (X b))" for b
    by (simp add: open_reasons_def X_def comp_def split_def)
  ultimately show ?thesis by simp
qed

lemma distinct_record: "distinct (map fst b) \<Longrightarrow> distinct (map fst (snd (record_content_failure now c g k b)))"
  by (auto simp: record_content_failure_def Let_def distinct_update)

lemma sync_inv:
  assumes "distinct (map fst (vs_breaker s))"
    and "\<And>j. j \<noteq> 0 \<Longrightarrow> j \<noteq> i \<Longrightarrow> advice j (vs_health s) = due_advice j (vs_breaker s)"
  shows "verdict_inv (sync_breaker_advisory i s)"
  using assms by (auto simp: verdict_inv_def sync_breaker_advisory_def Let_def due_advice_def)

lemma verdict_inv_cong:
  "\<lbrakk> verdict_inv s; distinct (map fst (vs_breaker t)); \<And>i. advice i (vs_health t) = advice i (vs_health s);
     \<And>i. open_reasons i (vs_breaker t) = open_reasons i (vs_breaker s) \<rbrakk> \<Longrightarrow> verdict_inv t"
  by (simp add: verdict_inv_def due_advice_def)

lemma advice_unpackers [simp]: "advice i (snd (nzbget_unpackers now c f si s)) = advice i s"
proof -
  have up: "advice i (s\<lparr>hs_unpackers := u\<rparr>) = advice i s" for u by (simp add: advice_def)
  have src: "''unpackers'' \<noteq> ''blocklist''" by simp
  show ?thesis
    by (cases "dc_id c = 0") (auto simp: nzbget_unpackers_def Let_def up src split: option.splits)
qed

lemma record_reason:
  "key \<noteq> (c, k) \<or> \<not> fst (snd (fst (record_content_failure now c g k b))) \<Longrightarrow>
   bs_reason (breaker_of (snd (record_content_failure now c g k b)) key) = bs_reason (breaker_of b key)"
  by (auto simp: record_content_failure_def Let_def breaker_of_update split: if_splits)

lemma vs_blocklist_release [simp]:
  "vs_breaker (blocklist_release now dl st s) = vs_breaker s" "vs_health (blocklist_release now dl st s) = vs_health s"
  by (simp_all add: blocklist_release_def)

lemma blocklist_release_inv: "verdict_inv s \<Longrightarrow> verdict_inv (blocklist_release now dl st s)"
  by (simp add: verdict_inv_def)

lemma count_failure_inv:
  assumes "verdict_inv s"
  shows "verdict_inv (count_failure now client dl status s)"
proof -
  define rf where "rf = record_content_failure now (dc_id client) (dl_guid dl) status (vs_breaker s)"
  define t where "t = s\<lparr>vs_breaker := snd rf\<rparr>"
  have d: "distinct (map fst (vs_breaker s))" using assms by (simp add: verdict_inv_def)
  have d': "distinct (map fst (vs_breaker t))" using distinct_record [OF d] by (simp add: t_def rf_def)
  have o: "open_reasons j (vs_breaker t) = open_reasons j (vs_breaker s)" if "j \<noteq> dc_id client \<or> \<not> fst (snd (fst rf))" for j
    using that record_reason by (intro open_reasons_eqI [OF d' d]) (auto simp: t_def rf_def)
  have run: "count_failure now client dl status s =
      (if fst (fst rf) then blocklist_release now dl status t
       else if fst (snd (fst rf)) then sync_breaker_advisory (dc_id client) t else t)"
    by (simp add: count_failure_def Let_def rf_def t_def case_prod_beta)
  have quiet: "verdict_inv t" if "\<not> fst (snd (fst rf))"
    by (rule verdict_inv_cong [OF assms]) (use d' o that in \<open>simp_all add: t_def\<close>)
  have allow: "fst (fst rf) \<Longrightarrow> \<not> fst (snd (fst rf))"
    by (auto simp: rf_def record_content_failure_def Let_def split: if_splits)
  have "verdict_inv (sync_breaker_advisory (dc_id client) t)"
    by (rule sync_inv [OF d']) (use o assms in \<open>simp add: t_def verdict_inv_def due_advice_def\<close>)
  then show ?thesis unfolding run using quiet allow blocklist_release_inv by auto
qed

lemma open_host_inv:
  assumes "verdict_inv s"
  shows "verdict_inv (sync_breaker_advisory i (s\<lparr>vs_breaker := snd (open_breaker i kind reason (vs_breaker s))\<rparr>))"
proof -
  have dist: "distinct (map fst (vs_breaker s))" using assms by (simp add: verdict_inv_def)
  define b where "b = snd (open_breaker i kind reason (vs_breaker s))"
  have d: "distinct (map fst b)" using dist by (simp add: b_def open_breaker_def Let_def distinct_update)
  have o: "open_reasons j b = open_reasons j (vs_breaker s)" if "j \<noteq> i" for j
    by (rule open_reasons_eqI [OF d dist]) (use that in \<open>simp add: b_def open_breaker_def Let_def breaker_of_update\<close>)
  have "verdict_inv (sync_breaker_advisory i (s\<lparr>vs_breaker := b\<rparr>))"
    by (rule sync_inv) (use d o assms in \<open>simp_all add: verdict_inv_def due_advice_def\<close>)
  then show ?thesis by (simp add: b_def)
qed

lemma unpackers_inv:
  "verdict_inv s \<Longrightarrow> verdict_inv (s\<lparr>vs_health := snd (nzbget_unpackers now c f si (vs_health s))\<rparr>)"
  by (auto simp: verdict_inv_def)

lemma handle_inv:
  assumes "verdict_inv s"
  shows "verdict_inv (handle_content_failure uc now client0 dl0 status job_log sysinfo s)"
proof (cases "vs_blocklist s = None \<or> client0 = None \<or> dl0 = None \<or> \<not> needs_log_evidence status")
  case True
  then show ?thesis
    using assms blocklist_release_inv by (auto simp: handle_content_failure_def split: option.splits)
next
  case False
  then obtain bl client dl where e: "vs_blocklist s = Some bl" "client0 = Some client" "dl0 = Some dl" "needs_log_evidence status"
    by auto
  obtain ev detail where c: "classify_failure_log (coalesce job_log []) = (ev, detail)" by fastforce
  define m where "m = (if status = ''FAILURE/UNPACK'' then nzbget_unpackers now client False sysinfo (vs_health s) else ([], vs_health s))"
  have m: "verdict_inv (s\<lparr>vs_health := snd m\<rparr>)" using unpackers_inv [OF assms] assms by (simp add: m_def)
  show ?thesis
    using blocklist_release_inv [OF assms] open_host_inv [OF assms] m count_failure_inv [OF m]
    by (cases ev) (simp_all add: handle_content_failure_def e c Let_def case_prod_beta m_def [symmetric])
qed

lemma stage_succeeded_reason:
  "\<not> fst (stage_succeeded i kind b) \<or> k \<noteq> (i, kind) \<Longrightarrow>
     bs_reason (breaker_of (snd (stage_succeeded i kind b)) k) = bs_reason (breaker_of b k)"
  by (auto simp: stage_succeeded_def Let_def breaker_of_delete) (auto simp: breaker_of_def split: option.splits)

lemma note_kind_reasons:
  assumes "distinct (map fst (vs_breaker s))" "j \<noteq> i \<or> \<not> fst (note_kind i item kind (ch, s))"
  shows "distinct (map fst (vs_breaker (snd (note_kind i item kind (ch, s))))) \<and>
    open_reasons j (vs_breaker (snd (note_kind i item kind (ch, s)))) = open_reasons j (vs_breaker s)"
proof -
  let ?t = "vs_breaker (snd (note_kind i item kind (ch, s)))"
  have d: "distinct (map fst ?t)"
    using assms(1) by (auto simp: note_kind_def stage_succeeded_def Let_def distinct_delete)
  have "bs_reason (breaker_of ?t (j, k)) = bs_reason (breaker_of (vs_breaker s) (j, k))" for k
    using assms(2) stage_succeeded_reason [of i kind "vs_breaker s" "(j, k)"]
    by (auto simp: note_kind_def Let_def case_prod_beta split: if_splits)
  then show ?thesis using d open_reasons_eqI [OF d assms(1)] by blast
qed

lemma note_kind_fold:
  assumes "distinct (map fst (vs_breaker s))"
  shows "let r = fold (note_kind i item) kinds (ch, s) in
    distinct (map fst (vs_breaker (snd r))) \<and> vs_health (snd r) = vs_health s \<and> vs_blocklist (snd r) = vs_blocklist s \<and>
    (\<forall>j. j \<noteq> i \<longrightarrow> open_reasons j (vs_breaker (snd r)) = open_reasons j (vs_breaker s)) \<and>
    (\<not> fst r \<longrightarrow> open_reasons i (vs_breaker (snd r)) = open_reasons i (vs_breaker s))"
  using assms
proof (induction kinds arbitrary: ch s)
  case (Cons kind kinds)
  define p where "p = note_kind i item kind (ch, s)"
  have d: "distinct (map fst (vs_breaker (snd p)))"
    using Cons.prems by (auto simp: p_def note_kind_def stage_succeeded_def Let_def distinct_delete)
  have same: "vs_health (snd p) = vs_health s \<and> vs_blocklist (snd p) = vs_blocklist s"
    by (simp add: p_def note_kind_def stage_succeeded_def Let_def)
  have others: "open_reasons j (vs_breaker (snd p)) = open_reasons j (vs_breaker s)" if "j \<noteq> i \<or> \<not> fst p" for j
    using note_kind_reasons [OF Cons.prems] that by (simp add: p_def)
  have kept: "fst p \<longrightarrow> fst (fold (note_kind i item) ks (True, t))" for ks t
    by (induction ks arbitrary: t) (auto simp: note_kind_def Let_def split: prod.split)
  have "fst (fold (note_kind i item) kinds p)" if "fst p"
    using that by (cases p) (metis fst_conv kept)
  then show ?case
    using Cons.IH [OF d, of "fst p"] same others by (auto simp: Let_def p_def [symmetric])
qed simp

lemma note_completion_inv:
  assumes "verdict_inv s"
  shows "verdict_inv (note_completion i item s)"
proof -
  define r where "r = fold (note_kind i item) breaker_kinds (False, s)"
  have d: "distinct (map fst (vs_breaker s))" using assms by (simp add: verdict_inv_def)
  note f = note_kind_fold [OF d, of i item breaker_kinds False, folded r_def, unfolded Let_def]
  have "verdict_inv (sync_breaker_advisory i (snd r))"
    by (rule sync_inv) (use f assms in \<open>simp_all add: verdict_inv_def due_advice_def\<close>)
  moreover have "verdict_inv (snd r)" if "\<not> fst r"
    by (rule verdict_inv_cong [OF assms]) (use f that in metis)+
  ultimately show ?thesis by (auto simp: note_completion_def r_def [symmetric] split: prod.split)
qed

lemma drop_client_inv:
  assumes "distinct (map fst (vs_breaker s))" "\<And>j. j \<noteq> 0 \<Longrightarrow> j \<noteq> i \<Longrightarrow> advice j h = due_advice j (vs_breaker s)"
    and "i \<noteq> 0 \<Longrightarrow> advice i h = None"
  shows "verdict_inv (s\<lparr>vs_breaker := reset_breaker i (vs_breaker s), vs_health := h\<rparr>)"
proof -
  have d: "distinct (map fst (reset_breaker i (vs_breaker s)))"
    using assms(1) by (simp add: reset_breaker_def distinct_map_filter)
  have "open_reasons i (reset_breaker i (vs_breaker s)) = []"
    by (simp add: open_reasons_def reset_breaker_def filter_empty_conv split_def)
  moreover have "open_reasons j (reset_breaker i (vs_breaker s)) = open_reasons j (vs_breaker s)" if "j \<noteq> i" for j
    by (rule open_reasons_eqI [OF d assms(1)]) (use that in \<open>simp add: breaker_of_reset\<close>)
  ultimately show ?thesis using assms(2,3) d by (simp add: verdict_inv_def due_advice_def) metis
qed

lemma reset_inv:
  assumes "verdict_inv s"
  shows "verdict_inv (reset_content_breaker i s)"
  unfolding reset_content_breaker_def
  by (rule drop_client_inv) (use assms in \<open>simp_all add: verdict_inv_def\<close>)

lemma advice_forget [simp]:
  "advice j (health_forget i s) = (if i = j \<and> i \<noteq> 0 then None else advice j s)"
  by (simp add: advice_def health_forget_def)

lemma forget_inv:
  assumes "verdict_inv s"
  shows "verdict_inv (forget_client i s)"
proof -
  have "forget_client i s = s\<lparr>vs_breaker := reset_breaker i (vs_breaker s),
      vs_health := health_forget i (clear_advisory i ''blocklist'' (clear_advisory i ''blocklist'' (vs_health s)))\<rparr>"
    by (simp add: forget_client_def reset_content_breaker_def)
  also have "verdict_inv \<dots>"
    by (rule drop_client_inv) (use assms in \<open>simp_all add: verdict_inv_def\<close>)
  finally show ?thesis .
qed


subsection \<open>Any sequence of events\<close>

datatype verdict_op =
    VFailure unicode time "download_client option" "download option" string "string list option" "string list option"
  | VCompletion int history_item
  | VReset int
  | VForget int
  | VHealth int client_health
  | VHealthDelete int
  | VUnpackers time download_client bool "string list option"

fun verdict_step :: "verdict_op \<Rightarrow> verdict_sys \<Rightarrow> verdict_sys" where
  "verdict_step (VFailure uc now client dl status entries sysinfo) s =
     handle_content_failure uc now client dl status entries sysinfo s"
| "verdict_step (VCompletion i item) s = note_completion i item s"
| "verdict_step (VReset i) s = reset_content_breaker i s"
| "verdict_step (VForget i) s = forget_client i s"
| "verdict_step (VHealth i h) s = s\<lparr>vs_health := health_set i h (vs_health s)\<rparr>"
| "verdict_step (VHealthDelete i) s = s\<lparr>vs_health := health_delete i (vs_health s)\<rparr>"
| "verdict_step (VUnpackers now c force sysinfo) s =
     s\<lparr>vs_health := snd (nzbget_unpackers now c force sysinfo (vs_health s))\<rparr>"

lemma advice_health [simp]: "advice j (health_set i h s) = advice j s" "advice j (health_delete i s) = advice j s"
  by (simp_all add: advice_def health_set_def health_delete_def send_health_def Let_def split: option.split)

lemma verdict_step_inv: "verdict_inv s \<Longrightarrow> verdict_inv (verdict_step op s)"
  by (cases op) (simp_all add: handle_inv note_completion_inv reset_inv forget_inv unpackers_inv,
      simp_all add: verdict_inv_def)

definition verdict_start :: "(int \<rightharpoonup> client_health) \<Rightarrow> bl_db option \<Rightarrow> bool \<Rightarrow> verdict_sys" where
  "verdict_start probed bl notif = \<lparr> vs_breaker = [],
     vs_health = \<lparr> hs_by_id = probed, hs_advisory = (\<lambda>_. []), hs_notif = notif, hs_sent = [],
       hs_unpackers = (\<lambda>_. None) \<rparr>,
     vs_blocklist = bl \<rparr>"

lemma verdict_start_inv: "verdict_inv (verdict_start probed bl notif)"
  by (simp add: verdict_inv_def verdict_start_def advice_def due_advice_def open_reasons_def)

lemma verdict_history_inv: "verdict_inv s \<Longrightarrow> verdict_inv (fold verdict_step ops s)"
  by (induction ops arbitrary: s) (simp_all add: verdict_step_inv)

text \<open>C23: the published health tells the truth about the breaker. After any sequence of failures, completions, edits,
  removals and probes, a client's health carries the note that automatic blocklisting is paused exactly while
  a breaker of that client is open, and the note names the reasons that hold now, none missing and none left
  over from before a completed stage or an edit.\<close>

theorem advisory_tracks_breaker:
  assumes "i \<noteq> 0" "s = fold verdict_step ops (verdict_start probed bl notif)"
  shows "map_of (hs_advisory (vs_health s) i) ''blocklist'' =
    (if open_reasons i (vs_breaker s) = [] then None
     else Some \<lparr> ch_status = ''error'', ch_message = paused_message (open_reasons i (vs_breaker s)) \<rparr>)"
  using verdict_history_inv [OF verdict_start_inv, of ops probed bl notif] assms
  by (simp add: verdict_inv_def advice_def due_advice_def)

theorem advisory_tracks_breaker_witness:
  "\<exists>s h. s = fold verdict_step
        [VFailure undefined 100 (Some \<lparr> dc_id = 4, dc_name = ''n'', dc_type = ''nzbget'' \<rparr>) (Some undefined) ''FAILURE/PAR''
           (Some [''disk: out of memory'']) None] (verdict_start (\<lambda>_. None) (Some undefined) False) \<and>
     map_of (hs_advisory (vs_health s) 4) ''blocklist'' = Some h \<and> ch_status h = ''error''"
proof -
  let ?op = "VFailure undefined 100 (Some \<lparr> dc_id = 4, dc_name = ''n'', dc_type = ''nzbget'' \<rparr>) (Some undefined) ''FAILURE/PAR''
           (Some [''disk: out of memory'']) None"
  define s where "s = fold verdict_step [?op] (verdict_start (\<lambda>_. None) (Some undefined) False)"
  have cl: "classify_failure_log [''disk: out of memory''] = (EvidenceHost, ''disk: out of memory'')" by code_simp
  have "open_reasons 4 (vs_breaker s) \<noteq> []"
    by (simp add: s_def verdict_start_def handle_content_failure_def needs_log_evidence_def cl open_breaker_def Let_def
        sync_breaker_advisory_def open_reasons_def)
  then show ?thesis
    using advisory_tracks_breaker [of 4 s "[?op]" "\<lambda>_. None" "Some undefined" False] s_def by fastforce
qed

subsection \<open>What blocklists\<close>

lemma count_failure_paused:
  "bs_reason (breaker_of (vs_breaker s) (dc_id client, status)) \<noteq> [] \<Longrightarrow>
     vs_blocklist (count_failure now client dl status s) = vs_blocklist s"
  by (simp add: count_failure_def record_content_failure_def Let_def)

lemma vs_blocklist_sync [simp]: "vs_blocklist (sync_breaker_advisory i s) = vs_blocklist s"
  by (simp add: sync_breaker_advisory_def Let_def)

text \<open>A fault of the machine never blocklists. A failure of one of the statuses NZBGet also reports for its own
  faults leaves the blocklist alone when the job's log shows such a fault, when the log does not show broken
  content and the status is already paused for that client, or when an unpack failure says nothing and UnRAR
  is missing.\<close>

theorem host_fault_never_blocklists:
  assumes "needs_log_evidence status"
    and "ev = fst (classify_failure_log (coalesce job_log []))"
    and "ev = EvidenceHost \<or>
      (ev = EvidenceUnknown \<and> bs_reason (breaker_of (vs_breaker s) (dc_id client, status)) \<noteq> []) \<or>
      (ev = EvidenceUnknown \<and> status = ''FAILURE/UNPACK'' \<and>
        ''UnRAR'' \<in> set (fst (nzbget_unpackers now client False sysinfo (vs_health s))))"
  shows "vs_blocklist (handle_content_failure uc now (Some client) (Some dl) status job_log sysinfo s) = vs_blocklist s"
proof -
  obtain detail where c: "classify_failure_log (coalesce job_log []) = (ev, detail)"
    using assms(2) by (metis prod.collapse)
  show ?thesis
    using assms(1,3) count_failure_paused
    by (cases ev) (auto simp: handle_content_failure_def c Let_def case_prod_beta split: option.split)
qed

theorem host_fault_never_blocklists_witness:
  "vs_blocklist (handle_content_failure undefined 100 (Some \<lparr> dc_id = 4, dc_name = ''n'', dc_type = ''nzbget'' \<rparr>)
       (Some undefined) ''FAILURE/UNPACK'' (Some [''Unrar error code: 9'']) None
       (verdict_start (\<lambda>_. None) (Some \<lparr> rows = [], last_id = 0, faults = [] \<rparr>) False))
     = Some \<lparr> rows = [], last_id = 0, faults = [] \<rparr>"
proof -
  have cl: "EvidenceHost = fst (classify_failure_log (coalesce (Some [''Unrar error code: 9'']) []))" by code_simp
  have "needs_log_evidence ''FAILURE/UNPACK''" by (simp add: needs_log_evidence_def)
  then show ?thesis
    by (subst host_fault_never_blocklists [OF _ cl]) (simp_all add: verdict_start_def)
qed

text \<open>A completed unpack ends the pause: the next unpack failure of that client counts from one again.\<close>

lemma completion_rearms:
  assumes "hi_unpack_status item = ''SUCCESS''"
  shows "breaker_of (vs_breaker (note_completion i item s)) (i, ''FAILURE/UNPACK'') = \<lparr> bs_recent = [], bs_reason = [] \<rparr>"
proof -
  have keep: "breaker_of (vs_breaker (snd (note_kind i item kind p))) (i, ''FAILURE/UNPACK'') = \<lparr> bs_recent = [], bs_reason = [] \<rparr>"
    if "breaker_of (vs_breaker (snd p)) (i, ''FAILURE/UNPACK'') = \<lparr> bs_recent = [], bs_reason = [] \<rparr>" for kind p
    using that by (simp add: note_kind_def stage_succeeded_def Let_def breaker_of_delete)
  have "breaker_of (vs_breaker (snd (note_kind i item ''FAILURE/UNPACK'' p))) (i, ''FAILURE/UNPACK'') = \<lparr> bs_recent = [], bs_reason = [] \<rparr>" for p
    using assms by (simp add: note_kind_def stage_succeeded_item_def stage_succeeded_def Let_def breaker_of_delete)
  then have "breaker_of (vs_breaker (snd (fold (note_kind i item) breaker_kinds (False, s)))) (i, ''FAILURE/UNPACK'') = \<lparr> bs_recent = [], bs_reason = [] \<rparr>"
    using keep by (simp add: breaker_kinds_def)
  then show ?thesis
    by (simp add: note_completion_def case_prod_beta sync_breaker_advisory_def Let_def)
qed

subsection \<open>What is blocklisted is refused\<close>

lemma sql_blocks_release: "sql_blocks g None r \<Longrightarrow> br_guid r = g \<and> br_scope r = ''release''"
  by (simp add: sql_blocks_def)

lemma rejected_release_row:
  assumes "trim_space (dl_guid dl) \<noteq> []" "faults c = []"
  shows "\<exists>r \<in> set (rows (blocklist_rejected_release now dl ''release'' reason c)). sql_blocks (dl_guid dl) None r"
proof (cases "length (filter (sql_blocks (dl_guid dl) None) (rows c)) > 0")
  case True
  then show ?thesis
    using assms by (auto simp: blocklist_rejected_release_def blocklist_blocks_book_def db_query_def next_fault_def
        Let_def filter_empty_conv)
next
  case False
  then show ?thesis
    using assms
    by (auto simp: blocklist_rejected_release_def blocklist_blocks_book_def db_query_def next_fault_def
        Let_def bl_create_def insert_blocklist_entry_def db_insert_def effective_scope_def bl_entry_of_def sql_blocks_def)
qed

text \<open>C21: a release shown broken is refused for every book. When a failed download carries an identity, the job's log
  shows broken content and no statement fails, the blocklist afterwards makes the search refuse that release
  whatever book it is offered for, whether or not the status is paused.\<close>

theorem broken_release_refused:
  assumes "needs_log_evidence status" "fst (classify_failure_log entries) = EvidenceContent"
    and "vs_blocklist s = Some c" "faults c = []" "trim_space (dl_guid dl) \<noteq> []"
    and "vs_blocklist (handle_content_failure uc now (Some client) (Some dl) status (Some entries) sysinfo s) = Some c1"
    and "bl_list c1 = (Inr listed, c2)" "rl_guid rel = dl_guid dl"
  shows "\<not> fst (blocklisted_spec (new_blocklisted_spec (map bl_entry_of listed)) rel bk)"
proof -
  obtain detail where cl: "classify_failure_log entries = (EvidenceContent, detail)"
    using assms(2) by (metis prod.collapse)
  have c1: "c1 = blocklist_rejected_release now dl ''release'' (''downloadFailed: '' @ status) c"
    using assms(1,3,6) by (simp add: handle_content_failure_def cl blocklist_release_def)
  obtain r where r: "r \<in> set (rows c1)" "br_guid r = dl_guid dl" "br_scope r = ''release''"
    using rejected_release_row [OF assms(5,4)] sql_blocks_release unfolding c1 by blast
  have "r \<in> set listed" using assms(7) r(1) by (auto simp: bl_list_def db_query_def split: if_splits)
  then show ?thesis
    using r(2,3) assms(8)
    by (auto simp: blocklisted_spec_def new_blocklisted_filter list_ex_iff blocks_book_def effective_scope_def bl_entry_of_def
        intro!: bexI [of _ r])
qed

theorem broken_release_refused_witness:
  "\<exists>s c1 listed c2. vs_blocklist (handle_content_failure undefined 100 (Some \<lparr> dc_id = 4, dc_name = ''n'', dc_type = ''nzbget'' \<rparr>)
       (Some (undefined\<lparr>dl_guid := ''g''\<rparr>)) ''FAILURE/UNPACK'' (Some [''Cannot find volume x.r01'']) None s) = Some c1 \<and>
     bl_list c1 = (Inr listed, c2) \<and>
     \<not> fst (blocklisted_spec (new_blocklisted_spec (map bl_entry_of listed)) (undefined\<lparr>rl_guid := ''g''\<rparr>) undefined)"
proof -
  let ?s = "verdict_start (\<lambda>_. None) (Some \<lparr> rows = [], last_id = 0, faults = [] \<rparr>) False"
  let ?dl = "(undefined :: download)\<lparr>dl_guid := ''g''\<rparr>"
  let ?run = "handle_content_failure undefined 100 (Some \<lparr> dc_id = 4, dc_name = ''n'', dc_type = ''nzbget'' \<rparr>)
       (Some ?dl) ''FAILURE/UNPACK'' (Some [''Cannot find volume x.r01'']) None ?s"
  have cl: "fst (classify_failure_log [''Cannot find volume x.r01'']) = EvidenceContent" by code_simp
  have st: "needs_log_evidence ''FAILURE/UNPACK''" by (simp add: needs_log_evidence_def)
  have g: "trim_space ''g'' \<noteq> []" by code_simp
  obtain detail where cl': "classify_failure_log [''Cannot find volume x.r01''] = (EvidenceContent, detail)"
    using cl by (metis prod.collapse)
  let ?c1 = "blocklist_rejected_release 100 ?dl ''release'' (''downloadFailed: '' @ ''FAILURE/UNPACK'')
      \<lparr> rows = [], last_id = 0, faults = [] \<rparr>"
  have run: "vs_blocklist ?run = Some ?c1"
    using st by (simp add: handle_content_failure_def cl' blocklist_release_def verdict_start_def)
  have nf: "faults ?c1 = []"
    using g by (simp add: blocklist_rejected_release_def blocklist_blocks_book_def db_query_def next_fault_def Let_def
        bl_create_def insert_blocklist_entry_def db_insert_def)
  then obtain listed where l: "bl_list ?c1 = (Inr listed, ?c1)"
    by (simp add: bl_list_def db_query_def next_fault_def)
  have "\<not> fst (blocklisted_spec (new_blocklisted_spec (map bl_entry_of listed)) (undefined\<lparr>rl_guid := ''g''\<rparr>) undefined)"
    by (rule broken_release_refused [OF st cl _ _ _ run l, where c = "\<lparr> rows = [], last_id = 0, faults = [] \<rparr>"])
      (use g in \<open>simp_all add: verdict_start_def\<close>)
  then show ?thesis using run l by blast
qed

end
