(* ===== verification/Series_Db.thy ===== *)
theory Series_Db
  imports Complex_Main Sql_Table "HOL-Library.Product_Lexorder"
begin

text \<open>
  \<open>internal/db/series.go\<close> and \<open>series_monitoring.go\<close>: the series, their memberships, the aliases a merge
  leaves, the Hardcover links, the exclusions and the monitoring rows, with the constraints the migrations
  declare. One statement is one step; a transaction is the sequence of its statements, rolled back on error.
\<close>

subsection \<open>The tables\<close>

record series_row =
  sr_id :: int
  sr_foreign_id :: string
  sr_title :: string
  sr_search_key :: string
  sr_description :: string
  sr_monitored :: bool
  sr_genre_override :: "string option"
  sr_created_at :: time

record series_book =
  sb_series_id :: int
  sb_book_id :: int
  sb_position :: string
  sb_primary :: bool

record hardcover_link =
  hl_series_id :: int
  hl_hardcover_id :: string
  hl_provider_id :: string
  hl_slug :: string
  hl_title :: string
  hl_author_name :: string
  hl_book_count :: int
  hl_confidence :: rat
  hl_linked_by :: string
  hl_linked_at :: time
  hl_created_at :: time
  hl_updated_at :: time

record series_exclusion =
  ex_book_id :: int
  ex_foreign_id :: string
  ex_position :: string

record series_monitoring =
  sm_series_id :: int
  sm_mode :: string
  sm_owner_user_id :: int
  sm_last_check_at :: "time option"
  sm_last_ok_at :: "time option"
  sm_next_check_at :: "time option"
  sm_last_status :: string
  sm_last_message :: string
  sm_last_created :: int

text \<open>
  The pins are the rows of \<open>author_monitored_series\<close> (author, series, creation), the recommendations are
  reduced to their series, and of the books only id and title matter here.
\<close>

record series_tables =
  st_series :: "series_row list"
  st_members :: "series_book list"
  st_aliases :: "(string \<times> int) list"
  st_links :: "hardcover_link list"
  st_exclusions :: "series_exclusion list"
  st_monitoring :: "series_monitoring list"
  st_pins :: "(int \<times> int \<times> time) list"
  st_recs :: "int option list"
  st_books :: "(int \<times> string) list"
  st_last_id :: int

datatype series_error =
    SeriesDb db_error | ForeignKeyViolation | NoSuchRow | SeriesAliasTaken | EmptyForeignId | SeriesIdRequired
  | HardcoverIdRequired | HardcoverConflict int | MergeNoSources | MergeIntoItself | MergeListedTwice int
  | MergeMissing int | SeriesNotFound

record series_db =
  tabs :: series_tables
  outcomes :: "bool list"

subsection \<open>Statements and transactions\<close>

type_synonym 'a series_op = "series_db \<Rightarrow> (series_error + 'a) \<times> series_db"

type_synonym 'a on_tables = "series_tables \<Rightarrow> series_error + 'a \<times> series_tables"

definition stmt :: "'a on_tables \<Rightarrow> 'a series_op" where
  "stmt f d =
     (let d1 = d\<lparr>outcomes := tl (outcomes d)\<rparr> in
      if outcomes d \<noteq> [] \<and> hd (outcomes d) then (Inl (SeriesDb DriverError), d1)
      else (case f (tabs d) of
              Inl e \<Rightarrow> (Inl e, d1)
            | Inr (a, t) \<Rightarrow> (Inr a, d1\<lparr>tabs := t\<rparr>)))"

definition query :: "(series_tables \<Rightarrow> 'a) \<Rightarrow> 'a series_op" where
  "query q = stmt (\<lambda>t. Inr (q t, t))"

definition plain :: "(series_tables \<Rightarrow> series_tables) \<Rightarrow> unit on_tables" where
  "plain f t = Inr ((), f t)"

definition exec :: "(series_tables \<Rightarrow> series_tables) \<Rightarrow> unit series_op" where
  "exec f = stmt (plain f)"

definition and_next :: "'a series_op \<Rightarrow> ('a \<Rightarrow> 'b series_op) \<Rightarrow> 'b series_op" where
  "and_next m k d = (case m d of (Inl e, d') \<Rightarrow> (Inl e, d') | (Inr a, d') \<Rightarrow> k a d')"

definition fail :: "series_error \<Rightarrow> 'a series_op" where
  "fail e d = (Inl e, d)"

definition give :: "'a \<Rightarrow> 'a series_op" where
  "give a d = (Inr a, d)"

text \<open>BEGIN and COMMIT are statements of their own; \<open>rolled\<close> of the answer means nothing is committed.\<close>

definition in_tx :: "('a \<Rightarrow> bool) \<Rightarrow> 'a series_op \<Rightarrow> 'a series_op" where
  "in_tx rolled m d =
     (case and_next (exec id) (\<lambda>_. and_next m (\<lambda>a. if rolled a then give a else and_next (exec id) (\<lambda>_. give a))) d of
        (Inl e, d') \<Rightarrow> (Inl e, d'\<lparr>tabs := tabs d\<rparr>)
      | (Inr a, d') \<Rightarrow> (Inr a, if rolled a then d'\<lparr>tabs := tabs d\<rparr> else d'))"

fun run_all :: "unit on_tables list \<Rightarrow> unit series_op" where
  "run_all [] = give ()"
| "run_all (f # fs) = and_next (stmt f) (\<lambda>_. run_all fs)"

subsection \<open>Constraints\<close>

definition series_ids :: "series_tables \<Rightarrow> int list" where
  "series_ids t = map sr_id (st_series t)"

definition find_series :: "series_tables \<Rightarrow> int \<Rightarrow> series_row option" where
  "find_series t i = find (\<lambda>r. sr_id r = i) (st_series t)"

definition member_key :: "series_book \<Rightarrow> int \<times> int" where
  "member_key m = (sb_series_id m, sb_book_id m)"

definition member_refs_ok :: "series_tables \<Rightarrow> series_book \<Rightarrow> bool" where
  "member_refs_ok t m \<longleftrightarrow> sb_series_id m \<in> set (series_ids t) \<and> sb_book_id m \<in> set (map fst (st_books t))"

definition insert_member :: "series_book \<Rightarrow> unit on_tables" where
  "insert_member m t =
     (if member_key m \<in> set (map member_key (st_members t)) then Inl (SeriesDb UniqueViolation)
      else if \<not> member_refs_ok t m then Inl ForeignKeyViolation
      else Inr ((), t\<lparr>st_members := st_members t @ [m]\<rparr>))"

definition insert_member_or_ignore :: "series_book \<Rightarrow> bool on_tables" where
  "insert_member_or_ignore m t =
     (if member_key m \<in> set (map member_key (st_members t)) then Inr (False, t)
      else if \<not> member_refs_ok t m then Inl ForeignKeyViolation
      else Inr (True, t\<lparr>st_members := st_members t @ [m]\<rparr>))"

definition update_members ::
    "(series_book \<Rightarrow> bool) \<Rightarrow> (series_book \<Rightarrow> series_book) \<Rightarrow> series_tables \<Rightarrow> series_tables" where
  "update_members p f t = t\<lparr>st_members := map (\<lambda>m. if p m then f m else m) (st_members t)\<rparr>"

definition update_series ::
    "int \<Rightarrow> (series_row \<Rightarrow> series_row) \<Rightarrow> series_tables \<Rightarrow> series_tables" where
  "update_series i f t = t\<lparr>st_series := map (\<lambda>r. if sr_id r = i then f r else r) (st_series t)\<rparr>"

text \<open>\<open>DELETE FROM series\<close> with its cascades.\<close>

definition delete_series :: "int \<Rightarrow> series_tables \<Rightarrow> series_tables" where
  "delete_series i t = t\<lparr>
     st_series := filter (\<lambda>r. sr_id r \<noteq> i) (st_series t),
     st_members := filter (\<lambda>m. sb_series_id m \<noteq> i) (st_members t),
     st_aliases := filter (\<lambda>a. snd a \<noteq> i) (st_aliases t),
     st_links := filter (\<lambda>l. hl_series_id l \<noteq> i) (st_links t),
     st_monitoring := filter (\<lambda>m. sm_series_id m \<noteq> i) (st_monitoring t),
     st_pins := filter (\<lambda>(a, s, c). s \<noteq> i) (st_pins t)\<rparr>"

definition fresh_series :: "int \<Rightarrow> string \<Rightarrow> string \<Rightarrow> string \<Rightarrow> string \<Rightarrow> time \<Rightarrow> series_row" where
  "fresh_series i fid title key description now = \<lparr> sr_id = i, sr_foreign_id = fid, sr_title = title, sr_search_key = key,
     sr_description = description, sr_monitored = False, sr_genre_override = None, sr_created_at = now \<rparr>"

definition add_series :: "(int \<Rightarrow> series_row) \<Rightarrow> series_tables \<Rightarrow> series_tables" where
  "add_series mk t = t\<lparr>st_series := st_series t @ [mk (st_last_id t + 1)], st_last_id := st_last_id t + 1\<rparr>"

definition foreign_id_taken :: "string \<Rightarrow> series_tables \<Rightarrow> bool" where
  "foreign_id_taken fid t \<longleftrightarrow> fid \<in> set (map sr_foreign_id (st_series t))"

definition is_alias :: "string \<Rightarrow> series_tables \<Rightarrow> bool" where
  "is_alias fid t \<longleftrightarrow> fid \<in> set (map fst (st_aliases t))"

subsection \<open>Creating and finding a series\<close>

definition hardcover_prefix :: string where
  "hardcover_prefix = ''hc-series:''"

definition manual_prefix :: string where
  "manual_prefix = ''manual:series:''"

definition hardcover_id_forms :: "string \<Rightarrow> string \<times> string" where
  "hardcover_id_forms i =
     (let bare = trim_prefix (trim_space i) hardcover_prefix in (hardcover_prefix @ bare, bare))"

definition refuse_alias :: "string \<Rightarrow> unit series_op" where
  "refuse_alias fid = and_next (query (is_alias fid)) (\<lambda>taken. if taken then fail SeriesAliasTaken else give ())"

definition series_create ::
    "(string \<Rightarrow> string) \<Rightarrow> time \<Rightarrow> string \<Rightarrow> string \<Rightarrow> string \<Rightarrow> int series_op" where
  "series_create fold_key now fid title description =
     and_next (refuse_alias fid) (\<lambda>_.
       stmt (\<lambda>t. if foreign_id_taken fid t then Inl (SeriesDb UniqueViolation)
         else Inr (st_last_id t + 1, add_series (\<lambda>i. fresh_series i fid title (fold_key title) description now) t)))"

definition create_manual :: "(string \<Rightarrow> string) \<Rightarrow> time \<Rightarrow> string \<Rightarrow> int series_op" where
  "create_manual fold_key now title =
     series_create fold_key now (manual_prefix @ show_int (now - 62135596800 * second)) (trim_space title) []"

text \<open>The one lookup of a provider id: the series with that id, else the one it was merged into.\<close>

definition series_by_foreign_id :: "string \<Rightarrow> series_tables \<Rightarrow> int option" where
  "series_by_foreign_id fid t =
     (case map sr_id (filter (\<lambda>r. sr_foreign_id r = fid) (st_series t))
           @ map snd (filter (\<lambda>a. fst a = fid) (st_aliases t)) of
        [] \<Rightarrow> None | i # _ \<Rightarrow> Some i)"

definition linked_series :: "string \<Rightarrow> string \<Rightarrow> series_tables \<Rightarrow> int option" where
  "linked_series hc bare t =
     (case sort (map hl_series_id (filter (\<lambda>l. hl_hardcover_id l \<in> {hc, bare}) (st_links t))) of
        [] \<Rightarrow> None | i # _ \<Rightarrow> Some i)"

text \<open>The \<open>INSERT OR IGNORE ... WHERE NOT EXISTS\<close> of \<open>CreateOrGet\<close>, and what follows it.\<close>

definition insert_unless_known ::
    "(string \<Rightarrow> string) \<Rightarrow> time \<Rightarrow> string \<Rightarrow> string \<Rightarrow> string \<Rightarrow> string \<Rightarrow> string \<Rightarrow> int option on_tables" where
  "insert_unless_known fold_key now fid title description hc bare t =
     (if is_alias fid t
         \<or> \<not> (hc = [] \<or> \<not> list_ex (\<lambda>l. hl_hardcover_id l \<in> {hc, bare}) (st_links t))
         \<or> foreign_id_taken fid t
      then Inr (None, t)
      else Inr (Some (st_last_id t + 1),
        add_series (\<lambda>i. fresh_series i fid title (fold_key title) description now) t))"

definition created_or_found :: "string \<Rightarrow> string \<Rightarrow> string \<Rightarrow> int option \<Rightarrow> int series_op" where
  "created_or_found fid hc bare created =
     (case created of
        Some i \<Rightarrow> give i
      | None \<Rightarrow> and_next (query (series_by_foreign_id fid)) (\<lambda>found. case found of
            Some i \<Rightarrow> give i
          | None \<Rightarrow> if hc = [] then fail NoSuchRow
              else and_next (query (linked_series hc bare)) (\<lambda>linked. case linked of
                     Some i \<Rightarrow> give i | None \<Rightarrow> fail NoSuchRow)))"

definition create_or_get ::
    "(string \<Rightarrow> string) \<Rightarrow> time \<Rightarrow> string \<Rightarrow> string \<Rightarrow> string \<Rightarrow> int series_op" where
  "create_or_get fold_key now fid title description =
     (if trim_space fid = [] then fail EmptyForeignId
      else
        (let hc = (if has_prefix fid hardcover_prefix then fid else []);
             bare = snd (hardcover_id_forms hc)
         in and_next (stmt (insert_unless_known fold_key now fid title description hc bare))
              (created_or_found fid hc bare)))"

definition get_by_foreign_id :: "string \<Rightarrow> series_row option series_op" where
  "get_by_foreign_id fid = query (\<lambda>t. case series_by_foreign_id fid t of None \<Rightarrow> None | Some i \<Rightarrow> find_series t i)"

definition alias_foreign_ids :: "int list \<Rightarrow> string list series_op" where
  "alias_foreign_ids ids =
     (if ids = [] then give []
      else query (\<lambda>t. sort (map fst (filter (\<lambda>a. snd a \<in> set ids) (st_aliases t)))))"

definition write_foreign_id :: "int \<Rightarrow> string \<Rightarrow> unit on_tables" where
  "write_foreign_id i fid t =
     (if i \<in> set (series_ids t) \<and> list_ex (\<lambda>r. sr_foreign_id r = fid \<and> sr_id r \<noteq> i) (st_series t)
      then Inl (SeriesDb UniqueViolation)
      else Inr ((), update_series i (\<lambda>r. r\<lparr>sr_foreign_id := fid\<rparr>) t))"

definition update_foreign_id :: "int \<Rightarrow> string \<Rightarrow> unit series_op" where
  "update_foreign_id i fid =
     (if i = 0 then give () else and_next (refuse_alias fid) (\<lambda>_. stmt (write_foreign_id i fid)))"

definition update_title :: "(string \<Rightarrow> string) \<Rightarrow> int \<Rightarrow> string \<Rightarrow> unit series_op" where
  "update_title fold_key i title0 =
     (let title = trim_space title0
      in exec (update_series i (\<lambda>r. r\<lparr>sr_title := title, sr_search_key := fold_key title\<rparr>)))"

definition set_monitored :: "int \<Rightarrow> bool \<Rightarrow> unit series_op" where
  "set_monitored i m = exec (update_series i (\<lambda>r. r\<lparr>sr_monitored := m\<rparr>))"

definition set_genre_override :: "int \<Rightarrow> string \<Rightarrow> unit series_op" where
  "set_genre_override i encoded = exec (update_series i (\<lambda>r. r\<lparr>sr_genre_override := Some encoded\<rparr>))"

definition clear_genre_override :: "int \<Rightarrow> unit series_op" where
  "clear_genre_override i = exec (update_series i (\<lambda>r. r\<lparr>sr_genre_override := None\<rparr>))"

definition series_delete :: "int \<Rightarrow> unit series_op" where
  "series_delete i = exec (delete_series i)"

subsection \<open>Memberships and exclusions\<close>

text \<open>The ids an exclusion of a series may stand under: its own and those merged into it.\<close>

definition ids_of_series :: "int \<Rightarrow> series_tables \<Rightarrow> string list" where
  "ids_of_series i t =
     map sr_foreign_id (filter (\<lambda>r. sr_id r = i) (st_series t)) @ map fst (filter (\<lambda>a. snd a = i) (st_aliases t))"

definition book_excluded :: "int \<Rightarrow> int \<Rightarrow> series_tables \<Rightarrow> bool" where
  "book_excluded i b t \<longleftrightarrow>
     i \<in> set (series_ids t) \<and>
     list_ex (\<lambda>e. ex_book_id e = b \<and> ex_foreign_id e \<in> set (ids_of_series i t)) (st_exclusions t)"

definition link_book_if_missing :: "int \<Rightarrow> int \<Rightarrow> string \<Rightarrow> bool \<Rightarrow> bool series_op" where
  "link_book_if_missing i b position primary =
     stmt (\<lambda>t. if book_excluded i b t then Inr (False, t)
                else insert_member_or_ignore
                  \<lparr> sb_series_id = i, sb_book_id = b, sb_position = position, sb_primary = primary \<rparr> t)"

definition has_primary_series :: "int \<Rightarrow> bool series_op" where
  "has_primary_series b = query (\<lambda>t. list_ex (\<lambda>m. sb_book_id m = b \<and> sb_primary m) (st_members t))"

definition link_book_preserving_primary :: "int \<Rightarrow> int \<Rightarrow> string \<Rightarrow> bool series_op" where
  "link_book_preserving_primary i b position =
     and_next (has_primary_series b) (\<lambda>has. link_book_if_missing i b position (\<not> has))"

definition update_book_link_position :: "int \<Rightarrow> int \<Rightarrow> string \<Rightarrow> unit series_op" where
  "update_book_link_position i b position =
     exec (update_members (\<lambda>m. sb_series_id m = i \<and> sb_book_id m = b) (\<lambda>m. m\<lparr>sb_position := trim_space position\<rparr>))"

definition drop_exclusions :: "int \<Rightarrow> int \<Rightarrow> series_tables \<Rightarrow> series_tables" where
  "drop_exclusions i b t = t\<lparr>st_exclusions :=
     filter (\<lambda>e. \<not> (ex_book_id e = b \<and> ex_foreign_id e \<in> set (ids_of_series i t))) (st_exclusions t)\<rparr>"

definition upsert_member :: "series_book \<Rightarrow> unit on_tables" where
  "upsert_member m t =
     (if member_key m \<in> set (map member_key (st_members t))
      then Inr ((), update_members (\<lambda>x. member_key x = member_key m)
             (\<lambda>x. x\<lparr>sb_position := sb_position m, sb_primary := sb_primary m\<rparr>) t)
      else insert_member m t)"

definition demote_others :: "int \<Rightarrow> int \<Rightarrow> series_tables \<Rightarrow> series_tables" where
  "demote_others i b = update_members (\<lambda>m. sb_book_id m = b \<and> sb_series_id m \<noteq> i) (\<lambda>m. m\<lparr>sb_primary := False\<rparr>)"

definition upsert_book_link :: "int \<Rightarrow> int \<Rightarrow> string \<Rightarrow> bool \<Rightarrow> unit series_op" where
  "upsert_book_link i b position primary =
     in_tx (\<lambda>_. False) (run_all
       ([plain (drop_exclusions i b),
         upsert_member \<lparr> sb_series_id = i, sb_book_id = b, sb_position = trim_space position, sb_primary = primary \<rparr>]
        @ (if primary then [plain (demote_others i b)] else [])))"

definition record_exclusion :: "int \<Rightarrow> int \<Rightarrow> series_tables \<Rightarrow> series_tables" where
  "record_exclusion i b t =
     fold (\<lambda>m t. fold (\<lambda>r t. t\<lparr>st_exclusions :=
          filter (\<lambda>e. \<not> (ex_book_id e = b \<and> ex_foreign_id e = sr_foreign_id r)) (st_exclusions t)
          @ [\<lparr> ex_book_id = b, ex_foreign_id = sr_foreign_id r, ex_position = sb_position m \<rparr>]\<rparr>)
        (filter (\<lambda>r. sr_id r = i \<and> sr_foreign_id r \<noteq> []) (st_series t)) t)
      (filter (\<lambda>m. sb_series_id m = i \<and> sb_book_id m = b) (st_members t)) t"

definition remove_member :: "int \<Rightarrow> int \<Rightarrow> nat on_tables" where
  "remove_member i b t =
     Inr (length (filter (\<lambda>m. sb_series_id m = i \<and> sb_book_id m = b) (st_members t)),
       t\<lparr>st_members := filter (\<lambda>m. \<not> (sb_series_id m = i \<and> sb_book_id m = b)) (st_members t)\<rparr>)"

definition remove_book_from_series :: "int \<Rightarrow> int \<Rightarrow> bool series_op" where
  "remove_book_from_series i b =
     in_tx Not (and_next (exec (record_exclusion i b)) (\<lambda>_.
       and_next (stmt (remove_member i b)) (\<lambda>n. give (n \<noteq> 0))))"

definition unlink_book :: "int \<Rightarrow> int \<Rightarrow> unit series_op" where
  "unlink_book i b = and_next (stmt (remove_member i b)) (\<lambda>_. give ())"

definition clear_book_series_exclusions :: "int \<Rightarrow> unit series_op" where
  "clear_book_series_exclusions b =
     exec (\<lambda>t. t\<lparr>st_exclusions := filter (\<lambda>e. ex_book_id e \<noteq> b) (st_exclusions t)\<rparr>)"

definition clear_book_series_exclusion :: "int \<Rightarrow> int \<Rightarrow> unit series_op" where
  "clear_book_series_exclusion i b = exec (drop_exclusions i b)"

definition get_series_ids_for_book :: "int \<Rightarrow> int list series_op" where
  "get_series_ids_for_book b = query (\<lambda>t. map sb_series_id (filter (\<lambda>m. sb_book_id m = b) (st_members t)))"

text \<open>The tie break of the renamer: primary, then positioned (SQL trims blanks only), then the lowest id.\<close>

definition renamer_rank :: "series_book \<Rightarrow> bool \<times> bool \<times> int" where
  "renamer_rank m = (\<not> sb_primary m, list_all (\<lambda>c. c = CHR '' '') (sb_position m), sb_series_id m)"

definition get_primary_series_for_book :: "int \<Rightarrow> (string \<times> string) series_op" where
  "get_primary_series_for_book b = query (\<lambda>t.
     case sort_key renamer_rank (filter (\<lambda>m. sb_book_id m = b \<and> sb_series_id m \<in> set (series_ids t)) (st_members t)) of
       [] \<Rightarrow> ([], [])
     | m # _ \<Rightarrow> (sr_title (the (find_series t (sb_series_id m))), sb_position m))"

definition set_primary_series :: "int \<Rightarrow> int \<Rightarrow> unit series_op" where
  "set_primary_series i b =
     in_tx (\<lambda>_. False)
       (and_next (query (\<lambda>t. (i, b) \<in> set (map member_key (st_members t)))) (\<lambda>there.
          if \<not> there then fail NoSuchRow
          else run_all [plain (demote_others i b),
            plain (update_members (\<lambda>m. sb_book_id m = b \<and> sb_series_id m = i) (\<lambda>m. m\<lparr>sb_primary := True\<rparr>))]))"

end
