(* ===== verification/Series_Merge.thy ===== *)
theory Series_Merge
  imports Series_Db
begin

text \<open>
  \<open>internal/db/series_merge.go\<close>: the plan of a merge, the statements that carry it out and the transaction
  around both. What a merge does to memberships, aliases, exclusions and monitoring is proved in
  \<open>Series_Proofs\<close>.
\<close>

subsection \<open>The plan\<close>

record merge_book =
  mb_book_id :: int
  mb_title :: string
  mb_position :: string
  mb_primary :: bool

record merge_conflict =
  mc_book_id :: int
  mc_title :: string
  mc_target_position :: string
  mc_source_position :: string

record merge_source =
  ms_id :: int
  ms_title :: string
  ms_foreign_id :: string
  ms_moved :: "merge_book list"
  ms_kept :: "merge_book list"
  ms_conflicts :: "merge_conflict list"

record merge_plan =
  mp_target_id :: int
  mp_title :: string
  mp_aliases :: "string list"
  mp_sources :: "merge_source list"
  mp_hardcover_link_from :: int
  mp_genre_override_from :: int
  mp_monitored :: bool

record merge_row =
  mr_id :: int
  mr_foreign_id :: string
  mr_title :: string
  mr_monitored :: bool
  mr_genre_override :: "string option"
  mr_hardcover_link :: bool
  mr_aliases :: "string list"

text \<open>\<open>mergeRow\<close>: the aliases come back in one string joined by the unit separator.\<close>

definition unit_separator :: char where
  "unit_separator = CHR 0x1F"

definition merge_row_of :: "int \<Rightarrow> series_tables \<Rightarrow> merge_row option" where
  "merge_row_of i t =
     (case find_series t i of
        None \<Rightarrow> None
      | Some s \<Rightarrow>
          (let joined = str_join [unit_separator] (sort (map fst (filter (\<lambda>a. snd a = i) (st_aliases t))))
           in Some \<lparr> mr_id = i, mr_foreign_id = sr_foreign_id s, mr_title = sr_title s, mr_monitored = sr_monitored s,
                mr_genre_override = sr_genre_override s,
                mr_hardcover_link = list_ex (\<lambda>l. hl_series_id l = i) (st_links t),
                mr_aliases = (if joined = [] then [] else split_on unit_separator joined) \<rparr>))"

definition book_title :: "series_tables \<Rightarrow> int \<Rightarrow> string" where
  "book_title t b = (case map_of (st_books t) b of None \<Rightarrow> [] | Some title \<Rightarrow> title)"

definition merge_members :: "int \<Rightarrow> series_tables \<Rightarrow> merge_book list" where
  "merge_members i t =
     map (\<lambda>m. \<lparr> mb_book_id = sb_book_id m, mb_title = book_title t (sb_book_id m),
                mb_position = trim_space (sb_position m), mb_primary = sb_primary m \<rparr>)
       (sort_key sb_book_id (filter (\<lambda>m. sb_series_id m = i) (st_members t)))"

text \<open>One member of a source against the membership the target has so far.\<close>

definition absorb_member ::
    "merge_book \<Rightarrow> (int \<rightharpoonup> merge_book) \<times> merge_source \<Rightarrow> (int \<rightharpoonup> merge_book) \<times> merge_source" where
  "absorb_member m p =
     (let (joined, ps) = p in
      case joined (mb_book_id m) of
        None \<Rightarrow> (joined(mb_book_id m \<mapsto> m), ps\<lparr>ms_moved := ms_moved ps @ [m]\<rparr>)
      | Some have \<Rightarrow>
          (let clash = (mb_position have \<noteq> [] \<and> mb_position m \<noteq> [] \<and> mb_position m \<noteq> mb_position have);
               pos = (if mb_position have = [] then mb_position m else mb_position have);
               kept = \<lparr> mb_book_id = mb_book_id m, mb_title = mb_title have, mb_position = pos,
                        mb_primary = (mb_primary have \<or> mb_primary m) \<rparr>
           in (joined(mb_book_id m \<mapsto> kept),
               ps\<lparr>ms_kept := ms_kept ps @ [kept],
                  ms_conflicts := ms_conflicts ps @ (if clash
                    then [\<lparr> mc_book_id = mb_book_id m, mc_title = mb_title m,
                            mc_target_position = mb_position have, mc_source_position = mb_position m \<rparr>]
                    else [])\<rparr>)))"

definition keep_as_alias :: "string \<Rightarrow> bool" where
  "keep_as_alias fid \<longleftrightarrow> fid \<noteq> [] \<and> \<not> has_prefix fid manual_prefix"

record merge_state =
  mg_joined :: "int \<rightharpoonup> merge_book"
  mg_plan :: merge_plan
  mg_has_link :: bool
  mg_has_genres :: bool

definition absorb_source :: "int \<Rightarrow> merge_row \<Rightarrow> merge_book list \<Rightarrow> merge_state \<Rightarrow> merge_state" where
  "absorb_source i src members g =
     (let (joined, ps) = fold absorb_member members (mg_joined g,
            \<lparr> ms_id = i, ms_title = mr_title src, ms_foreign_id = mr_foreign_id src,
              ms_moved = [], ms_kept = [], ms_conflicts = [] \<rparr>);
          plan = mg_plan g;
          takes_link = (\<not> mg_has_link g \<and> mr_hardcover_link src);
          takes_genres = (\<not> mg_has_genres g \<and> mr_genre_override src \<noteq> None)
      in \<lparr> mg_joined = joined,
           mg_plan = plan\<lparr>
             mp_sources := mp_sources plan @ [ps],
             mp_aliases := mp_aliases plan @ (if keep_as_alias (mr_foreign_id src) then [mr_foreign_id src] else []) @ mr_aliases src,
             mp_hardcover_link_from := (if takes_link then i else mp_hardcover_link_from plan),
             mp_genre_override_from := (if takes_genres then i else mp_genre_override_from plan),
             mp_monitored := (mp_monitored plan \<or> mr_monitored src)\<rparr>,
           mg_has_link = (mg_has_link g \<or> takes_link),
           mg_has_genres = (mg_has_genres g \<or> takes_genres) \<rparr>)"

fun absorb_sources :: "int list \<Rightarrow> merge_state \<Rightarrow> merge_state series_op" where
  "absorb_sources [] g = give g"
| "absorb_sources (i # is) g =
     and_next (query (merge_row_of i)) (\<lambda>row. case row of
       None \<Rightarrow> fail (MergeMissing i)
     | Some src \<Rightarrow> and_next (query (merge_members i)) (\<lambda>members. absorb_sources is (absorb_source i src members g)))"

fun check_sources :: "int \<Rightarrow> int list \<Rightarrow> int list \<Rightarrow> series_error option" where
  "check_sources target seen [] = None"
| "check_sources target seen (i # is) =
     (if i = target then Some MergeIntoItself
      else if i \<in> set seen then Some (MergeListedTwice i)
      else check_sources target (i # seen) is)"

definition start_state :: "int \<Rightarrow> string \<Rightarrow> merge_row \<Rightarrow> merge_book list \<Rightarrow> merge_state" where
  "start_state target new_title tr members =
     \<lparr> mg_joined = map_of (rev (map (\<lambda>m. (mb_book_id m, m)) members)),
       mg_plan = \<lparr> mp_target_id = target,
         mp_title = (if trim_space new_title \<noteq> [] then trim_space new_title else mr_title tr),
         mp_aliases = [], mp_sources = [], mp_hardcover_link_from = 0, mp_genre_override_from = 0,
         mp_monitored = mr_monitored tr \<rparr>,
       mg_has_link = mr_hardcover_link tr,
       mg_has_genres = (mr_genre_override tr \<noteq> None) \<rparr>"

definition plan_merge :: "int \<Rightarrow> int list \<Rightarrow> string \<Rightarrow> merge_plan series_op" where
  "plan_merge target sources new_title =
     (if sources = [] then fail MergeNoSources
      else
        (case check_sources target [] sources of
           Some e \<Rightarrow> fail e
         | None \<Rightarrow>
             and_next (query (merge_row_of target)) (\<lambda>row. case row of
               None \<Rightarrow> fail NoSuchRow
             | Some tr \<Rightarrow>
                 and_next (query (merge_members target)) (\<lambda>members.
                   and_next (absorb_sources (sort sources) (start_state target new_title tr members))
                     (\<lambda>g. give (mg_plan g))))))"

subsection \<open>The statements\<close>

definition move_book :: "int \<Rightarrow> merge_book \<Rightarrow> unit on_tables" where
  "move_book target b = insert_member
     \<lparr> sb_series_id = target, sb_book_id = mb_book_id b, sb_position = mb_position b, sb_primary = mb_primary b \<rparr>"

definition keep_book :: "int \<Rightarrow> merge_book \<Rightarrow> unit on_tables" where
  "keep_book target b = plain (update_members (\<lambda>m. sb_series_id m = target \<and> sb_book_id m = mb_book_id b)
     (\<lambda>m. m\<lparr>sb_position := mb_position b, sb_primary := mb_primary b\<rparr>))"

definition move_link :: "int \<Rightarrow> int \<Rightarrow> unit on_tables" where
  "move_link target source = (\<lambda>t.
     if list_ex (\<lambda>l. hl_series_id l = source) (st_links t) \<and> list_ex (\<lambda>l. hl_series_id l = target) (st_links t)
     then Inl (SeriesDb UniqueViolation)
     else Inr ((), t\<lparr>st_links := map (\<lambda>l. if hl_series_id l = source then l\<lparr>hl_series_id := target\<rparr> else l) (st_links t)\<rparr>))"

definition copy_genres :: "int \<Rightarrow> int \<Rightarrow> unit on_tables" where
  "copy_genres target source = plain (\<lambda>t.
     update_series target (\<lambda>r. r\<lparr>sr_genre_override :=
       (case find_series t source of None \<Rightarrow> None | Some s \<Rightarrow> sr_genre_override s)\<rparr>) t)"

definition move_pins :: "int \<Rightarrow> int \<Rightarrow> unit on_tables" where
  "move_pins target source = plain (\<lambda>t. t\<lparr>st_pins :=
     fold (\<lambda>(a, s, c) pins. if (a, target) \<in> set (map (\<lambda>(a, s, c). (a, s)) pins) then pins else pins @ [(a, target, c)])
       (filter (\<lambda>(a, s, c). s = source) (st_pins t)) (st_pins t)\<rparr>)"

definition repoint_recommendations :: "int \<Rightarrow> int \<Rightarrow> unit on_tables" where
  "repoint_recommendations target source = plain (\<lambda>t. t\<lparr>st_recs :=
     map (\<lambda>r. if r = Some source then Some target else r) (st_recs t)\<rparr>)"

definition repoint_aliases :: "int \<Rightarrow> int \<Rightarrow> unit on_tables" where
  "repoint_aliases target source = plain (\<lambda>t. t\<lparr>st_aliases :=
     map (\<lambda>a. if snd a = source then (fst a, target) else a) (st_aliases t)\<rparr>)"

definition alias_source :: "int \<Rightarrow> string \<Rightarrow> unit on_tables" where
  "alias_source target fid = (\<lambda>t.
     if is_alias fid t then Inl (SeriesDb UniqueViolation)
     else if target \<notin> set (series_ids t) then Inl ForeignKeyViolation
     else Inr ((), t\<lparr>st_aliases := st_aliases t @ [(fid, target)]\<rparr>))"

definition forget_exclusions :: "string \<Rightarrow> unit on_tables" where
  "forget_exclusions fid = plain (\<lambda>t. t\<lparr>st_exclusions := filter (\<lambda>e. ex_foreign_id e \<noteq> fid) (st_exclusions t)\<rparr>)"

definition source_steps :: "merge_plan \<Rightarrow> merge_source \<Rightarrow> unit on_tables list" where
  "source_steps plan src =
     (let target = mp_target_id plan; i = ms_id src in
      map (move_book target) (ms_moved src)
      @ map (keep_book target) (ms_kept src)
      @ (if mp_hardcover_link_from plan = i then [move_link target i] else [])
      @ (if mp_genre_override_from plan = i then [copy_genres target i] else [])
      @ [move_pins target i, repoint_recommendations target i, repoint_aliases target i, plain (delete_series i)]
      @ (if keep_as_alias (ms_foreign_id src) then [alias_source target (ms_foreign_id src)]
         else if ms_foreign_id src \<noteq> [] then [forget_exclusions (ms_foreign_id src)]
         else []))"

definition drop_stale_exclusions :: "int \<Rightarrow> unit on_tables" where
  "drop_stale_exclusions target = plain (\<lambda>t. t\<lparr>st_exclusions :=
     filter (\<lambda>e. \<not> (list_ex (\<lambda>m. sb_series_id m = target \<and> sb_book_id m = ex_book_id e) (st_members t)
                   \<and> ex_foreign_id e \<in> set (ids_of_series target t))) (st_exclusions t)\<rparr>)"

definition rename_target :: "(string \<Rightarrow> string) \<Rightarrow> merge_plan \<Rightarrow> unit on_tables" where
  "rename_target fold_key plan = plain (update_series (mp_target_id plan)
     (\<lambda>r. r\<lparr>sr_title := mp_title plan, sr_search_key := fold_key (mp_title plan), sr_monitored := mp_monitored plan\<rparr>))"

definition apply_merge :: "(string \<Rightarrow> string) \<Rightarrow> merge_plan \<Rightarrow> unit series_op" where
  "apply_merge fold_key plan =
     run_all (concat (map (source_steps plan) (mp_sources plan))
       @ [drop_stale_exclusions (mp_target_id plan), rename_target fold_key plan])"

definition merge_series :: "(string \<Rightarrow> string) \<Rightarrow> int \<Rightarrow> int list \<Rightarrow> string \<Rightarrow> merge_plan series_op" where
  "merge_series fold_key target sources new_title =
     in_tx (\<lambda>_. False)
       (and_next (plan_merge target sources new_title) (\<lambda>plan.
          and_next (apply_merge fold_key plan) (\<lambda>_. give plan)))"

end
