(* ===== verification/Series_Links.thy ===== *)
theory Series_Links
  imports Series_Merge
begin

text \<open>
  The rest of \<open>internal/db/series.go\<close> that writes: the Hardcover links, whose guard is part of the statement, and
  \<open>internal/db/series_monitoring.go\<close>: the monitored flag with its mode, and the cursor of the scheduled check.
\<close>

subsection \<open>Hardcover links\<close>

definition find_link :: "int \<Rightarrow> series_tables \<Rightarrow> hardcover_link option" where
  "find_link i t = find (\<lambda>l. hl_series_id l = i) (st_links t)"

definition get_hardcover_link :: "int \<Rightarrow> hardcover_link option series_op" where
  "get_hardcover_link i = query (find_link i)"

definition get_by_hardcover_series_id :: "string \<Rightarrow> series_row option series_op" where
  "get_by_hardcover_series_id hc0 =
     (let hc = trim_space hc0 in
      if hc = [] then give None
      else and_next (query (\<lambda>t. map hl_series_id (filter (\<lambda>l. hl_hardcover_id l = hc) (st_links t)))) (\<lambda>found.
        case sort found of
          i # _ \<Rightarrow> query (\<lambda>t. find_series t i)
        | [] \<Rightarrow> if has_prefix hc hardcover_prefix then get_by_foreign_id hc else give None))"

text \<open>The series other than one's own that hold a Hardcover id: by link, by their id, by an alias.\<close>

definition other_holders :: "int \<Rightarrow> string \<Rightarrow> series_tables \<Rightarrow> int list" where
  "other_holders i hc t =
     (let (prefixed, bare) = hardcover_id_forms hc in
      map hl_series_id (filter (\<lambda>l. hl_series_id l \<noteq> i \<and> hl_hardcover_id l \<in> {prefixed, bare}) (st_links t))
      @ map sr_id (filter (\<lambda>r. sr_id r \<noteq> i \<and> sr_foreign_id r = prefixed) (st_series t))
      @ map snd (filter (\<lambda>a. snd a \<noteq> i \<and> fst a = prefixed) (st_aliases t)))"

definition hardcover_id_owner :: "string \<Rightarrow> int \<Rightarrow> series_tables \<Rightarrow> int" where
  "hardcover_id_owner hc i t = (case other_holders i hc t of [] \<Rightarrow> 0 | j # _ \<Rightarrow> j)"

definition link_names :: "int \<Rightarrow> string \<Rightarrow> series_tables \<Rightarrow> bool" where
  "link_names i hc t \<longleftrightarrow>
     (let (prefixed, bare) = hardcover_id_forms hc
      in list_ex (\<lambda>l. hl_series_id l = i \<and> hl_hardcover_id l \<in> {prefixed, bare}) (st_links t))"

definition overwrite_link :: "hardcover_link \<Rightarrow> hardcover_link \<Rightarrow> hardcover_link" where
  "overwrite_link new old = new\<lparr>
     hl_slug := (if hl_slug new = [] then hl_slug old else hl_slug new), hl_created_at := hl_created_at old\<rparr>"

text \<open>The guarded insert; the answer is whether a row was written.\<close>

definition write_link :: "hardcover_link \<Rightarrow> bool on_tables" where
  "write_link link t =
     (let i = hl_series_id link; hc = hl_hardcover_id link in
      if \<not> (link_names i hc t \<or> other_holders i hc t = []) then Inr (False, t)
      else if list_ex (\<lambda>l. hl_series_id l = i) (st_links t)
      then Inr (True, t\<lparr>st_links := map (\<lambda>l. if hl_series_id l = i then overwrite_link link l else l) (st_links t)\<rparr>)
      else if i \<notin> set (series_ids t) then Inl ForeignKeyViolation
      else Inr (True, t\<lparr>st_links := st_links t @ [link]\<rparr>))"

definition complete_link :: "time \<Rightarrow> hardcover_link \<Rightarrow> hardcover_link" where
  "complete_link now link = link\<lparr>
     hl_linked_at := (if hl_linked_at link = time_zero then now else hl_linked_at link),
     hl_linked_by := (if hl_linked_by link = [] then ''manual'' else hl_linked_by link),
     hl_provider_id := (if hl_provider_id link = [] then trim_prefix (hl_hardcover_id link) hardcover_prefix
                        else hl_provider_id link)\<rparr>"

definition upsert_hardcover_link :: "time \<Rightarrow> hardcover_link \<Rightarrow> hardcover_link series_op" where
  "upsert_hardcover_link now link =
     (if hl_series_id link = 0 then fail SeriesIdRequired
      else if trim_space (hl_hardcover_id link) = [] then fail HardcoverIdRequired
      else
        (let full = complete_link now link;
             row = full\<lparr>hl_slug := trim_space (hl_slug full), hl_created_at := now, hl_updated_at := now\<rparr>
         in and_next (stmt (write_link row)) (\<lambda>written.
              if \<not> written then
                and_next (query (hardcover_id_owner (hl_hardcover_id link) (hl_series_id link)))
                  (\<lambda>owner. fail (HardcoverConflict owner))
              else and_next (get_hardcover_link (hl_series_id link)) (\<lambda>stored.
                give (case stored of None \<Rightarrow> full | Some l \<Rightarrow> l)))))"

definition ensure_hardcover_link :: "time \<Rightarrow> int \<Rightarrow> string \<Rightarrow> string \<Rightarrow> bool series_op" where
  "ensure_hardcover_link now i fid title =
     (if i = 0 \<or> \<not> has_prefix fid hardcover_prefix then give False
      else and_next (get_hardcover_link i) (\<lambda>existing.
        if existing \<noteq> None then give False
        else (\<lambda>d. case upsert_hardcover_link now
            \<lparr> hl_series_id = i, hl_hardcover_id = fid, hl_provider_id = [], hl_slug = [], hl_title = trim_space title,
              hl_author_name = [], hl_book_count = 0, hl_confidence = 4 / 5, hl_linked_by = ''auto'',
              hl_linked_at = time_zero, hl_created_at = time_zero, hl_updated_at = time_zero \<rparr> d of
            (Inl (HardcoverConflict _), d') \<Rightarrow> (Inr False, d')
          | (Inl e, d') \<Rightarrow> (Inl e, d')
          | (Inr _, d') \<Rightarrow> (Inr True, d'))))"

definition delete_hardcover_link :: "int \<Rightarrow> unit series_op" where
  "delete_hardcover_link i = exec (\<lambda>t. t\<lparr>st_links := filter (\<lambda>l. hl_series_id l \<noteq> i) (st_links t)\<rparr>)"

subsection \<open>Monitoring\<close>

definition monitor_all :: string where
  "monitor_all = ''all''"

definition monitor_upcoming :: string where
  "monitor_upcoming = ''upcoming''"

definition check_ok :: string where
  "check_ok = ''ok''"

definition monitoring_of :: "int \<Rightarrow> series_tables \<Rightarrow> series_monitoring option" where
  "monitoring_of i t = find (\<lambda>m. sm_series_id m = i) (st_monitoring t)"

definition get_monitoring :: "int \<Rightarrow> series_monitoring option series_op" where
  "get_monitoring i = query (monitoring_of i)"

definition new_monitoring :: "int \<Rightarrow> string \<Rightarrow> int \<Rightarrow> series_monitoring" where
  "new_monitoring i mode owner = \<lparr> sm_series_id = i, sm_mode = mode, sm_owner_user_id = owner,
     sm_last_check_at = None, sm_last_ok_at = None, sm_next_check_at = None,
     sm_last_status = [], sm_last_message = [], sm_last_created = 0 \<rparr>"

definition upsert_monitoring ::
    "series_monitoring \<Rightarrow> (series_monitoring \<Rightarrow> series_monitoring) \<Rightarrow> unit on_tables" where
  "upsert_monitoring row f t =
     (let i = sm_series_id row in
      if list_ex (\<lambda>m. sm_series_id m = i) (st_monitoring t)
      then Inr ((), t\<lparr>st_monitoring := map (\<lambda>m. if sm_series_id m = i then f m else m) (st_monitoring t)\<rparr>)
      else if i \<notin> set (series_ids t) then Inl ForeignKeyViolation
      else Inr ((), t\<lparr>st_monitoring := st_monitoring t @ [row]\<rparr>))"

definition restart_monitoring :: "int \<Rightarrow> unit on_tables" where
  "restart_monitoring i = plain (\<lambda>t. t\<lparr>st_monitoring := map (\<lambda>m. if sm_series_id m = i
     then m\<lparr>sm_last_ok_at := None, sm_next_check_at := None\<rparr> else m) (st_monitoring t)\<rparr>)"

definition set_mode :: "int \<Rightarrow> string \<Rightarrow> int \<Rightarrow> unit on_tables" where
  "set_mode i mode owner = upsert_monitoring (new_monitoring i mode owner)
     (\<lambda>m. m\<lparr>sm_owner_user_id := owner,
        sm_next_check_at := (if sm_mode m = mode then sm_next_check_at m else None), sm_mode := mode\<rparr>)"

definition set_monitoring :: "int \<Rightarrow> bool \<Rightarrow> string \<Rightarrow> int \<Rightarrow> unit series_op" where
  "set_monitoring i monitored mode0 owner =
     (let mode = (if mode0 = monitor_all then mode0 else monitor_upcoming) in
      in_tx (\<lambda>_. False)
        (and_next (query (\<lambda>t. map_option sr_monitored (find_series t i))) (\<lambda>was. case was of
           None \<Rightarrow> fail SeriesNotFound
         | Some was \<Rightarrow> run_all
             ([plain (update_series i (\<lambda>r. r\<lparr>sr_monitored := monitored\<rparr>))]
              @ (if monitored \<and> \<not> was then [restart_monitoring i] else [])
              @ (if monitored then [set_mode i mode owner] else [])))))"

definition count_monitoring_eligible :: "nat series_op" where
  "count_monitoring_eligible = query (\<lambda>t. length (filter sr_monitored (st_series t)))"

text \<open>The row of a series in the LEFT JOIN: its next check, none when it has no row or was never checked.\<close>

definition next_check :: "series_tables \<Rightarrow> int \<Rightarrow> time option" where
  "next_check t i = Option.bind (monitoring_of i t) sm_next_check_at"

definition due_key :: "series_tables \<Rightarrow> series_row \<Rightarrow> bool \<times> time \<times> int" where
  "due_key t r = (case next_check t (sr_id r) of None \<Rightarrow> (False, 0, sr_id r) | Some due \<Rightarrow> (True, due, sr_id r))"

definition list_monitoring_due :: "time \<Rightarrow> int \<Rightarrow> series_row list series_op" where
  "list_monitoring_due now limit =
     (if limit < 1 then give []
      else query (\<lambda>t. take (nat limit) (sort_key (due_key t)
        (filter (\<lambda>r. sr_monitored r \<and> (case next_check t (sr_id r) of None \<Rightarrow> True | Some due \<Rightarrow> due \<le> to_second now))
          (st_series t)))))"

definition stamp_check :: "int \<Rightarrow> time \<Rightarrow> time \<Rightarrow> string \<Rightarrow> string \<Rightarrow> int \<Rightarrow> unit series_op" where
  "stamp_check i when next status message created =
     (let ok_at = (if status = check_ok then Some (to_second when) else None);
          note = (\<lambda>m. m\<lparr>sm_last_check_at := Some (to_second when),
            sm_last_ok_at := (case ok_at of None \<Rightarrow> sm_last_ok_at m | Some ok \<Rightarrow> Some ok),
            sm_next_check_at := Some (to_second next),
            sm_last_status := status, sm_last_message := message, sm_last_created := created\<rparr>)
      in stmt (upsert_monitoring (note (new_monitoring i monitor_upcoming 0)) note))"

end
