(* ===== verification/Series_Proofs.thy ===== *)
theory Series_Proofs
  imports Series_Merge
begin

text \<open>
  What a merge of series does. The memberships are read as a map from (series, book) to position and
  primary flag; a merge is proved to fold its sources into the target on that map, never to fail on its own,
  and to make every provider id it removes name the target.
\<close>

subsection \<open>Running statements\<close>

lemma stmt_Inr: "stmt f d = (Inr a, d') \<Longrightarrow> f (tabs d) = Inr (a, tabs d')"
  by (auto simp: stmt_def Let_def split: if_splits sum.splits prod.splits)

lemma stmt_calm: "f (tabs d) = Inr (a, t) \<Longrightarrow> outcomes d = [] \<Longrightarrow> stmt f d = (Inr a, d\<lparr>tabs := t\<rparr>)"
  by (simp add: stmt_def Let_def)

lemma and_next_Inr: "and_next m k d = (Inr b, d') \<longleftrightarrow> (\<exists>a d1. m d = (Inr a, d1) \<and> k a d1 = (Inr b, d'))"
  by (auto simp: and_next_def split: prod.splits sum.splits)

lemma query_Inr: "query q d = (Inr a, d') \<Longrightarrow> a = q (tabs d) \<and> tabs d' = tabs d"
  unfolding query_def by (drule stmt_Inr) auto

lemma query_calm: "outcomes d = [] \<Longrightarrow> query q d = (Inr (q (tabs d)), d)"
  by (simp add: query_def stmt_def Let_def)

text \<open>The statements of a list as one function on the tables.\<close>

fun run_steps :: "unit on_tables list \<Rightarrow> series_tables \<Rightarrow> series_tables option" where
  "run_steps [] t = Some t"
| "run_steps (f # fs) t = (case f t of Inl e \<Rightarrow> None | Inr (u, t1) \<Rightarrow> run_steps fs t1)"

lemma run_all_steps: "run_all fs d = (Inr u, d') \<Longrightarrow> run_steps fs (tabs d) = Some (tabs d')"
  by (induction fs arbitrary: d) (auto simp: give_def and_next_Inr dest!: stmt_Inr)

lemma run_all_calm:
  "\<lbrakk> outcomes d = []; run_steps fs (tabs d) = Some t \<rbrakk> \<Longrightarrow> run_all fs d = (Inr (), d\<lparr>tabs := t\<rparr>)"
proof (induction fs arbitrary: d)
  case (Cons f fs)
  obtain t1 where f: "f (tabs d) = Inr ((), t1)" "run_steps fs t1 = Some t"
    using Cons.prems(2) by (auto split: sum.splits)
  then show ?case
    using stmt_calm [where f = f, OF f(1) Cons.prems(1)] Cons.IH [of "d\<lparr>tabs := t1\<rparr>"] Cons.prems(1) by (simp add: and_next_Inr)
qed (simp add: give_def)

lemma run_steps_append: "run_steps (fs @ gs) t = Option.bind (run_steps fs t) (run_steps gs)"
  by (induction fs arbitrary: t) (auto split: sum.split)

lemma run_steps_then: "run_steps fs t = Some t1 \<Longrightarrow> run_steps (fs @ gs) t = run_steps gs t1"
  by (simp add: run_steps_append)

lemma run_steps_plain [simp]: "run_steps (plain f # fs) t = run_steps fs (f t)"
  by (simp add: plain_def)

text \<open>A transaction either commits all of its statements or changes nothing.\<close>

lemma in_tx_Inl: "in_tx r m d = (Inl e, d') \<Longrightarrow> tabs d' = tabs d"
  by (auto simp: in_tx_def split: prod.splits sum.splits if_splits)

lemma exec_id_Inr: "exec id d = (Inr u, d') \<Longrightarrow> tabs d' = tabs d"
  unfolding exec_def by (drule stmt_Inr) (simp add: plain_def)

lemma exec_id_calm: "outcomes d = [] \<Longrightarrow> exec id d = (Inr (), d)"
  by (simp add: exec_def stmt_def plain_def Let_def)

lemma in_tx_Inr:
  assumes "in_tx (\<lambda>_. False) m d = (Inr a, d')"
  obtains d1 d2 where "tabs d1 = tabs d" "m d1 = (Inr a, d2)" "tabs d' = tabs d2"
  using assms exec_id_Inr by (fastforce simp: in_tx_def and_next_Inr give_def split: prod.splits sum.splits)

lemma in_tx_calm:
  assumes "outcomes d = []" "m d = (Inr a, d1)" "outcomes d1 = []"
  shows "in_tx (\<lambda>_. False) m d = (Inr a, d1)"
proof -
  have "and_next (exec id) (\<lambda>_. and_next m (\<lambda>a. if False then give a else and_next (exec id) (\<lambda>_. give a))) d = (Inr a, d1)"
    using assms by (simp add: and_next_Inr exec_id_calm give_def)
  then show ?thesis by (simp add: in_tx_def)
qed

subsection \<open>Memberships as a map\<close>

type_synonym membership = "int \<times> int \<rightharpoonup> string \<times> bool"

definition memberships :: "series_tables \<Rightarrow> membership" where
  "memberships t = map_of (map (\<lambda>m. (member_key m, (sb_position m, sb_primary m))) (st_members t))"

lemma memberships_None: "memberships t k = None \<longleftrightarrow> k \<notin> member_key ` set (st_members t)"
  by (auto simp: memberships_def map_of_eq_None_iff image_iff)

lemma memberships_Some:
  assumes "distinct (map member_key (st_members t))"
  shows "memberships t (i, b) = Some (p, q) \<longleftrightarrow>
    \<lparr> sb_series_id = i, sb_book_id = b, sb_position = p, sb_primary = q \<rparr> \<in> set (st_members t)"
proof -
  have "distinct (map fst (map (\<lambda>m. (member_key m, (sb_position m, sb_primary m))) (st_members t)))"
    using assms by (simp add: comp_def)
  then have "memberships t (i, b) = Some (p, q) \<longleftrightarrow>
      ((i, b), (p, q)) \<in> set (map (\<lambda>m. (member_key m, (sb_position m, sb_primary m))) (st_members t))"
    unfolding memberships_def by (rule map_of_eq_Some_iff)
  also have "\<dots> \<longleftrightarrow> (\<exists>m \<in> set (st_members t). sb_series_id m = i \<and> sb_book_id m = b \<and> sb_position m = p \<and> sb_primary m = q)"
    by (auto simp: member_key_def image_iff)
  also have "\<dots> \<longleftrightarrow> \<lparr> sb_series_id = i, sb_book_id = b, sb_position = p, sb_primary = q \<rparr> \<in> set (st_members t)"
  proof (intro iffI)
    assume "\<exists>m \<in> set (st_members t). sb_series_id m = i \<and> sb_book_id m = b \<and> sb_position m = p \<and> sb_primary m = q"
    then obtain m where m: "m \<in> set (st_members t)" "sb_series_id m = i" "sb_book_id m = b" "sb_position m = p" "sb_primary m = q"
      by blast
    have "m = \<lparr> sb_series_id = i, sb_book_id = b, sb_position = p, sb_primary = q \<rparr>"
      using m(2-5) by (intro series_book.equality) simp_all
    then show "\<lparr> sb_series_id = i, sb_book_id = b, sb_position = p, sb_primary = q \<rparr> \<in> set (st_members t)" using m(1) by simp
  qed (auto intro: bexI [rotated])
  finally show ?thesis .
qed

lemma memberships_append:
  "member_key m \<notin> set (map member_key (st_members t)) \<Longrightarrow>
    memberships (t\<lparr>st_members := st_members t @ [m]\<rparr>) = (memberships t)(member_key m \<mapsto> (sb_position m, sb_primary m))"
proof -
  assume "member_key m \<notin> set (map member_key (st_members t))"
  then have "memberships t (member_key m) = None" by (simp add: memberships_None)
  then show ?thesis by (auto simp: memberships_def map_add_def fun_eq_iff split: option.split)
qed

lemma memberships_insert:
  "insert_member m t = Inr (u, t') \<Longrightarrow>
    memberships t' = (memberships t)(member_key m \<mapsto> (sb_position m, sb_primary m))"
  by (auto simp: insert_member_def memberships_append simp del: fun_upd_apply split: if_splits)

lemma memberships_update:
  assumes "\<And>m. member_key (f m) = member_key m"
    and "\<And>m. p m \<longleftrightarrow> P (member_key m)"
    and "\<And>m. p m \<Longrightarrow> (sb_position (f m), sb_primary (f m)) = g (sb_position m, sb_primary m)"
  shows "memberships (update_members p f t) k = (if P k then map_option g (memberships t k) else memberships t k)"
proof -
  have "map_of (map (\<lambda>m. (member_key m, (sb_position m, sb_primary m))) (map (\<lambda>m. if p m then f m else m) ms)) k
      = (if P k then map_option g (map_of (map (\<lambda>m. (member_key m, (sb_position m, sb_primary m))) ms) k)
         else map_of (map (\<lambda>m. (member_key m, (sb_position m, sb_primary m))) ms) k)" for ms
    by (induction ms) (use assms in \<open>auto\<close>)
  then show ?thesis by (simp add: memberships_def update_members_def)
qed

lemma memberships_delete:
  "memberships (delete_series i t) (s, b) = (if s = i then None else memberships t (s, b))"
proof -
  have "map_of (map (\<lambda>m. (member_key m, (sb_position m, sb_primary m))) (filter (\<lambda>m. sb_series_id m \<noteq> i) ms)) (s, b)
      = (if s = i then None else map_of (map (\<lambda>m. (member_key m, (sb_position m, sb_primary m))) ms) (s, b))" for ms
    by (induction ms) (auto simp: member_key_def)
  then show ?thesis by (simp add: memberships_def delete_series_def)
qed

subsection \<open>The invariant of the tables\<close>

definition series_ok :: "series_tables \<Rightarrow> bool" where
  "series_ok t \<longleftrightarrow>
     distinct (series_ids t) \<and> (\<forall>i \<in> set (series_ids t). 0 < i \<and> i \<le> st_last_id t) \<and>
     distinct (map sr_foreign_id (st_series t)) \<and>
     distinct (map member_key (st_members t)) \<and> (\<forall>m \<in> set (st_members t). member_refs_ok t m) \<and>
     distinct (map fst (st_aliases t)) \<and>
     (\<forall>(f, i) \<in> set (st_aliases t). i \<in> set (series_ids t) \<and> keep_as_alias f \<and> \<not> foreign_id_taken f t) \<and>
     distinct (map hl_series_id (st_links t)) \<and> (\<forall>l \<in> set (st_links t). hl_series_id l \<in> set (series_ids t))"


lemma series_ok_refs: "series_ok t \<Longrightarrow> m \<in> set (st_members t) \<Longrightarrow> member_refs_ok t m"
  by (simp add: series_ok_def)

lemma series_ok_members:
  assumes "series_ok t" "distinct (map member_key ms)" "\<forall>m \<in> set ms. member_refs_ok t m"
  shows "series_ok (t\<lparr>st_members := ms\<rparr>)"
  using assms by (simp add: series_ok_def series_ids_def foreign_id_taken_def member_refs_ok_def list_all_iff)

lemma series_ok_insert: "series_ok t \<Longrightarrow> insert_member m t = Inr (u, t') \<Longrightarrow> series_ok t'"
  by (auto simp: insert_member_def split: if_splits intro!: series_ok_members) (auto simp: series_ok_def)

lemma series_ok_update_members:
  assumes "series_ok t" "\<And>m. member_key (f m) = member_key m"
  shows "series_ok (update_members p f t)"
  unfolding update_members_def
proof (rule series_ok_members [OF assms(1)])
  have "map member_key (map (\<lambda>m. if p m then f m else m) (st_members t)) = map member_key (st_members t)"
    using assms(2) by simp
  then show "distinct (map member_key (map (\<lambda>m. if p m then f m else m) (st_members t)))"
    using assms(1) by (simp only: series_ok_def)
  have "member_refs_ok t (f m) = member_refs_ok t m" for m
    using assms(2) [of m] by (auto simp: member_key_def member_refs_ok_def)
  then show "\<forall>m \<in> set (map (\<lambda>m. if p m then f m else m) (st_members t)). member_refs_ok t m"
    using assms(1) by (auto simp: series_ok_def list_all_iff)
qed

subsection \<open>One member of a source\<close>

definition cell :: "merge_book \<Rightarrow> string \<times> bool" where
  "cell m = (mb_position m, mb_primary m)"

definition kept_of :: "merge_book \<Rightarrow> merge_book \<Rightarrow> merge_book" where
  "kept_of have m = \<lparr> mb_book_id = mb_book_id m, mb_title = mb_title have,
     mb_position = (if mb_position have = [] then mb_position m else mb_position have),
     mb_primary = (mb_primary have \<or> mb_primary m) \<rparr>"

definition book_in :: "merge_book list \<Rightarrow> int \<Rightarrow> merge_book option" where
  "book_in ms b = find (\<lambda>m. mb_book_id m = b) ms"

lemma book_in_simps [simp]:
  "book_in [] b = None" "book_in (m # ms) b = (if mb_book_id m = b then Some m else book_in ms b)"
  by (simp_all add: book_in_def)

lemma book_in_None: "book_in ms b = None \<longleftrightarrow> b \<notin> mb_book_id ` set ms"
  by (auto simp: book_in_def find_None_iff)

lemma book_in_Some: "book_in ms b = Some m \<Longrightarrow> m \<in> set ms \<and> mb_book_id m = b"
  by (auto simp: book_in_def find_Some_iff)

definition clash_of :: "merge_book \<Rightarrow> merge_book \<Rightarrow> merge_conflict list" where
  "clash_of h m =
     (if mb_position h \<noteq> [] \<and> mb_position m \<noteq> [] \<and> mb_position m \<noteq> mb_position h
      then [\<lparr> mc_book_id = mb_book_id m, mc_title = mb_title m,
              mc_target_position = mb_position h, mc_source_position = mb_position m \<rparr>]
      else [])"

lemma absorb_new:
  "joined (mb_book_id m) = None \<Longrightarrow>
     absorb_member m (joined, ps) = (joined(mb_book_id m \<mapsto> m), ps\<lparr>ms_moved := ms_moved ps @ [m]\<rparr>)"
  by (simp add: absorb_member_def)

lemma absorb_known:
  "joined (mb_book_id m) = Some h \<Longrightarrow>
     absorb_member m (joined, ps) = (joined(mb_book_id m \<mapsto> kept_of h m),
       ps\<lparr>ms_kept := ms_kept ps @ [kept_of h m], ms_conflicts := ms_conflicts ps @ clash_of h m\<rparr>)"
  by (simp add: absorb_member_def kept_of_def clash_of_def Let_def)

text \<open>What a source hands over: the books the target has not, and those it has.\<close>

lemma absorb_members:
  assumes "distinct (map mb_book_id ms)" "fold absorb_member ms (joined, ps) = (joined', ps')"
  shows "ms_moved ps' = ms_moved ps @ filter (\<lambda>m. joined (mb_book_id m) = None) ms \<and>
    ms_kept ps' = ms_kept ps @ map (\<lambda>m. kept_of (the (joined (mb_book_id m))) m) (filter (\<lambda>m. joined (mb_book_id m) \<noteq> None) ms) \<and>
    ms_id ps' = ms_id ps \<and> ms_foreign_id ps' = ms_foreign_id ps \<and>
    joined' = (\<lambda>b. case book_in ms b of None \<Rightarrow> joined b
      | Some m \<Rightarrow> Some (case joined b of None \<Rightarrow> m | Some have \<Rightarrow> kept_of have m))"
  using assms
proof (induction ms arbitrary: joined ps)
  case (Cons m ms)
  have rest: "filter (\<lambda>x. (joined(mb_book_id m \<mapsto> y)) (mb_book_id x) = None) ms = filter (\<lambda>x. joined (mb_book_id x) = None) ms"
    "filter (\<lambda>x. (joined(mb_book_id m \<mapsto> y)) (mb_book_id x) \<noteq> None) ms = filter (\<lambda>x. joined (mb_book_id x) \<noteq> None) ms"
    "map (\<lambda>x. kept_of (the ((joined(mb_book_id m \<mapsto> y)) (mb_book_id x))) x) (filter (\<lambda>x. joined (mb_book_id x) \<noteq> None) ms)
      = map (\<lambda>x. kept_of (the (joined (mb_book_id x))) x) (filter (\<lambda>x. joined (mb_book_id x) \<noteq> None) ms)" for y
    using Cons.prems(1) by (auto intro!: filter_cong simp: image_iff)
  have gone: "book_in ms (mb_book_id m) = None" using Cons.prems(1) by (simp add: book_in_None)
  show ?case
  proof (cases "joined (mb_book_id m)")
    case None
    have "fold absorb_member ms (joined(mb_book_id m \<mapsto> m), ps\<lparr>ms_moved := ms_moved ps @ [m]\<rparr>) = (joined', ps')"
      using Cons.prems(2) by (simp add: absorb_new None)
    from Cons.IH [OF _ this] Cons.prems(1) rest gone None show ?thesis
      by (auto simp: fun_eq_iff split: option.split)
  next
    case (Some h)
    have "fold absorb_member ms (joined(mb_book_id m \<mapsto> kept_of h m),
        ps\<lparr>ms_kept := ms_kept ps @ [kept_of h m], ms_conflicts := ms_conflicts ps @ clash_of h m\<rparr>) = (joined', ps')"
      using Cons.prems(2) by (simp add: absorb_known Some)
    from Cons.IH [OF _ this] Cons.prems(1) rest gone Some show ?thesis
      by (auto simp: fun_eq_iff split: option.split)
  qed
qed simp


lemma run_moves:
  "\<lbrakk> series_ok t; target \<in> set (series_ids t); distinct (map mb_book_id ms);
     \<And>m. m \<in> set ms \<Longrightarrow> memberships t (target, mb_book_id m) = None \<and> mb_book_id m \<in> fst ` set (st_books t) \<rbrakk> \<Longrightarrow>
   \<exists>M. run_steps (map (move_book target) ms) t = Some (t\<lparr>st_members := M\<rparr>) \<and> series_ok (t\<lparr>st_members := M\<rparr>) \<and>
     memberships (t\<lparr>st_members := M\<rparr>) = (\<lambda>(s, b). case (if s = target then book_in ms b else None) of
       None \<Rightarrow> memberships t (s, b) | Some m \<Rightarrow> Some (cell m))"
proof (induction ms arbitrary: t)
  case Nil
  then show ?case by (intro exI [of _ "st_members t"]) auto
next
  case (Cons m ms)
  define x where "x = \<lparr> sb_series_id = target, sb_book_id = mb_book_id m, sb_position = mb_position m, sb_primary = mb_primary m \<rparr>"
  define t1 where "t1 = t\<lparr>st_members := st_members t @ [x]\<rparr>"
  have key: "member_key x = (target, mb_book_id m)" by (simp add: x_def member_key_def)
  have fresh: "member_key x \<notin> set (map member_key (st_members t))"
    using Cons.prems(4) [of m] memberships_None [of t "(target, mb_book_id m)"] by (simp add: key)
  have ins: "move_book target m t = Inr ((), t1)"
    using fresh Cons.prems(2) Cons.prems(4) [of m]
    by (simp add: move_book_def insert_member_def member_refs_ok_def x_def [symmetric] t1_def) (simp add: x_def)
  have ok: "series_ok t1" using series_ok_insert [OF Cons.prems(1)] ins by (metis move_book_def)
  have mem: "memberships t1 = (memberships t)((target, mb_book_id m) \<mapsto> cell m)"
    using memberships_append [OF fresh] by (simp add: t1_def key cell_def) (simp add: x_def)
  have frame: "series_ids t1 = series_ids t" "st_books t1 = st_books t" by (simp_all add: t1_def series_ids_def)
  obtain M where M: "run_steps (map (move_book target) ms) t1 = Some (t1\<lparr>st_members := M\<rparr>)" "series_ok (t1\<lparr>st_members := M\<rparr>)"
    "memberships (t1\<lparr>st_members := M\<rparr>) = (\<lambda>(s, b). case (if s = target then book_in ms b else None) of
       None \<Rightarrow> memberships t1 (s, b) | Some m \<Rightarrow> Some (cell m))"
  proof -
    have "distinct (map mb_book_id ms)" using Cons.prems(3) by simp
    moreover have "memberships t1 (target, mb_book_id x) = None \<and> mb_book_id x \<in> fst ` set (st_books t1)" if "x \<in> set ms" for x
      using Cons.prems(3) Cons.prems(4) [of x] that by (simp add: mem frame image_iff) (metis image_eqI)
    ultimately show ?thesis using Cons.IH [OF ok] Cons.prems(2) that by (simp add: frame) blast
  qed
  have "t1\<lparr>st_members := M\<rparr> = t\<lparr>st_members := M\<rparr>" by (simp add: t1_def)
  moreover have "book_in ms (mb_book_id m) = None" using Cons.prems(3) by (simp add: book_in_None)
  ultimately show ?case
    using M ins by (intro exI [of _ M]) (auto simp: mem fun_eq_iff split: option.split)
qed

lemma run_keeps:
  "\<lbrakk> series_ok t; distinct (map mb_book_id ms) \<rbrakk> \<Longrightarrow>
   \<exists>M. run_steps (map (keep_book target) ms) t = Some (t\<lparr>st_members := M\<rparr>) \<and> series_ok (t\<lparr>st_members := M\<rparr>) \<and>
     memberships (t\<lparr>st_members := M\<rparr>) = (\<lambda>(s, b). case (if s = target then book_in ms b else None) of
       None \<Rightarrow> memberships t (s, b) | Some m \<Rightarrow> map_option (\<lambda>_. cell m) (memberships t (s, b)))"
proof (induction ms arbitrary: t)
  case Nil
  then show ?case by (intro exI [of _ "st_members t"]) auto
next
  case (Cons m ms)
  define p where "p = (\<lambda>x :: series_book. sb_series_id x = target \<and> sb_book_id x = mb_book_id m)"
  define f where "f = (\<lambda>x :: series_book. x\<lparr>sb_position := mb_position m, sb_primary := mb_primary m\<rparr>)"
  define t1 where "t1 = update_members p f t"
  have run: "keep_book target m = plain (update_members p f)" by (simp add: keep_book_def p_def f_def)
  have ok: "series_ok t1"
    unfolding t1_def by (rule series_ok_update_members [OF Cons.prems(1)]) (simp add: f_def member_key_def)
  have mem: "memberships t1 k = (if k = (target, mb_book_id m) then map_option (\<lambda>_. cell m) (memberships t k) else memberships t k)" for k
    unfolding t1_def
    by (rule memberships_update) (auto simp: f_def p_def member_key_def cell_def)
  obtain M where M: "run_steps (map (keep_book target) ms) t1 = Some (t1\<lparr>st_members := M\<rparr>)" "series_ok (t1\<lparr>st_members := M\<rparr>)"
    "memberships (t1\<lparr>st_members := M\<rparr>) = (\<lambda>(s, b). case (if s = target then book_in ms b else None) of
       None \<Rightarrow> memberships t1 (s, b) | Some m \<Rightarrow> map_option (\<lambda>_. cell m) (memberships t1 (s, b)))"
    using Cons.IH [OF ok] Cons.prems(2) by auto
  have "t1\<lparr>st_members := M\<rparr> = t\<lparr>st_members := M\<rparr>" by (simp add: t1_def update_members_def)
  moreover have "book_in ms (mb_book_id m) = None" using Cons.prems(2) by (simp add: book_in_None)
  ultimately show ?case
    using M by (intro exI [of _ M]) (auto simp: run plain_def mem fun_eq_iff t1_def [symmetric] split: option.split)
qed

subsection \<open>Names of series\<close>

definition names :: "series_tables \<Rightarrow> (string \<times> int) list" where
  "names t = map (\<lambda>r. (sr_foreign_id r, sr_id r)) (st_series t) @ st_aliases t"

lemma resolve_names: "series_by_foreign_id f t = map_of (names t) f"
proof -
  have "(case map snd (filter (\<lambda>a. fst a = f) xs) of [] \<Rightarrow> None | i # _ \<Rightarrow> Some i) = map_of xs f" for xs :: "(string \<times> int) list"
    by (induction xs) auto
  from this [of "names t"] show ?thesis by (simp add: series_by_foreign_id_def names_def filter_map comp_def)
qed

lemma distinct_names: "series_ok t \<Longrightarrow> distinct (map fst (names t))"
  by (fastforce simp: names_def series_ok_def comp_def foreign_id_taken_def)

lemma resolve_iff: "series_ok t \<Longrightarrow> series_by_foreign_id f t = Some i \<longleftrightarrow> (f, i) \<in> set (names t)"
  using distinct_names map_of_eq_Some_iff by (simp add: resolve_names) 

lemma resolve_live: "series_ok t \<Longrightarrow> find_series t i = Some s \<Longrightarrow> series_by_foreign_id (sr_foreign_id s) t = Some i"
  by (auto simp: resolve_iff names_def find_series_def find_Some_iff image_iff intro!: bexI [of _ s])


subsection \<open>The statements of one source\<close>

lemma series_ok_other [simp]:
  "series_ok (t\<lparr>st_pins := a\<rparr>) = series_ok t" "series_ok (t\<lparr>st_recs := b\<rparr>) = series_ok t"
  "series_ok (t\<lparr>st_exclusions := c\<rparr>) = series_ok t" "series_ok (t\<lparr>st_monitoring := e\<rparr>) = series_ok t"
  by (simp_all add: series_ok_def series_ids_def foreign_id_taken_def member_refs_ok_def)

lemma series_ok_links:
  "\<lbrakk> series_ok t; distinct (map hl_series_id ls); \<forall>l \<in> set ls. hl_series_id l \<in> set (series_ids t) \<rbrakk> \<Longrightarrow>
    series_ok (t\<lparr>st_links := ls\<rparr>)"
  by (simp add: series_ok_def series_ids_def foreign_id_taken_def member_refs_ok_def)

lemma series_ok_aliases:
  "\<lbrakk> series_ok t; distinct (map fst as);
     \<forall>(f, i) \<in> set as. i \<in> set (series_ids t) \<and> keep_as_alias f \<and> \<not> foreign_id_taken f t \<rbrakk> \<Longrightarrow>
    series_ok (t\<lparr>st_aliases := as\<rparr>)"
  by (simp add: series_ok_def series_ids_def foreign_id_taken_def member_refs_ok_def)

lemma update_series_ids [simp]:
  assumes "\<And>r. sr_id (f r) = sr_id r"
  shows "series_ids (update_series i f t) = series_ids t"
  using assms by (simp add: update_series_def series_ids_def)

lemma series_ok_update_series:
  assumes "series_ok t" "\<And>r. sr_id (f r) = sr_id r \<and> sr_foreign_id (f r) = sr_foreign_id r"
  shows "series_ok (update_series i f t)"
proof -
  have "map sr_foreign_id (st_series (update_series i f t)) = map sr_foreign_id (st_series t)"
    "series_ids (update_series i f t) = series_ids t"
    using assms(2) by (simp_all add: update_series_def series_ids_def)
  then show ?thesis
    using assms(1) by (simp add: series_ok_def foreign_id_taken_def member_refs_ok_def)
      (simp add: update_series_def)
qed

lemma series_ids_delete: "series_ids (delete_series i t) = filter (\<lambda>j. j \<noteq> i) (series_ids t)"
  by (simp add: delete_series_def series_ids_def filter_map comp_def)

lemma series_ok_delete:
  assumes "series_ok t"
  shows "series_ok (delete_series i t)"
proof -
  have d: "distinct (map f xs) \<Longrightarrow> distinct (map f (filter P xs))" for f :: "'x \<Rightarrow> 'y" and P xs
    by (rule distinct_map_filter)
  show ?thesis
    using assms unfolding series_ok_def series_ids_delete
    by (auto simp: delete_series_def foreign_id_taken_def member_refs_ok_def series_ids_def list_all_iff filter_map comp_def
        intro!: d)
qed

lemma names_delete: "set (names (delete_series i t)) = {a \<in> set (names t). snd a \<noteq> i}"
  by (auto simp: names_def delete_series_def)

definition repointed :: "int \<Rightarrow> int \<Rightarrow> series_tables \<Rightarrow> (string \<times> int) list" where
  "repointed target i t = map (\<lambda>a. if snd a = i then (fst a, target) else a) (st_aliases t)"

lemma fst_repointed [simp]: "map fst (repointed target i t) = map fst (st_aliases t)"
  by (simp add: repointed_def comp_def if_distrib cong: if_cong)

lemma series_ok_repointed:
  assumes "series_ok t" "target \<in> set (series_ids t)"
  shows "series_ok (t\<lparr>st_aliases := repointed target i t\<rparr>)"
proof (rule series_ok_aliases [OF assms(1)])
  show "distinct (map fst (repointed target i t))" using assms(1) by (simp only: fst_repointed series_ok_def)
  show "\<forall>(f, i) \<in> set (repointed target i t). i \<in> set (series_ids t) \<and> keep_as_alias f \<and> \<not> foreign_id_taken f t"
    using assms by (fastforce simp: series_ok_def repointed_def split: if_splits)
qed

definition absorb_names :: "int \<Rightarrow> int \<Rightarrow> (string \<rightharpoonup> int) \<Rightarrow> string \<rightharpoonup> int" where
  "absorb_names target i N f =
     (case N f of None \<Rightarrow> None
      | Some j \<Rightarrow> if j \<noteq> i then Some j else if keep_as_alias f then Some target else None)"

definition name_source :: "int \<Rightarrow> string \<Rightarrow> unit on_tables list" where
  "name_source target fid =
     (if keep_as_alias fid then [alias_source target fid] else if fid \<noteq> [] then [forget_exclusions fid] else [])"

text \<open>Removing a source: its aliases and then its own id come to name the target.\<close>

lemma retire_source:
  assumes ok: "series_ok t" and ids: "target \<in> set (series_ids t)" "target \<noteq> i" and s: "find_series t i = Some s"
  defines "fs \<equiv> [move_pins target i, repoint_recommendations target i, repoint_aliases target i, plain (delete_series i)]
    @ name_source target (sr_foreign_id s)"
  shows "\<exists>t'. run_steps fs t = Some t' \<and> series_ok t' \<and>
    st_series t' = filter (\<lambda>r. sr_id r \<noteq> i) (st_series t) \<and>
    st_members t' = filter (\<lambda>m. sb_series_id m \<noteq> i) (st_members t) \<and>
    st_links t' = filter (\<lambda>l. hl_series_id l \<noteq> i) (st_links t) \<and>
    st_books t' = st_books t \<and> (\<forall>f. series_by_foreign_id f t' = absorb_names target i (\<lambda>f. series_by_foreign_id f t) f)"
proof -
  define pins where "pins = fold (\<lambda>(a, s, c) pins. if (a, target) \<in> set (map (\<lambda>(a, s, c). (a, s)) pins) then pins else pins @ [(a, target, c)])
       (filter (\<lambda>(a, s, c). s = i) (st_pins t)) (st_pins t)"
  define recs where "recs = map (\<lambda>r. if r = Some i then Some target else r) (st_recs t)"
  define t0 where "t0 = t\<lparr>st_pins := pins, st_recs := recs\<rparr>"
  define t1 where "t1 = t0\<lparr>st_aliases := repointed target i t0\<rparr>"
  define td where "td = delete_series i t1"
  note t1_def = t1_def [unfolded t0_def]
  have run1: "run_steps fs t = run_steps (name_source target (sr_foreign_id s)) td"
    by (simp add: fs_def move_pins_def repoint_recommendations_def repoint_aliases_def td_def t1_def pins_def recs_def
        repointed_def plain_def)
  have s_in: "s \<in> set (st_series t)" "sr_id s = i" using s by (auto simp: find_series_def find_Some_iff)
  have "series_ok t0" "target \<in> set (series_ids t0)" using ok ids(1) by (simp_all add: t0_def series_ids_def)
  then have ok1: "series_ok t1" using series_ok_repointed [of t0 target i] by (simp add: t1_def t0_def)
  then have okd: "series_ok td" unfolding td_def by (intro series_ok_delete) simp
  have "series_ids t1 = series_ids t" by (simp add: t1_def series_ids_def)
  then have tgt: "target \<in> set (series_ids td)" using ids by (simp add: td_def series_ids_delete)
  have aliases: "st_aliases td = repointed target i t"
    using ids(2) by (auto simp: td_def t1_def delete_series_def repointed_def intro!: filter_True)
  have free: "\<not> foreign_id_taken (sr_foreign_id s) td" "\<not> is_alias (sr_foreign_id s) td"
  proof -
    show "\<not> foreign_id_taken (sr_foreign_id s) td"
      using s_in ok by (auto simp: td_def t1_def delete_series_def foreign_id_taken_def series_ok_def distinct_map inj_on_def)
    have "map fst (st_aliases td) = map fst (st_aliases t)" unfolding aliases by simp
    then show "\<not> is_alias (sr_foreign_id s) td"
      unfolding is_alias_def using s_in ok by (fastforce simp: series_ok_def foreign_id_taken_def)
  qed
  have resolve_td: "series_by_foreign_id f td =
      (case series_by_foreign_id f t of None \<Rightarrow> None | Some j \<Rightarrow> if j \<noteq> i then Some j else if f = sr_foreign_id s then None else Some target)" for f
  proof -
    have td_in: "(f, j) \<in> set (names td) \<longleftrightarrow> ((f, j) \<in> set (map (\<lambda>r. (sr_foreign_id r, sr_id r)) (st_series t)) \<and> j \<noteq> i) \<or>
        (\<exists>j0. (f, j0) \<in> set (st_aliases t) \<and> j = (if j0 = i then target else j0))" for j
      unfolding names_def aliases by (force simp: td_def t1_def delete_series_def repointed_def)
    show ?thesis
    proof (cases "series_by_foreign_id f t")
      case None
      then have "(f, j) \<notin> set (names t)" for j by (simp add: resolve_iff [OF ok, symmetric])
      then have "(f, j) \<notin> set (names td)" for j unfolding td_in by (auto simp: names_def)
      then have "series_by_foreign_id f td = None" by (metis resolve_iff [OF okd] option.exhaust)
      then show ?thesis using None by simp
    next
      case (Some j)
      then have "(f, j) \<in> set (names t)" by (simp add: resolve_iff [OF ok])
      then consider "(f, j) \<in> set (st_aliases t)" | "(f, j) \<in> set (map (\<lambda>r. (sr_foreign_id r, sr_id r)) (st_series t))"
        by (auto simp: names_def)
      then show ?thesis
      proof cases
        case 1
        have "f \<noteq> sr_foreign_id s" using 1 s_in ok by (fastforce simp: series_ok_def foreign_id_taken_def)
        moreover have "series_by_foreign_id f td = Some (if j = i then target else j)"
          unfolding resolve_iff [OF okd] td_in using 1 by auto
        ultimately show ?thesis using Some by simp
      next
        case 2
        show ?thesis
        proof (cases "j = i")
          case True
          then have f: "f = sr_foreign_id s"
            using 2 s_in ok by (auto simp: series_ok_def series_ids_def distinct_map inj_on_def)
          have "(f, k) \<notin> set (names td)" for k
            using free by (auto simp: f names_def foreign_id_taken_def is_alias_def image_iff)
          then have "series_by_foreign_id f td = None" by (metis resolve_iff [OF okd] option.exhaust)
          then show ?thesis using Some True f by simp
        next
          case False
          then have "series_by_foreign_id f td = Some j" unfolding resolve_iff [OF okd] td_in using 2 by simp
          then show ?thesis using Some False by simp
        qed
      qed
    qed
  qed
  have aliases_keep: "f = sr_foreign_id s \<or> keep_as_alias f" if "series_by_foreign_id f t = Some i" for f
  proof -
    have "(f, i) \<in> set (names t)" using that by (simp add: resolve_iff [OF ok])
    then show ?thesis
      using s_in ok by (auto simp: names_def series_ok_def series_ids_def distinct_map inj_on_def)
  qed
  define t' where "t' = (if keep_as_alias (sr_foreign_id s)
      then td\<lparr>st_aliases := st_aliases td @ [(sr_foreign_id s, target)]\<rparr>
      else if sr_foreign_id s \<noteq> [] then td\<lparr>st_exclusions := filter (\<lambda>e. ex_foreign_id e \<noteq> sr_foreign_id s) (st_exclusions td)\<rparr>
      else td)"
  have "run_steps fs t = Some t'"
    unfolding run1 using free(2) tgt by (simp add: name_source_def alias_source_def t'_def forget_exclusions_def plain_def)
  moreover have "series_ok t'"
  proof (cases "keep_as_alias (sr_foreign_id s)")
    case True
    have "series_ok (td\<lparr>st_aliases := st_aliases td @ [(sr_foreign_id s, target)]\<rparr>)"
      by (rule series_ok_aliases [OF okd])
        (use okd free tgt True in \<open>auto simp: series_ok_def is_alias_def\<close>)
    then show ?thesis using True by (simp add: t'_def)
  next
    case False
    then show ?thesis using okd by (simp add: t'_def)
  qed
  moreover have "series_by_foreign_id f t' = absorb_names target i (\<lambda>f. series_by_foreign_id f t) f" for f
  proof -
    have live: "series_by_foreign_id (sr_foreign_id s) t = Some i" by (rule resolve_live [OF ok s])
    have gone: "series_by_foreign_id (sr_foreign_id s) td = None" using resolve_td [of "sr_foreign_id s"] live by simp
    have "names t' = names td @ (if keep_as_alias (sr_foreign_id s) then [(sr_foreign_id s, target)] else [])"
      by (simp add: t'_def names_def)
    then have step: "series_by_foreign_id f t' =
        (case (if keep_as_alias (sr_foreign_id s) \<and> f = sr_foreign_id s then Some target else None) of
           None \<Rightarrow> series_by_foreign_id f td | Some j \<Rightarrow> Some j)"
      using gone by (cases "f = sr_foreign_id s") (simp_all add: resolve_names map_add_def split: option.split)
    show ?thesis
    proof (cases "f = sr_foreign_id s")
      case True
      then show ?thesis using step gone live by (simp add: absorb_names_def)
    next
      case False
      then show ?thesis
        using step resolve_td [of f] aliases_keep [of f]
        by (cases "series_by_foreign_id f t") (simp_all add: absorb_names_def)
    qed
  qed
  ultimately show ?thesis
    by (intro exI [of _ t']) (simp add: t'_def td_def t1_def delete_series_def)
qed


subsection \<open>One source\<close>

text \<open>The reference: a source's memberships folded into the target's, on the map alone.\<close>

definition absorb_cell :: "(string \<times> bool) option \<Rightarrow> (string \<times> bool) option \<Rightarrow> (string \<times> bool) option" where
  "absorb_cell h new =
     (case new of
        None \<Rightarrow> h
      | Some (p, q) \<Rightarrow>
          (case h of
             None \<Rightarrow> Some (trim_space p, q)
           | Some (p0, q0) \<Rightarrow> Some (if trim_space p0 = [] then trim_space p else trim_space p0, q0 \<or> q)))"

definition absorb_series :: "int \<Rightarrow> int \<Rightarrow> membership \<Rightarrow> membership" where
  "absorb_series target i M = (\<lambda>(s, b).
     if s = i then None else if s = target then absorb_cell (M (target, b)) (M (i, b)) else M (s, b))"

definition trimmed :: "string \<times> bool \<Rightarrow> string \<times> bool" where
  "trimmed c = (trim_space (fst c), snd c)"

definition linked :: "int \<Rightarrow> series_tables \<Rightarrow> bool" where
  "linked i t \<longleftrightarrow> i \<in> hl_series_id ` set (st_links t)"

lemma linked_alt: "linked i t \<longleftrightarrow> list_ex (\<lambda>l. hl_series_id l = i) (st_links t)"
  by (auto simp: linked_def list_ex_iff)

lemma merge_members_books:
  assumes "distinct (map member_key (st_members t))"
  shows "distinct (map mb_book_id (merge_members i t))"
    and "book_in (merge_members i t) b = None \<longleftrightarrow> memberships t (i, b) = None"
    and "book_in (merge_members i t) b = Some m \<Longrightarrow> memberships t (i, b) \<noteq> None \<and> cell m = trimmed (the (memberships t (i, b)))"
proof -
  let ?own = "filter (\<lambda>m. sb_series_id m = i) (st_members t)"
  have ids: "map mb_book_id (merge_members i t) = map sb_book_id (sort_key sb_book_id ?own)"
    by (simp add: merge_members_def comp_def)
  have "distinct (map sb_book_id ?own)"
    using assms by (auto simp: distinct_map inj_on_def member_key_def)
  then have "distinct (map sb_book_id (sort_key sb_book_id ?own))"
    by (metis distinct_map distinct_sort set_sort)
  then show "distinct (map mb_book_id (merge_members i t))" unfolding ids .
  show "book_in (merge_members i t) b = None \<longleftrightarrow> memberships t (i, b) = None"
    by (auto simp: book_in_None merge_members_def memberships_None member_key_def image_iff)
  assume "book_in (merge_members i t) b = Some m"
  then have "m \<in> set (merge_members i t)" "mb_book_id m = b" using book_in_Some by auto
  then obtain x where x: "x \<in> set (st_members t)" "sb_series_id x = i" "sb_book_id x = b"
    "mb_position m = trim_space (sb_position x)" "mb_primary m = sb_primary x"
    by (auto simp: merge_members_def)
  have "x = \<lparr> sb_series_id = i, sb_book_id = b, sb_position = sb_position x, sb_primary = sb_primary x \<rparr>"
    using x by (intro series_book.equality) simp_all
  then have "memberships t (i, b) = Some (sb_position x, sb_primary x)"
    using memberships_Some [OF assms] x(1) by metis
  then show "memberships t (i, b) \<noteq> None \<and> cell m = trimmed (the (memberships t (i, b)))"
    using x by (simp add: cell_def trimmed_def)
qed

lemma absorb_source_fields:
  assumes "fold absorb_member members (mg_joined g, \<lparr> ms_id = i, ms_title = mr_title src, ms_foreign_id = mr_foreign_id src,
      ms_moved = [], ms_kept = [], ms_conflicts = [] \<rparr>) = (joined, ps)"
  shows "mg_joined (absorb_source i src members g) = joined"
    and "mp_sources (mg_plan (absorb_source i src members g)) = mp_sources (mg_plan g) @ [ps]"
    and "mp_target_id (mg_plan (absorb_source i src members g)) = mp_target_id (mg_plan g)"
    and "mg_has_link (absorb_source i src members g) \<longleftrightarrow> mg_has_link g \<or> mr_hardcover_link src"
    and "mp_hardcover_link_from (mg_plan (absorb_source i src members g)) =
      (if \<not> mg_has_link g \<and> mr_hardcover_link src then i else mp_hardcover_link_from (mg_plan g))"
    and "mp_monitored (mg_plan (absorb_source i src members g)) = (mp_monitored (mg_plan g) \<or> mr_monitored src)"
  using assms by (auto simp: absorb_source_def Let_def)

definition merging :: "series_tables \<Rightarrow> int \<Rightarrow> int list \<Rightarrow> series_tables \<Rightarrow> merge_state \<Rightarrow> bool" where
  "merging t0 target rem t g \<longleftrightarrow>
     series_ok t \<and> target \<in> set (series_ids t) \<and> target \<notin> set rem \<and> distinct rem \<and>
     (\<forall>b. map_option cell (mg_joined g b) = map_option trimmed (memberships t (target, b))) \<and>
     (\<forall>i \<in> set rem. find_series t i = find_series t0 i \<and> (\<forall>b. memberships t (i, b) = memberships t0 (i, b))
        \<and> linked i t = linked i t0) \<and>
     st_books t = st_books t0 \<and> (\<not> mg_has_link g \<longrightarrow> \<not> linked target t) \<and>
     mp_target_id (mg_plan g) = target \<and> mp_hardcover_link_from (mg_plan g) \<notin> set rem"


lemma book_in_filter: "book_in (filter (\<lambda>m. P (mb_book_id m)) ms) b = (if P b then book_in ms b else None)"
  by (induction ms) auto

lemma book_in_map: "(\<And>m. mb_book_id (f m) = mb_book_id m) \<Longrightarrow> book_in (map f ms) b = map_option f (book_in ms b)"
  by (induction ms) auto

lemma memberships_cong: "st_members t = st_members t' \<Longrightarrow> memberships t = memberships t'"
  by (simp add: memberships_def)

lemma find_series_other: "j \<noteq> i \<Longrightarrow> (\<And>r. sr_id (f r) = sr_id r) \<Longrightarrow> find_series (update_series i f t) j = find_series t j"
proof -
  assume j: "j \<noteq> i" and id: "\<And>r. sr_id (f r) = sr_id r"
  have "find (\<lambda>r. sr_id r = j) (map (\<lambda>r. if sr_id r = i then f r else r) rs) = find (\<lambda>r. sr_id r = j) rs" for rs
    by (induction rs) (use j id in auto)
  then show ?thesis by (simp add: find_series_def update_series_def)
qed

lemma find_series_filter:
  "j \<noteq> i \<Longrightarrow> st_series t' = filter (\<lambda>r. sr_id r \<noteq> i) (st_series t) \<Longrightarrow> find_series t' j = find_series t j"
proof -
  assume "j \<noteq> i" "st_series t' = filter (\<lambda>r. sr_id r \<noteq> i) (st_series t)"
  moreover have "find (\<lambda>r. sr_id r = j) (filter (\<lambda>r. sr_id r \<noteq> i) rs) = find (\<lambda>r. sr_id r = j) rs" if "j \<noteq> i" for rs
    by (induction rs) (use that in auto)
  ultimately show ?thesis by (simp add: find_series_def)
qed

text \<open>The books of a source, moved and kept, on the tables.\<close>

lemma absorb_books:
  assumes ok: "series_ok t" "target \<in> set (series_ids t)" "distinct (map mb_book_id ms)"
    and books: "\<And>m. m \<in> set ms \<Longrightarrow> mb_book_id m \<in> fst ` set (st_books t)"
    and joined: "\<And>b. map_option cell (joined b) = map_option trimmed (memberships t (target, b))"
    and run: "fold absorb_member ms (joined, ps0) = (joined', ps)" "ms_moved ps0 = []" "ms_kept ps0 = []"
  shows "\<exists>M. run_steps (map (move_book target) (ms_moved ps) @ map (keep_book target) (ms_kept ps)) t = Some (t\<lparr>st_members := M\<rparr>) \<and>
    series_ok (t\<lparr>st_members := M\<rparr>) \<and>
    memberships (t\<lparr>st_members := M\<rparr>) = (\<lambda>(s, b). if s = target \<and> book_in ms b \<noteq> None
       then map_option cell (joined' b) else memberships t (s, b))"
proof -
  note a = absorb_members [OF ok(3) run(1)]
  have moved: "ms_moved ps = filter (\<lambda>m. joined (mb_book_id m) = None) ms"
    and kept: "ms_kept ps = map (\<lambda>m. kept_of (the (joined (mb_book_id m))) m) (filter (\<lambda>m. joined (mb_book_id m) \<noteq> None) ms)"
    and j': "joined' = (\<lambda>b. case book_in ms b of None \<Rightarrow> joined b
      | Some m \<Rightarrow> Some (case joined b of None \<Rightarrow> m | Some have \<Rightarrow> kept_of have m))"
    using a run(2,3) by simp_all
  have none: "joined b = None \<longleftrightarrow> memberships t (target, b) = None" for b
    using joined [of b] by (metis option.map_disc_iff)
  have in_moved: "book_in (ms_moved ps) b = (if joined b = None then book_in ms b else None)" for b
    unfolding moved by (rule book_in_filter)
  have in_kept: "book_in (ms_kept ps) b = (if joined b = None then None else map_option (kept_of (the (joined b))) (book_in ms b))" for b
  proof -
    have "book_in (ms_kept ps) b = map_option (\<lambda>m. kept_of (the (joined (mb_book_id m))) m)
        (book_in (filter (\<lambda>m. joined (mb_book_id m) \<noteq> None) ms) b)"
      unfolding kept by (rule book_in_map) (simp add: kept_of_def)
    then show ?thesis
      using book_in_filter [of "\<lambda>x. joined x \<noteq> None" ms b] book_in_Some [of ms b]
      by (cases "book_in ms b") auto
  qed
  have "distinct (map mb_book_id (ms_moved ps))" unfolding moved using ok(3) by (simp add: distinct_map_filter)
  moreover have "memberships t (target, mb_book_id m) = None \<and> mb_book_id m \<in> fst ` set (st_books t)" if "m \<in> set (ms_moved ps)" for m
    using that books none by (auto simp: moved)
  ultimately obtain M1 where M1: "run_steps (map (move_book target) (ms_moved ps)) t = Some (t\<lparr>st_members := M1\<rparr>)"
      "series_ok (t\<lparr>st_members := M1\<rparr>)"
      "memberships (t\<lparr>st_members := M1\<rparr>) = (\<lambda>(s, b). case (if s = target then book_in (ms_moved ps) b else None) of
         None \<Rightarrow> memberships t (s, b) | Some m \<Rightarrow> Some (cell m))"
    using run_moves [OF ok(1,2)] by blast
  have "map mb_book_id (ms_kept ps) = map mb_book_id (filter (\<lambda>m. joined (mb_book_id m) \<noteq> None) ms)"
    by (simp add: kept kept_of_def comp_def)
  then have "distinct (map mb_book_id (ms_kept ps))" using ok(3) by (simp add: distinct_map_filter)
  then obtain M2 where M2: "run_steps (map (keep_book target) (ms_kept ps)) (t\<lparr>st_members := M1\<rparr>) = Some (t\<lparr>st_members := M2\<rparr>)"
      "series_ok (t\<lparr>st_members := M2\<rparr>)"
      "memberships (t\<lparr>st_members := M2\<rparr>) = (\<lambda>(s, b). case (if s = target then book_in (ms_kept ps) b else None) of
         None \<Rightarrow> memberships (t\<lparr>st_members := M1\<rparr>) (s, b)
       | Some m \<Rightarrow> map_option (\<lambda>_. cell m) (memberships (t\<lparr>st_members := M1\<rparr>) (s, b)))"
    using run_keeps [OF M1(2), of "ms_kept ps" target] by auto
  have "memberships (t\<lparr>st_members := M2\<rparr>) (s, b) = (if s = target \<and> book_in ms b \<noteq> None
       then map_option cell (joined' b) else memberships t (s, b))" for s b
    unfolding M2(3) M1(3) using none [of b]
    by (cases "joined b"; cases "book_in ms b") (auto simp: in_moved in_kept j')
  then show ?thesis
    using M1 M2(1,2) by (intro exI [of _ M2]) (auto simp: run_steps_append)
qed


lemma source_steps_split:
  "source_steps plan src =
     (map (move_book (mp_target_id plan)) (ms_moved src) @ map (keep_book (mp_target_id plan)) (ms_kept src))
     @ (if mp_hardcover_link_from plan = ms_id src then [move_link (mp_target_id plan) (ms_id src)] else [])
     @ (if mp_genre_override_from plan = ms_id src then [copy_genres (mp_target_id plan) (ms_id src)] else [])
     @ ([move_pins (mp_target_id plan) (ms_id src), repoint_recommendations (mp_target_id plan) (ms_id src),
         repoint_aliases (mp_target_id plan) (ms_id src), plain (delete_series (ms_id src))]
       @ name_source (mp_target_id plan) (ms_foreign_id src))"
  by (simp add: source_steps_def name_source_def Let_def)

lemma link_step:
  assumes "series_ok t" "target \<in> set (series_ids t)" "takes \<Longrightarrow> \<not> linked target t"
  shows "\<exists>ls. run_steps (if takes then [move_link target i] else []) t = Some (t\<lparr>st_links := ls\<rparr>) \<and>
    series_ok (t\<lparr>st_links := ls\<rparr>) \<and> (\<forall>j. j \<noteq> i \<longrightarrow> j \<noteq> target \<longrightarrow> linked j (t\<lparr>st_links := ls\<rparr>) = linked j t) \<and>
    (\<not> takes \<longrightarrow> ls = st_links t)"
proof (cases takes)
  case True
  define ls where "ls = map (\<lambda>l. if hl_series_id l = i then l\<lparr>hl_series_id := target\<rparr> else l) (st_links t)"
  have free: "target \<notin> hl_series_id ` set (st_links t)" using assms(3) True by (simp add: linked_def)
  have ids: "map hl_series_id ls = map (\<lambda>j. if j = i then target else j) (map hl_series_id (st_links t))"
    by (simp add: ls_def)
  have "distinct (map hl_series_id ls)"
    unfolding ids using assms(1) free by (auto simp: series_ok_def distinct_map inj_on_def split: if_splits)
  moreover have "\<forall>l \<in> set ls. hl_series_id l \<in> set (series_ids t)"
    using assms(1,2) by (auto simp: ls_def series_ok_def)
  ultimately have "series_ok (t\<lparr>st_links := ls\<rparr>)" by (rule series_ok_links [OF assms(1)])
  moreover have "move_link target i t = Inr ((), t\<lparr>st_links := ls\<rparr>)"
    using free by (auto simp: move_link_def ls_def list_ex_iff)
  moreover have "linked j (t\<lparr>st_links := ls\<rparr>) = linked j t" if "j \<noteq> i" "j \<noteq> target" for j
    using that by (force simp: linked_def ls_def)
  ultimately show ?thesis using True by (intro exI [of _ ls]) simp
qed (use assms in \<open>auto intro!: exI [of _ "st_links t"]\<close>)

lemma merge_one_source:
  assumes m: "merging t0 target (i # rem) t g" and ok0: "series_ok t0" and row: "merge_row_of i t0 = Some src"
    and g1: "g1 = absorb_source i src (merge_members i t0) g"
    and p: "mp_target_id p = target" "mp_hardcover_link_from p = i \<longleftrightarrow> \<not> mg_has_link g \<and> mr_hardcover_link src"
  obtains ps t' where "mp_sources (mg_plan g1) = mp_sources (mg_plan g) @ [ps]" "run_steps (source_steps p ps) t = Some t'"
    "merging t0 target rem t' g1" "memberships t' = absorb_series target i (memberships t)"
    "\<And>f. series_by_foreign_id f t' = absorb_names target i (\<lambda>f. series_by_foreign_id f t) f"
    "series_ids t' = filter (\<lambda>j. j \<noteq> i) (series_ids t)"
proof -
  define ms where "ms = merge_members i t0"
  define ps0 where "ps0 = \<lparr> ms_id = i, ms_title = mr_title src, ms_foreign_id = mr_foreign_id src,
      ms_moved = [], ms_kept = [], ms_conflicts = [] \<rparr>"
  obtain joined ps where run: "fold absorb_member ms (mg_joined g, ps0) = (joined, ps)" by fastforce
  note fields = absorb_source_fields [OF run [unfolded ms_def ps0_def], folded g1]
  have ok: "series_ok t" "target \<in> set (series_ids t)" "target \<noteq> i" "i \<notin> set rem" "target \<notin> set rem" "distinct rem"
    using m by (auto simp: merging_def)
  have members0: "distinct (map member_key (st_members t0))" using ok0 by (simp add: series_ok_def)
  obtain s where s: "find_series t0 i = Some s" "mr_foreign_id src = sr_foreign_id s" "mr_hardcover_link src = linked i t0"
    using row by (auto simp: merge_row_of_def linked_alt Let_def split: option.splits)
  have ms: "distinct (map mb_book_id ms)" "\<And>b. book_in ms b = None \<longleftrightarrow> memberships t (i, b) = None"
    "\<And>b x. book_in ms b = Some x \<Longrightarrow> cell x = trimmed (the (memberships t (i, b)))"
    using merge_members_books [OF members0] m by (auto simp: ms_def merging_def)
  have books: "mb_book_id x \<in> fst ` set (st_books t)" if x: "x \<in> set ms" for x
  proof -
    obtain y where y: "y \<in> set (st_members t0)" "sb_book_id y = mb_book_id x"
      using x by (auto simp: ms_def merge_members_def)
    have "sb_book_id y \<in> fst ` set (st_books t0)" using series_ok_refs [OF ok0 y(1)] by (simp add: member_refs_ok_def)
    then show ?thesis using m y(2) by (simp add: merging_def)
  qed
  note a = absorb_members [OF ms(1) run]
  have ids: "ms_id ps = i" "ms_foreign_id ps = sr_foreign_id s" using a s(2) by (simp_all add: ps0_def)
  obtain M where M: "run_steps (map (move_book target) (ms_moved ps) @ map (keep_book target) (ms_kept ps)) t = Some (t\<lparr>st_members := M\<rparr>)"
    "series_ok (t\<lparr>st_members := M\<rparr>)"
    "memberships (t\<lparr>st_members := M\<rparr>) = (\<lambda>(s, b). if s = target \<and> book_in ms b \<noteq> None
       then map_option cell (joined b) else memberships t (s, b))"
    using absorb_books [OF ok(1,2) ms(1) books _ run] m by (auto simp: merging_def ps0_def)
  define t2 where "t2 = t\<lparr>st_members := M\<rparr>"
  define takes where "takes \<longleftrightarrow> mp_hardcover_link_from p = i"
  have t2: "series_ok t2" "series_ids t2 = series_ids t" "\<And>j. linked j t2 = linked j t" "\<And>j. find_series t2 j = find_series t j"
    "\<And>f. series_by_foreign_id f t2 = series_by_foreign_id f t" "st_books t2 = st_books t"
    using M(2) by (simp_all add: t2_def series_ids_def linked_def find_series_def series_by_foreign_id_def)
  have "takes \<Longrightarrow> \<not> linked target t2" using m p(2) by (auto simp: takes_def merging_def t2(3))
  then obtain ls where ls: "run_steps (if takes then [move_link target i] else []) t2 = Some (t2\<lparr>st_links := ls\<rparr>)"
    "series_ok (t2\<lparr>st_links := ls\<rparr>)" "\<And>j. j \<noteq> i \<Longrightarrow> j \<noteq> target \<Longrightarrow> linked j (t2\<lparr>st_links := ls\<rparr>) = linked j t2"
    "\<not> takes \<Longrightarrow> ls = st_links t2"
    using link_step [OF t2(1), of target takes i] ok(2) t2(2) by auto
  define t3 where "t3 = t2\<lparr>st_links := ls\<rparr>"
  define gf where "gf = (\<lambda>r :: series_row. r\<lparr>sr_genre_override := (case find_series t3 i of None \<Rightarrow> None | Some s \<Rightarrow> sr_genre_override s)\<rparr>)"
  define t4 where "t4 = (if mp_genre_override_from p = i then update_series target gf t3 else t3)"
  have run4: "run_steps (if mp_genre_override_from p = i then [copy_genres target i] else []) t3 = Some t4"
    by (simp add: t4_def copy_genres_def plain_def gf_def)
  have gf: "sr_id (gf r) = sr_id r \<and> sr_foreign_id (gf r) = sr_foreign_id r" for r by (simp add: gf_def)
  have names_kept: "names (update_series target gf t3) = names t3"
    using gf by (simp add: names_def update_series_def)
  have t4: "series_ok t4" "series_ids t4 = series_ids t" "\<And>j. j \<noteq> target \<Longrightarrow> find_series t4 j = find_series t j"
    "st_members t4 = M" "st_links t4 = ls" "st_books t4 = st_books t"
    "\<And>f. series_by_foreign_id f t4 = series_by_foreign_id f t"
  proof -
    show "series_ok t4" using series_ok_update_series [OF ls(2) gf] ls(2) by (simp add: t4_def t3_def)
    show "series_ids t4 = series_ids t" using gf t2(2) by (simp add: t4_def t3_def) (simp add: series_ids_def)
    show "find_series t4 j = find_series t j" if "j \<noteq> target" for j
      using find_series_other [OF that, of gf t3] gf t2(4) by (simp add: t4_def t3_def) (simp add: find_series_def)
    show "st_members t4 = M" "st_links t4 = ls" "st_books t4 = st_books t"
      by (simp_all add: t4_def t3_def t2_def update_series_def)
    show "series_by_foreign_id f t4 = series_by_foreign_id f t" for f
      using names_kept by (simp add: t4_def resolve_names) (simp add: names_def t3_def t2_def)
  qed
  have "find_series t4 i = Some s" using t4(3) ok(3) s(1) m by (simp add: merging_def)
  from retire_source [OF t4(1) _ ok(3) this] obtain t' where t': "run_steps ([move_pins target i, repoint_recommendations target i,
        repoint_aliases target i, plain (delete_series i)] @ name_source target (sr_foreign_id s)) t4 = Some t'"
    "series_ok t'" "st_series t' = filter (\<lambda>r. sr_id r \<noteq> i) (st_series t4)"
    "st_members t' = filter (\<lambda>m. sb_series_id m \<noteq> i) (st_members t4)"
    "st_links t' = filter (\<lambda>l. hl_series_id l \<noteq> i) (st_links t4)" "st_books t' = st_books t4"
    "\<And>f. series_by_foreign_id f t' = absorb_names target i (\<lambda>f. series_by_foreign_id f t4) f"
    using ok(2) t4(2) by auto
  have steps: "run_steps (source_steps p ps) t = Some t'"
    unfolding source_steps_split ids p(1) run_steps_then [OF M(1), folded t2_def]
      run_steps_then [OF ls(1) [unfolded takes_def], folded t3_def] run_steps_then [OF run4]
    by (rule t'(1))
  have mem: "memberships t' = absorb_series target i (memberships t)"
  proof
    fix k :: "int \<times> int"
    obtain a b where k: "k = (a, b)" by fastforce
    have "memberships t' = memberships (delete_series i t4)"
      by (rule memberships_cong) (simp add: t'(4) delete_series_def)
    then have "memberships t' k = (if a = i then None else memberships t4 k)"
      by (simp add: k memberships_delete)
    also have "memberships t4 = memberships (t\<lparr>st_members := M\<rparr>)" by (rule memberships_cong) (simp add: t4(4))
    finally have 1: "memberships t' k = (if a = i then None else if a = target \<and> book_in ms b \<noteq> None
       then map_option cell (joined b) else memberships t k)" unfolding M(3) k by auto
    have j: "map_option cell (mg_joined g b) = map_option trimmed (memberships t (target, b))"
      using m by (simp add: merging_def)
    have "joined b = (case book_in ms b of None \<Rightarrow> mg_joined g b
      | Some m \<Rightarrow> Some (case mg_joined g b of None \<Rightarrow> m | Some have \<Rightarrow> kept_of have m))" using a by simp
    then show "memberships t' k = absorb_series target i (memberships t) k"
      using 1 j ms(2) [of b] ms(3) [of b] ok(3)
      by (cases "book_in ms b"; cases "mg_joined g b"; cases "memberships t (target, b)"; cases "memberships t (i, b)")
        (auto simp: k absorb_series_def absorb_cell_def cell_def kept_of_def trimmed_def)
  qed
  have find': "find_series t' j = find_series t j" if "j \<noteq> i" "j \<noteq> target" for j
    using find_series_filter [OF that(1) t'(3)] t4(3) [OF that(2)] by simp
  have link': "linked j t' = linked j (t2\<lparr>st_links := ls\<rparr>)" if "j \<noteq> i" for j
    using that by (auto simp: linked_def t'(5) t4(5))
  have sids: "series_ids t' = filter (\<lambda>j. j \<noteq> i) (series_ids t)"
  proof -
    have "series_ids t' = filter (\<lambda>j. j \<noteq> i) (series_ids t4)" using t'(3) by (simp add: series_ids_def filter_map comp_def)
    then show ?thesis by (simp only: t4(2))
  qed
  have joined': "map_option cell (mg_joined g1 b) = map_option trimmed (memberships t' (target, b))" for b
  proof -
    have "mg_joined g1 b = (case book_in ms b of None \<Rightarrow> mg_joined g b
      | Some m \<Rightarrow> Some (case mg_joined g b of None \<Rightarrow> m | Some have \<Rightarrow> kept_of have m))" using a fields(1) by simp
    moreover have "map_option cell (mg_joined g b) = map_option trimmed (memberships t (target, b))"
      using m by (simp add: merging_def)
    ultimately show ?thesis
      using ms(2) [of b] ms(3) [of b] ok(3)
      by (cases "book_in ms b"; cases "mg_joined g b"; cases "memberships t (target, b)"; cases "memberships t (i, b)")
        (auto simp: mem absorb_series_def absorb_cell_def cell_def kept_of_def trimmed_def)
  qed
  have "merging t0 target rem t' g1"
    unfolding merging_def
  proof (intro conjI ballI allI impI)
    fix j assume j: "j \<in> set rem"
    then have ne: "j \<noteq> i" "j \<noteq> target" using ok by auto
    show "find_series t' j = find_series t0 j" using find' [OF ne] m j by (simp add: merging_def)
    show "memberships t' (j, b) = memberships t0 (j, b)" for b
      using m j ne by (simp add: mem absorb_series_def merging_def)
    show "linked j t' = linked j t0" using link' ls(3) t2(3) ne m j by (simp add: merging_def)
  next
    assume "\<not> mg_has_link g1"
    then have g: "\<not> mg_has_link g" "\<not> mr_hardcover_link src" using fields(4) by auto
    then have "ls = st_links t2" using ls(4) p(2) by (simp add: takes_def)
    then show "\<not> linked target t'" using link' [of target] ok(3) m g(1) t2(3) by (simp add: merging_def linked_def)
  next
    show "mp_hardcover_link_from (mg_plan g1) \<notin> set rem" using fields(5) m ok(4) by (simp add: merging_def)
  qed (use t'(2) sids ok m joined' t'(6) t4(6) fields(3) in \<open>simp_all add: merging_def\<close>)
  then show ?thesis using that [OF fields(2) steps _ mem] t'(7) t4(7) sids by simp
qed


subsection \<open>All sources\<close>

fun plan_sources :: "int list \<Rightarrow> series_tables \<Rightarrow> merge_state \<Rightarrow> merge_state option" where
  "plan_sources [] t g = Some g"
| "plan_sources (i # is) t g =
     (case merge_row_of i t of None \<Rightarrow> None
      | Some src \<Rightarrow> plan_sources is t (absorb_source i src (merge_members i t) g))"

lemma plan_sources_final:
  "plan_sources is t g = Some g' \<Longrightarrow>
     mp_target_id (mg_plan g') = mp_target_id (mg_plan g) \<and>
     (mg_has_link g \<longrightarrow> mp_hardcover_link_from (mg_plan g') = mp_hardcover_link_from (mg_plan g)) \<and>
     mp_hardcover_link_from (mg_plan g') \<in> insert (mp_hardcover_link_from (mg_plan g)) (set is)"
proof (induction "is" arbitrary: g)
  case (Cons i rest)
  obtain src where src: "merge_row_of i t = Some src" using Cons.prems by (auto split: option.splits)
  obtain joined ps where "fold absorb_member (merge_members i t) (mg_joined g, \<lparr> ms_id = i, ms_title = mr_title src,
      ms_foreign_id = mr_foreign_id src, ms_moved = [], ms_kept = [], ms_conflicts = [] \<rparr>) = (joined, ps)"
    by fastforce
  note f = absorb_source_fields [OF this]
  have "plan_sources rest t (absorb_source i src (merge_members i t) g) = Some g'" using Cons.prems src by simp
  from Cons.IH [OF this] show ?case unfolding f by auto
qed simp

lemma merge_all_sources:
  "\<lbrakk> merging t0 target is t g; series_ok t0; plan_sources is t0 g = Some g'; mp_target_id p = target;
     mp_hardcover_link_from p = mp_hardcover_link_from (mg_plan g') \<rbrakk> \<Longrightarrow>
   \<exists>ss t'. mp_sources (mg_plan g') = mp_sources (mg_plan g) @ ss \<and>
     run_steps (concat (map (source_steps p) ss)) t = Some t' \<and> merging t0 target [] t' g' \<and>
     memberships t' = fold (absorb_series target) is (memberships t) \<and>
     (\<forall>f. series_by_foreign_id f t' = fold (absorb_names target) is (\<lambda>f. series_by_foreign_id f t) f) \<and>
     series_ids t' = filter (\<lambda>j. j \<notin> set is) (series_ids t)"
proof (induction "is" arbitrary: t g)
  case (Cons i rest)
  obtain src where src: "merge_row_of i t0 = Some src" using Cons.prems(3) by (auto split: option.splits)
  define g1 where "g1 = absorb_source i src (merge_members i t0) g"
  have rest: "plan_sources rest t0 g1 = Some g'" using Cons.prems(3) src by (simp add: g1_def)
  obtain joined ps where "fold absorb_member (merge_members i t0) (mg_joined g, \<lparr> ms_id = i, ms_title = mr_title src,
      ms_foreign_id = mr_foreign_id src, ms_moved = [], ms_kept = [], ms_conflicts = [] \<rparr>) = (joined, ps)"
    by fastforce
  note f = absorb_source_fields [OF this, folded g1_def]
  have "mp_hardcover_link_from (mg_plan g) \<noteq> i" "i \<notin> set rest" using Cons.prems(1) by (auto simp: merging_def)
  then have takes: "mp_hardcover_link_from p = i \<longleftrightarrow> \<not> mg_has_link g \<and> mr_hardcover_link src"
    using plan_sources_final [OF rest] f(4,5) Cons.prems(5) by (auto split: if_splits)
  obtain ps t1 where one: "mp_sources (mg_plan g1) = mp_sources (mg_plan g) @ [ps]" "run_steps (source_steps p ps) t = Some t1"
    "merging t0 target rest t1 g1" "memberships t1 = absorb_series target i (memberships t)"
    "\<And>f. series_by_foreign_id f t1 = absorb_names target i (\<lambda>f. series_by_foreign_id f t) f"
    "series_ids t1 = filter (\<lambda>j. j \<noteq> i) (series_ids t)"
    using merge_one_source [OF Cons.prems(1,2) src g1_def Cons.prems(4) takes] by blast
  obtain ss t' where more: "mp_sources (mg_plan g') = mp_sources (mg_plan g1) @ ss"
    "run_steps (concat (map (source_steps p) ss)) t1 = Some t'" "merging t0 target [] t' g'"
    "memberships t' = fold (absorb_series target) rest (memberships t1)"
    "\<forall>f. series_by_foreign_id f t' = fold (absorb_names target) rest (\<lambda>f. series_by_foreign_id f t1) f"
    "series_ids t' = filter (\<lambda>j. j \<notin> set rest) (series_ids t1)"
    using Cons.IH [OF one(3) Cons.prems(2) rest Cons.prems(4,5)] by blast
  have "(\<lambda>f. series_by_foreign_id f t1) = absorb_names target i (\<lambda>f. series_by_foreign_id f t)"
    using one(5) by (simp add: fun_eq_iff)
  then have names: "\<forall>f. series_by_foreign_id f t' = fold (absorb_names target) (i # rest) (\<lambda>f. series_by_foreign_id f t) f"
    using more(5) by simp
  have "run_steps (concat (map (source_steps p) (ps # ss))) t = Some t'"
    using one(2) more(2) by (simp add: run_steps_append)
  then show ?case
    using one(1,4,6) more(1,3,4,6) names
    by (intro exI [of _ "ps # ss"] exI [of _ t']) (auto intro!: filter_cong)
qed (auto simp: merging_def)


subsection \<open>The merge\<close>

lemma check_sources_None: "check_sources target seen is = None \<longleftrightarrow> target \<notin> set is \<and> distinct is \<and> set is \<inter> set seen = {}"
  by (induction target seen "is" rule: check_sources.induct) auto

lemma absorb_sources_Inr:
  "absorb_sources is g d = (Inr g', d') \<Longrightarrow> plan_sources is (tabs d) g = Some g' \<and> tabs d' = tabs d"
proof (induction "is" arbitrary: g d)
  case (Cons i rest)
  then show ?case
    by (auto simp: and_next_Inr fail_def split: option.splits dest!: query_Inr) (metis Cons.IH)+
qed (simp add: give_def)

lemma absorb_sources_calm:
  "\<lbrakk> outcomes d = []; plan_sources is (tabs d) g = Some g' \<rbrakk> \<Longrightarrow> absorb_sources is g d = (Inr g', d)"
  by (induction "is" arbitrary: g) (auto simp: give_def and_next_Inr query_calm split: option.splits)

lemma plan_merge_Inr:
  assumes "plan_merge target sources new_title d = (Inr p, d')"
  obtains tr g where "tabs d' = tabs d" "target \<notin> set sources" "distinct sources"
    "merge_row_of target (tabs d) = Some tr"
    "plan_sources (sort sources) (tabs d) (start_state target new_title tr (merge_members target (tabs d))) = Some g"
    "p = mg_plan g"
  using assms
  by (auto simp: plan_merge_def fail_def and_next_Inr give_def check_sources_None
      split: if_splits option.splits dest!: query_Inr absorb_sources_Inr) metis

lemma plan_sources_exist: "plan_sources is t g = Some g' \<Longrightarrow> i \<in> set is \<Longrightarrow> i \<in> set (series_ids t)"
  by (induction "is" arbitrary: g)
    (auto simp: merge_row_of_def find_series_def find_Some_iff series_ids_def split: option.splits)

lemma merging_start:
  assumes ok: "series_ok t" and tr: "merge_row_of target t = Some tr"
    and src: "target \<notin> set sources" "distinct sources" "\<And>i. i \<in> set sources \<Longrightarrow> i \<in> set (series_ids t)"
  shows "merging t target (sort sources) t (start_state target title tr (merge_members target t))"
proof -
  have d: "distinct (map member_key (st_members t))" using ok by (simp add: series_ok_def)
  note mm = merge_members_books [OF d]
  have "map_of (rev (map (\<lambda>m. (mb_book_id m, m)) ms)) b = book_in ms b" if "distinct (map mb_book_id ms)" for ms b
    using that
  proof (induction ms)
    case (Cons m ms)
    then have "map_of (rev (map (\<lambda>m. (mb_book_id m, m)) ms)) b = book_in ms b" "book_in ms (mb_book_id m) = None"
      by (simp_all add: book_in_None)
    then show ?case by (cases "mb_book_id m = b"; cases "book_in ms b") (auto simp: map_add_def)
  qed simp
  then have "map_of (rev (map (\<lambda>m. (mb_book_id m, m)) (merge_members target t))) b = book_in (merge_members target t) b" for b
    using mm(1) by blast
  then have "map_option cell (mg_joined (start_state target title tr (merge_members target t)) b)
      = map_option trimmed (memberships t (target, b))" for b
    using mm(2,3) [of target b]
    by (cases "book_in (merge_members target t) b"; cases "memberships t (target, b)") (auto simp: start_state_def)
  moreover have "target \<in> set (series_ids t)"
    using tr by (auto simp: merge_row_of_def find_series_def find_Some_iff series_ids_def split: option.splits)
  moreover have "\<not> mr_hardcover_link tr \<longrightarrow> \<not> linked target t"
    using tr by (auto simp: merge_row_of_def linked_alt Let_def split: option.splits)
  moreover have "0 \<notin> set sources" using src(3) ok by (force simp: series_ok_def)
  ultimately show ?thesis
    using ok src(1,2) by (simp add: merging_def) (simp add: start_state_def)
qed

lemma last_steps:
  assumes "series_ok t"
  shows "\<exists>t'. run_steps [drop_stale_exclusions target, rename_target fold_key p] t = Some t' \<and> series_ok t' \<and>
    memberships t' = memberships t \<and> names t' = names t \<and> series_ids t' = series_ids t"
proof -
  define t1 where "t1 = t\<lparr>st_exclusions := filter (\<lambda>e. \<not> (list_ex (\<lambda>m. sb_series_id m = target \<and> sb_book_id m = ex_book_id e) (st_members t)
                   \<and> ex_foreign_id e \<in> set (ids_of_series target t))) (st_exclusions t)\<rparr>"
  define f where "f = (\<lambda>r :: series_row. r\<lparr>sr_title := mp_title p, sr_search_key := fold_key (mp_title p), sr_monitored := mp_monitored p\<rparr>)"
  have "run_steps [drop_stale_exclusions target, rename_target fold_key p] t = Some (update_series (mp_target_id p) f t1)"
    by (simp add: drop_stale_exclusions_def rename_target_def plain_def t1_def f_def)
  moreover have "series_ok (update_series (mp_target_id p) f t1)"
    by (rule series_ok_update_series) (use assms in \<open>simp_all add: t1_def f_def\<close>)
  ultimately show ?thesis
    by (auto simp: update_series_def t1_def f_def names_def memberships_def series_ids_def)
qed

lemma merge_tables:
  assumes ok: "series_ok t" and tr: "merge_row_of target t = Some tr" and src: "target \<notin> set sources" "distinct sources"
    and plan: "plan_sources (sort sources) t (start_state target title tr (merge_members target t)) = Some g"
  shows "\<exists>t'. run_steps (concat (map (source_steps (mg_plan g)) (mp_sources (mg_plan g)))
        @ [drop_stale_exclusions (mp_target_id (mg_plan g)), rename_target fold_key (mg_plan g)]) t = Some t' \<and>
    series_ok t' \<and> memberships t' = fold (absorb_series target) (sort sources) (memberships t) \<and>
    (\<forall>f. series_by_foreign_id f t' = fold (absorb_names target) (sort sources) (\<lambda>f. series_by_foreign_id f t) f) \<and>
    series_ids t' = filter (\<lambda>j. j \<notin> set sources) (series_ids t)"
proof -
  have start: "merging t target (sort sources) t (start_state target title tr (merge_members target t))"
    using merging_start [OF ok tr src] plan_sources_exist [OF plan] by simp
  have tgt: "mp_target_id (mg_plan g) = target" using plan_sources_final [OF plan] by (simp add: start_state_def)
  obtain ss t1 where all: "mp_sources (mg_plan g) = ss" "run_steps (concat (map (source_steps (mg_plan g)) ss)) t = Some t1"
    "merging t target [] t1 g" "memberships t1 = fold (absorb_series target) (sort sources) (memberships t)"
    "\<forall>f. series_by_foreign_id f t1 = fold (absorb_names target) (sort sources) (\<lambda>f. series_by_foreign_id f t) f"
    "series_ids t1 = filter (\<lambda>j. j \<notin> set sources) (series_ids t)"
    using merge_all_sources [OF start ok plan tgt refl] by (auto simp: start_state_def)
  have "series_ok t1" using all(3) by (simp add: merging_def)
  then obtain t' where t': "run_steps [drop_stale_exclusions target, rename_target fold_key (mg_plan g)] t1 = Some t'" "series_ok t'"
    "memberships t' = memberships t1" "names t' = names t1" "series_ids t' = series_ids t1"
    using last_steps by blast
  then show ?thesis
    using all by (intro exI [of _ t']) (simp add: run_steps_append tgt resolve_names)
qed

lemma fold_absorb_names:
  "target \<notin> set is \<Longrightarrow> fold (absorb_names target) is N f =
     (case N f of None \<Rightarrow> None
      | Some j \<Rightarrow> if j \<notin> set is then Some j else if keep_as_alias f then Some target else None)"
  by (induction "is" arbitrary: N) (auto simp: absorb_names_def split: option.splits)

lemma merge_runs:
  assumes "merge_series fold_key target sources title d = (Inr plan, d')"
  obtains d1 d2 d3 where "tabs d1 = tabs d" "plan_merge target sources title d1 = (Inr plan, d3)"
    "apply_merge fold_key plan d3 = (Inr (), d2)" "tabs d' = tabs d2"
proof -
  obtain d1 d2 where tx: "tabs d1 = tabs d"
    "and_next (plan_merge target sources title) (\<lambda>plan. and_next (apply_merge fold_key plan) (\<lambda>_. give plan)) d1 = (Inr plan, d2)"
    "tabs d' = tabs d2"
    by (rule in_tx_Inr [OF assms [unfolded merge_series_def]])
  obtain d3 where "plan_merge target sources title d1 = (Inr plan, d3)" "apply_merge fold_key plan d3 = (Inr (), d2)"
    using tx(2) by (auto simp: and_next_Inr give_def)
  then show ?thesis using that tx(1,3) by metis
qed

lemma absorb_cell_None: "absorb_cell h n = None \<longleftrightarrow> h = None \<and> n = None"
  by (auto simp: absorb_cell_def split: option.splits prod.splits)

lemma absorb_cell_primary:
  "(\<exists>p. absorb_cell h n = Some (p, True)) \<longleftrightarrow> (\<exists>p. h = Some (p, True)) \<or> (\<exists>p. n = Some (p, True))"
  by (auto simp: absorb_cell_def split: option.splits prod.splits)

lemma absorb_cell_position:
  "h = Some (p, q) \<Longrightarrow> trim_space p \<noteq> [] \<Longrightarrow> \<exists>p' q'. absorb_cell h n = Some (p', q') \<and> trim_space p' = trim_space p"
  by (auto simp: absorb_cell_def split: option.splits prod.splits)

lemma fold_absorb_other:
  "s \<noteq> target \<Longrightarrow> fold (absorb_series target) is M (s, b) = (if s \<in> set is then None else M (s, b))"
  by (induction "is" arbitrary: M) (auto simp: absorb_series_def)

lemma fold_absorb_target:
  assumes "target \<notin> set is" "distinct is"
  shows "(fold (absorb_series target) is M (target, b) = None \<longleftrightarrow> (\<forall>s \<in> insert target (set is). M (s, b) = None)) \<and>
    ((\<exists>p. fold (absorb_series target) is M (target, b) = Some (p, True)) \<longleftrightarrow>
      (\<exists>s \<in> insert target (set is). \<exists>p. M (s, b) = Some (p, True)))"
  using assms
proof (induction "is" arbitrary: M)
  case (Cons i rest)
  let ?N = "absorb_series target i M"
  have at: "?N (target, b) = absorb_cell (M (target, b)) (M (i, b))" and
    same: "s \<in> set rest \<Longrightarrow> ?N (s, b) = M (s, b)" for s
    using Cons.prems by (auto simp: absorb_series_def)
  have "(\<forall>s \<in> insert target (set rest). ?N (s, b) = None) \<longleftrightarrow> (\<forall>s \<in> insert target (set (i # rest)). M (s, b) = None)"
    using at same absorb_cell_None by auto
  moreover have "(\<exists>s \<in> insert target (set rest). \<exists>p. ?N (s, b) = Some (p, True)) \<longleftrightarrow>
      (\<exists>s \<in> insert target (set (i # rest)). \<exists>p. M (s, b) = Some (p, True))"
    using same absorb_cell_primary [of "M (target, b)" "M (i, b)"] by (auto simp: at)
  moreover have "target \<notin> set rest" "distinct rest" using Cons.prems by auto
  ultimately show ?case using Cons.IH [of ?N] by (simp only: fold_simps comp_apply simp_thms)
qed simp

lemma fold_absorb_position:
  "\<lbrakk> target \<notin> set is; M (target, b) = Some (p, q); trim_space p \<noteq> [] \<rbrakk> \<Longrightarrow>
    \<exists>p' q'. fold (absorb_series target) is M (target, b) = Some (p', q') \<and> trim_space p' = trim_space p"
proof (induction "is" arbitrary: M p q)
  case (Cons i rest)
  obtain p1 q1 where "absorb_series target i M (target, b) = Some (p1, q1)" "trim_space p1 = trim_space p"
    using absorb_cell_position [OF Cons.prems(2,3), of "M (i, b)"] Cons.prems(1,2) by (auto simp: absorb_series_def)
  then show ?case using Cons.IH [of "absorb_series target i M" p1 q1] Cons.prems by simp
qed simp

lemma merge_folds:
  assumes "series_ok (tabs d)" "merge_series fold_key target sources title d = (Inr plan, d')"
  shows "series_ok (tabs d') \<and>
    memberships (tabs d') = fold (absorb_series target) (sort sources) (memberships (tabs d)) \<and>
    series_ids (tabs d') = filter (\<lambda>i. i \<notin> set sources) (series_ids (tabs d)) \<and>
    (\<forall>f. series_by_foreign_id f (tabs d') =
      (case series_by_foreign_id f (tabs d) of
         None \<Rightarrow> None
       | Some i \<Rightarrow> if i \<notin> set sources then Some i else if keep_as_alias f then Some target else None))"
proof -
  obtain d1 d2 d3 where tx: "tabs d1 = tabs d" and p: "plan_merge target sources title d1 = (Inr plan, d3)"
    "apply_merge fold_key plan d3 = (Inr (), d2)" and tx3: "tabs d' = tabs d2"
    by (rule merge_runs [OF assms(2)])
  obtain tr g where g: "tabs d3 = tabs d" "target \<notin> set sources" "distinct sources" "merge_row_of target (tabs d) = Some tr"
    "plan_sources (sort sources) (tabs d) (start_state target title tr (merge_members target (tabs d))) = Some g" "plan = mg_plan g"
  proof (rule plan_merge_Inr [OF p(1)], goal_cases)
    case (1 tr g)
    then show ?case using tx by (intro 1(1)) simp_all
  qed
  have run: "run_steps (concat (map (source_steps plan) (mp_sources plan))
        @ [drop_stale_exclusions (mp_target_id plan), rename_target fold_key plan]) (tabs d) = Some (tabs d')"
    using run_all_steps [OF p(2) [unfolded apply_merge_def]] tx3 g(1) by simp
  obtain t' where t': "run_steps (concat (map (source_steps plan) (mp_sources plan))
        @ [drop_stale_exclusions (mp_target_id plan), rename_target fold_key plan]) (tabs d) = Some t'"
    "series_ok t'" "memberships t' = fold (absorb_series target) (sort sources) (memberships (tabs d))"
    "\<And>f. series_by_foreign_id f t' = fold (absorb_names target) (sort sources) (\<lambda>f. series_by_foreign_id f (tabs d)) f"
    "series_ids t' = filter (\<lambda>j. j \<notin> set sources) (series_ids (tabs d))"
    using merge_tables [OF assms(1) g(4,2,3,5), of fold_key] unfolding g(6) by blast
  have "t' = tabs d'" using run t'(1) by simp
  then show ?thesis
    using t'(2-5) fold_absorb_names [of target "sort sources"] g(2) by (simp only: set_sort simp_thms)
qed

end
