(* ===== verification/Series_History.thy ===== *)
theory Series_History
  imports Series_Links Series_Proofs
begin

text \<open>
  Histories of the series repository: every operation of \<open>internal/db/series.go\<close>, \<open>series_merge.go\<close> and
  \<open>series_monitoring.go\<close> that writes is a call, a history is a list of them, and each statement in it may fail.
  What the tables promise after any history, and which promises need the calls to be whole.
\<close>

subsection \<open>What an operation keeps\<close>

definition keeps :: "(series_tables \<Rightarrow> bool) \<Rightarrow> 'a series_op \<Rightarrow> bool" where
  "keeps P m \<longleftrightarrow> (\<forall>d. P (tabs d) \<longrightarrow> P (tabs (snd (m d))))"

definition step_keeps :: "(series_tables \<Rightarrow> bool) \<Rightarrow> 'a on_tables \<Rightarrow> bool" where
  "step_keeps P f \<longleftrightarrow> (\<forall>t a t'. P t \<longrightarrow> f t = Inr (a, t') \<longrightarrow> P t')"

named_theorems kept \<open>operations and statements that keep an invariant\<close>

lemma step_keepsI: "(\<And>t a t'. P t \<Longrightarrow> f t = Inr (a, t') \<Longrightarrow> P t') \<Longrightarrow> step_keeps P f"
  by (auto simp: step_keeps_def)

lemma keeps_stmt [kept]: "step_keeps P f \<Longrightarrow> keeps P (stmt f)"
  by (auto simp: keeps_def step_keeps_def stmt_def Let_def split: sum.splits)

lemma keeps_exec [kept]: "(\<And>t. P t \<Longrightarrow> P (f t)) \<Longrightarrow> keeps P (exec f)"
  unfolding exec_def by (intro keeps_stmt step_keepsI) (auto simp: plain_def)

lemma step_keeps_plain [kept]: "(\<And>t. P t \<Longrightarrow> P (f t)) \<Longrightarrow> step_keeps P (plain f)"
  by (auto simp: step_keeps_def plain_def)

lemma keeps_query [kept]: "keeps P (query q)"
  unfolding query_def by (intro keeps_stmt step_keepsI) auto

lemma keeps_give [kept]: "keeps P (give a)" and keeps_fail [kept]: "keeps P (fail e)"
  by (simp_all add: keeps_def give_def fail_def)

lemma keeps_and_next [kept]: "keeps P m \<Longrightarrow> (\<And>a. keeps P (k a)) \<Longrightarrow> keeps P (and_next m k)"
  unfolding keeps_def and_next_def by (auto split: prod.splits sum.splits)

lemma keeps_in_tx [kept]: "keeps P m \<Longrightarrow> keeps P (in_tx r m)"
proof -
  assume m: "keeps P m"
  let ?body = "and_next (exec id) (\<lambda>_. and_next m (\<lambda>a. if r a then give a else and_next (exec id) (\<lambda>_. give a)))"
  have "keeps P ?body" using m by (intro kept keeps_exec) (auto intro!: keeps_give keeps_and_next keeps_exec)
  then show ?thesis unfolding keeps_def in_tx_def by (auto split: prod.splits sum.splits)
qed

lemma keeps_run_all [kept]: "(\<And>f. f \<in> set fs \<Longrightarrow> step_keeps P f) \<Longrightarrow> keeps P (run_all fs)"
  by (induction fs) (auto intro!: kept)

lemma keeps_if [kept]: "(b \<Longrightarrow> keeps P m) \<Longrightarrow> (\<not> b \<Longrightarrow> keeps P n) \<Longrightarrow> keeps P (if b then m else n)"
  by simp

lemma keeps_option [kept]:
  "keeps P m \<Longrightarrow> (\<And>a. keeps P (k a)) \<Longrightarrow> keeps P (case x of None \<Rightarrow> m | Some a \<Rightarrow> k a)"
  by (cases x) simp_all

subsection \<open>Calls\<close>

datatype series_call =
    Create string string string
  | CreateManual string
  | CreateOrGet string string string
  | UpdateForeignId int string
  | UpdateTitle int string
  | SetMonitored int bool
  | SetGenres int string
  | ClearGenres int
  | DeleteSeries int
  | LinkIfMissing int int string bool
  | LinkPreservingPrimary int int string
  | UpdatePosition int int string
  | UpsertBookLink int int string bool
  | RemoveBook int int
  | UnlinkBook int int
  | ClearExclusions int
  | ClearExclusion int int
  | SetPrimary int int
  | UpsertLink hardcover_link
  | EnsureLink int string string
  | DeleteLink int
  | SetMonitoring int bool string int
  | StampCheck int time time string string int
  | Merge int "int list" string

text \<open>A call at a time, by its effect on the database; its answer does not matter here.\<close>

fun run_call :: "(string \<Rightarrow> string) \<Rightarrow> time \<times> series_call \<Rightarrow> series_db \<Rightarrow> series_db" where
  "run_call fk (now, Create fid title desc) d = snd (series_create fk now fid title desc d)"
| "run_call fk (now, CreateManual title) d = snd (create_manual fk now title d)"
| "run_call fk (now, CreateOrGet fid title desc) d = snd (create_or_get fk now fid title desc d)"
| "run_call fk (now, UpdateForeignId i fid) d = snd (update_foreign_id i fid d)"
| "run_call fk (now, UpdateTitle i title) d = snd (update_title fk i title d)"
| "run_call fk (now, SetMonitored i m) d = snd (set_monitored i m d)"
| "run_call fk (now, SetGenres i g) d = snd (set_genre_override i g d)"
| "run_call fk (now, ClearGenres i) d = snd (clear_genre_override i d)"
| "run_call fk (now, DeleteSeries i) d = snd (series_delete i d)"
| "run_call fk (now, LinkIfMissing i b pos prim) d = snd (link_book_if_missing i b pos prim d)"
| "run_call fk (now, LinkPreservingPrimary i b pos) d = snd (link_book_preserving_primary i b pos d)"
| "run_call fk (now, UpdatePosition i b pos) d = snd (update_book_link_position i b pos d)"
| "run_call fk (now, UpsertBookLink i b pos prim) d = snd (upsert_book_link i b pos prim d)"
| "run_call fk (now, RemoveBook i b) d = snd (remove_book_from_series i b d)"
| "run_call fk (now, UnlinkBook i b) d = snd (unlink_book i b d)"
| "run_call fk (now, ClearExclusions b) d = snd (clear_book_series_exclusions b d)"
| "run_call fk (now, ClearExclusion i b) d = snd (clear_book_series_exclusion i b d)"
| "run_call fk (now, SetPrimary i b) d = snd (set_primary_series i b d)"
| "run_call fk (now, UpsertLink link) d = snd (upsert_hardcover_link now link d)"
| "run_call fk (now, EnsureLink i fid title) d = snd (ensure_hardcover_link now i fid title d)"
| "run_call fk (now, DeleteLink i) d = snd (delete_hardcover_link i d)"
| "run_call fk (now, SetMonitoring i m mode owner) d = snd (set_monitoring i m mode owner d)"
| "run_call fk (now, StampCheck i when due status message n) d = snd (stamp_check i when due status message n d)"
| "run_call fk (now, Merge target sources title) d = snd (merge_series fk target sources title d)"

definition series_history :: "(string \<Rightarrow> string) \<Rightarrow> (time \<times> series_call) list \<Rightarrow> series_db \<Rightarrow> series_db" where
  "series_history fk = fold (run_call fk)"

lemma series_history_keeps:
  "P (tabs d) \<Longrightarrow> (\<And>c d. c \<in> set cs \<Longrightarrow> P (tabs d) \<Longrightarrow> P (tabs (run_call fk c d))) \<Longrightarrow> P (tabs (series_history fk cs d))"
  by (induction cs arbitrary: d) (auto simp: series_history_def)

subsection \<open>The tables stay sound\<close>

definition series_safe :: "series_tables \<Rightarrow> bool" where
  "series_safe t \<longleftrightarrow> series_ok t \<and> 0 \<le> st_last_id t"

lemma safe_members:
  "\<lbrakk> series_safe t; distinct (map member_key ms); \<forall>m \<in> set ms. member_refs_ok t m \<rbrakk> \<Longrightarrow> series_safe (t\<lparr>st_members := ms\<rparr>)"
  by (simp add: series_safe_def series_ok_members)

lemma safe_filter_members: "series_safe t \<Longrightarrow> series_safe (t\<lparr>st_members := filter p (st_members t)\<rparr>)"
  by (intro safe_members) (auto simp: series_safe_def series_ok_def intro: distinct_map_filter)

lemma safe_update_members [kept]:
  "series_safe t \<Longrightarrow> (\<And>m. member_key (f m) = member_key m) \<Longrightarrow> series_safe (update_members p f t)"
  unfolding series_safe_def using series_ok_update_members by (auto simp: update_members_def)

lemma safe_insert: "series_safe t \<Longrightarrow> insert_member m t = Inr (u, t') \<Longrightarrow> series_safe t'"
  unfolding series_safe_def using series_ok_insert [of t m u t'] by (auto simp: insert_member_def split: if_splits)

lemma safe_insert_or_ignore: "series_safe t \<Longrightarrow> insert_member_or_ignore m t = Inr (u, t') \<Longrightarrow> series_safe t'"
  using safe_insert [of t m] by (auto simp: insert_member_or_ignore_def insert_member_def split: if_splits)

lemma safe_other [simp]:
  "series_safe (t\<lparr>st_exclusions := c\<rparr>) = series_safe t" "series_safe (t\<lparr>st_monitoring := e\<rparr>) = series_safe t"
  "series_safe (t\<lparr>st_pins := a\<rparr>) = series_safe t" "series_safe (t\<lparr>st_recs := b\<rparr>) = series_safe t"
  by (simp_all add: series_safe_def)

lemma safe_update_series [kept]:
  "series_safe t \<Longrightarrow> (\<And>r. sr_id (f r) = sr_id r \<and> sr_foreign_id (f r) = sr_foreign_id r) \<Longrightarrow> series_safe (update_series i f t)"
  unfolding series_safe_def using series_ok_update_series by (auto simp: update_series_def)

lemma safe_delete [kept]: "series_safe t \<Longrightarrow> series_safe (delete_series i t)"
  unfolding series_safe_def using series_ok_delete by (auto simp: delete_series_def)

lemma safe_links:
  "\<lbrakk> series_safe t; distinct (map hl_series_id ls); hl_series_id ` set ls \<subseteq> set (series_ids t) \<rbrakk> \<Longrightarrow> series_safe (t\<lparr>st_links := ls\<rparr>)"
  unfolding series_safe_def by (auto intro!: series_ok_links)

text \<open>A new set of series rows over the same ids or more, none of whose provider ids is an alias.\<close>

lemma safe_series:
  assumes "series_safe t" "distinct (map sr_id rs)" "distinct (map sr_foreign_id rs)" "st_last_id t \<le> n"
    and "set (series_ids t) \<subseteq> sr_id ` set rs" "\<forall>r \<in> set rs. 0 < sr_id r \<and> sr_id r \<le> n \<and> \<not> is_alias (sr_foreign_id r) t"
  shows "series_safe (t\<lparr>st_series := rs, st_last_id := n\<rparr>)"
proof -
  let ?t = "t\<lparr>st_series := rs, st_last_id := n\<rparr>"
  have ids: "set (series_ids ?t) = sr_id ` set rs" by (simp add: series_ids_def)
  have "\<forall>(f, i) \<in> set (st_aliases t). i \<in> set (series_ids t) \<and> keep_as_alias f"
    using assms(1) by (auto simp: series_safe_def series_ok_def)
  then have "\<forall>(f, i) \<in> set (st_aliases ?t). i \<in> set (series_ids ?t) \<and> keep_as_alias f \<and> \<not> foreign_id_taken f ?t"
    using assms(5,6) unfolding ids by (fastforce simp: foreign_id_taken_def is_alias_def image_iff)
  moreover have "\<forall>m \<in> set (st_members ?t). member_refs_ok ?t m" "\<forall>l \<in> set (st_links ?t). hl_series_id l \<in> set (series_ids ?t)"
    using assms(1,5) by (auto simp: member_refs_ok_def ids series_safe_def series_ok_def)
  ultimately show ?thesis
    using assms unfolding series_safe_def series_ok_def by (simp add: series_ids_def)
qed

lemma safe_unaliased: "series_safe t \<Longrightarrow> \<forall>r \<in> set (st_series t). \<not> is_alias (sr_foreign_id r) t"
  unfolding series_safe_def series_ok_def is_alias_def foreign_id_taken_def by fastforce

lemma safe_add_series:
  assumes "series_safe t" "\<not> foreign_id_taken fid t" "\<not> is_alias fid t"
  shows "series_safe (add_series (\<lambda>i. fresh_series i fid title key desc now) t)"
  unfolding add_series_def
proof (rule safe_series [OF assms(1)])
  let ?r = "fresh_series (st_last_id t + 1) fid title key desc now"
  have ok: "distinct (series_ids t)" "distinct (map sr_foreign_id (st_series t))" "0 \<le> st_last_id t"
    "\<forall>i \<in> set (series_ids t). 0 < i \<and> i \<le> st_last_id t"
    using assms(1) by (simp_all add: series_safe_def series_ok_def)
  note free = safe_unaliased [OF assms(1)]
  have new: "sr_id ?r = st_last_id t + 1" "sr_foreign_id ?r = fid" by (simp_all add: fresh_series_def)
  show "distinct (map sr_id (st_series t @ [?r]))" using ok(1,4) new by (fastforce simp: series_ids_def)
  show "distinct (map sr_foreign_id (st_series t @ [?r]))" using ok(2) assms(2) new by (simp add: foreign_id_taken_def)
  show "set (series_ids t) \<subseteq> sr_id ` set (st_series t @ [?r])" by (auto simp: series_ids_def)
  show "\<forall>r \<in> set (st_series t @ [?r]). 0 < sr_id r \<and> sr_id r \<le> st_last_id t + 1 \<and> \<not> is_alias (sr_foreign_id r) t"
    using ok(3,4) assms(3) free new by (auto simp: series_ids_def)
qed simp

lemma safe_rename_series:
  assumes "series_safe t" "\<not> (i \<in> set (series_ids t) \<and> list_ex (\<lambda>r. sr_foreign_id r = fid \<and> sr_id r \<noteq> i) (st_series t))"
    "\<not> is_alias fid t"
  shows "series_safe (update_series i (\<lambda>r. r\<lparr>sr_foreign_id := fid\<rparr>) t)"
proof -
  let ?f = "\<lambda>r. if sr_id r = i then r\<lparr>sr_foreign_id := fid\<rparr> else r"
  let ?rs = "map ?f (st_series t)"
  have ids: "map sr_id ?rs = series_ids t" by (simp add: series_ids_def)
  have ok: "distinct (series_ids t)" "distinct (map sr_foreign_id (st_series t))"
    "\<forall>i \<in> set (series_ids t). 0 < i \<and> i \<le> st_last_id t"
    using assms(1) by (simp_all add: series_safe_def series_ok_def)
  note ok = this safe_unaliased [OF assms(1)]
  have other: "sr_foreign_id r \<noteq> fid" if "r \<in> set (st_series t)" "sr_id r \<noteq> i" "q \<in> set (st_series t)" "sr_id q = i" for r q
    using assms(2) that unfolding list_ex_iff series_ids_def set_map by blast
  have inj: "inj_on sr_id (set (st_series t))" "inj_on sr_foreign_id (set (st_series t))"
    using ok(1,2) unfolding series_ids_def distinct_map by blast+
  have "inj_on (\<lambda>r. sr_foreign_id (?f r)) (set (st_series t))"
  proof (rule inj_onI)
    fix r q assume rq: "r \<in> set (st_series t)" "q \<in> set (st_series t)" "sr_foreign_id (?f r) = sr_foreign_id (?f q)"
    show "r = q"
    proof (cases "sr_id r = sr_id q")
      case True then show ?thesis using inj_onD [OF inj(1) _ rq(1,2)] by simp
    next
      case False
      then show ?thesis
        using rq(3) other [OF rq(1) _ rq(2)] other [OF rq(2) _ rq(1)] inj_onD [OF inj(2) _ rq(1,2)]
        by (auto split: if_splits)
    qed
  qed
  moreover have "distinct (st_series t)" using ok(2) by (simp add: distinct_map)
  ultimately have "distinct (map sr_foreign_id ?rs)" by (simp add: distinct_map comp_def)
  moreover have "\<forall>r \<in> set ?rs. 0 < sr_id r \<and> sr_id r \<le> st_last_id t \<and> \<not> is_alias (sr_foreign_id r) t"
    using ok(3,4) assms(3) by (auto simp: series_ids_def)
  moreover have "sr_id ` set ?rs = set (series_ids t)" using arg_cong [OF ids, of set] by (simp only: set_map)
  moreover have "distinct (map sr_id ?rs)" unfolding ids by (rule ok(1))
  ultimately have "series_safe (t\<lparr>st_series := ?rs, st_last_id := st_last_id t\<rparr>)"
    using assms(1) by (intro safe_series) (simp_all only: order_refl subset_refl)
  then show ?thesis by (simp add: update_series_def)
qed

subsection \<open>Every operation keeps the tables sound\<close>

text \<open>The checks of \<open>Create\<close> and \<open>UpdateForeignID\<close> stand before the statement they guard.\<close>

lemma keeps_refuse_alias:
  assumes "\<And>t a t'. P t \<Longrightarrow> \<not> is_alias fid t \<Longrightarrow> f t = Inr (a, t') \<Longrightarrow> P t'"
  shows "keeps P (and_next (refuse_alias fid) (\<lambda>_. stmt f))"
  unfolding keeps_def
proof (intro allI impI)
  fix d :: series_db
  assume P: "P (tabs d)"
  obtain r d1 where r: "refuse_alias fid d = (r, d1)" by fastforce
  have d1: "tabs d1 = tabs d \<and> (r = Inr () \<longrightarrow> \<not> is_alias fid (tabs d))"
    using r by (auto simp: refuse_alias_def and_next_def query_def stmt_def Let_def fail_def give_def split: if_splits sum.splits prod.splits)
  show "P (tabs (snd (and_next (refuse_alias fid) (\<lambda>_. stmt f) d)))"
  proof (cases r)
    case (Inr u)
    then have "\<not> is_alias fid (tabs d1)" "P (tabs d1)" using d1 P by auto
    then show ?thesis
      using assms r Inr by (auto simp: and_next_def stmt_def Let_def split: sum.splits prod.splits)
  qed (use P d1 r in \<open>simp add: and_next_def\<close>)
qed

lemma series_create_safe [op_inv]: "keeps series_safe (series_create fk now fid title desc)"
  unfolding series_create_def by (rule keeps_refuse_alias) (auto simp: safe_add_series split: if_splits)

lemma create_or_get_safe [op_inv]: "keeps series_safe (create_or_get fk now fid title desc)"
proof -
  have "step_keeps series_safe (insert_unless_known fk now fid title desc hc bare)" for hc bare
    by (intro step_keepsI) (auto simp: insert_unless_known_def safe_add_series split: if_splits)
  then show ?thesis
    unfolding create_or_get_def created_or_found_def Let_def by (intro kept) (auto intro!: kept)
qed

lemma update_foreign_id_safe [op_inv]: "keeps series_safe (update_foreign_id i fid)"
  unfolding update_foreign_id_def
  by (intro keeps_if keeps_give keeps_refuse_alias) (auto simp: write_foreign_id_def safe_rename_series split: if_splits)

lemma series_columns_safe [op_inv]:
  "keeps series_safe (update_title fk i title)" "keeps series_safe (set_monitored i m)"
  "keeps series_safe (set_genre_override i g)" "keeps series_safe (clear_genre_override i)" "keeps series_safe (series_delete i)"
  unfolding update_title_def set_monitored_def set_genre_override_def clear_genre_override_def series_delete_def Let_def
  by (intro keeps_exec safe_update_series safe_delete; simp)+

lemma link_if_missing_safe [op_inv]: "keeps series_safe (link_book_if_missing i b pos prim)"
  unfolding link_book_if_missing_def
  by (intro keeps_stmt step_keepsI) (auto split: if_splits dest: safe_insert_or_ignore)

lemma link_preserving_safe [op_inv]: "keeps series_safe (link_book_preserving_primary i b pos)"
  unfolding link_book_preserving_primary_def has_primary_series_def by (intro kept op_inv)

lemma safe_demote: "series_safe t \<Longrightarrow> series_safe (demote_others i b t)"
  unfolding demote_others_def by (rule safe_update_members) (simp_all add: member_key_def)

lemma safe_drop_exclusions: "series_safe t \<Longrightarrow> series_safe (drop_exclusions i b t)"
  by (simp add: drop_exclusions_def)

lemma safe_upsert_member: "series_safe t \<Longrightarrow> upsert_member m t = Inr (u, t') \<Longrightarrow> series_safe t'"
  using safe_insert [of t m] safe_update_members [of t "\<lambda>x. x\<lparr>sb_position := sb_position m, sb_primary := sb_primary m\<rparr>"]
  by (auto simp: upsert_member_def member_key_def split: if_splits)

lemma upsert_member_safe: "step_keeps series_safe (upsert_member m)"
  by (intro step_keepsI) (rule safe_upsert_member)

lemma safe_record_exclusion: "series_safe (record_exclusion i b t) = series_safe t"
proof -
  have one: "series_safe (fold (\<lambda>r t. t\<lparr>st_exclusions := F r t\<rparr>) rs t) = series_safe t" for F rs and t :: series_tables
    by (induction rs arbitrary: t) simp_all
  have "series_safe (fold (\<lambda>m t. fold (\<lambda>r t. t\<lparr>st_exclusions := F m r t\<rparr>) (G t) t) ms t) = series_safe t"
    for F G ms and t :: series_tables
    by (induction ms arbitrary: t) (simp_all add: one)
  then show ?thesis unfolding record_exclusion_def by simp
qed

lemma remove_member_safe: "step_keeps series_safe (remove_member i b)"
  by (intro step_keepsI) (auto simp: remove_member_def safe_filter_members)

lemma memberships_safe [op_inv]:
  "keeps series_safe (update_book_link_position i b pos)" "keeps series_safe (upsert_book_link i b pos prim)"
  "keeps series_safe (remove_book_from_series i b)" "keeps series_safe (unlink_book i b)"
  "keeps series_safe (clear_book_series_exclusions b)" "keeps series_safe (clear_book_series_exclusion i b)"
  "keeps series_safe (set_primary_series i b)"
proof -
  show "keeps series_safe (update_book_link_position i b pos)"
    unfolding update_book_link_position_def by (intro keeps_exec safe_update_members) (simp_all add: member_key_def)
  show "keeps series_safe (upsert_book_link i b pos prim)"
    unfolding upsert_book_link_def
    by (intro keeps_in_tx keeps_run_all)
      (auto intro!: step_keeps_plain safe_demote safe_drop_exclusions upsert_member_safe split: if_splits)
  show "keeps series_safe (remove_book_from_series i b)"
    unfolding remove_book_from_series_def
    by (intro kept remove_member_safe) (simp add: safe_record_exclusion)
  show "keeps series_safe (unlink_book i b)" unfolding unlink_book_def by (intro kept remove_member_safe)
  show "keeps series_safe (clear_book_series_exclusions b)" "keeps series_safe (clear_book_series_exclusion i b)"
    unfolding clear_book_series_exclusions_def clear_book_series_exclusion_def
    by (intro keeps_exec; simp add: safe_drop_exclusions)+
  show "keeps series_safe (set_primary_series i b)"
    unfolding set_primary_series_def
    by (intro keeps_in_tx keeps_and_next keeps_query keeps_if keeps_fail keeps_run_all)
      (auto intro!: step_keeps_plain safe_demote safe_update_members simp: member_key_def)
qed

lemma write_link_safe: "step_keeps series_safe (write_link link)"
proof (rule step_keepsI)
  fix t a t' assume t: "series_safe t" "write_link link t = Inr (a, t')"
  have ok: "distinct (map hl_series_id (st_links t))" "hl_series_id ` set (st_links t) \<subseteq> set (series_ids t)"
    using t(1) by (auto simp: series_safe_def series_ok_def)
  let ?g = "\<lambda>l. if hl_series_id l = hl_series_id link then overwrite_link link l else l"
  have same: "hl_series_id (?g l) = hl_series_id l" for l by (simp add: overwrite_link_def)
  have "map hl_series_id (map ?g (st_links t)) = map hl_series_id (st_links t)" using same by simp
  then have "series_safe (t\<lparr>st_links := map ?g (st_links t)\<rparr>)"
    using ok by (intro safe_links [OF t(1)]) (simp_all only: set_map [symmetric])
  moreover have "series_safe (t\<lparr>st_links := st_links t @ [link]\<rparr>)"
    if "\<not> list_ex (\<lambda>l. hl_series_id l = hl_series_id link) (st_links t)" "hl_series_id link \<in> set (series_ids t)"
    using ok that by (intro safe_links [OF t(1)]) (auto simp: list_ex_iff)
  ultimately show "series_safe t'" using t by (auto simp: write_link_def Let_def split: if_splits)
qed

lemma upsert_link_safe [op_inv]: "keeps series_safe (upsert_hardcover_link now link)"
  unfolding upsert_hardcover_link_def get_hardcover_link_def Let_def
  by (intro kept write_link_safe)

lemma keeps_recovered:
  "keeps P m \<Longrightarrow> keeps P (\<lambda>d. case m d of (Inl (HardcoverConflict _), d') \<Rightarrow> (Inr False, d') | (Inl e, d') \<Rightarrow> (Inl e, d')
     | (Inr _, d') \<Rightarrow> (Inr True, d'))"
  unfolding keeps_def by (auto split: prod.splits sum.splits series_error.splits)

lemma link_ops_safe [op_inv]:
  "keeps series_safe (ensure_hardcover_link now i fid title)" "keeps series_safe (delete_hardcover_link i)"
proof -
  show "keeps series_safe (ensure_hardcover_link now i fid title)"
    unfolding ensure_hardcover_link_def get_hardcover_link_def by (intro kept keeps_recovered op_inv)
  show "keeps series_safe (delete_hardcover_link i)"
    unfolding delete_hardcover_link_def
  proof (rule keeps_exec)
    fix t assume "series_safe t"
    then show "series_safe (t\<lparr>st_links := filter (\<lambda>l. hl_series_id l \<noteq> i) (st_links t)\<rparr>)"
      by (intro safe_links) (auto simp: series_safe_def series_ok_def intro: distinct_map_filter)
  qed
qed

lemma upsert_monitoring_safe: "step_keeps series_safe (upsert_monitoring row f)"
  by (intro step_keepsI) (auto simp: upsert_monitoring_def Let_def split: if_splits)

lemma monitoring_safe [op_inv]:
  "keeps series_safe (set_monitoring i m mode owner)" "keeps series_safe (stamp_check i when due status message n)"
proof -
  show "keeps series_safe (set_monitoring i m mode owner)"
    unfolding set_monitoring_def Let_def
    by (intro keeps_in_tx keeps_and_next keeps_query keeps_option keeps_fail keeps_run_all)
      (auto simp: restart_monitoring_def set_mode_def intro!: step_keeps_plain safe_update_series upsert_monitoring_safe split: if_splits)
  show "keeps series_safe (stamp_check i when due status message n)"
    unfolding stamp_check_def Let_def by (intro keeps_stmt upsert_monitoring_safe)
qed

subsection \<open>Merges\<close>

text \<open>What every statement of a merge keeps, the merge keeps.\<close>

lemma plan_merge_keeps: "keeps P (plan_merge target sources title)"
proof -
  have "keeps P (absorb_sources is g)" for "is" g by (induction "is" arbitrary: g) (auto intro!: kept)
  then show ?thesis unfolding plan_merge_def by (auto intro!: kept split: option.split)
qed

lemma merge_keeps:
  assumes "\<And>plan src f. f \<in> set (source_steps plan src) \<Longrightarrow> step_keeps P f" "\<And>i. step_keeps P (drop_stale_exclusions i)"
    "\<And>plan. step_keeps P (rename_target fk plan)"
  shows "keeps P (merge_series fk target sources title)"
  unfolding merge_series_def apply_merge_def
  by (intro keeps_in_tx keeps_and_next plan_merge_keeps keeps_give keeps_run_all) (use assms in auto)

lemmas merge_statements = source_steps_def move_book_def keep_book_def move_link_def copy_genres_def move_pins_def
  repoint_recommendations_def repoint_aliases_def alias_source_def forget_exclusions_def drop_stale_exclusions_def
  rename_target_def

lemma merge_last_id: "keeps (\<lambda>t. st_last_id t = n) (merge_series fk target sources title)"
  by (rule merge_keeps)
    (auto simp: merge_statements Let_def insert_member_def plain_def delete_series_def update_members_def update_series_def
      intro!: step_keepsI split: if_splits)

lemma merge_safe [op_inv]: "keeps series_safe (merge_series fk target sources title)"
  unfolding keeps_def
proof (intro allI impI)
  fix d :: series_db
  assume d: "series_safe (tabs d)"
  obtain r d' where m: "merge_series fk target sources title d = (r, d')" by fastforce
  have "series_ok (tabs d')"
  proof (cases r)
    case (Inl e)
    then have "tabs d' = tabs d" using m unfolding merge_series_def by (auto dest: in_tx_Inl)
    then show ?thesis using d by (simp add: series_safe_def)
  next
    case (Inr plan)
    then show ?thesis using merge_folds [of d fk target sources title plan d'] m d by (simp add: series_safe_def)
  qed
  moreover have "st_last_id (tabs d') = st_last_id (tabs d)"
    using merge_last_id [of "st_last_id (tabs d)" fk target sources title] m by (auto simp: keeps_def)
  ultimately show "series_safe (tabs (snd (merge_series fk target sources title d)))"
    using d m by (simp add: series_safe_def)
qed

lemma run_call_safe: "series_safe (tabs d) \<Longrightarrow> series_safe (tabs (run_call fk (now, c) d))"
proof -
  have safe: "keeps series_safe m \<Longrightarrow> series_safe (tabs d) \<Longrightarrow> series_safe (tabs (snd (m d)))" for m :: "'x series_op"
    by (simp add: keeps_def)
  assume "series_safe (tabs d)"
  then show ?thesis
    by (cases c) (simp_all add: safe op_inv create_manual_def)
qed

end
