(* ===== verification/Series_Exclusions.thy ===== *)
theory Series_Exclusions
  imports Series_History
begin

text \<open>
  The exclusions of \<open>internal/db/series.go\<close>: a book the user took out of a series stays out of it, through
  refreshes, merges and the deletion of the series, and where the code loses that promise.
\<close>

subsection \<open>Books kept out of a series\<close>

text \<open>No book is a member of a series that an exclusion, followed through the aliases, keeps it out of.\<close>

definition exclusions_respected :: "series_tables \<Rightarrow> bool" where
  "exclusions_respected t \<longleftrightarrow> list_all (\<lambda>m. \<not> book_excluded (sb_series_id m) (sb_book_id m) t) (st_members t)"

definition excluded_pairs :: "series_tables \<Rightarrow> (int \<times> string) set" where
  "excluded_pairs t = (\<lambda>e. (ex_book_id e, ex_foreign_id e)) ` set (st_exclusions t)"

definition member_pairs :: "series_tables \<Rightarrow> (int \<times> int) set" where
  "member_pairs t = member_key ` set (st_members t)"

lemma ids_of_series_iff: "f \<in> set (ids_of_series i t) \<longleftrightarrow> (f, i) \<in> set (names t)"
  by (auto simp: ids_of_series_def names_def image_iff)

lemma book_excluded_iff:
  "series_safe t \<Longrightarrow> book_excluded i b t \<longleftrightarrow> (\<exists>f. (b, f) \<in> excluded_pairs t \<and> series_by_foreign_id f t = Some i)"
proof -
  assume t: "series_safe t"
  have "(f, i) \<in> set (names t) \<Longrightarrow> i \<in> set (series_ids t)" for f
    using t by (auto simp: names_def series_ids_def series_safe_def series_ok_def)
  then show ?thesis
    using resolve_iff [of t _ i] t
    by (fastforce simp: book_excluded_def list_ex_iff excluded_pairs_def ids_of_series_iff series_safe_def image_iff)
qed

text \<open>The same of some exclusions only.\<close>

definition respected_for :: "(int \<times> string) set \<Rightarrow> series_tables \<Rightarrow> bool" where
  "respected_for X t \<longleftrightarrow>
    (\<forall>i b f. (i, b) \<in> member_pairs t \<longrightarrow> (b, f) \<in> excluded_pairs t \<inter> X \<longrightarrow> series_by_foreign_id f t \<noteq> Some i)"

lemma respected_iff: "series_safe t \<Longrightarrow> exclusions_respected t \<longleftrightarrow> respected_for UNIV t"
  unfolding respected_for_def
  by (fastforce simp: exclusions_respected_def list_all_iff book_excluded_iff member_pairs_def member_key_def)

text \<open>Fewer members, fewer exclusions or fewer names cannot break it.\<close>

lemma respected_mono:
  assumes "respected_for X t" "excluded_pairs t' \<subseteq> excluded_pairs t"
    and "\<And>i b f. (i, b) \<in> member_pairs t' \<Longrightarrow> series_by_foreign_id f t' = Some i \<Longrightarrow>
      (i, b) \<in> member_pairs t \<and> series_by_foreign_id f t = Some i"
  shows "respected_for X t'"
  using assms unfolding respected_for_def by blast

definition kept_apart :: "(int \<times> string) set \<Rightarrow> series_tables \<Rightarrow> bool" where
  "kept_apart X t \<longleftrightarrow> series_safe t \<and> respected_for X t"

lemma resolve_cong: "map (\<lambda>r. (sr_foreign_id r, sr_id r)) (st_series t') = map (\<lambda>r. (sr_foreign_id r, sr_id r)) (st_series t)
    \<Longrightarrow> st_aliases t' = st_aliases t \<Longrightarrow> series_by_foreign_id f t' = series_by_foreign_id f t"
  by (simp only: resolve_names names_def)

text \<open>A statement that touches neither names, nor members, nor exclusions.\<close>

lemma apart_same:
  assumes "kept_apart X t" "series_safe t'" "excluded_pairs t' \<subseteq> excluded_pairs t" "member_pairs t' \<subseteq> member_pairs t"
    "\<And>f. series_by_foreign_id f t' = series_by_foreign_id f t"
  shows "kept_apart X t'"
  using assms respected_mono [of X t t'] unfolding kept_apart_def by (metis subsetD)

lemma apart_fields:
  assumes "kept_apart X t" "series_safe t'" "st_exclusions t' = st_exclusions t" "map member_key (st_members t') = map member_key (st_members t)"
    "map (\<lambda>r. (sr_foreign_id r, sr_id r)) (st_series t') = map (\<lambda>r. (sr_foreign_id r, sr_id r)) (st_series t)"
    "st_aliases t' = st_aliases t"
  shows "kept_apart X t'"
  using assms(1,2)
proof (rule apart_same)
  show "member_pairs t' \<subseteq> member_pairs t"
    unfolding member_pairs_def set_map [symmetric] assms(4) by simp
qed (simp_all add: excluded_pairs_def assms(3) resolve_cong [OF assms(5,6)])

lemma apart_update_series [kept]:
  assumes "kept_apart X t" "\<And>r. sr_id (f r) = sr_id r \<and> sr_foreign_id (f r) = sr_foreign_id r"
  shows "kept_apart X (update_series i f t)"
proof (rule apart_fields [OF assms(1)])
  show "series_safe (update_series i f t)"
    using assms by (intro safe_update_series) (simp_all add: kept_apart_def)
qed (use assms(2) in \<open>auto simp: update_series_def\<close>)

lemma apart_update_members [kept]:
  assumes "kept_apart X t" "\<And>m. member_key (f m) = member_key m"
  shows "kept_apart X (update_members p f t)"
proof (rule apart_fields [OF assms(1)])
  show "series_safe (update_members p f t)"
    using assms by (intro safe_update_members) (simp_all add: kept_apart_def)
qed (use assms(2) in \<open>auto simp: update_members_def\<close>)

lemma apart_fewer_members: "kept_apart X t \<Longrightarrow> kept_apart X (t\<lparr>st_members := filter p (st_members t)\<rparr>)"
  by (rule apart_same [of X t])
    (auto simp: kept_apart_def safe_filter_members member_pairs_def excluded_pairs_def intro!: resolve_cong)

lemma apart_fewer_exclusions: "kept_apart X t \<Longrightarrow> kept_apart X (t\<lparr>st_exclusions := filter p (st_exclusions t)\<rparr>)"
  by (rule apart_same [of X t]) (auto simp: kept_apart_def member_pairs_def excluded_pairs_def intro!: resolve_cong)

lemma apart_other [simp]:
  "kept_apart X (t\<lparr>st_monitoring := e\<rparr>) = kept_apart X t" "kept_apart X (t\<lparr>st_pins := a\<rparr>) = kept_apart X t"
  "kept_apart X (t\<lparr>st_recs := b\<rparr>) = kept_apart X t"
  by (simp_all add: kept_apart_def respected_for_def member_pairs_def excluded_pairs_def series_by_foreign_id_def)

lemma apart_links: "kept_apart X t \<Longrightarrow> series_safe (t\<lparr>st_links := ls\<rparr>) \<Longrightarrow> kept_apart X (t\<lparr>st_links := ls\<rparr>)"
  by (rule apart_fields [of X t]) simp_all

lemma keeps_tx:
  "(\<And>d a d'. P (tabs d) \<Longrightarrow> m d = (Inr a, d') \<Longrightarrow> P (tabs d')) \<Longrightarrow> keeps P (in_tx r m)"
  unfolding keeps_def in_tx_def
  by (auto simp: and_next_def give_def split: prod.splits sum.splits if_splits dest!: exec_id_Inr) metis+

lemma resolve_add:
  assumes "series_safe t" "\<not> foreign_id_taken fid t" "\<not> is_alias fid t"
    and "series_by_foreign_id f (add_series (\<lambda>i. fresh_series i fid title key desc now) t) = Some i"
  shows "i = st_last_id t + 1 \<or> series_by_foreign_id f t = Some i"
proof -
  let ?t = "add_series (\<lambda>i. fresh_series i fid title key desc now) t"
  have ok: "series_ok t" "series_ok ?t" using assms(1) safe_add_series [OF assms(1-3)] by (simp_all add: series_safe_def)
  have "(f, i) \<in> set (names ?t)" using assms(4) unfolding resolve_iff [OF ok(2)] .
  then have "i = st_last_id t + 1 \<or> (f, i) \<in> set (names t)" by (auto simp: names_def add_series_def fresh_series_def)
  then show ?thesis unfolding resolve_iff [OF ok(1)] .
qed

lemma apart_add_series:
  assumes "kept_apart X t" "\<not> foreign_id_taken fid t" "\<not> is_alias fid t"
  shows "kept_apart X (add_series (\<lambda>i. fresh_series i fid title key desc now) t)"
proof -
  let ?t = "add_series (\<lambda>i. fresh_series i fid title key desc now) t"
  have safe: "series_safe t" "series_safe ?t" using assms by (simp_all add: kept_apart_def safe_add_series)
  have old: "i \<le> st_last_id t" if "(i, b) \<in> member_pairs t" for i b
    using that safe(1) by (auto simp: member_pairs_def member_key_def series_safe_def series_ok_def member_refs_ok_def)
  have same: "member_pairs ?t = member_pairs t" "excluded_pairs ?t = excluded_pairs t"
    by (simp_all add: member_pairs_def excluded_pairs_def add_series_def)
  have "respected_for X ?t"
  proof (rule respected_mono)
    fix i b f assume new: "(i, b) \<in> member_pairs ?t" "series_by_foreign_id f ?t = Some i"
    then show "(i, b) \<in> member_pairs t \<and> series_by_foreign_id f t = Some i"
      using resolve_add [OF safe(1) assms(2,3) new(2)] old [of i b] unfolding same by auto
  qed (use assms(1) same in \<open>simp_all add: kept_apart_def\<close>)
  then show ?thesis using safe by (simp add: kept_apart_def)
qed

lemma create_apart: "keeps (kept_apart X) (series_create fk now fid title desc)"
  unfolding series_create_def by (rule keeps_refuse_alias) (auto simp: apart_add_series split: if_splits)

lemma create_or_get_apart: "keeps (kept_apart X) (create_or_get fk now fid title desc)"
proof -
  have "step_keeps (kept_apart X) (insert_unless_known fk now fid title desc hc bare)" for hc bare
    by (intro step_keepsI) (auto simp: insert_unless_known_def apart_add_series split: if_splits)
  then show ?thesis
    unfolding create_or_get_def created_or_found_def Let_def by (intro kept) (auto intro!: kept)
qed

lemma apart_delete:
  assumes "kept_apart X t"
  shows "kept_apart X (delete_series i t)"
proof -
  have safe: "series_safe t" "series_safe (delete_series i t)" using assms by (simp_all add: kept_apart_def safe_delete)
  then have ok: "series_ok t" "series_ok (delete_series i t)" by (simp_all add: series_safe_def)
  have "series_by_foreign_id f t = Some j" if "series_by_foreign_id f (delete_series i t) = Some j" for f j
    using that names_delete [of i t] unfolding resolve_iff [OF ok(1)] resolve_iff [OF ok(2)] by auto
  moreover have "member_pairs (delete_series i t) \<subseteq> member_pairs t" "excluded_pairs (delete_series i t) = excluded_pairs t"
    by (auto simp: member_pairs_def excluded_pairs_def delete_series_def)
  ultimately have "respected_for X (delete_series i t)"
    using assms unfolding kept_apart_def respected_for_def by blast
  then show ?thesis using safe by (simp add: kept_apart_def)
qed

lemma series_columns_apart:
  "keeps (kept_apart X) (update_title fk i title)" "keeps (kept_apart X) (set_monitored i m)"
  "keeps (kept_apart X) (set_genre_override i g)" "keeps (kept_apart X) (clear_genre_override i)" "keeps (kept_apart X) (series_delete i)"
  unfolding update_title_def set_monitored_def set_genre_override_def clear_genre_override_def series_delete_def Let_def
  by (intro keeps_exec apart_update_series apart_delete; simp)+

text \<open>A new member is checked first, or the exclusions against it go first.\<close>

lemma apart_new_member:
  assumes "kept_apart X t" "\<not> book_excluded (sb_series_id m) (sb_book_id m) t" "insert_member m t = Inr (u, t')"
  shows "kept_apart X t'"
proof -
  have safe: "series_safe t" "series_safe t'" using assms safe_insert [of t m u t'] by (auto simp: kept_apart_def)
  have t': "t' = t\<lparr>st_members := st_members t @ [m]\<rparr>" using assms(3) by (auto simp: insert_member_def split: if_splits)
  have names: "series_by_foreign_id f t' = series_by_foreign_id f t" for f unfolding t' by (rule resolve_cong) simp_all
  have pairs: "member_pairs t' = insert (sb_series_id m, sb_book_id m) (member_pairs t)" "excluded_pairs t' = excluded_pairs t"
    by (auto simp: t' member_pairs_def excluded_pairs_def member_key_def)
  have "respected_for X t'"
    unfolding respected_for_def names pairs
    using assms(1,2) respected_for_def book_excluded_iff [OF safe(1)] by (auto simp: kept_apart_def)
  then show ?thesis using safe by (simp add: kept_apart_def)
qed

lemma link_if_missing_apart: "keeps (kept_apart X) (link_book_if_missing i b pos prim)"
  unfolding link_book_if_missing_def
proof (intro keeps_stmt step_keepsI)
  fix t a t' assume t: "kept_apart X t" "(if book_excluded i b t then Inr (False, t) else insert_member_or_ignore
    \<lparr>sb_series_id = i, sb_book_id = b, sb_position = pos, sb_primary = prim\<rparr> t) = Inr (a, t')"
  show "kept_apart X t'"
  proof (cases "t' = t")
    case False
    then have "\<not> book_excluded i b t" "insert_member \<lparr>sb_series_id = i, sb_book_id = b, sb_position = pos, sb_primary = prim\<rparr> t = Inr ((), t')"
      using t(2) by (auto simp: insert_member_or_ignore_def insert_member_def split: if_splits)
    then show ?thesis by (intro apart_new_member [OF t(1)]) simp_all
  qed (use t in simp)
qed

lemma link_preserving_apart: "keeps (kept_apart X) (link_book_preserving_primary i b pos)"
  unfolding link_book_preserving_primary_def has_primary_series_def by (intro kept link_if_missing_apart)

lemma apart_drop_exclusions: "kept_apart X t \<Longrightarrow> kept_apart X (drop_exclusions i b t) \<and> \<not> book_excluded i b (drop_exclusions i b t)"
  unfolding drop_exclusions_def
  by (auto simp: apart_fewer_exclusions book_excluded_def list_ex_iff ids_of_series_def series_ids_def)

lemma apart_demote: "kept_apart X t \<Longrightarrow> kept_apart X (demote_others i b t)"
  unfolding demote_others_def by (rule apart_update_members) (simp_all add: member_key_def)

lemma apart_upsert_member:
  "kept_apart X t \<Longrightarrow> \<not> book_excluded (sb_series_id m) (sb_book_id m) t \<Longrightarrow> upsert_member m t = Inr (u, t') \<Longrightarrow> kept_apart X t'"
  using apart_new_member [of X t m u t'] apart_update_members [of X t "\<lambda>x. x\<lparr>sb_position := sb_position m, sb_primary := sb_primary m\<rparr>"]
  by (auto simp: upsert_member_def member_key_def split: if_splits)

lemma upsert_book_link_apart: "keeps (kept_apart X) (upsert_book_link i b pos prim)"
  unfolding upsert_book_link_def
proof (rule keeps_tx)
  fix d d' :: series_db and u
  assume P: "kept_apart X (tabs d)" and run: "run_all ([plain (drop_exclusions i b),
      upsert_member \<lparr>sb_series_id = i, sb_book_id = b, sb_position = trim_space pos, sb_primary = prim\<rparr>]
      @ (if prim then [plain (demote_others i b)] else [])) d = (Inr u, d')"
  let ?m = "\<lparr>sb_series_id = i, sb_book_id = b, sb_position = trim_space pos, sb_primary = prim\<rparr>"
  obtain u1 t1 where t1: "upsert_member ?m (drop_exclusions i b (tabs d)) = Inr (u1, t1)"
    "run_steps (if prim then [plain (demote_others i b)] else []) t1 = Some (tabs d')"
    using run_all_steps [OF run] by (auto simp: plain_def split: sum.splits)
  have "kept_apart X t1" by (rule apart_upsert_member [OF _ _ t1(1)]) (use apart_drop_exclusions [OF P] in auto)
  then show "kept_apart X (tabs d')" using t1(2) apart_demote [of X t1 i b] by (auto simp: plain_def split: if_splits)
qed

text \<open>What a removal records: the own provider id of the series, when the book was in it.\<close>

lemma record_exclusion_fields:
  "st_series (record_exclusion i b t) = st_series t \<and> st_members (record_exclusion i b t) = st_members t \<and>
   st_aliases (record_exclusion i b t) = st_aliases t \<and>
   excluded_pairs (record_exclusion i b t) = excluded_pairs t \<union>
     {(b, sr_foreign_id r) | r. r \<in> set (st_series t) \<and> sr_id r = i \<and> sr_foreign_id r \<noteq> [] \<and> (i, b) \<in> member_pairs t}"
proof -
  define one where "one = (\<lambda>(m :: series_book) (r :: series_row) (t :: series_tables). t\<lparr>st_exclusions :=
      filter (\<lambda>e. \<not> (ex_book_id e = b \<and> ex_foreign_id e = sr_foreign_id r)) (st_exclusions t)
      @ [\<lparr> ex_book_id = b, ex_foreign_id = sr_foreign_id r, ex_position = sb_position m \<rparr>]\<rparr>)"
  define same where "same = (\<lambda>X (t :: series_tables) t'. st_series t' = st_series t \<and> st_members t' = st_members t \<and>
    st_aliases t' = st_aliases t \<and> excluded_pairs t' = excluded_pairs t \<union> X)"
  have "same {(b, sr_foreign_id r)} t (one m r t)" for m r t
    by (auto simp: same_def one_def excluded_pairs_def)
  then have rows: "same ((\<lambda>r. (b, sr_foreign_id r)) ` set rs) t (fold (one m) rs t)" for m rs t
    by (induction rs arbitrary: t) (auto simp: same_def)
  have "same {(b, sr_foreign_id r) | r. r \<in> set (st_series t) \<and> P r \<and> ms \<noteq> []} t
      (fold (\<lambda>m t. fold (one m) (filter P (st_series t)) t) ms t)" for P ms t
  proof (induction ms arbitrary: t)
    case (Cons m ms)
    then show ?case using rows [of "filter P (st_series t)" t m] unfolding same_def by (auto simp: image_iff)
  qed (simp add: same_def)
  note this [where P = "\<lambda>r. sr_id r = i \<and> sr_foreign_id r \<noteq> []" and ms = "filter (\<lambda>m. sb_series_id m = i \<and> sb_book_id m = b) (st_members t)" and t = t]
  moreover have "record_exclusion i b t = fold (\<lambda>m t. fold (one m) (filter (\<lambda>r. sr_id r = i \<and> sr_foreign_id r \<noteq> []) (st_series t)) t)
      (filter (\<lambda>m. sb_series_id m = i \<and> sb_book_id m = b) (st_members t)) t"
    by (simp add: record_exclusion_def one_def)
  moreover have "filter (\<lambda>m. sb_series_id m = i \<and> sb_book_id m = b) (st_members t) \<noteq> [] \<longleftrightarrow> (i, b) \<in> member_pairs t"
    by (auto simp: filter_empty_conv member_pairs_def member_key_def image_iff)
  ultimately show ?thesis by (simp add: same_def conj_assoc)
qed

lemma remove_book_apart: "keeps (kept_apart X) (remove_book_from_series i b)"
  unfolding remove_book_from_series_def
proof (rule keeps_tx)
  fix d d' :: series_db and u
  assume P: "kept_apart X (tabs d)" and run: "and_next (exec (record_exclusion i b)) (\<lambda>_.
       and_next (stmt (remove_member i b)) (\<lambda>n. give (n \<noteq> 0))) d = (Inr u, d')"
  let ?r = "record_exclusion i b (tabs d)"
  note fields = record_exclusion_fields [of i b "tabs d"]
  have t': "tabs d' = ?r\<lparr>st_members := filter (\<lambda>m. \<not> (sb_series_id m = i \<and> sb_book_id m = b)) (st_members ?r)\<rparr>"
    using run by (auto simp: and_next_Inr give_def exec_def plain_def remove_member_def dest!: stmt_Inr)
  have safe: "series_safe (tabs d)" "series_safe (tabs d')"
    unfolding t' using P by (auto simp: kept_apart_def safe_record_exclusion intro!: safe_filter_members)
  have names: "series_by_foreign_id f (tabs d') = series_by_foreign_id f (tabs d)" for f
    unfolding t' by (rule resolve_cong) (simp_all add: fields)
  have pairs: "member_pairs (tabs d') = member_pairs (tabs d) - {(i, b)}"
    "excluded_pairs (tabs d') = excluded_pairs ?r"
    unfolding t' by (auto simp: member_pairs_def excluded_pairs_def member_key_def fields image_iff)
  have "series_by_foreign_id (sr_foreign_id r) (tabs d) = Some i" if "r \<in> set (st_series (tabs d))" "sr_id r = i" for r
    using that safe(1) resolve_iff [of "tabs d" "sr_foreign_id r" i] by (auto simp: series_safe_def names_def)
  then have "respected_for X (tabs d')"
    unfolding respected_for_def names pairs using P fields unfolding kept_apart_def
    by (auto simp: respected_for_def)
  then show "kept_apart X (tabs d')" using safe by (simp add: kept_apart_def)
qed

lemma memberships_apart:
  "keeps (kept_apart X) (update_book_link_position i b pos)" "keeps (kept_apart X) (unlink_book i b)"
  "keeps (kept_apart X) (clear_book_series_exclusions b)" "keeps (kept_apart X) (clear_book_series_exclusion i b)"
  "keeps (kept_apart X) (set_primary_series i b)"
proof -
  show "keeps (kept_apart X) (update_book_link_position i b pos)"
    unfolding update_book_link_position_def by (intro keeps_exec apart_update_members) (simp_all add: member_key_def)
  show "keeps (kept_apart X) (unlink_book i b)"
    unfolding unlink_book_def by (intro kept step_keepsI) (auto simp: remove_member_def apart_fewer_members)
  show "keeps (kept_apart X) (clear_book_series_exclusions b)" "keeps (kept_apart X) (clear_book_series_exclusion i b)"
    unfolding clear_book_series_exclusions_def clear_book_series_exclusion_def drop_exclusions_def
    by (intro keeps_exec apart_fewer_exclusions; assumption)+
  show "keeps (kept_apart X) (set_primary_series i b)"
    unfolding set_primary_series_def
    by (intro keeps_in_tx keeps_and_next keeps_query keeps_if keeps_fail keeps_run_all)
      (auto intro!: step_keeps_plain apart_demote apart_update_members simp: member_key_def)
qed

lemma write_link_apart: "step_keeps (kept_apart X) (write_link link)"
proof (rule step_keepsI)
  fix t a t' assume t: "kept_apart X t" "write_link link t = Inr (a, t')"
  have "series_safe t'" using write_link_safe [of link] t by (auto simp: step_keeps_def kept_apart_def)
  moreover have "t' = t \<or> (\<exists>ls. t' = t\<lparr>st_links := ls\<rparr>)" using t(2) by (auto simp: write_link_def Let_def split: if_splits)
  ultimately show "kept_apart X t'" using t(1) apart_links by auto
qed

lemma links_apart:
  "keeps (kept_apart X) (upsert_hardcover_link now link)" "keeps (kept_apart X) (ensure_hardcover_link now i fid title)"
  "keeps (kept_apart X) (delete_hardcover_link i)"
proof -
  show up: "keeps (kept_apart X) (upsert_hardcover_link now link)" for link
    unfolding upsert_hardcover_link_def get_hardcover_link_def Let_def by (intro kept write_link_apart)
  show "keeps (kept_apart X) (ensure_hardcover_link now i fid title)"
    unfolding ensure_hardcover_link_def get_hardcover_link_def by (intro kept keeps_recovered up)
  show "keeps (kept_apart X) (delete_hardcover_link i)"
    unfolding delete_hardcover_link_def
  proof (rule keeps_exec)
    fix t assume t: "kept_apart X t"
    then show "kept_apart X (t\<lparr>st_links := filter (\<lambda>l. hl_series_id l \<noteq> i) (st_links t)\<rparr>)"
      by (intro apart_links safe_links) (auto simp: kept_apart_def series_safe_def series_ok_def intro: distinct_map_filter)
  qed
qed

lemma monitoring_apart:
  "keeps (kept_apart X) (set_monitoring i m mode owner)" "keeps (kept_apart X) (stamp_check i when due status message n)"
proof -
  have up: "step_keeps (kept_apart X) (upsert_monitoring row f)" for row f
    by (intro step_keepsI) (auto simp: upsert_monitoring_def Let_def split: if_splits)
  show "keeps (kept_apart X) (set_monitoring i m mode owner)"
    unfolding set_monitoring_def Let_def
    by (intro keeps_in_tx keeps_and_next keeps_query keeps_option keeps_fail keeps_run_all)
      (auto simp: restart_monitoring_def set_mode_def intro!: step_keeps_plain apart_update_series up split: if_splits)
  show "keeps (kept_apart X) (stamp_check i when due status message n)"
    unfolding stamp_check_def Let_def by (intro keeps_stmt up)
qed

text \<open>A merge forgets the exclusions of its target that it made stale.\<close>

lemma merge_fewer_exclusions:
  "keeps (\<lambda>t. excluded_pairs t \<subseteq> E) (merge_series fk target sources title)"
  by (rule merge_keeps)
    (auto simp: merge_statements Let_def insert_member_def plain_def delete_series_def update_members_def update_series_def
      excluded_pairs_def image_subset_iff intro!: step_keepsI split: if_splits)

lemma merge_target_apart:
  assumes "merge_series fk target sources title d = (Inr plan, d')"
  shows "(target, b) \<notin> member_pairs (tabs d') \<or> (b, f) \<notin> excluded_pairs (tabs d') \<or> f \<notin> set (ids_of_series target (tabs d'))"
proof -
  obtain d1 d2 d3 where p: "plan_merge target sources title d1 = (Inr plan, d3)" "apply_merge fk plan d3 = (Inr (), d2)"
    and d': "tabs d' = tabs d2"
    by (rule merge_runs [OF assms])
  have tgt: "mp_target_id plan = target"
  proof (rule plan_merge_Inr [OF p(1)], goal_cases)
    case (1 tr g)
    then show ?case using plan_sources_final [of "sort sources" "tabs d1"] by (simp add: start_state_def)
  qed
  obtain t1 where "update_series target
      (\<lambda>r. r\<lparr>sr_title := mp_title plan, sr_search_key := fk (mp_title plan), sr_monitored := mp_monitored plan\<rparr>)
      (t1\<lparr>st_exclusions := filter (\<lambda>e. \<not> (list_ex (\<lambda>m. sb_series_id m = target \<and> sb_book_id m = ex_book_id e) (st_members t1)
                   \<and> ex_foreign_id e \<in> set (ids_of_series target t1))) (st_exclusions t1)\<rparr>) = tabs d'"
    using run_all_steps [OF p(2) [unfolded apply_merge_def]] d'
    by (auto simp: run_steps_append drop_stale_exclusions_def rename_target_def plain_def tgt bind_eq_Some_conv)
  from this [symmetric] show ?thesis
    by (auto simp: update_series_def member_pairs_def excluded_pairs_def member_key_def ids_of_series_def list_ex_iff image_iff
        split: if_splits)
qed

lemma merge_apart: "keeps (kept_apart X) (merge_series fk target sources title)"
  unfolding keeps_def
proof (intro allI impI)
  fix d :: series_db
  assume d: "kept_apart X (tabs d)"
  obtain r d' where m: "merge_series fk target sources title d = (r, d')" by fastforce
  have safe: "series_safe (tabs d)" "series_safe (tabs d')"
    using d m merge_safe [of fk target sources title] by (auto simp: kept_apart_def keeps_def)
  have "kept_apart X (tabs d')"
  proof (cases r)
    case (Inl e)
    then have "tabs d' = tabs d" using m unfolding merge_series_def by (auto dest: in_tx_Inl)
    then show ?thesis using d by simp
  next
    case (Inr plan)
    note folds = merge_folds [of d fk target sources title plan d', OF _ m [unfolded Inr]]
    have fewer: "excluded_pairs (tabs d') \<subseteq> excluded_pairs (tabs d)"
      using merge_fewer_exclusions [of "excluded_pairs (tabs d)" fk target sources title, unfolded keeps_def, rule_format, of d] m by simp
    have ok: "series_ok (tabs d)" "series_ok (tabs d')" using safe by (simp_all add: series_safe_def)
    have "respected_for X (tabs d')"
      unfolding respected_for_def
    proof (intro allI impI notI)
      fix i b f
      assume ibf: "(i, b) \<in> member_pairs (tabs d')" "(b, f) \<in> excluded_pairs (tabs d') \<inter> X" "series_by_foreign_id f (tabs d') = Some i"
      show False
      proof (cases "i = target")
        case True
        then show False
          using merge_target_apart [OF m [unfolded Inr], of b f] ibf resolve_iff [OF ok(2)] by (auto simp: ids_of_series_iff)
      next
        case False
        have "memberships (tabs d') (i, b) \<noteq> None" using ibf(1) by (simp add: memberships_None member_pairs_def)
        then have "memberships (tabs d) (i, b) \<noteq> None"
          using folds [OF ok(1)] fold_absorb_other [OF False, of "sort sources" "memberships (tabs d)" b] by (metis set_sort)
        then have "(i, b) \<in> member_pairs (tabs d)" by (simp only: member_pairs_def memberships_None not_not)
        moreover have "series_by_foreign_id f (tabs d) = Some i"
          using folds [OF ok(1)] ibf(3) False by (auto split: option.splits if_splits)
        ultimately show False
          using d fewer ibf(2) unfolding kept_apart_def respected_for_def by blast
      qed
    qed
    then show ?thesis using safe by (simp add: kept_apart_def)
  qed
  then show "kept_apart X (tabs (snd (merge_series fk target sources title d)))" using m by simp
qed

lemmas calls_apart = create_apart create_or_get_apart series_columns_apart link_if_missing_apart link_preserving_apart
  upsert_book_link_apart remove_book_apart memberships_apart links_apart monitoring_apart merge_apart

text \<open>A series that is given another provider id, with one exclusion in view: its book stays out unless the series already
  holds it and takes over the very id.\<close>

lemma rename_apart:
  assumes "kept_apart {(b, f)} (tabs d)" "\<not> (fid = f \<and> (i, b) \<in> member_pairs (tabs d))"
  shows "kept_apart {(b, f)} (tabs (snd (update_foreign_id i fid d)))"
proof -
  let ?d = "snd (update_foreign_id i fid d)"
  have safe: "series_safe (tabs d)" "series_safe (tabs ?d)"
    using assms(1) update_foreign_id_safe [of i fid] by (auto simp: kept_apart_def keeps_def)
  have "tabs ?d = tabs d \<or> tabs ?d = update_series i (\<lambda>r. r\<lparr>sr_foreign_id := fid\<rparr>) (tabs d)"
    by (auto simp: update_foreign_id_def refuse_alias_def and_next_def query_def stmt_def give_def fail_def write_foreign_id_def
        Let_def split: sum.splits prod.splits if_splits)
  then show ?thesis
  proof
    assume t: "tabs ?d = update_series i (\<lambda>r. r\<lparr>sr_foreign_id := fid\<rparr>) (tabs d)"
    have ok: "series_ok (tabs d)" "series_ok (tabs ?d)" using safe by (simp_all add: series_safe_def)
    have named: "series_by_foreign_id f (tabs d) = Some j \<or> j = i \<and> f = fid" if "series_by_foreign_id f (tabs ?d) = Some j" for j
      using that unfolding resolve_iff [OF ok(1)] resolve_iff [OF ok(2)] by (auto simp: t names_def update_series_def image_iff split: if_splits)
    have same: "member_pairs (tabs ?d) = member_pairs (tabs d)" "excluded_pairs (tabs ?d) = excluded_pairs (tabs d)"
      by (simp_all add: t member_pairs_def excluded_pairs_def update_series_def)
    show ?thesis
      using assms safe named unfolding kept_apart_def respected_for_def same by auto
  qed (use assms(1) in simp)
qed

definition renames :: "series_call \<Rightarrow> bool" where
  "renames c \<longleftrightarrow> (case c of UpdateForeignId i fid \<Rightarrow> True | _ \<Rightarrow> False)"

lemma run_call_apart: "kept_apart X (tabs d) \<Longrightarrow> \<not> renames c \<Longrightarrow> kept_apart X (tabs (run_call fk (now, c) d))"
proof -
  have apart: "keeps (kept_apart X) m \<Longrightarrow> kept_apart X (tabs d) \<Longrightarrow> kept_apart X (tabs (snd (m d)))" for m :: "'x series_op"
    by (simp add: keeps_def)
  assume "kept_apart X (tabs d)" "\<not> renames c"
  then show ?thesis
    by (cases c) (simp_all add: apart calls_apart create_manual_def renames_def)
qed

subsection \<open>A removal lasts\<close>

text \<open>The calls that let a book back in under the id \<open>f\<close>: filing it by hand, clearing its exclusions, a merge, and giving
  the id to a series that already holds the book. Only the last depends on the tables.\<close>

definition readmits :: "int \<Rightarrow> string \<Rightarrow> series_call \<Rightarrow> series_tables \<Rightarrow> bool" where
  "readmits b f c t \<longleftrightarrow> (case c of
       UpsertBookLink i b' pos prim \<Rightarrow> b' = b
     | ClearExclusions b' \<Rightarrow> b' = b
     | ClearExclusion i b' \<Rightarrow> b' = b
     | Merge target sources title \<Rightarrow> True
     | UpdateForeignId i fid \<Rightarrow> fid = f \<and> list_ex (\<lambda>m. sb_series_id m = i \<and> sb_book_id m = b) (st_members t)
     | _ \<Rightarrow> False)"

fun undisturbed :: "(string \<Rightarrow> string) \<Rightarrow> int \<Rightarrow> string \<Rightarrow> (time \<times> series_call) list \<Rightarrow> series_db \<Rightarrow> bool" where
  "undisturbed fk b f [] d = True"
| "undisturbed fk b f (c # cs) d = (\<not> readmits b f (snd c) (tabs d) \<and> undisturbed fk b f cs (run_call fk c d))"

lemma steps_exclusions_same:
  "st_exclusions (add_series mk t) = st_exclusions t" "st_exclusions (update_series i g t) = st_exclusions t"
  "st_exclusions (delete_series i t) = st_exclusions t" "st_exclusions (update_members p h t) = st_exclusions t"
  "st_exclusions (demote_others i b t) = st_exclusions t"
  "insert_member m t = Inr (u, t') \<Longrightarrow> st_exclusions t' = st_exclusions t"
  "insert_member_or_ignore m t = Inr (v, t') \<Longrightarrow> st_exclusions t' = st_exclusions t"
  "upsert_member m t = Inr (u, t') \<Longrightarrow> st_exclusions t' = st_exclusions t"
  "write_link link t = Inr (v, t') \<Longrightarrow> st_exclusions t' = st_exclusions t"
  "upsert_monitoring row ff t = Inr (u, t') \<Longrightarrow> st_exclusions t' = st_exclusions t"
  "remove_member i b t = Inr (n, t') \<Longrightarrow> st_exclusions t' = st_exclusions t"
  "insert_unless_known fk now fid title desc hc bare t = Inr (w, t') \<Longrightarrow> st_exclusions t' = st_exclusions t"
  by (auto simp: add_series_def update_series_def delete_series_def update_members_def demote_others_def insert_member_def
      insert_member_or_ignore_def upsert_member_def write_link_def Let_def upsert_monitoring_def remove_member_def
      insert_unless_known_def split: if_splits)

definition excluded_from :: "int \<Rightarrow> string \<Rightarrow> series_tables \<Rightarrow> bool" where
  "excluded_from b f t \<longleftrightarrow> (b, f) \<in> excluded_pairs t"

lemma excluded_cong: "st_exclusions t' = st_exclusions t \<Longrightarrow> excluded_from b f t' = excluded_from b f t"
  by (simp add: excluded_from_def excluded_pairs_def)

lemma keeps_excluded_step: "(\<And>t a t'. g t = Inr (a, t') \<Longrightarrow> st_exclusions t' = st_exclusions t) \<Longrightarrow> step_keeps (excluded_from b f) g"
  by (intro step_keepsI) (metis excluded_cong)

lemma keeps_excluded_exec: "(\<And>t. st_exclusions (g t) = st_exclusions t) \<Longrightarrow> keeps (excluded_from b f) (exec g)"
  by (intro keeps_exec) (metis excluded_cong)

lemma keeps_excluded_plain: "(\<And>t. st_exclusions (g t) = st_exclusions t) \<Longrightarrow> step_keeps (excluded_from b f) (plain g)"
  by (intro step_keeps_plain) (metis excluded_cong)

lemmas excluded_kept = kept keeps_excluded_step keeps_excluded_exec keeps_excluded_plain steps_exclusions_same

lemma plain_excluded:
  "keeps (excluded_from b f) (series_create fk now fid title desc)"
  "keeps (excluded_from b f) (create_or_get fk now fid title desc)"
  "keeps (excluded_from b f) (update_title fk i title)" "keeps (excluded_from b f) (set_monitored i m)"
  "keeps (excluded_from b f) (set_genre_override i g)" "keeps (excluded_from b f) (clear_genre_override i)"
  "keeps (excluded_from b f) (series_delete i)" "keeps (excluded_from b f) (link_book_if_missing i b' pos prim)"
  "keeps (excluded_from b f) (update_book_link_position i b' pos)" "keeps (excluded_from b f) (unlink_book i b')"
  "keeps (excluded_from b f) (set_primary_series i b')" "keeps (excluded_from b f) (upsert_hardcover_link now link)"
  "keeps (excluded_from b f) (delete_hardcover_link i)" "keeps (excluded_from b f) (set_monitoring i m mode owner)"
  "keeps (excluded_from b f) (stamp_check i when due status message n)"
proof -
  show "keeps (excluded_from b f) (series_create fk now fid title desc)"
    unfolding series_create_def
    by (rule keeps_refuse_alias) (auto simp: excluded_from_def excluded_pairs_def add_series_def split: if_splits)
  show "keeps (excluded_from b f) (create_or_get fk now fid title desc)"
    unfolding create_or_get_def created_or_found_def Let_def
    by (intro kept) (auto intro!: kept keeps_excluded_step intro: steps_exclusions_same(12))
  show "keeps (excluded_from b f) (link_book_if_missing i b' pos prim)"
    unfolding link_book_if_missing_def
    by (intro keeps_stmt keeps_excluded_step) (auto dest: steps_exclusions_same(7) split: if_splits)
  show "keeps (excluded_from b f) (set_primary_series i b')"
    unfolding set_primary_series_def
    by (intro keeps_in_tx keeps_and_next keeps_query keeps_if keeps_fail keeps_run_all)
      (auto simp: steps_exclusions_same keeps_excluded_plain)
  show "keeps (excluded_from b f) (upsert_hardcover_link now link)"
    unfolding upsert_hardcover_link_def get_hardcover_link_def Let_def
    by (intro kept keeps_excluded_step) (rule steps_exclusions_same(9))
  show "keeps (excluded_from b f) (set_monitoring i m mode owner)"
  proof -
    have "step_keeps (excluded_from b f) (plain (update_series i g))" for g
      by (rule keeps_excluded_plain) (rule steps_exclusions_same)
    moreover have "step_keeps (excluded_from b f) (restart_monitoring i)"
      unfolding restart_monitoring_def by (rule keeps_excluded_plain) simp
    moreover have "step_keeps (excluded_from b f) (set_mode i k owner)" for k
      unfolding set_mode_def by (rule keeps_excluded_step) (rule steps_exclusions_same(10))
    ultimately show ?thesis
      unfolding set_monitoring_def Let_def
      by (intro keeps_in_tx keeps_and_next keeps_query keeps_option keeps_fail keeps_run_all) (auto split: if_splits)
  qed
  show "keeps (excluded_from b f) (unlink_book i b')" unfolding unlink_book_def
    by (intro kept keeps_excluded_step) (rule steps_exclusions_same)
  show "keeps (excluded_from b f) (stamp_check i when due status message n)" unfolding stamp_check_def Let_def
    by (intro kept keeps_excluded_step) (rule steps_exclusions_same)
qed (simp_all add: update_title_def set_monitored_def set_genre_override_def clear_genre_override_def series_delete_def Let_def
    update_book_link_position_def delete_hardcover_link_def keeps_excluded_exec steps_exclusions_same)

lemma other_excluded:
  "keeps (excluded_from b f) (link_book_preserving_primary i b' pos)" "keeps (excluded_from b f) (remove_book_from_series i b')"
  "keeps (excluded_from b f) (ensure_hardcover_link now i fid title)"
  "b' \<noteq> b \<Longrightarrow> keeps (excluded_from b f) (upsert_book_link i b' pos prim)"
  "b' \<noteq> b \<Longrightarrow> keeps (excluded_from b f) (clear_book_series_exclusions b')"
  "b' \<noteq> b \<Longrightarrow> keeps (excluded_from b f) (clear_book_series_exclusion i b')"
proof -
  show "keeps (excluded_from b f) (link_book_preserving_primary i b' pos)"
    unfolding link_book_preserving_primary_def has_primary_series_def by (intro kept plain_excluded)
  show "keeps (excluded_from b f) (remove_book_from_series i b')"
    unfolding remove_book_from_series_def
  proof (intro keeps_in_tx keeps_and_next keeps_exec keeps_stmt keeps_give)
    show "excluded_from b f (record_exclusion i b' t)" if "excluded_from b f t" for t
      using that record_exclusion_fields [of i b' t] by (simp add: excluded_from_def)
    show "step_keeps (excluded_from b f) (remove_member i b')" by (rule keeps_excluded_step) (rule steps_exclusions_same)
  qed
  show "keeps (excluded_from b f) (ensure_hardcover_link now i fid title)"
    unfolding ensure_hardcover_link_def get_hardcover_link_def by (intro kept keeps_recovered plain_excluded)
  assume other: "b' \<noteq> b"
  have "excluded_from b f t \<Longrightarrow> excluded_from b f (drop_exclusions i b' t)" for t
    using other by (auto simp: excluded_from_def excluded_pairs_def drop_exclusions_def image_iff)
  note drop = this
  show "keeps (excluded_from b f) (upsert_book_link i b' pos prim)"
  proof -
    have "step_keeps (excluded_from b f) (plain (drop_exclusions i b'))" by (rule step_keeps_plain) (rule drop)
    moreover have "step_keeps (excluded_from b f) (plain (demote_others i b'))"
      by (rule keeps_excluded_plain) (rule steps_exclusions_same)
    moreover have "step_keeps (excluded_from b f) (upsert_member m)" for m
      by (rule keeps_excluded_step) (rule steps_exclusions_same)
    ultimately show ?thesis
      unfolding upsert_book_link_def by (intro keeps_in_tx keeps_run_all) (auto split: if_splits)
  qed
  show "keeps (excluded_from b f) (clear_book_series_exclusion i b')"
    unfolding clear_book_series_exclusion_def by (rule keeps_exec) (rule drop)
  show "keeps (excluded_from b f) (clear_book_series_exclusions b')"
    unfolding clear_book_series_exclusions_def
    by (rule keeps_exec) (use other in \<open>auto simp: excluded_from_def excluded_pairs_def image_iff\<close>)
qed

lemma rename_excluded: "keeps (excluded_from b f) (update_foreign_id i fid)"
proof -
  have "step_keeps (excluded_from b f) (write_foreign_id i fid)"
    by (intro keeps_excluded_step) (auto simp: write_foreign_id_def update_series_def split: if_splits)
  then show ?thesis
    unfolding update_foreign_id_def by (intro keeps_if keeps_give keeps_refuse_alias) (auto simp: step_keeps_def)
qed

lemma run_call_excluded: "excluded_from b f (tabs d) \<Longrightarrow> \<not> readmits b f c (tabs d) \<Longrightarrow> excluded_from b f (tabs (run_call fk (now, c) d))"
proof -
  have keep: "keeps (excluded_from b f) m \<Longrightarrow> excluded_from b f (tabs d) \<Longrightarrow> excluded_from b f (tabs (snd (m d)))"
    for m :: "'x series_op" by (simp add: keeps_def)
  assume "excluded_from b f (tabs d)" "\<not> readmits b f c (tabs d)"
  then show ?thesis
    by (cases c) (simp_all add: keep plain_excluded other_excluded rename_excluded create_manual_def readmits_def)
qed

text \<open>One exclusion through a history.\<close>

lemma call_keeps_out:
  assumes "kept_apart {(b, f)} (tabs d)" "excluded_from b f (tabs d)" "\<not> readmits b f (snd c) (tabs d)"
  shows "kept_apart {(b, f)} (tabs (run_call fk c d)) \<and> excluded_from b f (tabs (run_call fk c d))"
proof -
  have "kept_apart {(b, f)} (tabs (run_call fk (fst c, snd c) d))"
  proof (cases "renames (snd c)")
    case True
    then obtain i fid where c: "snd c = UpdateForeignId i fid" by (auto simp: renames_def split: series_call.splits)
    have "\<not> (fid = f \<and> (i, b) \<in> member_pairs (tabs d))"
      using assms(3) by (auto simp: readmits_def c list_ex_iff member_pairs_def member_key_def)
    then show ?thesis using rename_apart [OF assms(1)] by (simp add: c)
  next
    case False
    then show ?thesis by (rule run_call_apart [OF assms(1)])
  qed
  moreover have "excluded_from b f (tabs (run_call fk (fst c, snd c) d))" by (rule run_call_excluded [OF assms(2,3)])
  ultimately show ?thesis by simp
qed

lemma history_keeps_out:
  "kept_apart {(b, f)} (tabs d) \<Longrightarrow> excluded_from b f (tabs d) \<Longrightarrow> undisturbed fk b f cs d \<Longrightarrow>
    kept_apart {(b, f)} (tabs (series_history fk cs d)) \<and> excluded_from b f (tabs (series_history fk cs d))"
  by (induction cs arbitrary: d) (simp_all add: series_history_def call_keeps_out)

lemma in_tx_commit:
  assumes "in_tx r m d = (Inr a, d')" "\<not> r a"
  obtains d1 d2 where "tabs d1 = tabs d" "m d1 = (Inr a, d2)" "tabs d' = tabs d2"
proof -
  let ?body = "and_next (exec id) (\<lambda>_. and_next m (\<lambda>a. if r a then give a else and_next (exec id) (\<lambda>_. give a)))"
  have "?body d = (Inr a, d')"
    using assms unfolding in_tx_def by (cases "?body d") (auto split: sum.splits if_splits)
  then obtain u d1 a' d2 where run: "exec id d = (Inr u, d1)" "m d1 = (Inr a', d2)"
    "(if r a' then give a' else and_next (exec id) (\<lambda>_. give a')) d2 = (Inr a, d')"
    unfolding and_next_Inr by blast
  then have "a' = a" "tabs d' = tabs d2"
    using assms(2) by (auto simp: and_next_Inr give_def dest: exec_id_Inr split: if_splits)
  then show ?thesis using that [of d1 d2] run exec_id_Inr by simp
qed

end
