(* ===== verification/Series_Claims.thy ===== *)
theory Series_Claims
  imports Series_Exclusions "HOL-Library.Code_Target_Nat"
begin

text \<open>
  What the series repository promises: merges (over the lemmas of \<open>Series_Proofs\<close>), histories of calls and
  exclusions, each applied to a small library; and three histories in which the code loses a promise.
\<close>

subsection \<open>A library\<close>

text \<open>Series 1 and 2 share book 10; book 11 is in series 2 only. Series 2 carries the alias of an earlier merge.\<close>

definition two_series :: series_tables where
  "two_series = \<lparr>
     st_series = [fresh_series 1 ''ol:1'' ''A'' ''a'' [] 0, fresh_series 2 ''ol:2'' ''B'' ''b'' [] 0],
     st_members = [\<lparr> sb_series_id = 1, sb_book_id = 10, sb_position = ''1'', sb_primary = False \<rparr>,
                   \<lparr> sb_series_id = 2, sb_book_id = 10, sb_position = ''2'', sb_primary = True \<rparr>,
                   \<lparr> sb_series_id = 2, sb_book_id = 11, sb_position = [], sb_primary = False \<rparr>],
     st_aliases = [(''ol:3'', 2)], st_links = [], st_exclusions = [], st_monitoring = [], st_pins = [], st_recs = [],
     st_books = [(10, ''X''), (11, ''Y'')], st_last_id = 2 \<rparr>"

definition calm_db :: "series_tables \<Rightarrow> series_db" where
  "calm_db t = \<lparr> tabs = t, outcomes = [] \<rparr>"

lemma two_series_ok: "series_ok (tabs (calm_db two_series))"
  by (simp add: calm_db_def two_series_def series_ok_def series_ids_def member_key_def member_refs_ok_def fresh_series_def
      keep_as_alias_def foreign_id_taken_def has_prefix_def manual_prefix_def)

definition after_merge :: "(series_error + merge_plan) \<times> series_db" where
  "after_merge = merge_series (\<lambda>title. title) 1 [2] [] (calm_db two_series)"

definition merged_plan :: merge_plan where
  "merged_plan = projr (fst after_merge)"

definition merged_db :: series_db where
  "merged_db = snd after_merge"

lemma merge_two_series: "merge_series (\<lambda>title. title) 1 [2] [] (calm_db two_series) = (Inr merged_plan, merged_db)"
proof -
  have "\<not> isl (fst after_merge)" by code_simp
  then show ?thesis
    unfolding merged_db_def merged_plan_def by (metis after_merge_def prod.collapse sum.collapse(2))
qed

subsection \<open>The promises\<close>

text \<open>C11: a merge that succeeds folds its sources into the target, in the order of their ids, and nothing else: on
  the memberships read as a map it is the fold of \<open>absorb_series\<close>; exactly the sources are gone; every
  provider id that named one of them names the target, the ids of hand-made series name nothing, and all
  other ids name what they named. The constraints of the tables still hold.\<close>

theorem merge_folds_sources:
  assumes "series_ok (tabs d)" "merge_series fold_key target sources title d = (Inr plan, d')"
  shows "series_ok (tabs d') \<and>
    memberships (tabs d') = fold (absorb_series target) (sort sources) (memberships (tabs d)) \<and>
    series_ids (tabs d') = filter (\<lambda>i. i \<notin> set sources) (series_ids (tabs d)) \<and>
    (\<forall>f. series_by_foreign_id f (tabs d') =
      (case series_by_foreign_id f (tabs d) of
         None \<Rightarrow> None
       | Some i \<Rightarrow> if i \<notin> set sources then Some i else if keep_as_alias f then Some target else None))"
  by (rule merge_folds [OF assms])

lemma merge_folds_sources_witness:
  "series_ids (tabs merged_db) = [1] \<and> series_by_foreign_id ''ol:2'' (tabs merged_db) = Some 1 \<and>
    series_by_foreign_id ''ol:3'' (tabs merged_db) = Some 1 \<and> series_by_foreign_id ''ol:4'' (tabs merged_db) = None"
proof -
  have "series_by_foreign_id ''ol:2'' (tabs (calm_db two_series)) = Some 2 \<and>
    series_by_foreign_id ''ol:3'' (tabs (calm_db two_series)) = Some 2 \<and>
    series_by_foreign_id ''ol:4'' (tabs (calm_db two_series)) = None \<and>
    series_ids (tabs (calm_db two_series)) = [1, 2]" by code_simp
  then show ?thesis
    using merge_folds_sources [OF two_series_ok merge_two_series] by (simp add: keep_as_alias_def manual_prefix_def has_prefix_def)
qed


text \<open>C14: a merge loses no book. Afterwards a book is in the target exactly when it was in the target or a source, the
  target is its primary series exactly when one of them was, a position the target had stays, no source has a
  member left and no other series gained, lost or changed one.\<close>

theorem merge_loses_no_book:
  assumes "series_ok (tabs d)" "merge_series fold_key target sources title d = (Inr plan, d')"
  shows "let M = memberships (tabs d); M' = memberships (tabs d') in
    (M' (target, b) \<noteq> None \<longleftrightarrow> (\<exists>s \<in> insert target (set sources). M (s, b) \<noteq> None)) \<and>
    ((\<exists>p. M' (target, b) = Some (p, True)) \<longleftrightarrow> (\<exists>s \<in> insert target (set sources). \<exists>p. M (s, b) = Some (p, True))) \<and>
    (\<forall>p q. M (target, b) = Some (p, q) \<and> trim_space p \<noteq> [] \<longrightarrow>
      (\<exists>p' q'. M' (target, b) = Some (p', q') \<and> trim_space p' = trim_space p)) \<and>
    (\<forall>s. s \<noteq> target \<longrightarrow> M' (s, b) = (if s \<in> set sources then None else M (s, b)))"
proof -
  let ?M = "memberships (tabs d)"
  have M': "memberships (tabs d') = fold (absorb_series target) (sort sources) ?M"
    using merge_folds [OF assms(1,2)] by simp
  obtain d1 d2 d3 where "tabs d1 = tabs d" "plan_merge target sources title d1 = (Inr plan, d3)"
    "apply_merge fold_key plan d3 = (Inr (), d2)" "tabs d' = tabs d2"
    by (rule merge_runs [OF assms(2)])
  then have src: "target \<notin> set (sort sources)" "distinct (sort sources)"
    by (auto elim: plan_merge_Inr)
  show ?thesis
    unfolding M' Let_def
    using fold_absorb_target [OF src, of ?M b] fold_absorb_position [OF src(1), of ?M b]
      fold_absorb_other [of _ target "sort sources" ?M b]
    by auto
qed

lemma merge_loses_no_book_witness:
  "memberships (tabs merged_db) (1, 11) \<noteq> None \<and> (\<exists>p. memberships (tabs merged_db) (1, 10) = Some (p, True)) \<and>
    memberships (tabs merged_db) (2, 10) = None"
proof -
  have "memberships (tabs (calm_db two_series)) (2, 11) = Some ([], False) \<and>
    memberships (tabs (calm_db two_series)) (2, 10) = Some (''2'', True)" by code_simp
  then show ?thesis
    using merge_loses_no_book [OF two_series_ok merge_two_series, of 11] merge_loses_no_book [OF two_series_ok merge_two_series, of 10]
    by (simp add: Let_def ex_bool_eq)
qed


text \<open>C17: a plan that can be made can be carried out: on tables that meet their constraints, and when no statement
  fails, \<open>Merge\<close> never aborts half way and returns the plan a dry run shows.\<close>

theorem planned_merge_succeeds:
  assumes "series_ok (tabs d)" "outcomes d = []" "plan_merge target sources title d = (Inr plan, d1)"
  shows "\<exists>d'. merge_series fold_key target sources title d = (Inr plan, d')"
proof -
  have calm: "d1 = d"
    using assms(2,3)
    by (auto simp: plan_merge_def fail_def and_next_Inr give_def query_calm split: if_splits option.splits)
      (metis Pair_inject absorb_sources_calm absorb_sources_Inr)+
  obtain tr g where g: "target \<notin> set sources" "distinct sources" "merge_row_of target (tabs d) = Some tr"
    "plan_sources (sort sources) (tabs d) (start_state target title tr (merge_members target (tabs d))) = Some g" "plan = mg_plan g"
    by (rule plan_merge_Inr [OF assms(3)])
  obtain t' where "run_steps (concat (map (source_steps plan) (mp_sources plan))
        @ [drop_stale_exclusions (mp_target_id plan), rename_target fold_key plan]) (tabs d) = Some t'"
    using merge_tables [OF assms(1) g(3,1,2,4), of fold_key] unfolding g(5) by blast
  then have "apply_merge fold_key plan d = (Inr (), d\<lparr>tabs := t'\<rparr>)"
    unfolding apply_merge_def by (rule run_all_calm [OF assms(2)])
  then have "and_next (plan_merge target sources title) (\<lambda>plan. and_next (apply_merge fold_key plan) (\<lambda>_. give plan)) d
      = (Inr plan, d\<lparr>tabs := t'\<rparr>)"
    using assms(3) calm by (simp add: and_next_Inr give_def)
  then have "merge_series fold_key target sources title d = (Inr plan, d\<lparr>tabs := t'\<rparr>)"
    unfolding merge_series_def by (rule in_tx_calm [OF assms(2)]) (simp add: assms(2))
  then show ?thesis by blast
qed

lemma planned_merge_succeeds_witness:
  "\<exists>d'. merge_series (\<lambda>title. title) 1 [2] [] (calm_db two_series) = (Inr merged_plan, d')"
proof -
  have "plan_merge 1 [2] [] (calm_db two_series) = (Inr merged_plan, snd (plan_merge 1 [2] [] (calm_db two_series)))"
    by code_simp
  then show ?thesis by (intro planned_merge_succeeds [OF two_series_ok]) (simp_all add: calm_db_def)
qed


text \<open>C16: a refresh does not undo a merge. A provider that still reports the id of a series that was merged away is
  answered with the target and creates nothing, however the series is named or its statements fare.\<close>

theorem refresh_finds_target:
  assumes "series_ok (tabs d)" "merge_series fold_key target sources title d = (Inr plan, d')"
    and "find_series (tabs d) i = Some s" "i \<in> set sources" "keep_as_alias (sr_foreign_id s)"
    and "create_or_get fold_key now (sr_foreign_id s) name description d' = (Inr j, d'')"
  shows "j = target \<and> tabs d'' = tabs d'"
proof -
  let ?fid = "sr_foreign_id s"
  note m = merge_folds [OF assms(1,2)]
  have "series_by_foreign_id ?fid (tabs d) = Some i" by (rule resolve_live [OF assms(1,3)])
  then have now: "series_by_foreign_id ?fid (tabs d') = Some target" using m assms(4,5) by simp
  then have "is_alias ?fid (tabs d') \<or> foreign_id_taken ?fid (tabs d')"
    using resolve_iff [of "tabs d'" ?fid target] m by (force simp: names_def is_alias_def foreign_id_taken_def)
  then have taken: "is_alias ?fid (tabs d') \<or> P \<or> foreign_id_taken ?fid (tabs d')" for P by blast
  have "trim_space ?fid \<noteq> []" using assms(6) by (auto simp: create_or_get_def fail_def)
  then obtain hc bare created d1
    where c: "stmt (insert_unless_known fold_key now ?fid name description hc bare) d' = (Inr created, d1)"
      and k: "created_or_found ?fid hc bare created d1 = (Inr j, d'')"
    using assms(6) by (auto simp: create_or_get_def Let_def and_next_Inr)
  from stmt_Inr [OF c] taken have "created = None" "tabs d1 = tabs d'"
    by (auto simp: insert_unless_known_def split: if_splits)
  then show ?thesis
    using k now by (auto simp: created_or_found_def and_next_Inr give_def dest!: query_Inr)
qed

lemma refresh_finds_target_witness:
  "tabs (snd (create_or_get (\<lambda>title. title) 5 ''ol:2'' ''B'' [] merged_db)) = tabs merged_db"
proof -
  define s where "s = fresh_series 2 ''ol:2'' ''B'' ''b'' [] 0"
  have found: "find_series (tabs (calm_db two_series)) 2 = Some s" unfolding s_def by code_simp
  have fid: "sr_foreign_id s = ''ol:2''" "keep_as_alias (sr_foreign_id s)"
    by (simp_all add: s_def fresh_series_def keep_as_alias_def manual_prefix_def has_prefix_def)
  have "fst (create_or_get (\<lambda>title. title) 5 ''ol:2'' ''B'' [] merged_db) = Inr 1" by code_simp
  then have "create_or_get (\<lambda>title. title) 5 (sr_foreign_id s) ''B'' [] merged_db
      = (Inr 1, snd (create_or_get (\<lambda>title. title) 5 ''ol:2'' ''B'' [] merged_db))"
    unfolding fid(1) by (metis prod.collapse)
  then show ?thesis
    using refresh_finds_target [OF two_series_ok merge_two_series found _ fid(2)] by simp
qed

subsection \<open>Histories\<close>

text \<open>C15: any history of calls, whatever statements of it fail, keeps the tables sound: ids and provider ids are unique,
  memberships and links belong to series that exist, and no alias is the id of a series or of two.\<close>

theorem series_history_sound:
  "series_safe (tabs d) \<Longrightarrow> series_safe (tabs (series_history fk cs d))"
  by (rule series_history_keeps) (auto intro: run_call_safe)

lemma series_history_sound_witness:
  "series_safe (tabs (series_history (\<lambda>title. title)
    [(1, Merge 1 [2] []), (2, CreateOrGet ''ol:2'' ''B'' []), (3, UpdateForeignId 1 ''ol:9'')] (calm_db two_series)))"
  by (rule series_history_sound) (use two_series_ok in \<open>simp add: series_safe_def calm_db_def two_series_def\<close>)

text \<open>As long as no series changes its provider id, no history of calls makes a book a member of a series that it is
  excluded from, under the id of the series or one that was merged into it.\<close>

theorem excluded_never_member:
  assumes "series_safe (tabs d)" "exclusions_respected (tabs d)" "\<forall>(now, c) \<in> set cs. \<not> renames c"
  shows "exclusions_respected (tabs (series_history fk cs d))"
proof -
  have "kept_apart UNIV (tabs (series_history fk cs d))"
  proof (rule series_history_keeps)
    show "kept_apart UNIV (tabs d)" using assms(1,2) respected_iff by (simp add: kept_apart_def)
    show "kept_apart UNIV (tabs (run_call fk c d1))" if "c \<in> set cs" "kept_apart UNIV (tabs d1)" for c d1
      using that assms(3) run_call_apart [of UNIV d1 "snd c" fk "fst c"] by (cases c) auto
  qed
  then show ?thesis by (simp add: kept_apart_def respected_iff)
qed

lemma excluded_never_member_witness:
  "exclusions_respected (tabs (series_history (\<lambda>title. title)
    [(1, RemoveBook 2 10), (2, LinkIfMissing 2 10 ''2'' True), (3, Merge 1 [2] [])] (calm_db two_series)))"
proof (rule excluded_never_member)
  show "series_safe (tabs (calm_db two_series))" using two_series_ok by (simp add: series_safe_def calm_db_def two_series_def)
qed (simp_all add: exclusions_respected_def book_excluded_def calm_db_def two_series_def renames_def)

text \<open>C12: a book the user took out of a series stays out of whatever series its provider id names, through any history of
  calls, deletion, re-creation and promotion of series included, until the user files it by hand, clears its exclusion or
  merges series, or the id goes to a series that already holds the book.\<close>

theorem removed_book_stays_out:
  assumes "series_safe (tabs d)"
    and "remove_book_from_series i b d = (Inr True, d1)" "find_series (tabs d) i = Some s" "sr_foreign_id s \<noteq> []"
    and "undisturbed fk b (sr_foreign_id s) cs d1"
    and "series_by_foreign_id (sr_foreign_id s) (tabs (series_history fk cs d1)) = Some j"
  shows "(j, b) \<notin> set (map member_key (st_members (tabs (series_history fk cs d1))))"
proof -
  let ?f = "sr_foreign_id s"
  have s: "s \<in> set (st_series (tabs d))" "sr_id s = i" using assms(3) by (auto simp: find_series_def find_Some_iff)
  obtain d0 d2 where "tabs d0 = tabs d" "and_next (exec (record_exclusion i b)) (\<lambda>_.
       and_next (stmt (remove_member i b)) (\<lambda>n. give (n \<noteq> 0))) d0 = (Inr True, d2)" "tabs d1 = tabs d2"
    by (rule in_tx_commit [OF assms(2) [unfolded remove_book_from_series_def]]) simp
  then obtain n where n: "remove_member i b (record_exclusion i b (tabs d)) = Inr (n, tabs d1)" "n \<noteq> 0"
    by (auto simp: and_next_Inr give_def exec_def plain_def dest!: stmt_Inr)
  note fields = record_exclusion_fields [of i b "tabs d"]
  have held: "(i, b) \<in> member_pairs (tabs d)"
    using n fields by (auto simp: remove_member_def member_pairs_def member_key_def image_iff filter_empty_conv)
  then have "excluded_from b ?f (record_exclusion i b (tabs d))"
    using fields s assms(4) by (auto simp: excluded_from_def)
  then have out: "excluded_from b ?f (tabs d1)"
    using excluded_cong [OF steps_exclusions_same(11) [OF n(1)]] by simp
  have "keeps series_safe (remove_book_from_series i b)" by (rule op_inv)
  from this [unfolded keeps_def, rule_format, OF assms(1)] have safe: "series_safe (tabs d1)" "series_ok (tabs d)"
    using assms(1,2) by (simp_all add: series_safe_def)
  have t1: "tabs d1 = (record_exclusion i b (tabs d))\<lparr>st_members := filter (\<lambda>m. \<not> (sb_series_id m = i \<and> sb_book_id m = b))
      (st_members (record_exclusion i b (tabs d)))\<rparr>"
    using n(1) by (simp add: remove_member_def)
  have "series_by_foreign_id ?f (tabs d) = Some i"
    using s resolve_iff [OF safe(2)] by (auto simp: names_def)
  moreover have "series_by_foreign_id ?f (tabs d1) = series_by_foreign_id ?f (tabs d)"
    unfolding t1 by (rule resolve_cong) (simp_all add: fields)
  moreover have "(i, b) \<notin> member_pairs (tabs d1)" unfolding t1 by (auto simp: member_pairs_def member_key_def)
  ultimately have "kept_apart {(b, ?f)} (tabs d1)" using safe(1) by (auto simp: kept_apart_def respected_for_def)
  from history_keeps_out [OF this out assms(5)]
  have "(j, b) \<notin> member_pairs (tabs (series_history fk cs d1))"
    using assms(6) by (auto simp: kept_apart_def respected_for_def excluded_from_def)
  then show ?thesis by (simp add: member_pairs_def)
qed

definition removed_db :: series_db where
  "removed_db = snd (remove_book_from_series 2 10 (calm_db two_series))"

definition recreated_db :: series_db where
  "recreated_db = series_history (\<lambda>title. title)
     [(1, UpdateForeignId 1 ''hc-series:7''), (2, DeleteSeries 2), (3, CreateOrGet ''ol:2'' ''B'' []), (4, LinkIfMissing 3 10 ''2'' True)]
     removed_db"

lemma removed_book_stays_out_witness:
  "(3, 10) \<notin> set (map member_key (st_members (tabs recreated_db)))"
proof -
  define s where "s = fresh_series 2 ''ol:2'' ''B'' ''b'' [] 0"
  have safe: "series_safe (tabs (calm_db two_series))" using two_series_ok by (simp add: series_safe_def calm_db_def two_series_def)
  have "fst (remove_book_from_series 2 10 (calm_db two_series)) = Inr True" by code_simp
  then have removed: "remove_book_from_series 2 10 (calm_db two_series) = (Inr True, removed_db)"
    unfolding removed_db_def by (metis prod.collapse)
  have found: "find_series (tabs (calm_db two_series)) 2 = Some s" unfolding s_def by code_simp
  have fid: "sr_foreign_id s = ''ol:2''" by (simp add: s_def fresh_series_def)
  have names: "series_by_foreign_id ''ol:2'' (tabs recreated_db) = Some 3" by code_simp
  have calm: "undisturbed (\<lambda>title. title) 10 (sr_foreign_id s) [(1, UpdateForeignId 1 ''hc-series:7''), (2, DeleteSeries 2),
      (3, CreateOrGet ''ol:2'' ''B'' []), (4, LinkIfMissing 3 10 ''2'' True)] removed_db"
    unfolding fid by code_simp
  show ?thesis
    unfolding recreated_db_def
    by (rule removed_book_stays_out [OF safe removed found _ calm])
      (use names fid in \<open>simp_all add: recreated_db_def\<close>)
qed

subsection \<open>Promises that are lost\<close>

lemma renamed_ids:
  "set (map sr_foreign_id (filter (\<lambda>r. sr_id r = i) (map (\<lambda>r. if sr_id r = i then r\<lparr>sr_foreign_id := fid\<rparr> else r) rs))) \<subseteq> {fid}"
proof (induction rs)
  case (Cons r rs)
  then show ?case by (cases "sr_id r = i") simp_all
qed simp

text \<open>C39: a promoted series forgets who was taken out of it. Whatever series and book, while the removal's exclusion stands
  an automatic link is refused; \<open>UpdateForeignID\<close> to an id nothing else holds leaves that exclusion under the old id, and the
  same link then files the book again.\<close>

theorem promotion_forgets_exclusion:
  assumes "series_safe (tabs d)" "outcomes d = []" "find_series (tabs d) i = Some s"
    and "b \<in> set (map fst (st_books (tabs d)))" "(i, b) \<notin> set (map member_key (st_members (tabs d)))"
    and "map ex_foreign_id (filter (\<lambda>e. ex_book_id e = b) (st_exclusions (tabs d))) = [sr_foreign_id s]"
    and "\<not> foreign_id_taken fid (tabs d)" "\<not> is_alias fid (tabs d)"
  shows "link_book_if_missing i b pos prim d = (Inr False, d) \<and>
    (let d' = snd (link_book_if_missing i b pos prim (snd (update_foreign_id i fid d)))
     in (i, b) \<in> set (map member_key (st_members (tabs d'))) \<and> st_exclusions (tabs d') = st_exclusions (tabs d))"
proof -
  have s: "s \<in> set (st_series (tabs d))" "sr_id s = i" using assms(3) by (auto simp: find_series_def find_Some_iff)
  have pos: "i \<noteq> 0" using assms(1) s by (auto simp: series_safe_def series_ok_def series_ids_def)
  let ?d = "snd (update_foreign_id i fid d)"
  have d': "tabs ?d = update_series i (\<lambda>r. r\<lparr>sr_foreign_id := fid\<rparr>) (tabs d)" "outcomes ?d = []"
    using assms(2,7,8) pos
    by (auto simp: update_foreign_id_def refuse_alias_def and_next_def query_def stmt_def give_def write_foreign_id_def Let_def
        foreign_id_taken_def list_ex_iff image_iff)
  have only: "ex_foreign_id e = sr_foreign_id s" if "e \<in> set (st_exclusions (tabs d))" "ex_book_id e = b" for e
  proof -
    have "ex_foreign_id e \<in> set (map ex_foreign_id (filter (\<lambda>e. ex_book_id e = b) (st_exclusions (tabs d))))" using that by auto
    then show ?thesis unfolding assms(6) by simp
  qed
  have "\<exists>e \<in> set (st_exclusions (tabs d)). ex_book_id e = b \<and> ex_foreign_id e = sr_foreign_id s"
  proof -
    have "sr_foreign_id s \<in> set (map ex_foreign_id (filter (\<lambda>e. ex_book_id e = b) (st_exclusions (tabs d))))"
      unfolding assms(6) by simp
    then show ?thesis by auto
  qed
  then have "book_excluded i b (tabs d)"
    using s by (auto simp: book_excluded_def list_ex_iff ids_of_series_def series_ids_def image_iff)
  then have refused: "link_book_if_missing i b pos prim d = (Inr False, d)"
    using assms(2) by (simp add: link_book_if_missing_def stmt_def Let_def)
  have fid: "sr_foreign_id s \<noteq> fid" using assms(7) s by (auto simp: foreign_id_taken_def)
  have "sr_foreign_id s \<notin> set (map fst (st_aliases (tabs d)))"
    using safe_unaliased [OF assms(1)] s(1) by (simp add: is_alias_def)
  moreover have "set (map sr_foreign_id (filter (\<lambda>r. sr_id r = i) (st_series (tabs ?d)))) \<subseteq> {fid}"
  proof -
    have "st_series (tabs ?d) = map (\<lambda>r. if sr_id r = i then r\<lparr>sr_foreign_id := fid\<rparr> else r) (st_series (tabs d))"
      unfolding d'(1) by (simp add: update_series_def)
    then show ?thesis by (simp only: renamed_ids)
  qed
  moreover have "st_aliases (tabs ?d) = st_aliases (tabs d)" unfolding d'(1) by (simp add: update_series_def)
  ultimately have ids: "sr_foreign_id s \<notin> set (ids_of_series i (tabs ?d))"
    using fid unfolding ids_of_series_def by auto
  have "st_exclusions (tabs ?d) = st_exclusions (tabs d)" unfolding d'(1) by (simp add: update_series_def)
  then have "\<not> book_excluded i b (tabs ?d)"
    using only ids unfolding book_excluded_def list_ex_iff by metis
  moreover have "member_refs_ok (tabs ?d) \<lparr>sb_series_id = i, sb_book_id = b, sb_position = pos, sb_primary = prim\<rparr>"
    using s assms(4) by (auto simp: member_refs_ok_def d' update_series_def series_ids_def image_iff intro!: bexI [of _ s])
  ultimately show ?thesis
    using refused assms(5) d'
    by (auto simp: link_book_if_missing_def stmt_def Let_def insert_member_or_ignore_def update_series_def member_key_def)
qed

lemma promotion_forgets_exclusion_witness:
  "(let d' = snd (link_book_if_missing 2 10 ''1'' False (snd (update_foreign_id 2 ''hc-series:7'' removed_db)))
    in (2, 10) \<in> set (map member_key (st_members (tabs d'))) \<and> st_exclusions (tabs d') = st_exclusions (tabs removed_db))"
proof -
  have "series_safe (tabs (calm_db two_series))" using two_series_ok by (simp add: series_safe_def calm_db_def two_series_def)
  moreover have "keeps series_safe (remove_book_from_series 2 10)" by (rule op_inv)
  ultimately have safe: "series_safe (tabs removed_db)" by (simp add: keeps_def removed_db_def)
  have "outcomes removed_db = []" "find_series (tabs removed_db) 2 = Some (fresh_series 2 ''ol:2'' ''B'' ''b'' [] 0)"
    "10 \<in> set (map fst (st_books (tabs removed_db)))" "(2, 10) \<notin> set (map member_key (st_members (tabs removed_db)))"
    "map ex_foreign_id (filter (\<lambda>e. ex_book_id e = 10) (st_exclusions (tabs removed_db)))
      = [sr_foreign_id (fresh_series 2 ''ol:2'' ''B'' ''b'' [] 0)]"
    "\<not> foreign_id_taken ''hc-series:7'' (tabs removed_db)" "\<not> is_alias ''hc-series:7'' (tabs removed_db)"
    by code_simp+
  from promotion_forgets_exclusion [OF safe this] show ?thesis by (rule conjunct2)
qed

text \<open>A third series beside the two, made by hand.\<close>

definition three_series :: series_tables where
  "three_series = two_series\<lparr>st_series := st_series two_series @ [fresh_series 3 ''manual:series:5'' ''C'' ''c'' [] 0], st_last_id := 3\<rparr>"

text \<open>\<open>UpdateForeignID\<close> checks the aliases in one statement and writes in another. A merge between the two makes the id an
  alias of its target, and the write then gives it to another series: the id names two series, which the tables rule out.\<close>

theorem promotion_races_merge:
  "let (checked, d1) = refuse_alias ''ol:2'' (calm_db three_series);
       d2 = snd (merge_series (\<lambda>title. title) 1 [2] [] d1);
       (written, d3) = stmt (write_foreign_id 3 ''ol:2'') d2
   in series_safe (tabs (calm_db three_series)) \<and> checked = Inr () \<and> written = Inr () \<and>
      (''ol:2'', 1) \<in> set (st_aliases (tabs d3)) \<and> series_by_foreign_id ''ol:2'' (tabs d3) = Some 3 \<and> \<not> series_safe (tabs d3)"
  by code_simp

text \<open>\<open>Merge\<close> turns the flag of its target on when a source was monitored, and lets the source's mode and owner go: a
  series monitored for all its books is left with the flag and no monitoring row.\<close>

theorem merge_forgets_monitoring:
  "let d1 = series_history (\<lambda>title. title) [(1, SetMonitoring 2 True monitor_all 5), (2, Merge 1 [2] [])] (calm_db two_series)
   in map_option sr_monitored (find_series (tabs d1) 1) = Some True \<and> monitoring_of 1 (tabs d1) = None"
  by code_simp

end
