(* ===== verification/Check_Queue.thy ===== *)
theory Check_Queue
  imports Go_Prelude "HOL-Library.Product_Lexorder"
begin

text \<open>
  What the hourly check jobs share (\<open>internal/scheduler/discovery.go\<close>, \<open>series_monitor.go\<close>): the sizes of a batch, what
  a tick meets at one entry, and the interface of the stores behind them as a locale: a queue whose entries are
  due again some time after they are marked.
\<close>

subsection \<open>Constants and batch sizes\<close>

definition max_discovery_batch :: int where
  "max_discovery_batch = 25"

definition discovery_spare :: int where
  "discovery_spare = 3"

definition discovery_failure_breaker :: nat where
  "discovery_failure_breaker = 3"

definition discovery_retry_after :: duration where
  "discovery_retry_after = 6 * hour"

definition min_discovery_interval :: duration where
  "min_discovery_interval = 24 * hour"

definition max_discovery_interval :: duration where
  "max_discovery_interval = 720 * hour"

definition discovery_batch_size :: "int \<Rightarrow> duration \<Rightarrow> int" where
  "discovery_batch_size eligible interval =
     (let hours = max 1 (interval div hour);
          batch = (eligible + hours - 1) div hours
      in min max_discovery_batch (max 1 batch))"

lemma batch_bounds: "1 \<le> discovery_batch_size n i" "discovery_batch_size n i \<le> max_discovery_batch"
  by (simp_all add: discovery_batch_size_def Let_def max_discovery_batch_def)

text \<open>Up to 25 entries an hour, one interval of ticks has room for every entry.\<close>

lemma batches_cover:
  assumes "0 \<le> n" "hour \<le> i" "n \<le> max_discovery_batch * (i div hour)"
  shows "n \<le> discovery_batch_size n i * (i div hour)"
proof -
  define h where "h = i div hour"
  have h: "1 \<le> h" using assms(2) zdiv_mono1 [of hour i hour] by (simp add: h_def time_units)
  have "n \<le> (n + h - 1) div h * h"
  proof -
    have "(n + h - 1) = (n + h - 1) div h * h + (n + h - 1) mod h" by simp
    moreover have "(n + h - 1) mod h \<le> h - 1" using h pos_mod_bound [of h "n + h - 1"] by simp
    ultimately show ?thesis by linarith
  qed
  then have "n \<le> max 1 ((n + h - 1) div h) * h" using h by (smt (verit) mult_right_mono)
  moreover have "max 1 h = h" using h by simp
  ultimately show ?thesis
    using assms(3) unfolding discovery_batch_size_def Let_def h_def [symmetric] by (simp add: min_def max_discovery_batch_def)
qed

text \<open>What the loop of a tick meets at one entry: the pace slept through, the context, a bulk refresh, the outcome of
  the check, its deadline passed, the context afterwards.\<close>

record 'o visit =
  vi_slept :: bool
  vi_alive :: bool
  vi_bulk :: bool
  vi_out :: 'o
  vi_expired :: bool
  vi_alive_after :: bool

definition timed_out :: "'o visit \<Rightarrow> bool" where
  "timed_out v \<longleftrightarrow> vi_expired v \<and> vi_alive_after v"

definition retry_delay :: "duration \<Rightarrow> duration" where
  "retry_delay interval = (if discovery_retry_after > interval then interval else discovery_retry_after)"

subsection \<open>The store behind a check job\<close>

text \<open>\<open>mark i t\<close> writes that entry \<open>i\<close> is due again at \<open>t\<close>. The columns hold whole seconds, so an entry may be
  listed less than a second early.\<close>

locale check_queue =
  fixes due :: "time \<Rightarrow> 'q \<Rightarrow> int list"
    and mark :: "int \<Rightarrow> time \<Rightarrow> 'q \<Rightarrow> 'q"
    and ok :: "'q \<Rightarrow> bool"
  assumes ok_mark: "ok q \<Longrightarrow> ok (mark i t q)"
    and due_marked: "\<lbrakk> ok q; i \<in> set (due now (mark i t q)) \<rbrakk> \<Longrightarrow> t < now + second"
    and due_other: "\<lbrakk> ok q; i \<noteq> j \<rbrakk> \<Longrightarrow> i \<in> set (due now (mark j t q)) \<longleftrightarrow> i \<in> set (due now q)"
begin

definition marks :: "(int \<times> time) list \<Rightarrow> 'q \<Rightarrow> 'q" where
  "marks ws q = fold (\<lambda>(i, t). mark i t) ws q"

lemma marks_simps: "marks [] q = q" "marks (w # ws) q = marks ws (mark (fst w) (snd w) q)"
  by (simp_all add: marks_def case_prod_beta)

lemma ok_marks: "ok q \<Longrightarrow> ok (marks ws q)"
  by (induction ws arbitrary: q) (simp_all add: marks_simps ok_mark)

lemma due_unmarked: "ok q \<Longrightarrow> i \<notin> fst ` set ws \<Longrightarrow> i \<in> set (due now (marks ws q)) \<longleftrightarrow> i \<in> set (due now q)"
  by (induction ws arbitrary: q) (auto simp: marks_simps ok_mark due_other)

text \<open>Whatever else is marked before and after, an entry is not due before the earliest time it was marked for.\<close>

lemma due_after_marks:
  assumes "ok q" "i \<in> fst ` set ws" "\<forall>(j, t) \<in> set ws. j = i \<longrightarrow> limit \<le> t" "i \<in> set (due now (marks ws q))"
  shows "limit < now + second"
  using assms
proof (induction ws arbitrary: q)
  case (Cons w ws)
  show ?case
  proof (cases "i \<in> fst ` set ws")
    case True
    then show ?thesis using Cons.IH [of "mark (fst w) (snd w) q"] Cons.prems by (auto simp: marks_simps ok_mark)
  next
    case False
    then have "fst w = i" "i \<in> set (due now (mark (fst w) (snd w) q))"
      using Cons.prems due_unmarked [of "mark (fst w) (snd w) q" i ws now] by (auto simp: marks_simps ok_mark)
    then show ?thesis using due_marked [of q i now "snd w"] Cons.prems by (cases w) fastforce
  qed
qed simp

end

end
