(* ===== verification/Discovery.thy ===== *)
theory Discovery
  imports Check_Queue "HOL-Library.Code_Target_Nat"
begin

text \<open>
  \<open>internal/scheduler/discovery.go\<close> and \<open>internal/db/author_discovery.go\<close>: the hourly job that checks a share of the
  followed authors for new books, with its batch, its failure breaker and the stamps it writes.
\<close>

subsection \<open>The discovery cursor of the authors\<close>

record disc_author =
  da_id :: int
  da_foreign_id :: string
  da_monitored :: bool
  da_new_items :: "string option"
  da_checked :: "time option"

text \<open>\<open>LIKE 'calibre:%'\<close>: without regard to the case of ASCII letters.\<close>

definition calibre_shell :: "string \<Rightarrow> bool" where
  "calibre_shell fid \<longleftrightarrow> map lower_byte (take 8 fid) = ''calibre:''"

definition discovery_eligible :: "disc_author \<Rightarrow> bool" where
  "discovery_eligible a \<longleftrightarrow>
     da_monitored a \<and> (case da_new_items a of None \<Rightarrow> ''all'' | Some s \<Rightarrow> s) \<noteq> ''none'' \<and> \<not> calibre_shell (da_foreign_id a)"

definition discovery_due :: "time \<Rightarrow> disc_author \<Rightarrow> bool" where
  "discovery_due cutoff a \<longleftrightarrow>
     discovery_eligible a \<and> (case da_checked a of None \<Rightarrow> True | Some t \<Rightarrow> t < to_second cutoff)"

definition discovery_key :: "disc_author \<Rightarrow> bool \<times> time \<times> int" where
  "discovery_key a = (case da_checked a of None \<Rightarrow> (False, 0, da_id a) | Some t \<Rightarrow> (True, t, da_id a))"

definition list_discovery_due :: "time \<Rightarrow> int \<Rightarrow> disc_author list \<Rightarrow> disc_author list" where
  "list_discovery_due cutoff limit authors =
     (if limit \<le> 0 then [] else take (nat limit) (sort_key discovery_key (filter (discovery_due cutoff) authors)))"

definition count_discovery_eligible :: "disc_author list \<Rightarrow> nat" where
  "count_discovery_eligible authors = length (filter discovery_eligible authors)"

definition stamp_discovery :: "int \<Rightarrow> time \<Rightarrow> disc_author list \<Rightarrow> disc_author list" where
  "stamp_discovery i t = map (\<lambda>a. if da_id a = i then a\<lparr>da_checked := Some (to_second t)\<rparr> else a)"

definition last_discovery_at :: "int \<Rightarrow> disc_author list \<Rightarrow> time option" where
  "last_discovery_at i authors = (case find (\<lambda>a. da_id a = i) authors of None \<Rightarrow> None | Some a \<Rightarrow> da_checked a)"

subsection \<open>One tick\<close>

record discovery_outcome =
  do_created :: int
  do_err :: bool
  do_backoff :: bool
  do_busy :: bool
  do_unavailable :: bool

record discovery_result =
  dr_skipped :: string
  dr_stopped :: string
  dr_checked :: int
  dr_created :: int
  dr_timed_out :: int
  dr_backoff :: bool
  dr_breaker :: bool

text \<open>The locals of a pass: the clock is read by position, the stamps are the writes attempted, in order.\<close>

record discovery_pass =
  dp_failed :: "int list"
  dp_streak :: nat
  dp_attempted :: int
  dp_reads :: nat
  dp_writes :: "(int \<times> time) list"
  dp_result :: discovery_result

definition stamp_at :: "time \<Rightarrow> int \<Rightarrow> discovery_pass \<Rightarrow> discovery_pass" where
  "stamp_at t a p = p\<lparr>dp_writes := dp_writes p @ [(a, t)]\<rparr>"

definition stamp_now :: "(nat \<Rightarrow> time) \<Rightarrow> int \<Rightarrow> discovery_pass \<Rightarrow> discovery_pass" where
  "stamp_now now a p = (stamp_at (now (dp_reads p)) a p)\<lparr>dp_reads := dp_reads p + 1\<rparr>"

definition stamp_for_retry :: "(nat \<Rightarrow> time) \<Rightarrow> duration \<Rightarrow> discovery_pass \<Rightarrow> discovery_pass" where
  "stamp_for_retry now interval p =
     (let t = now (dp_reads p) + (retry_delay interval - interval)
      in fold (stamp_at t) (dp_failed p) (p\<lparr>dp_reads := dp_reads p + 1\<rparr>))"

definition flush_failed :: "(nat \<Rightarrow> time) \<Rightarrow> discovery_pass \<Rightarrow> discovery_pass" where
  "flush_failed now p = (fold (stamp_now now) (dp_failed p) p)\<lparr>dp_failed := [], dp_streak := 0\<rparr>"

text \<open>The switch over the outcome of a check that ran.\<close>

definition settle_check ::
    "(nat \<Rightarrow> time) \<Rightarrow> int \<Rightarrow> discovery_outcome \<Rightarrow> bool \<Rightarrow> discovery_pass \<Rightarrow> discovery_pass" where
  "settle_check now a out expired p =
     (if expired then stamp_now now a (p\<lparr>dp_streak := dp_streak p + 1,
          dp_result := (dp_result p)\<lparr>dr_timed_out := dr_timed_out (dp_result p) + 1\<rparr>\<rparr>)
      else if do_err out \<and> do_unavailable out then p\<lparr>dp_streak := dp_streak p + 1, dp_failed := dp_failed p @ [a]\<rparr>
      else stamp_now now a (flush_failed now p))"

fun walk_due ::
    "(nat \<Rightarrow> time) \<Rightarrow> int \<Rightarrow> (int \<Rightarrow> discovery_outcome visit) \<Rightarrow> int list \<Rightarrow> discovery_pass \<Rightarrow> discovery_pass" where
  "walk_due now batch world [] p = p"
| "walk_due now batch world (a # as) p =
     (let v = world a; out = vi_out v; res = dp_result p in
      if dp_attempted p \<ge> batch then p
      else if dp_attempted p > 0 \<and> \<not> vi_slept v then p
      else if \<not> vi_alive v then p
      else if vi_bulk v then p\<lparr>dp_result := res\<lparr>dr_stopped := ''bulk refresh running''\<rparr>\<rparr>
      else if \<not> vi_alive_after v then p
      else if do_busy out \<and> \<not> timed_out v then walk_due now batch world as p
      else
        (let p1 = p\<lparr>dp_attempted := dp_attempted p + 1, dp_result := res\<lparr>dr_created := dr_created res + do_created out\<rparr>\<rparr>;
             res1 = dp_result p1
         in if do_backoff out then p1\<lparr>dp_result := res1\<lparr>dr_backoff := True\<rparr>\<rparr>
            else
              (let p2 = settle_check now a out (timed_out v) (p1\<lparr>dp_result := res1\<lparr>dr_checked := dr_checked res1 + 1\<rparr>\<rparr>)
               in if dp_streak p2 \<ge> discovery_failure_breaker
                  then p2\<lparr>dp_result := (dp_result p2)\<lparr>dr_breaker := True\<rparr>\<rparr>
                  else walk_due now batch world as p2)))"

declare walk_due.simps(2) [simp del]

definition finish_pass :: "(nat \<Rightarrow> time) \<Rightarrow> duration \<Rightarrow> bool \<Rightarrow> discovery_pass \<Rightarrow> discovery_pass" where
  "finish_pass now interval alive p =
     (if \<not> alive then p
      else if dr_backoff (dp_result p) \<or> dr_breaker (dp_result p) then stamp_for_retry now interval p
      else flush_failed now p)"

definition no_result :: discovery_result where
  "no_result = \<lparr> dr_skipped = [], dr_stopped = [], dr_checked = 0, dr_created = 0, dr_timed_out = 0,
     dr_backoff = False, dr_breaker = False \<rparr>"

definition new_pass :: discovery_pass where
  "new_pass = \<lparr> dp_failed = [], dp_streak = 0, dp_attempted = 0, dp_reads = 1, dp_writes = [], dp_result = no_result \<rparr>"

text \<open>What a tick meets besides the authors: the setting, a bulk refresh, statements that fail, the context at the end.\<close>

record tick_env =
  te_interval :: "duration option"
  te_bulk :: bool
  te_count_fails :: bool
  te_list_fails :: bool
  te_alive :: bool

definition skipped_tick :: "string \<Rightarrow> discovery_pass" where
  "skipped_tick why = new_pass\<lparr>dp_result := no_result\<lparr>dr_skipped := why\<rparr>\<rparr>"

definition discovery_tick ::
    "(nat \<Rightarrow> time) \<Rightarrow> tick_env \<Rightarrow> (int \<Rightarrow> discovery_outcome visit) \<Rightarrow> disc_author list \<Rightarrow> discovery_pass" where
  "discovery_tick now e world authors =
     (case te_interval e of
        None \<Rightarrow> skipped_tick ''off''
      | Some interval \<Rightarrow>
          if te_bulk e then skipped_tick ''bulk refresh running''
          else if te_count_fails e then skipped_tick ''count failed''
          else
            (let eligible = count_discovery_eligible authors in
             if eligible = 0 then skipped_tick ''no eligible authors''
             else if te_list_fails e then skipped_tick ''list failed''
             else
               (let batch = discovery_batch_size (int eligible) interval;
                    listed = list_discovery_due (now 0 - interval) (batch + discovery_spare) authors
                in finish_pass now interval (te_alive e) (walk_due now batch world (map da_id listed) new_pass))))"

text \<open>The stamps reach the table one by one; each write may fail, which is only logged.\<close>

definition stored_writes :: "(nat \<Rightarrow> bool) \<Rightarrow> (int \<times> time) list \<Rightarrow> (int \<times> time) list" where
  "stored_writes fails ws = map snd (filter (\<lambda>(k, w). \<not> fails k) (enumerate 0 ws))"

definition write_stamps :: "(nat \<Rightarrow> bool) \<Rightarrow> (int \<times> time) list \<Rightarrow> disc_author list \<Rightarrow> disc_author list" where
  "write_stamps fails ws = fold (\<lambda>(a, t). stamp_discovery a t) (stored_writes fails ws)"

subsection \<open>The pass accounts for every check\<close>

lemma stamp_now_simps [simp]:
  "dp_failed (stamp_now now a p) = dp_failed p" "dp_streak (stamp_now now a p) = dp_streak p"
  "dp_attempted (stamp_now now a p) = dp_attempted p" "dp_result (stamp_now now a p) = dp_result p"
  "map fst (dp_writes (stamp_now now a p)) = map fst (dp_writes p) @ [a]"
  "fst ` set (dp_writes (stamp_now now a p)) = insert a (fst ` set (dp_writes p))"
  "length (dp_writes (stamp_now now a p)) = length (dp_writes p) + 1"
  by (auto simp: stamp_now_def stamp_at_def)

lemma stamp_all_simps [simp]:
  "dp_failed (fold (stamp_now now) as p) = dp_failed p" "dp_streak (fold (stamp_now now) as p) = dp_streak p"
  "dp_attempted (fold (stamp_now now) as p) = dp_attempted p" "dp_result (fold (stamp_now now) as p) = dp_result p"
  "map fst (dp_writes (fold (stamp_now now) as p)) = map fst (dp_writes p) @ as"
  by (induction as arbitrary: p) auto

lemma stamp_at_simps [simp]:
  "dp_attempted (fold (stamp_at t) as p) = dp_attempted p" "dp_result (fold (stamp_at t) as p) = dp_result p"
  "dp_writes (fold (stamp_at t) as p) = dp_writes p @ map (\<lambda>a. (a, t)) as"
  by (induction as arbitrary: p) (auto simp: stamp_at_def)

lemma flush_simps [simp]:
  "dp_failed (flush_failed now p) = []" "dp_streak (flush_failed now p) = 0"
  "dp_attempted (flush_failed now p) = dp_attempted p" "dp_result (flush_failed now p) = dp_result p"
  "map fst (dp_writes (flush_failed now p)) = map fst (dp_writes p) @ dp_failed p"
  by (simp_all add: flush_failed_def)

lemma flush_writes [simp]:
  "fst ` set (dp_writes (flush_failed now p)) = fst ` set (dp_writes p) \<union> set (dp_failed p)"
  "length (dp_writes (flush_failed now p)) = length (dp_writes p) + length (dp_failed p)"
  by (metis flush_simps(5) set_map set_append) (metis flush_simps(5) length_map length_append)

text \<open>The authors a pass has put down, and the number of checks it counts.\<close>

definition put_down :: "discovery_pass \<Rightarrow> int list" where
  "put_down p = map fst (dp_writes p) @ dp_failed p"

definition pass_inv :: "int \<Rightarrow> int set \<Rightarrow> discovery_pass \<Rightarrow> bool" where
  "pass_inv batch seen p \<longleftrightarrow>
     distinct (put_down p) \<and> set (put_down p) \<subseteq> seen \<and> dr_checked (dp_result p) = int (length (put_down p)) \<and>
     dp_attempted p = dr_checked (dp_result p) + of_bool (dr_backoff (dp_result p)) \<and> dp_attempted p \<le> batch"

lemma settle_inv:
  assumes "pass_inv batch seen p" "a \<notin> seen" "\<not> dr_backoff (dp_result p)" "dp_attempted p < batch"
    and "q = p\<lparr>dp_attempted := dp_attempted p + 1, dp_result := (dp_result p)
      \<lparr>dr_created := c, dr_checked := dr_checked (dp_result p) + 1\<rparr>\<rparr>"
  shows "pass_inv batch (insert a seen) (settle_check now a out expired q) \<and>
    \<not> dr_backoff (dp_result (settle_check now a out expired q)) \<and>
    dp_attempted (settle_check now a out expired q) = dp_attempted p + 1"
  using assms(1-4) unfolding assms(5) pass_inv_def settle_check_def put_down_def by auto

text \<open>The ways the loop goes on from one author.\<close>

definition count_try :: "discovery_outcome \<Rightarrow> discovery_pass \<Rightarrow> discovery_pass" where
  "count_try out p = p\<lparr>dp_attempted := dp_attempted p + 1,
     dp_result := (dp_result p)\<lparr>dr_created := dr_created (dp_result p) + do_created out\<rparr>\<rparr>"

definition backed_off :: "discovery_outcome \<Rightarrow> discovery_pass \<Rightarrow> discovery_pass" where
  "backed_off out p = (let p1 = count_try out p in p1\<lparr>dp_result := (dp_result p1)\<lparr>dr_backoff := True\<rparr>\<rparr>)"

definition settled :: "(nat \<Rightarrow> time) \<Rightarrow> int \<Rightarrow> discovery_outcome visit \<Rightarrow> discovery_pass \<Rightarrow> discovery_pass" where
  "settled now a v p = (let p1 = count_try (vi_out v) p in settle_check now a (vi_out v) (timed_out v)
     (p1\<lparr>dp_result := (dp_result p1)\<lparr>dr_checked := dr_checked (dp_result p1) + 1\<rparr>\<rparr>))"

lemma walk_cases:
  obtains (stop) "walk_due now batch world (a # as) p = p"
  | (bulk) "walk_due now batch world (a # as) p = p\<lparr>dp_result := (dp_result p)\<lparr>dr_stopped := ''bulk refresh running''\<rparr>\<rparr>"
  | (busy) "walk_due now batch world (a # as) p = walk_due now batch world as p"
  | (backoff) "dp_attempted p < batch" "walk_due now batch world (a # as) p = backed_off (vi_out (world a)) p"
  | (breaker) "dp_attempted p < batch" "discovery_failure_breaker \<le> dp_streak (settled now a (world a) p)"
      "walk_due now batch world (a # as) p = (settled now a (world a) p)
         \<lparr>dp_result := (dp_result (settled now a (world a) p))\<lparr>dr_breaker := True\<rparr>\<rparr>"
  | (checked) "dp_attempted p < batch" "dp_streak (settled now a (world a) p) < discovery_failure_breaker"
      "walk_due now batch world (a # as) p = walk_due now batch world as (settled now a (world a) p)"
proof -
  let ?v = "world a"
  have eq: "walk_due now batch world (a # as) p =
    (if dp_attempted p \<ge> batch \<or> dp_attempted p > 0 \<and> \<not> vi_slept ?v \<or> \<not> vi_alive ?v then p
     else if vi_bulk ?v then p\<lparr>dp_result := (dp_result p)\<lparr>dr_stopped := ''bulk refresh running''\<rparr>\<rparr>
     else if \<not> vi_alive_after ?v then p
     else if do_busy (vi_out ?v) \<and> \<not> timed_out ?v then walk_due now batch world as p
     else if do_backoff (vi_out ?v) then backed_off (vi_out ?v) p
     else if discovery_failure_breaker \<le> dp_streak (settled now a ?v p)
     then (settled now a ?v p)\<lparr>dp_result := (dp_result (settled now a ?v p))\<lparr>dr_breaker := True\<rparr>\<rparr>
     else walk_due now batch world as (settled now a ?v p))"
    unfolding walk_due.simps Let_def backed_off_def count_try_def settled_def by simp
  show ?thesis using that eq by (smt (verit) not_le)
qed

lemma inv_marked [simp]:
  "pass_inv batch seen (q\<lparr>dp_result := (dp_result q)\<lparr>dr_breaker := b\<rparr>\<rparr>) = pass_inv batch seen q"
  "pass_inv batch seen (q\<lparr>dp_result := (dp_result q)\<lparr>dr_stopped := s\<rparr>\<rparr>) = pass_inv batch seen q"
  by (simp_all add: pass_inv_def put_down_def)

lemma settled_inv:
  assumes "pass_inv batch seen p" "a \<notin> seen" "\<not> dr_backoff (dp_result p)" "dp_attempted p < batch"
  shows "pass_inv batch (insert a seen) (settled now a v p)" "\<not> dr_backoff (dp_result (settled now a v p))"
  using settle_inv [OF assms refl] by (simp_all add: settled_def count_try_def)

lemma walk_inv:
  assumes "pass_inv batch seen p" "distinct as" "set as \<inter> seen = {}" "\<not> dr_backoff (dp_result p)"
  shows "pass_inv batch (seen \<union> set as) (walk_due now batch world as p)"
  using assms
proof (induction as arbitrary: seen p)
  case (Cons a as)
  have a: "a \<notin> seen" "set as \<inter> insert a seen = {}" "distinct as" using Cons.prems by auto
  have wider: "pass_inv batch (seen \<union> set (a # as)) q" if "pass_inv batch seen' q" "seen' \<subseteq> insert a seen" for q seen'
    using that by (auto simp: pass_inv_def)
  show ?case
  proof (cases rule: walk_cases [of now batch world a as p])
    case stop then show ?thesis using wider [of seen] Cons.prems(1) by auto
  next
    case bulk then show ?thesis using wider [of seen] Cons.prems(1) by auto
  next
    case busy
    have "pass_inv batch (insert a seen) p" using Cons.prems(1) by (auto simp: pass_inv_def)
    then show ?thesis unfolding busy using Cons.IH [OF _ a(3,2)] Cons.prems(4) by simp
  next
    case backoff
    have "pass_inv batch seen (backed_off (vi_out (world a)) p)"
      using Cons.prems(1,4) backoff(1) by (auto simp: pass_inv_def put_down_def backed_off_def count_try_def)
    then show ?thesis unfolding backoff(2) using wider [of seen] by auto
  next
    case breaker
    then show ?thesis using settled_inv [OF Cons.prems(1) a(1) Cons.prems(4) breaker(1)] wider [of "insert a seen"] by auto
  next
    case checked
    then show ?thesis using settled_inv [OF Cons.prems(1) a(1) Cons.prems(4) checked(1)] Cons.IH [OF _ a(3,2)] by simp
  qed
qed simp

subsection \<open>When the stamps are due again\<close>

definition stamps_from :: "time \<Rightarrow> discovery_pass \<Rightarrow> bool" where
  "stamps_from t0 p \<longleftrightarrow> (\<forall>(a, t) \<in> set (dp_writes p). t0 \<le> t)"

lemma from_update [simp]:
  "stamps_from t0 (p\<lparr>dp_attempted := n\<rparr>) = stamps_from t0 p" "stamps_from t0 (p\<lparr>dp_streak := k\<rparr>) = stamps_from t0 p"
  "stamps_from t0 (p\<lparr>dp_failed := as\<rparr>) = stamps_from t0 p" "stamps_from t0 (p\<lparr>dp_result := r\<rparr>) = stamps_from t0 p"
  "stamps_from t0 (p\<lparr>dp_reads := k\<rparr>) = stamps_from t0 p"
  by (simp_all add: stamps_from_def)

lemma from_stamp: "(\<And>k. t0 \<le> now k) \<Longrightarrow> stamps_from t0 p \<Longrightarrow> stamps_from t0 (stamp_now now a p)"
  by (auto simp: stamps_from_def stamp_now_def stamp_at_def)

lemma from_stamps: "(\<And>k. t0 \<le> now k) \<Longrightarrow> stamps_from t0 p \<Longrightarrow> stamps_from t0 (fold (stamp_now now) as p)"
  by (induction as arbitrary: p) (simp_all add: from_stamp)

lemma from_flush: "(\<And>k. t0 \<le> now k) \<Longrightarrow> stamps_from t0 p \<Longrightarrow> stamps_from t0 (flush_failed now p)"
  by (simp add: flush_failed_def from_stamps)

lemma from_settled: "(\<And>k. t0 \<le> now k) \<Longrightarrow> stamps_from t0 p \<Longrightarrow> stamps_from t0 (settled now a v p)"
  by (simp add: settled_def settle_check_def Let_def count_try_def from_stamp from_flush)

lemma from_walk: "(\<And>k. t0 \<le> now k) \<Longrightarrow> stamps_from t0 p \<Longrightarrow> stamps_from t0 (walk_due now batch world as p)"
proof (induction as arbitrary: p)
  case (Cons a as)
  note settled = from_settled [OF Cons.prems, where a = a and v = "world a"]
  show ?case
    by (cases rule: walk_cases [of now batch world a as p])
      (use Cons settled in \<open>simp_all add: backed_off_def count_try_def Let_def\<close>)
qed simp

lemma from_finish:
  assumes "\<And>k. t0 \<le> now k" "stamps_from t0 p"
  shows "stamps_from (t0 + (retry_delay interval - interval)) (finish_pass now interval alive p)"
proof -
  have short: "retry_delay interval \<le> interval" by (simp add: retry_delay_def)
  then have weaker: "stamps_from (t0 + (retry_delay interval - interval)) q" if "stamps_from t0 q" for q
    using that by (force simp: stamps_from_def)
  have "stamps_from (t0 + (retry_delay interval - interval)) (stamp_for_retry now interval p)"
    using weaker [OF assms(2)] assms(1) by (auto simp: stamp_for_retry_def stamps_from_def Let_def)
  then show ?thesis using weaker [OF assms(2)] weaker [OF from_flush [OF assms]] by (simp add: finish_pass_def)
qed

definition due_authors :: "duration \<Rightarrow> time \<Rightarrow> disc_author list \<Rightarrow> int list" where
  "due_authors interval now authors = map da_id (filter (discovery_due (now - interval)) authors)"

definition mark_author :: "duration \<Rightarrow> int \<Rightarrow> time \<Rightarrow> disc_author list \<Rightarrow> disc_author list" where
  "mark_author interval i t = stamp_discovery i (t - interval)"

lemma to_second_less: "to_second s < to_second t \<Longrightarrow> s < t"
  using to_second_mono by (metis not_le)

interpretation dq: check_queue "due_authors interval" "mark_author interval" "\<lambda>_. True" for interval
proof unfold_locales
  fix q :: "disc_author list" and i j :: int and now t :: time
  assume "i \<in> set (due_authors interval now (mark_author interval i t q))"
  then obtain b where "b \<in> set q" "discovery_due (now - interval) (b\<lparr>da_checked := Some (to_second (t - interval))\<rparr>)"
    unfolding due_authors_def mark_author_def stamp_discovery_def by (auto split: if_splits)
  then have "to_second (t - interval) < to_second (now - interval)" by (simp add: discovery_due_def)
  then have "t - interval < now - interval" by (rule to_second_less)
  then show "t < now + second" by (simp add: second_def)
next
  fix q :: "disc_author list" and i j :: int and now t :: time
  assume "i \<noteq> j"
  then show "i \<in> set (due_authors interval now (mark_author interval j t q)) \<longleftrightarrow> i \<in> set (due_authors interval now q)"
    by (force simp: due_authors_def mark_author_def stamp_discovery_def image_iff)
qed simp

lemma write_stamps_marks:
  "write_stamps fails ws q = dq.marks interval (map (\<lambda>(a, t). (a, t + interval)) (stored_writes fails ws)) q"
proof -
  have "fold (\<lambda>(a, t). stamp_discovery a t) vs q = dq.marks interval (map (\<lambda>(a, t). (a, t + interval)) vs) q" for vs
    by (induction vs arbitrary: q) (auto simp: dq.marks_simps mark_author_def)
  then show ?thesis by (simp add: write_stamps_def)
qed

lemma stored_subset: "set (stored_writes fails ws) \<subseteq> set ws"
proof -
  have "set (map snd (enumerate k ws)) = set ws" for k by simp
  then show ?thesis unfolding stored_writes_def by (metis filter_is_subset image_mono list.set_map)
qed

lemma list_due_authors:
  "set (list_discovery_due (now - interval) limit q) \<subseteq> set (filter (discovery_due (now - interval)) q)"
  unfolding list_discovery_due_def by (auto dest: in_set_takeD)

lemma tick_cases:
  obtains (skip) why where "discovery_tick now e world authors = skipped_tick why"
  | (ran) interval batch where "te_interval e = Some interval"
      "batch = discovery_batch_size (int (count_discovery_eligible authors)) interval"
      "discovery_tick now e world authors = finish_pass now interval (te_alive e) (walk_due now batch world
        (map da_id (list_discovery_due (now 0 - interval) (batch + discovery_spare) authors)) new_pass)"
proof (cases "te_interval e")
  case None
  then show ?thesis using skip by (simp add: discovery_tick_def Let_def)
next
  case (Some interval)
  show ?thesis
  proof (cases "te_bulk e \<or> te_count_fails e \<or> count_discovery_eligible authors = 0 \<or> te_list_fails e")
    case True
    then have "\<exists>why. discovery_tick now e world authors = skipped_tick why"
      unfolding discovery_tick_def Let_def Some option.case by auto
    then show ?thesis using skip by blast
  next
    case False
    then show ?thesis using ran [OF Some refl] Some by (simp add: discovery_tick_def Let_def)
  qed
qed

subsection \<open>A small library\<close>

definition two_authors :: "disc_author list" where
  "two_authors =
     [\<lparr> da_id = 1, da_foreign_id = ''OL1A'', da_monitored = True, da_new_items = None, da_checked = Some 0 \<rparr>,
      \<lparr> da_id = 2, da_foreign_id = ''OL2A'', da_monitored = True, da_new_items = Some ''all'', da_checked = None \<rparr>]"

definition fine_check :: "discovery_outcome visit" where
  "fine_check = \<lparr> vi_slept = True, vi_alive = True, vi_bulk = False,
     vi_out = \<lparr> do_created = 1, do_err = False, do_backoff = False, do_busy = False, do_unavailable = False \<rparr>,
     vi_expired = False, vi_alive_after = True \<rparr>"

definition calm_tick :: "duration \<Rightarrow> tick_env" where
  "calm_tick interval = \<lparr> te_interval = Some interval, te_bulk = False, te_count_fails = False, te_list_fails = False, te_alive = True \<rparr>"

definition some_day :: time where
  "some_day = 2000 * 24 * hour"

text \<open>An author whose stamp was stored is not listed again before the retry delay has passed, whatever the checks
  answered, however the pass ended and whichever other stamps were lost.\<close>

theorem discovery_not_rechecked:
  assumes "\<And>k. now 0 \<le> now k" "te_interval e = Some interval"
    and "a \<in> fst ` set (stored_writes fails (dp_writes (discovery_tick now e world authors)))"
    and "a \<in> da_id ` set (list_discovery_due (later - interval) limit
          (write_stamps fails (dp_writes (discovery_tick now e world authors)) authors))"
  shows "now 0 + retry_delay interval < later + second"
proof -
  let ?p = "discovery_tick now e world authors"
  let ?ws = "stored_writes fails (dp_writes ?p)"
  let ?limit = "now 0 + (retry_delay interval - interval)"
  have new: "stamps_from t new_pass" for t by (simp add: stamps_from_def new_pass_def)
  have "stamps_from ?limit ?p"
    using tick_cases [of now e world authors]
  proof cases
    case (ran i batch)
    have "i = interval" using ran(1) assms(2) by simp
    then show ?thesis
      unfolding ran(3) using from_finish [OF assms(1) from_walk [OF assms(1) new]] by simp
  qed (simp add: new skipped_tick_def)
  then have "\<forall>(b, t) \<in> set (map (\<lambda>(a, t). (a, t + interval)) ?ws). b = a \<longrightarrow> now 0 + retry_delay interval \<le> t"
    using stored_subset [of fails "dp_writes ?p"] unfolding stamps_from_def by fastforce
  moreover have "a \<in> fst ` set (map (\<lambda>(a, t). (a, t + interval)) ?ws)" using assms(3) by force
  moreover have "a \<in> set (due_authors interval later (dq.marks interval (map (\<lambda>(a, t). (a, t + interval)) ?ws) authors))"
    using assms(4) list_due_authors unfolding write_stamps_marks [of fails _ authors interval]
    by (fastforce simp: due_authors_def)
  ultimately show ?thesis by (intro dq.due_after_marks) auto
qed

lemma discovery_not_rechecked_witness:
  "some_day + retry_delay (24 * hour) < some_day + 24 * hour + 2 * second + second"
proof (rule discovery_not_rechecked [where a = 2 and e = "calm_tick (24 * hour)" and authors = two_authors and limit = 4
      and world = "\<lambda>_. fine_check" and now = "\<lambda>_. some_day" and fails = "\<lambda>_. False"])
  show "2 \<in> fst ` set (stored_writes (\<lambda>_. False)
      (dp_writes (discovery_tick (\<lambda>_. some_day) (calm_tick (24 * hour)) (\<lambda>_. fine_check) two_authors)))" by code_simp
  show "2 \<in> da_id ` set (list_discovery_due (some_day + 24 * hour + 2 * second - 24 * hour) 4 (write_stamps (\<lambda>_. False)
      (dp_writes (discovery_tick (\<lambda>_. some_day) (calm_tick (24 * hour)) (\<lambda>_. fine_check) two_authors)) two_authors))"
    by code_simp
qed (simp_all add: calm_tick_def)

lemma finish_simps [simp]:
  "map fst (dp_writes (finish_pass now interval alive p)) = (if alive then put_down p else map fst (dp_writes p))"
  "dp_result (finish_pass now interval alive p) = dp_result p" "dp_attempted (finish_pass now interval alive p) = dp_attempted p"
  by (simp_all add: finish_pass_def stamp_for_retry_def put_down_def Let_def comp_def)

lemma distinct_listed:
  assumes "distinct (map da_id authors)"
  shows "distinct (map da_id (list_discovery_due cutoff limit authors))"
proof -
  let ?sorted = "sort_key discovery_key (filter (discovery_due cutoff) authors)"
  have "distinct (map da_id (filter (discovery_due cutoff) authors))" using assms by (rule distinct_map_filter)
  then have "distinct (map da_id ?sorted)" by (simp add: distinct_map)
  then show ?thesis by (simp add: list_discovery_due_def distinct_take take_map [symmetric])
qed

text \<open>A pass counts its checks and puts each author it checked down once: on at most a batch of due authors, stamped when
  the pass ends before a shutdown, with only a rate-limited author left where it was.\<close>

theorem discovery_pass_accounts:
  assumes "distinct (map da_id authors)"
  shows "let p = discovery_tick now e world authors; r = dp_result p; ws = map fst (dp_writes p) in
    distinct ws \<and> set ws \<subseteq> da_id ` set (filter (\<lambda>a. discovery_eligible a) authors) \<and>
    int (length ws) \<le> dr_checked r \<and> (te_alive e \<longrightarrow> dr_checked r = int (length ws)) \<and>
    dp_attempted p = dr_checked r + of_bool (dr_backoff r) \<and> dp_attempted p \<le> max_discovery_batch"
proof -
  have start: "pass_inv b {} new_pass \<and> \<not> dr_backoff (dp_result new_pass)" if "0 \<le> b" for b
    using that by (simp add: pass_inv_def put_down_def new_pass_def no_result_def)
  show ?thesis
    using tick_cases [of now e world authors]
  proof cases
    case (skip why)
    then show ?thesis by (simp add: skipped_tick_def new_pass_def no_result_def max_discovery_batch_def Let_def)
  next
    case (ran interval batch)
    let ?due = "map da_id (list_discovery_due (now 0 - interval) (batch + discovery_spare) authors)"
    let ?w = "walk_due now batch world ?due new_pass"
    have batch: "1 \<le> batch" "batch \<le> max_discovery_batch" using batch_bounds ran(2) by auto
    have due: "distinct ?due" "set ?due \<subseteq> da_id ` set (filter discovery_eligible authors)"
      using distinct_listed [OF assms] list_due_authors [of "now 0" interval "batch + discovery_spare" authors]
      by (auto simp: discovery_due_def)
    have inv: "pass_inv batch (set ?due) ?w"
      using walk_inv [OF _ due(1), of batch "{}" new_pass now world] start [of batch] batch by simp
    define ws where "ws = map fst (dp_writes (discovery_tick now e world authors))"
    have ws: "ws = (if te_alive e then put_down ?w else map fst (dp_writes ?w))" unfolding ws_def ran(3) by simp
    then have 1: "distinct ws" "set ws \<subseteq> set ?due" "int (length ws) \<le> dr_checked (dp_result ?w)"
      "te_alive e \<longrightarrow> dr_checked (dp_result ?w) = int (length ws)"
      using inv by (auto simp: pass_inv_def put_down_def)
    have 2: "dp_attempted ?w = dr_checked (dp_result ?w) + of_bool (dr_backoff (dp_result ?w))"
      "dp_attempted ?w \<le> max_discovery_batch"
      using inv batch by (simp_all add: pass_inv_def)
    have 3: "dp_result (discovery_tick now e world authors) = dp_result ?w"
      "dp_attempted (discovery_tick now e world authors) = dp_attempted ?w" unfolding ran(3) by simp_all
    show ?thesis
      unfolding Let_def ws_def [symmetric] 3 by (intro conjI 1 2 subset_trans [OF 1(2) due(2)])
  qed
qed

lemma discovery_pass_accounts_witness:
  "dp_attempted (discovery_tick (\<lambda>_. some_day) (calm_tick (24 * hour)) (\<lambda>_. fine_check) two_authors) \<le> max_discovery_batch"
proof -
  have "distinct (map da_id two_authors)" by (simp add: two_authors_def)
  from discovery_pass_accounts [OF this, of "\<lambda>_. some_day" "calm_tick (24 * hour)" "\<lambda>_. fine_check"]
  show ?thesis by (simp add: Let_def)
qed

subsection \<open>Every due author is reached\<close>




















end
