(* ===== verification/Series_Monitor.thy ===== *)
theory Series_Monitor
  imports Check_Queue Series_Links Series_Proofs "HOL-Library.Code_Target_Nat"
begin

text \<open>
  \<open>internal/scheduler/series_monitor.go\<close> over the tables of \<open>series_monitoring.go\<close>: the hourly job that checks a share
  of the monitored series, as a second store behind the interface of \<open>Check_Queue\<close>.
\<close>

subsection \<open>One tick\<close>

record series_outcome =
  so_skipped :: bool
  so_status :: string
  so_message :: string
  so_created :: int
  so_err :: bool
  so_backoff :: bool
  so_busy :: bool
  so_unavailable :: bool

record series_stamp =
  ss_id :: int
  ss_when :: time
  ss_next :: time
  ss_status :: string
  ss_message :: string
  ss_created :: int

record series_result =
  sx_skipped :: string
  sx_stopped :: string
  sx_checked :: int
  sx_created :: int
  sx_timed_out :: int
  sx_backoff :: bool
  sx_breaker :: bool

record series_pass =
  sp_streak :: nat
  sp_attempted :: int
  sp_reads :: nat
  sp_stamps :: "series_stamp list"
  sp_result :: series_result

definition check_failed :: string where "check_failed = ''failed''"
definition check_timed_out :: string where "check_timed_out = ''timed_out''"
definition check_no_link :: string where "check_no_link = ''no_link''"
definition check_disabled :: string where "check_disabled = ''provider_disabled''"
definition check_ambiguous :: string where "check_ambiguous = ''ambiguous_owner''"
definition check_partial :: string where "check_partial = ''partial''"

definition stamp_series ::
    "(nat \<Rightarrow> time) \<Rightarrow> int \<Rightarrow> time \<Rightarrow> series_outcome \<Rightarrow> duration \<Rightarrow> series_pass \<Rightarrow> series_pass" where
  "stamp_series now i began out delay p =
     (let (status, message) = (if so_err out \<and> so_status out = []
            then (check_failed, ''The check failed and will be retried.'') else (so_status out, so_message out))
      in p\<lparr>sp_reads := sp_reads p + 1, sp_stamps := sp_stamps p @ [\<lparr> ss_id = i, ss_when = began,
             ss_next = now (sp_reads p) + delay, ss_status = status, ss_message = message, ss_created = so_created out \<rparr>]\<rparr>)"

definition settle_series ::
    "(nat \<Rightarrow> time) \<Rightarrow> duration \<Rightarrow> int \<Rightarrow> time \<Rightarrow> series_outcome \<Rightarrow> bool \<Rightarrow> series_pass \<Rightarrow> series_pass" where
  "settle_series now interval i began out expired p =
     (let res = sp_result p; retry = retry_delay interval in
      if expired then stamp_series now i began
             (out\<lparr>so_status := check_timed_out, so_message := ''The check ran out of time and will be retried.''\<rparr>) interval
             (p\<lparr>sp_streak := sp_streak p + 1, sp_result := res\<lparr>sx_timed_out := sx_timed_out res + 1\<rparr>\<rparr>)
      else if so_err out \<and> so_unavailable out then stamp_series now i began
             (out\<lparr>so_status := check_failed, so_message := ''The metadata provider looks unavailable. Bindery will retry soon.''\<rparr>)
             retry (p\<lparr>sp_streak := sp_streak p + 1\<rparr>)
      else if so_err out then (stamp_series now i began out interval p)\<lparr>sp_streak := 0\<rparr>
      else if so_status out \<in> {check_no_link, check_disabled, check_ambiguous, check_partial}
      then (stamp_series now i began out retry p)\<lparr>sp_streak := 0\<rparr>
      else (stamp_series now i began out interval p)\<lparr>sp_streak := 0\<rparr>)"

fun walk_series ::
    "(nat \<Rightarrow> time) \<Rightarrow> duration \<Rightarrow> int \<Rightarrow> (int \<Rightarrow> series_outcome visit) \<Rightarrow> int list \<Rightarrow> series_pass \<Rightarrow> series_pass" where
  "walk_series now interval batch world [] p = p"
| "walk_series now interval batch world (i # is) p =
     (let v = world i; out = vi_out v; res = sp_result p in
      if sp_attempted p \<ge> batch then p
      else if sp_attempted p > 0 \<and> \<not> vi_slept v then p
      else if \<not> vi_alive v then p
      else if vi_bulk v then p\<lparr>sp_result := res\<lparr>sx_stopped := ''bulk refresh running''\<rparr>\<rparr>
      else
        (let began = now (sp_reads p); p0 = p\<lparr>sp_reads := sp_reads p + 1\<rparr> in
         if \<not> vi_alive_after v then p0
         else if so_skipped out \<or> so_busy out \<and> \<not> timed_out v then walk_series now interval batch world is p0
         else
           (let p1 = p0\<lparr>sp_attempted := sp_attempted p + 1, sp_result := res\<lparr>sx_created := sx_created res + so_created out\<rparr>\<rparr>;
                res1 = sp_result p1
            in if so_backoff out then p1\<lparr>sp_result := res1\<lparr>sx_backoff := True\<rparr>\<rparr>
               else
                 (let p2 = settle_series now interval i began out (timed_out v)
                        (p1\<lparr>sp_result := res1\<lparr>sx_checked := sx_checked res1 + 1\<rparr>\<rparr>)
                  in if sp_streak p2 \<ge> discovery_failure_breaker
                     then p2\<lparr>sp_result := (sp_result p2)\<lparr>sx_breaker := True\<rparr>\<rparr>
                     else walk_series now interval batch world is p2))))"

declare walk_series.simps(2) [simp del]

definition series_nothing :: "string \<Rightarrow> series_pass" where
  "series_nothing why = \<lparr> sp_streak = 0, sp_attempted = 0, sp_reads = 1, sp_stamps = [],
     sp_result = \<lparr> sx_skipped = why, sx_stopped = [], sx_checked = 0, sx_created = 0, sx_timed_out = 0,
       sx_backoff = False, sx_breaker = False \<rparr> \<rparr>"

text \<open>The count and the list are two statements; what else runs between them shows in the tables each one sees.\<close>

record series_tick_env =
  se_interval :: "duration option"
  se_bulk :: bool

definition series_tick ::
    "(nat \<Rightarrow> time) \<Rightarrow> series_tick_env \<Rightarrow> (int \<Rightarrow> series_outcome visit) \<Rightarrow> series_db \<Rightarrow> series_pass \<times> series_db" where
  "series_tick now e world d =
     (case se_interval e of
        None \<Rightarrow> (series_nothing ''off'', d)
      | Some interval \<Rightarrow>
          if se_bulk e then (series_nothing ''bulk refresh running'', d)
          else (case count_monitoring_eligible d of
              (Inl _, d1) \<Rightarrow> (series_nothing ''count failed'', d1)
            | (Inr eligible, d1) \<Rightarrow>
                if eligible = 0 then (series_nothing ''no monitored series'', d1)
                else
                  (let batch = discovery_batch_size (int eligible) interval in
                   case list_monitoring_due (now 0) (batch + discovery_spare) d1 of
                     (Inl _, d2) \<Rightarrow> (series_nothing ''list failed'', d2)
                   | (Inr listed, d2) \<Rightarrow> (walk_series now interval batch world (map sr_id listed) (series_nothing []), d2))))"

text \<open>The stamps of a pass as statements of their own; a failing one is logged and the pass goes on.\<close>

definition store_stamp :: "series_stamp \<Rightarrow> series_db \<Rightarrow> series_db" where
  "store_stamp s d = snd (stamp_check (ss_id s) (ss_when s) (ss_next s) (ss_status s) (ss_message s) (ss_created s) d)"

subsection \<open>The monitoring rows as a check queue\<close>

definition due_series :: "time \<Rightarrow> series_tables \<Rightarrow> int list" where
  "due_series now t = map sr_id (filter
     (\<lambda>r. sr_monitored r \<and> (case next_check t (sr_id r) of None \<Rightarrow> True | Some due \<Rightarrow> due \<le> to_second now)) (st_series t))"

definition mark_series :: "int \<Rightarrow> time \<Rightarrow> series_tables \<Rightarrow> series_tables" where
  "mark_series i t q =
     (let note = (\<lambda>m. m\<lparr>sm_next_check_at := Some (to_second t)\<rparr>)
      in case upsert_monitoring (note (new_monitoring i monitor_upcoming 0)) note q of Inl e \<Rightarrow> q | Inr (u, q') \<Rightarrow> q')"

lemma monitoring_upsert:
  assumes "upsert_monitoring row f t = Inr (u, t')" "\<And>m. sm_series_id (f m) = sm_series_id m"
  shows "st_series t' = st_series t \<and> monitoring_of j t' = (if j = sm_series_id row
    then Some (case monitoring_of j t of None \<Rightarrow> row | Some m \<Rightarrow> f m) else monitoring_of j t)"
proof -
  let ?i = "sm_series_id row"
  let ?find = "\<lambda>j. find (\<lambda>m. sm_series_id m = j)"
  have upd: "?find j (map (\<lambda>m. if sm_series_id m = ?i then f m else m) ms) =
      (if j = ?i then map_option f (?find j ms) else ?find j ms)" for ms
    by (induction ms) (auto simp: assms(2))
  have app: "?find j (ms @ [row]) = (case ?find j ms of None \<Rightarrow> if j = ?i then Some row else None | Some m \<Rightarrow> Some m)" for ms
    by (induction ms) auto
  have there: "list_ex (\<lambda>m. sm_series_id m = ?i) ms \<longleftrightarrow> ?find ?i ms \<noteq> None" for ms
    by (induction ms) auto
  show ?thesis
  proof (cases "list_ex (\<lambda>m. sm_series_id m = ?i) (st_monitoring t)")
    case True
    then have t': "t' = t\<lparr>st_monitoring := map (\<lambda>m. if sm_series_id m = ?i then f m else m) (st_monitoring t)\<rparr>"
      using assms(1) by (simp add: upsert_monitoring_def Let_def)
    show ?thesis using True there [of "st_monitoring t"] unfolding t' monitoring_of_def by (auto simp: upd)
  next
    case False
    then have t': "t' = t\<lparr>st_monitoring := st_monitoring t @ [row]\<rparr>"
      using assms(1) by (simp add: upsert_monitoring_def Let_def split: if_splits)
    show ?thesis using False there [of "st_monitoring t"] unfolding t' monitoring_of_def
      by (auto simp: app split: option.split)
  qed
qed

text \<open>For the series there are, marking sets the next check and nothing else of the queue.\<close>

lemma mark_series_next:
  "st_series (mark_series i t q) = st_series q \<and>
   (\<forall>j \<in> set (series_ids q). next_check (mark_series i t q) j = (if j = i then Some (to_second t) else next_check q j))"
proof (cases "upsert_monitoring ((new_monitoring i monitor_upcoming 0)\<lparr>sm_next_check_at := Some (to_second t)\<rparr>)
    (\<lambda>m. m\<lparr>sm_next_check_at := Some (to_second t)\<rparr>) q")
  case (Inl e)
  then show ?thesis by (auto simp: mark_series_def Let_def upsert_monitoring_def new_monitoring_def split: if_splits)
next
  case (Inr a)
  obtain u q' where a: "a = (u, q')" by (cases a)
  have "mark_series i t q = q'" using Inr by (simp add: mark_series_def Let_def a)
  then show ?thesis
    using monitoring_upsert [OF Inr [unfolded a]] by (auto simp: next_check_def new_monitoring_def split: option.splits)
qed

definition due_row :: "time \<Rightarrow> time option \<Rightarrow> series_row \<Rightarrow> bool" where
  "due_row now check r \<longleftrightarrow> sr_monitored r \<and> (case check of None \<Rightarrow> True | Some due \<Rightarrow> due \<le> to_second now)"

lemma due_series_iff:
  "i \<in> set (due_series now t) \<longleftrightarrow> (\<exists>r \<in> set (st_series t). sr_id r = i \<and> due_row now (next_check t i) r)"
  by (auto simp: due_series_def due_row_def)

interpretation sq: check_queue due_series mark_series "\<lambda>_. True"
proof unfold_locales
  fix q :: series_tables and i j :: int and now t :: time
  assume due: "i \<in> set (due_series now (mark_series i t q))"
  then have "i \<in> set (series_ids q)" using mark_series_next [of i t q] by (auto simp: due_series_def series_ids_def)
  then have "next_check (mark_series i t q) i = Some (to_second t)" using mark_series_next [of i t q] by simp
  then have "to_second t \<le> to_second now" using due by (auto simp: due_series_iff due_row_def)
  then show "t < now + second" using to_second_gt [of t] to_second_le [of now] by linarith
next
  fix q :: series_tables and i j :: int and now t :: time
  assume "i \<noteq> j"
  then show "i \<in> set (due_series now (mark_series j t q)) \<longleftrightarrow> i \<in> set (due_series now q)"
    using mark_series_next [of j t q] by (fastforce simp: due_series_iff series_ids_def)
qed simp

text \<open>A stored stamp marks its series; the other columns it writes do not matter to the queue.\<close>

definition same_queue :: "series_tables \<Rightarrow> series_tables \<Rightarrow> bool" where
  "same_queue t t' \<longleftrightarrow> st_series t = st_series t' \<and> (\<forall>i \<in> set (series_ids t). next_check t i = next_check t' i)"

lemma same_queue_due: "same_queue t t' \<Longrightarrow> i \<in> set (due_series now t) \<longleftrightarrow> i \<in> set (due_series now t')"
  by (fastforce simp: same_queue_def due_series_iff series_ids_def)

lemma store_stamp_marks:
  assumes "outcomes d = []" "same_queue (tabs d) q"
  shows "outcomes (store_stamp s d) = [] \<and> same_queue (tabs (store_stamp s d)) (mark_series (ss_id s) (ss_next s) q)"
proof -
  define noted where "noted = (\<lambda>m :: series_monitoring. m\<lparr>sm_last_check_at := Some (to_second (ss_when s)),
    sm_last_ok_at := (case (if ss_status s = check_ok then Some (to_second (ss_when s)) else None) of
      None \<Rightarrow> sm_last_ok_at m | Some ok \<Rightarrow> Some ok),
    sm_next_check_at := Some (to_second (ss_next s)),
    sm_last_status := ss_status s, sm_last_message := ss_message s, sm_last_created := ss_created s\<rparr>)"
  have store: "store_stamp s d = snd (stmt (upsert_monitoring (noted (new_monitoring (ss_id s) monitor_upcoming 0)) noted) d)"
    by (simp add: store_stamp_def stamp_check_def noted_def Let_def)
  have ids: "series_ids (tabs d) = series_ids q" using assms(2) by (simp add: same_queue_def series_ids_def)
  note mark = mark_series_next [of "ss_id s" "ss_next s" q]
  show ?thesis
  proof (cases "upsert_monitoring (noted (new_monitoring (ss_id s) monitor_upcoming 0)) noted (tabs d)")
    case (Inl e)
    then have "ss_id s \<notin> set (series_ids q)" unfolding ids [symmetric]
      by (auto simp: upsert_monitoring_def noted_def new_monitoring_def Let_def split: if_splits)
    then show ?thesis
      using Inl assms mark ids unfolding store by (auto simp: stmt_def Let_def same_queue_def)
  next
    case (Inr a)
    obtain u t' where a: "a = (u, t')" by (cases a)
    have "st_series t' = st_series (tabs d) \<and> (\<forall>j. next_check t' j = (if j = ss_id s then Some (to_second (ss_next s)) else next_check (tabs d) j))"
      using monitoring_upsert [OF Inr [unfolded a]]
      by (auto simp: next_check_def noted_def new_monitoring_def split: option.splits)
    moreover have "tabs (store_stamp s d) = t'" "outcomes (store_stamp s d) = []"
      using Inr assms(1) unfolding store by (simp_all add: stmt_def Let_def a)
    ultimately show ?thesis using assms(2) mark ids by (auto simp: same_queue_def series_ids_def)
  qed
qed

lemma store_stamps_mark:
  "outcomes d = [] \<Longrightarrow> same_queue (tabs d) q \<Longrightarrow>
    outcomes (fold store_stamp ss d) = [] \<and> same_queue (tabs (fold store_stamp ss d)) (sq.marks (map (\<lambda>s. (ss_id s, ss_next s)) ss) q)"
proof (induction ss arbitrary: d q)
  case (Cons s ss)
  have "outcomes (store_stamp s d) = []" "same_queue (tabs (store_stamp s d)) (mark_series (ss_id s) (ss_next s) q)"
    using store_stamp_marks [OF Cons.prems, of s] by simp_all
  from Cons.IH [OF this] show ?case by (simp add: sq.marks_simps)
qed (simp add: sq.marks_simps)

subsection \<open>When a checked series is due again\<close>

definition next_from :: "time \<Rightarrow> series_pass \<Rightarrow> bool" where
  "next_from t0 p \<longleftrightarrow> (\<forall>s \<in> set (sp_stamps p). t0 \<le> ss_next s)"

lemma next_update [simp]:
  "next_from t0 (p\<lparr>sp_attempted := n\<rparr>) = next_from t0 p" "next_from t0 (p\<lparr>sp_streak := k\<rparr>) = next_from t0 p"
  "next_from t0 (p\<lparr>sp_result := r\<rparr>) = next_from t0 p" "next_from t0 (p\<lparr>sp_reads := k\<rparr>) = next_from t0 p"
  by (simp_all add: next_from_def)

lemma next_nothing [simp]: "next_from t0 (series_nothing why)"
  by (simp add: next_from_def series_nothing_def)

lemma next_stamp:
  "(\<And>k. t0 \<le> now k + delay) \<Longrightarrow> next_from t0 p \<Longrightarrow> next_from t0 (stamp_series now i began out delay p)"
  by (auto simp: next_from_def stamp_series_def Let_def)

lemma next_settle:
  assumes "\<And>k. now 0 \<le> now k" "next_from (now 0 + retry_delay interval) p"
  shows "next_from (now 0 + retry_delay interval) (settle_series now interval i began out expired p)"
proof -
  have "retry_delay interval \<le> interval" by (simp add: retry_delay_def)
  then have "now 0 + retry_delay interval \<le> now k + interval" "now 0 + retry_delay interval \<le> now k + retry_delay interval" for k
    using assms(1) [of k] by linarith+
  then show ?thesis using assms(2) by (simp add: settle_series_def Let_def next_stamp)
qed

lemma next_walk:
  "(\<And>k. now 0 \<le> now k) \<Longrightarrow> next_from (now 0 + retry_delay interval) p \<Longrightarrow>
    next_from (now 0 + retry_delay interval) (walk_series now interval batch world is p)"
proof (induction "is" arbitrary: p)
  case (Cons i "is")
  show ?case unfolding walk_series.simps Let_def using Cons by (simp add: next_settle)
qed simp

text \<open>A series the job stamped is not listed again before the retry delay has passed: six hours or, when it is
  shorter, the interval.\<close>

lemma series_tick_calm:
  assumes "\<And>k. now 0 \<le> now k" "se_interval e = Some interval" "outcomes d = []" "series_tick now e world d = (p, d1)"
  shows "d1 = d \<and> next_from (now 0 + retry_delay interval) p"
proof -
  have eligible: "count_monitoring_eligible d = (Inr (length (filter sr_monitored (st_series (tabs d)))), d)"
    unfolding count_monitoring_eligible_def by (rule query_calm [OF assms(3)])
  have listed: "\<exists>listed. list_monitoring_due t n d = (Inr listed, d)" for t n
    unfolding list_monitoring_due_def give_def by (simp add: query_calm [OF assms(3)])
  show ?thesis
  proof (cases "se_bulk e \<or> length (filter sr_monitored (st_series (tabs d))) = 0")
    case True
    then show ?thesis using assms(2,4) unfolding series_tick_def eligible
      by (auto split: if_splits)
  next
    case False
    define batch where "batch = discovery_batch_size (int (length (filter sr_monitored (st_series (tabs d))))) interval"
    obtain rows where "list_monitoring_due (now 0) (batch + discovery_spare) d = (Inr rows, d)" using listed by blast
    then have "(p, d1) = (walk_series now interval batch world (map sr_id rows) (series_nothing []), d)"
      using assms(2,4) False by (simp add: series_tick_def eligible batch_def [symmetric])
    then show ?thesis by (simp add: next_walk [where now = now, OF assms(1)])
  qed
qed

theorem series_not_rechecked:
  assumes "\<And>k. now 0 \<le> now k" "se_interval e = Some interval" "outcomes d = []"
    and "series_tick now e world d = (p, d1)" "i \<in> ss_id ` set (sp_stamps p)"
    and "list_monitoring_due later limit (fold store_stamp (sp_stamps p) d1) = (Inr listed, d2)" "i \<in> sr_id ` set listed"
  shows "now 0 + retry_delay interval < later + second"
proof -
  have from0: "next_from (now 0 + retry_delay interval) p" and d1: "d1 = d"
    using series_tick_calm [where now = now, OF assms(1-4)] by simp_all
  let ?ws = "map (\<lambda>s. (ss_id s, ss_next s)) (sp_stamps p)"
  have same: "outcomes (fold store_stamp (sp_stamps p) d) = []"
    "same_queue (tabs (fold store_stamp (sp_stamps p) d)) (sq.marks ?ws (tabs d))"
    using store_stamps_mark [OF assms(3), of "tabs d" "sp_stamps p"] by (simp_all add: same_queue_def)
  have "i \<in> set (due_series later (tabs (fold store_stamp (sp_stamps p) d)))"
    using assms(6,7) unfolding d1
    by (auto simp: list_monitoring_due_def give_def query_def stmt_def Let_def same(1) due_series_def
        split: if_splits dest!: in_set_takeD)
  then have "i \<in> set (due_series later (sq.marks ?ws (tabs d)))" using same_queue_due [OF same(2)] by simp
  moreover have "\<forall>(j, t) \<in> set ?ws. j = i \<longrightarrow> now 0 + retry_delay interval \<le> t" using from0 by (auto simp: next_from_def)
  moreover have "i \<in> fst ` set ?ws" using assms(5) by force
  ultimately show ?thesis by (intro sq.due_after_marks) auto
qed

text \<open>One monitored series without a provider link: checked at time 0, due again from hour six on.\<close>

definition one_monitored :: series_db where
  "one_monitored = \<lparr> tabs = \<lparr>
     st_series = [(fresh_series 1 ''ol:1'' ''A'' ''a'' [] 0)\<lparr>sr_monitored := True\<rparr>],
     st_members = [], st_aliases = [], st_links = [], st_exclusions = [], st_monitoring = [], st_pins = [], st_recs = [],
     st_books = [], st_last_id = 1 \<rparr>, outcomes = [] \<rparr>"

definition unlinked :: "series_outcome visit" where
  "unlinked = \<lparr> vi_slept = True, vi_alive = True, vi_bulk = False,
     vi_out = \<lparr> so_skipped = False, so_status = check_no_link, so_message = [], so_created = 0, so_err = False,
       so_backoff = False, so_busy = False, so_unavailable = False \<rparr>,
     vi_expired = False, vi_alive_after = True \<rparr>"

definition first_pass :: "series_pass \<times> series_db" where
  "first_pass = series_tick (\<lambda>_. 0) \<lparr> se_interval = Some (24 * hour), se_bulk = False \<rparr> (\<lambda>_. unlinked) one_monitored"

definition due_at_six :: "(series_error + series_row list) \<times> series_db" where
  "due_at_six = list_monitoring_due (6 * hour) 5 (fold store_stamp (sp_stamps (fst first_pass)) (snd first_pass))"

lemma series_not_rechecked_witness:
  "map ss_id (sp_stamps (fst first_pass)) = [1] \<and> map sr_id (projr (fst due_at_six)) = [1] \<and>
    0 + retry_delay (24 * hour) < 6 * hour + second"
proof -
  have ids: "map ss_id (sp_stamps (fst first_pass)) = [1]" "map sr_id (projr (fst due_at_six)) = [1]" "\<not> isl (fst due_at_six)"
    by code_simp+
  then have "list_monitoring_due (6 * hour) 5 (fold store_stamp (sp_stamps (fst first_pass)) (snd first_pass)) =
      (Inr (projr (fst due_at_six)), snd due_at_six)" unfolding due_at_six_def by (metis prod.collapse sum.collapse(2))
  moreover have "series_tick (\<lambda>_. 0) \<lparr> se_interval = Some (24 * hour), se_bulk = False \<rparr> (\<lambda>_. unlinked) one_monitored =
      (fst first_pass, snd first_pass)" by (simp add: first_pass_def)
  moreover have "1 \<in> ss_id ` set (sp_stamps (fst first_pass))" "1 \<in> sr_id ` set (projr (fst due_at_six))"
    using ids(1,2) by (metis list.set_intros(1) list.set_map)+
  ultimately have "0 + retry_delay (24 * hour) < 6 * hour + second"
    by (intro series_not_rechecked [where now = "\<lambda>_. 0" and e = "\<lparr> se_interval = Some (24 * hour), se_bulk = False \<rparr>"
        and d = one_monitored and interval = "24 * hour" and i = 1 and world = "\<lambda>_. unlinked"]) (simp_all add: one_monitored_def)
  then show ?thesis using ids by simp
qed

end
