(* ===== verification/Event_System.thy ===== *)
theory Event_System
  imports Main
begin

text \<open>
  Concurrent parts as event systems: one event is one atomic step of one goroutine (or of the clock or the caller),
  refused when it cannot happen in that state; an interleaving is a list of events. The locales give the invariant,
  the bound on the length and the simulation of whole interleavings from their single steps.
\<close>

fun run_events :: "('e \<Rightarrow> 's \<Rightarrow> 's option) \<Rightarrow> 'e list \<Rightarrow> 's \<Rightarrow> 's option" where
  "run_events step [] s = Some s"
| "run_events step (e # es) s = Option.bind (step e s) (run_events step es)"

lemma run_append: "run_events step (es @ fs) s = Option.bind (run_events step es s) (run_events step fs)"
  by (induction es arbitrary: s) (auto split: Option.bind_split)

lemma run_snoc: "run_events step (es @ [e]) s = Option.bind (run_events step es s) (step e)"
  by (cases "run_events step es s") (simp_all add: run_append split: Option.bind_split)

locale event_system =
  fixes step :: "'e \<Rightarrow> 's \<Rightarrow> 's option" and inv :: "'s \<Rightarrow> bool"
  assumes step_inv: "inv s \<Longrightarrow> step e s = Some t \<Longrightarrow> inv t"
begin

lemma run_inv: "inv s \<Longrightarrow> run_events step es s = Some t \<Longrightarrow> inv t"
  by (induction es arbitrary: s) (auto split: Option.bind_splits dest: step_inv)

end

text \<open>When every event leaves less to do, an interleaving is no longer than what was left at its start.\<close>

locale ending_system = event_system step inv for step :: "'e \<Rightarrow> 's \<Rightarrow> 's option" and inv +
  fixes left_of :: "'s \<Rightarrow> nat"
  assumes step_less: "inv s \<Longrightarrow> step e s = Some t \<Longrightarrow> left_of t < left_of s"
begin

lemma run_bound: "inv s \<Longrightarrow> run_events step es s = Some t \<Longrightarrow> length es + left_of t \<le> left_of s"
proof (induction es arbitrary: s)
  case (Cons e es)
  then obtain u where u: "step e s = Some u" "run_events step es u = Some t" by (auto split: Option.bind_splits)
  then show ?case using Cons.IH [of u] step_inv [OF Cons.prems(1) u(1)] step_less [OF Cons.prems(1) u(1)] by simp
qed simp

end

text \<open>Each concrete event is an abstract one or changes nothing the abstraction sees.\<close>

locale event_refinement = event_system step inv for step :: "'e \<Rightarrow> 's \<Rightarrow> 's option" and inv +
  fixes astep :: "'f \<Rightarrow> 'a \<Rightarrow> 'a option" and abstr :: "'s \<Rightarrow> 'a" and erase :: "'e \<Rightarrow> 'f option"
  assumes step_refines: "inv s \<Longrightarrow> step e s = Some t \<Longrightarrow>
    (case erase e of None \<Rightarrow> abstr t = abstr s | Some f \<Rightarrow> astep f (abstr s) = Some (abstr t))"
begin

lemma run_refines:
  "inv s \<Longrightarrow> run_events step es s = Some t \<Longrightarrow> run_events astep (List.map_filter erase es) (abstr s) = Some (abstr t)"
proof (induction es arbitrary: s)
  case (Cons e es)
  then obtain u where u: "step e s = Some u" "run_events step es u = Some t" by (auto split: Option.bind_splits)
  then show ?case
    using Cons.IH [of u] step_inv [OF Cons.prems(1) u(1)] step_refines [OF Cons.prems(1) u(1)]
    by (auto simp: List.map_filter_def split: option.splits)
qed (simp add: List.map_filter_def)

end

end
