(* ===== verification/Worker_Pool.thy ===== *)
theory Worker_Pool
  imports Event_System Go_Prelude "HOL-Library.Code_Target_Nat"
begin

text \<open>
  \<open>internal/concurrency/pool.go\<close>: the three fan-outs behind bulk searches, the queue view and the series fill, as event
  systems over the caller's loop, the semaphore channel, the WaitGroup and one goroutine per item.
\<close>

subsection \<open>RunBounded\<close>

text \<open>A goroutine is in the function, back from it, past the release of its slot, or past \<open>wg.Done\<close>.\<close>

datatype stage = InFn | Back | Freed | Exited

text \<open>The caller is at the select of its next item, between the slot and \<open>go\<close>, in \<open>wg.Wait\<close>, or has returned.\<close>

datatype caller = AtGate | Holding | Joining | Finished

record pool =
  pl_tasks :: "stage list"
  pl_sem :: nat
  pl_wg :: nat
  pl_caller :: caller
  pl_cancelled :: bool

datatype pool_event = Acquire | GiveUp | Spawn | FnReturns nat | FreeSlot nat | SignOff nat | Cancel | Joined

definition slots :: "int \<Rightarrow> nat" where
  "slots max_concurrent = (if max_concurrent \<le> 0 then 1 else nat max_concurrent)"

definition next_item :: "nat \<Rightarrow> pool \<Rightarrow> pool" where
  "next_item n p = p\<lparr>pl_caller := (if length (pl_tasks p) < n then AtGate else Joining)\<rparr>"

text \<open>\<open>n\<close> items are started in order, so item \<open>k\<close> belongs to goroutine \<open>k\<close>.\<close>

definition pool_start :: "bool \<Rightarrow> nat \<Rightarrow> pool" where
  "pool_start fn_nil n = \<lparr> pl_tasks = [], pl_sem = 0, pl_wg = 0,
     pl_caller = (if fn_nil \<or> n = 0 then Finished else AtGate), pl_cancelled = False \<rparr>"

definition in_stage :: "stage \<Rightarrow> nat \<Rightarrow> pool \<Rightarrow> bool" where
  "in_stage st k p \<longleftrightarrow> k < length (pl_tasks p) \<and> pl_tasks p ! k = st"

definition move_to :: "stage \<Rightarrow> nat \<Rightarrow> pool \<Rightarrow> pool" where
  "move_to st k p = p\<lparr>pl_tasks := (pl_tasks p)[k := st]\<rparr>"

fun pool_step :: "nat \<Rightarrow> nat \<Rightarrow> pool_event \<Rightarrow> pool \<Rightarrow> pool option" where
  "pool_step cap n Acquire p =
     (if pl_caller p = AtGate \<and> pl_sem p < cap then Some (p\<lparr>pl_sem := pl_sem p + 1, pl_caller := Holding\<rparr>) else None)"
| "pool_step cap n GiveUp p = (if pl_caller p = AtGate \<and> pl_cancelled p then Some (p\<lparr>pl_caller := Joining\<rparr>) else None)"
| "pool_step cap n Spawn p =
     (if pl_caller p = Holding then Some (next_item n (p\<lparr>pl_wg := pl_wg p + 1, pl_tasks := pl_tasks p @ [InFn]\<rparr>)) else None)"
| "pool_step cap n (FnReturns k) p = (if in_stage InFn k p then Some (move_to Back k p) else None)"
| "pool_step cap n (FreeSlot k) p =
     (if in_stage Back k p then Some ((move_to Freed k p)\<lparr>pl_sem := pl_sem p - 1\<rparr>) else None)"
| "pool_step cap n (SignOff k) p =
     (if in_stage Freed k p then Some ((move_to Exited k p)\<lparr>pl_wg := pl_wg p - 1\<rparr>) else None)"
| "pool_step cap n Cancel p = (if pl_cancelled p then None else Some (p\<lparr>pl_cancelled := True\<rparr>))"
| "pool_step cap n Joined p = (if pl_caller p = Joining \<and> pl_wg p = 0 then Some (p\<lparr>pl_caller := Finished\<rparr>) else None)"

definition run_bounded :: "int \<Rightarrow> nat \<Rightarrow> pool_event list \<Rightarrow> pool option" where
  "run_bounded max_concurrent n es = run_events (pool_step (slots max_concurrent) n) es (pool_start False n)"

text \<open>How many goroutines are in the function, hold a slot, or are still counted by the WaitGroup.\<close>

definition tally :: "(stage \<Rightarrow> bool) \<Rightarrow> pool \<Rightarrow> nat" where
  "tally P p = length (filter P (pl_tasks p))"

definition pool_inv :: "nat \<Rightarrow> nat \<Rightarrow> pool \<Rightarrow> bool" where
  "pool_inv cap n p \<longleftrightarrow>
     pl_sem p = tally (\<lambda>st. st \<in> {InFn, Back}) p + of_bool (pl_caller p = Holding) \<and> pl_sem p \<le> cap \<and>
     pl_wg p = tally (\<lambda>st. st \<noteq> Exited) p \<and>
     length (pl_tasks p) + of_bool (pl_caller p \<in> {AtGate, Holding}) \<le> n \<and>
     (pl_caller p \<in> {Joining, Finished} \<and> \<not> pl_cancelled p \<longrightarrow> length (pl_tasks p) = n) \<and>
     (pl_caller p = Finished \<longrightarrow> pl_wg p = 0)"

text \<open>What is left to do, in events.\<close>

definition stage_left :: "stage \<Rightarrow> nat" where
  "stage_left st = (case st of InFn \<Rightarrow> 3 | Back \<Rightarrow> 2 | Freed \<Rightarrow> 1 | Exited \<Rightarrow> 0)"

definition caller_left :: "caller \<Rightarrow> nat" where
  "caller_left c = (case c of AtGate \<Rightarrow> 2 | Holding \<Rightarrow> 1 | Joining \<Rightarrow> 1 | Finished \<Rightarrow> 0)"

definition pool_left :: "nat \<Rightarrow> pool \<Rightarrow> nat" where
  "pool_left n p = 5 * (n - length (pl_tasks p)) + sum_list (map stage_left (pl_tasks p)) + caller_left (pl_caller p) +
     of_bool (\<not> pl_cancelled p)"

lemma filter_update_length:
  "k < length xs \<Longrightarrow> length (filter P (xs[k := x])) + of_bool (P (xs ! k)) = length (filter P xs) + of_bool (P x)"
proof (induction xs arbitrary: k)
  case (Cons y ys)
  then show ?case by (cases k) auto
qed simp

lemma sum_update: "k < length xs \<Longrightarrow> sum_list (map f (xs[k := x])) + f (xs ! k) = sum_list (map f xs) + (f x :: nat)"
proof (induction xs arbitrary: k)
  case (Cons y ys)
  then show ?case by (cases k) auto
qed simp

lemma tally_move:
  "in_stage st k p \<Longrightarrow> tally P (move_to st' k p) + of_bool (P st) = tally P p + of_bool (P st')"
  using filter_update_length [of k "pl_tasks p" P st'] by (auto simp: in_stage_def tally_def move_to_def)

lemma left_move:
  "in_stage st k p \<Longrightarrow> sum_list (map stage_left (pl_tasks (move_to st' k p))) + stage_left st
     = sum_list (map stage_left (pl_tasks p)) + stage_left st'"
  using sum_update [of k "pl_tasks p" stage_left st'] by (auto simp: in_stage_def move_to_def)

lemma move_simps [simp]:
  "pl_sem (move_to st k p) = pl_sem p" "pl_wg (move_to st k p) = pl_wg p" "pl_caller (move_to st k p) = pl_caller p"
  "pl_cancelled (move_to st k p) = pl_cancelled p" "length (pl_tasks (move_to st k p)) = length (pl_tasks p)"
  by (simp_all add: move_to_def)

lemma tally_simps [simp]:
  "tally P (p\<lparr>pl_sem := s\<rparr>) = tally P p" "tally P (p\<lparr>pl_wg := s\<rparr>) = tally P p" "tally P (p\<lparr>pl_caller := c\<rparr>) = tally P p"
  "tally P (p\<lparr>pl_cancelled := b\<rparr>) = tally P p" "tally P (q\<lparr>pl_tasks := pl_tasks p @ [st]\<rparr>) = tally P p + of_bool (P st)"
  by (simp_all add: tally_def)

lemma tally_mono: "(\<And>st. P st \<Longrightarrow> Q st) \<Longrightarrow> tally P p \<le> tally Q p"
proof -
  assume "\<And>st. P st \<Longrightarrow> Q st"
  then have "length (filter P sts) \<le> length (filter Q sts)" for sts by (induction sts) (auto simp: le_SucI)
  then show ?thesis by (simp add: tally_def)
qed

lemma pool_step_inv:
  assumes inv: "pool_inv cap n p" and step: "pool_step cap n e p = Some q"
  shows "pool_inv cap n q"
proof (cases e)
  case (FnReturns k)
  then show ?thesis
    using inv step tally_move [of InFn k p "\<lambda>st. st \<in> {InFn, Back}" Back] tally_move [of InFn k p "\<lambda>st. st \<noteq> Exited" Back]
    by (auto simp: pool_inv_def split: if_splits)
next
  case (FreeSlot k)
  then show ?thesis
    using inv step tally_move [of Back k p "\<lambda>st. st \<in> {InFn, Back}" Freed] tally_move [of Back k p "\<lambda>st. st \<noteq> Exited" Freed]
    by (auto simp: pool_inv_def split: if_splits)
next
  case (SignOff k)
  then show ?thesis
    using inv step tally_move [of Freed k p "\<lambda>st. st \<in> {InFn, Back}" Exited] tally_move [of Freed k p "\<lambda>st. st \<noteq> Exited" Exited]
    by (auto simp: pool_inv_def split: if_splits)
qed (use inv step in \<open>auto simp: pool_inv_def next_item_def split: if_splits\<close>)

lemma pool_step_less:
  assumes inv: "pool_inv cap n p" and step: "pool_step cap n e p = Some q"
  shows "pool_left n q < pool_left n p"
proof (cases e)
  case (FnReturns k)
  then show ?thesis using step left_move [of InFn k p Back] by (auto simp: pool_left_def stage_left_def split: if_splits)
next
  case (FreeSlot k)
  then show ?thesis using step left_move [of Back k p Freed] by (auto simp: pool_left_def stage_left_def split: if_splits)
next
  case (SignOff k)
  then show ?thesis using step left_move [of Freed k p Exited] by (auto simp: pool_left_def stage_left_def split: if_splits)
next
  case Spawn
  then have "length (pl_tasks p) < n" using inv step by (auto simp: pool_inv_def split: if_splits)
  then have "5 * (n - length (pl_tasks p)) = 5 * (n - Suc (length (pl_tasks p))) + 5" by simp
  then show ?thesis
    using Spawn step by (auto simp: pool_left_def stage_left_def caller_left_def next_item_def split: if_splits)
qed (use step in \<open>auto simp: pool_left_def caller_left_def split: if_splits\<close>)

interpretation wp: ending_system "pool_step cap n" "pool_inv cap n" "pool_left n" for cap n
  by unfold_locales (fact pool_step_inv, fact pool_step_less)

lemma pool_start_inv: "0 < n \<Longrightarrow> pool_inv cap n (pool_start False n)"
  by (simp add: pool_inv_def pool_start_def tally_def)

lemma run_bounded_inv:
  assumes "run_bounded max_concurrent n es = Some p"
  shows "pool_inv (slots max_concurrent) n p"
proof (rule wp.run_inv)
  show "pool_inv (slots max_concurrent) n (pool_start False n)" by (simp add: pool_inv_def pool_start_def tally_def)
  show "run_events (pool_step (slots max_concurrent) n) es (pool_start False n) = Some p" using assms by (simp add: run_bounded_def)
qed

text \<open>However the goroutines interleave: never more calls at once than the cap, each item's call at most once and in the
  order of the items, and when RunBounded returns no call is running and, unless it was cancelled, every item has had
  its call.\<close>

theorem run_bounded_caps:
  assumes "run_bounded max_concurrent n es = Some p"
  shows "tally (\<lambda>st. st = InFn) p \<le> slots max_concurrent \<and> length (pl_tasks p) \<le> n \<and>
    (pl_caller p = Finished \<longrightarrow> set (pl_tasks p) \<subseteq> {Exited} \<and> (pl_cancelled p \<or> length (pl_tasks p) = n))"
proof -
  have inv: "pool_inv (slots max_concurrent) n p" by (rule run_bounded_inv [OF assms])
  have "tally (\<lambda>st. st = InFn) p \<le> tally (\<lambda>st. st \<in> {InFn, Back}) p" by (rule tally_mono) simp
  moreover have "tally (\<lambda>st. st \<noteq> Exited) p = 0 \<longrightarrow> set (pl_tasks p) \<subseteq> {Exited}"
    by (auto simp: tally_def filter_empty_conv)
  ultimately show ?thesis using inv by (auto simp: pool_inv_def)
qed

text \<open>RunBounded ends: an interleaving has at most five events per item and three more, and until it has returned some
  goroutine can go on without a cancellation, given that the calls return.\<close>

theorem run_bounded_terminates:
  assumes "run_bounded max_concurrent n es = Some p"
  shows "length es \<le> 5 * n + 3 \<and>
    (pl_caller p = Finished \<or> (\<exists>e. e \<noteq> Cancel \<and> run_bounded max_concurrent n (es @ [e]) \<noteq> None))"
proof
  have start: "pool_inv (slots max_concurrent) n (pool_start False n)" by (simp add: pool_inv_def pool_start_def tally_def)
  have "pool_left n (pool_start False n) \<le> 5 * n + 3" by (simp add: pool_left_def pool_start_def caller_left_def)
  then show "length es \<le> 5 * n + 3"
    using wp.run_bound [OF start] assms by (fastforce simp: run_bounded_def)
next
  have inv: "pool_inv (slots max_concurrent) n p" by (rule run_bounded_inv [OF assms])
  let ?step = "pool_step (slots max_concurrent) n"
  have step: "run_bounded max_concurrent n (es @ [e]) = ?step e p" for e
    using assms by (simp add: run_bounded_def run_snoc)
  show "pl_caller p = Finished \<or> (\<exists>e. e \<noteq> Cancel \<and> run_bounded max_concurrent n (es @ [e]) \<noteq> None)"
  proof (cases "\<exists>k < length (pl_tasks p). pl_tasks p ! k \<noteq> Exited")
    case True
    then obtain k where "in_stage (pl_tasks p ! k) k p" "pl_tasks p ! k \<noteq> Exited" by (auto simp: in_stage_def)
    then have "\<exists>e \<in> {FnReturns k, FreeSlot k, SignOff k}. ?step e p \<noteq> None" by (cases "pl_tasks p ! k") auto
    then show ?thesis using step by fastforce
  next
    case False
    then have "pl_wg p = 0" "tally (\<lambda>st. st \<in> {InFn, Back}) p = 0"
      using inv by (auto simp: pool_inv_def tally_def filter_empty_conv in_set_conv_nth)
    moreover have "0 < slots max_concurrent" by (simp add: slots_def)
    ultimately have "\<exists>e \<in> {Acquire, Spawn, Joined}. ?step e p \<noteq> None \<or> pl_caller p = Finished"
      using inv by (cases "pl_caller p") (auto simp: pool_inv_def)
    then show ?thesis using step by fastforce
  qed
qed

text \<open>Two items, one slot.\<close>

definition two_in_turn :: "pool_event list" where
  "two_in_turn = [Acquire, Spawn, FnReturns 0, FreeSlot 0, Acquire, Spawn, SignOff 0, FnReturns 1, FreeSlot 1, SignOff 1, Joined]"

definition after_both :: pool where
  "after_both = \<lparr> pl_tasks = [Exited, Exited], pl_sem = 0, pl_wg = 0, pl_caller = Finished, pl_cancelled = False \<rparr>"

lemma two_in_turn_run: "run_bounded 1 2 two_in_turn = Some after_both"
  by code_simp

lemma run_bounded_caps_witness: "set (pl_tasks after_both) \<subseteq> {Exited} \<and> length (pl_tasks after_both) = 2"
  using run_bounded_caps [OF two_in_turn_run] by (simp add: after_both_def)

lemma run_bounded_terminates_witness: "length two_in_turn \<le> 5 * 2 + 3"
  using run_bounded_terminates [OF two_in_turn_run] by blast

subsection \<open>RunBoundedPaced\<close>

text \<open>The pace gate of the loop: at its head, in the timer's select until an instant, or past it. \<open>pp_last\<close> is
  \<open>lastStart\<close>, none while it is the zero time.\<close>

datatype pace = Head | Sleeping time | Passed

record paced =
  pp_pool :: pool
  pp_pace :: pace
  pp_last :: "time option"
  pp_clock :: time

datatype paced_event = Inner pool_event | LookAtPace | Wake | Tick duration

definition paced_start :: "bool \<Rightarrow> nat \<Rightarrow> time \<Rightarrow> paced" where
  "paced_start fn_nil n t = \<lparr> pp_pool = pool_start fn_nil n, pp_pace = Head, pp_last = None, pp_clock = t \<rparr>"

definition look :: "duration \<Rightarrow> paced \<Rightarrow> pace" where
  "look min_interval p =
     (case pp_last p of
        None \<Rightarrow> Passed
      | Some t \<Rightarrow>
          let wait = min_interval - (pp_clock p - t)
          in if min_interval > 0 \<and> wait > 0 then Sleeping (pp_clock p + wait) else Passed)"

fun paced_step :: "duration \<Rightarrow> nat \<Rightarrow> nat \<Rightarrow> paced_event \<Rightarrow> paced \<Rightarrow> paced option" where
  "paced_step min_interval cap n LookAtPace p =
     (if pl_caller (pp_pool p) = AtGate \<and> pp_pace p = Head then Some (p\<lparr>pp_pace := look min_interval p\<rparr>) else None)"
| "paced_step min_interval cap n Wake p =
     (case pp_pace p of
        Sleeping until \<Rightarrow> if pl_caller (pp_pool p) = AtGate \<and> until \<le> pp_clock p then Some (p\<lparr>pp_pace := Passed\<rparr>) else None
      | _ \<Rightarrow> None)"
| "paced_step min_interval cap n (Tick d) p = (if d > 0 then Some (p\<lparr>pp_clock := pp_clock p + d\<rparr>) else None)"
| "paced_step min_interval cap n (Inner e) p =
     (if e = Acquire \<and> pp_pace p \<noteq> Passed \<or> e = GiveUp \<and> pp_pace p = Head then None
      else map_option (\<lambda>q. if e = Spawn then p\<lparr>pp_pool := q, pp_pace := Head, pp_last := Some (pp_clock p)\<rparr> else p\<lparr>pp_pool := q\<rparr>)
             (pool_step cap n e (pp_pool p)))"

definition run_paced :: "int \<Rightarrow> duration \<Rightarrow> nat \<Rightarrow> time \<Rightarrow> paced_event list \<Rightarrow> paced option" where
  "run_paced max_concurrent min_interval n t es =
     run_events (paced_step min_interval (slots max_concurrent) n) es (paced_start False n t)"

definition paced_inv :: "duration \<Rightarrow> paced \<Rightarrow> bool" where
  "paced_inv min_interval p \<longleftrightarrow>
     (case pp_last p of None \<Rightarrow> True | Some t \<Rightarrow> t \<le> pp_clock p \<and>
        (case pp_pace p of Head \<Rightarrow> pl_caller (pp_pool p) \<noteq> Holding
         | Sleeping until \<Rightarrow> t + min_interval \<le> until \<and> pl_caller (pp_pool p) \<noteq> Holding
         | Passed \<Rightarrow> t + min_interval \<le> pp_clock p))"

lemma pool_step_holding: "pool_step cap n e p = Some q \<Longrightarrow> pl_caller q = Holding \<Longrightarrow> e = Acquire \<or> pl_caller p = Holding"
  by (cases e) (auto simp: next_item_def split: if_splits)

lemma inner_step:
  assumes "paced_step min_interval cap n (Inner f) p = Some q"
  obtains (spawn) r where "f = Spawn" "pl_caller (pp_pool p) = Holding" "pl_caller r \<noteq> Holding"
      "q = p\<lparr>pp_pool := r, pp_pace := Head, pp_last := Some (pp_clock p)\<rparr>"
  | (other) r where "f \<noteq> Spawn" "q = p\<lparr>pp_pool := r\<rparr>"
      "pl_caller r = Holding \<Longrightarrow> pp_pace p = Passed \<or> pl_caller (pp_pool p) = Holding"
proof -
  from assms obtain r where r: "pool_step cap n f (pp_pool p) = Some r" "f = Acquire \<longrightarrow> pp_pace p = Passed"
    "q = (if f = Spawn then p\<lparr>pp_pool := r, pp_pace := Head, pp_last := Some (pp_clock p)\<rparr> else p\<lparr>pp_pool := r\<rparr>)"
    by (auto split: if_splits)
  show thesis
  proof (cases "f = Spawn")
    case True
    then show thesis using r spawn [of r] by (auto simp: next_item_def split: if_splits)
  next
    case False
    then show thesis using r pool_step_holding [OF r(1)] other [of r] by auto
  qed
qed

lemma paced_step_inv:
  assumes inv: "paced_inv min_interval p" and step: "paced_step min_interval cap n e p = Some q"
  shows "paced_inv min_interval q"
proof (cases e)
  case (Inner f)
  from step [unfolded this] show ?thesis
  proof (cases rule: inner_step)
    case (spawn r)
    then show ?thesis by (simp add: paced_inv_def)
  next
    case (other r)
    then show ?thesis using inv by (auto simp: paced_inv_def split: option.splits pace.splits)
  qed
qed (use inv step in \<open>auto simp: paced_inv_def look_def Let_def split: if_splits option.splits pace.splits\<close>)

definition erase_pace :: "paced_event \<Rightarrow> pool_event option" where
  "erase_pace e = (case e of Inner f \<Rightarrow> Some f | _ \<Rightarrow> None)"

interpretation pp: event_refinement "paced_step min_interval cap n" "\<lambda>_. True" "pool_step cap n" pp_pool erase_pace
  for min_interval cap n
proof unfold_locales
  fix e p q
  assume "paced_step min_interval cap n e p = Some q"
  then show "case erase_pace e of None \<Rightarrow> pp_pool q = pp_pool p | Some f \<Rightarrow> pool_step cap n f (pp_pool p) = Some (pp_pool q)"
    by (cases e) (auto simp: erase_pace_def split: if_splits pace.splits)
qed simp

interpretation pace: event_system "paced_step min_interval cap n" "paced_inv min_interval" for min_interval cap n
  by unfold_locales (fact paced_step_inv)

text \<open>Pacing only removes interleavings: seen without the clock, a paced run is a run of RunBounded.\<close>

lemma paced_is_bounded:
  "run_paced max_concurrent min_interval n t es = Some p \<Longrightarrow>
    run_bounded max_concurrent n (List.map_filter erase_pace es) = Some (pp_pool p)"
  unfolding run_paced_def run_bounded_def by (drule pp.run_refines [OF TrueI]) (simp add: paced_start_def)

text \<open>Each start of a paced run comes at least the interval after the start before it.\<close>

theorem paced_starts_apart:
  assumes "run_paced max_concurrent min_interval n t es = Some p" "pp_last p = Some before"
    and "run_paced max_concurrent min_interval n t (es @ [Inner Spawn]) = Some q"
  shows "\<exists>start. pp_last q = Some start \<and> before + min_interval \<le> start"
proof -
  have "paced_inv min_interval (paced_start False n t)" by (simp add: paced_inv_def paced_start_def)
  then have "paced_inv min_interval p" using pace.run_inv assms(1) unfolding run_paced_def by blast
  have "paced_step min_interval (slots max_concurrent) n (Inner Spawn) p = Some q"
    using assms(1,3) by (simp add: run_paced_def run_snoc)
  then show ?thesis
  proof (cases rule: inner_step)
    case (spawn r)
    then show ?thesis using \<open>paced_inv min_interval p\<close> assms(2) by (auto simp: paced_inv_def split: pace.splits)
  qed simp
qed

text \<open>With no interval to keep the two are the same: they reach the same states of the pool.\<close>

lemma paced_lift:
  assumes "min_interval \<le> 0" "run_bounded max_concurrent n es = Some p"
  shows "\<exists>fs q. run_paced max_concurrent min_interval n t fs = Some q \<and> pp_pool q = p \<and>
    (pp_pace q = Passed \<or> pp_pace q = Head \<and> pl_caller p \<noteq> AtGate)"
  using assms(2)
proof (induction es arbitrary: p rule: rev_induct)
  case Nil
  have look: "look min_interval (paced_start False n t) = Passed" by (simp add: look_def paced_start_def)
  show ?case
  proof (cases "pl_caller (pool_start False n) = AtGate")
    case True
    then have "run_paced max_concurrent min_interval n t [LookAtPace] = Some ((paced_start False n t)\<lparr>pp_pace := Passed\<rparr>)"
      using look by (simp add: run_paced_def) (simp add: paced_start_def)
    then show ?thesis using Nil
      by (intro exI [of _ "[LookAtPace]"] exI [of _ "(paced_start False n t)\<lparr>pp_pace := Passed\<rparr>"])
        (simp add: run_bounded_def paced_start_def)
  next
    case False
    then show ?thesis using Nil
      by (intro exI [of _ "[]"] exI [of _ "paced_start False n t"]) (simp add: run_paced_def run_bounded_def paced_start_def)
  qed
next
  case (snoc e es)
  then obtain p0 where p0: "run_bounded max_concurrent n es = Some p0" "pool_step (slots max_concurrent) n e p0 = Some p"
    by (auto simp: run_bounded_def run_snoc split: Option.bind_splits)
  from snoc.IH [OF p0(1)] obtain fs q where q: "run_paced max_concurrent min_interval n t fs = Some q" "pp_pool q = p0"
    "pp_pace q = Passed \<or> pp_pace q = Head \<and> pl_caller p0 \<noteq> AtGate" by blast
  define q1 where "q1 = (if e = Spawn then q\<lparr>pp_pool := p, pp_pace := Head, pp_last := Some (pp_clock q)\<rparr> else q\<lparr>pp_pool := p\<rparr>)"
  have gate: "e \<in> {Acquire, GiveUp} \<Longrightarrow> pl_caller p0 = AtGate" using p0(2) by (auto split: if_splits)
  have step: "paced_step min_interval (slots max_concurrent) n (Inner e) q = Some q1"
    using gate p0(2) q(2,3) by (auto simp: q1_def)
  then have run1: "run_paced max_concurrent min_interval n t (fs @ [Inner e]) = Some q1"
    using q(1) by (simp add: run_paced_def run_snoc)
  have q1: "pp_pool q1 = p" "pp_pace q1 \<in> {Passed, Head}" using q(3) by (auto simp: q1_def)
  show ?case
  proof (cases "pp_pace q1 = Head \<and> pl_caller p = AtGate")
    case True
    have "look min_interval q1 = Passed" using assms(1) by (auto simp: look_def split: option.split)
    then have "run_paced max_concurrent min_interval n t ((fs @ [Inner e]) @ [LookAtPace]) = Some (q1\<lparr>pp_pace := Passed\<rparr>)"
      using run1 True q1(1) unfolding run_paced_def run_snoc by simp
    then show ?thesis using q1(1) by (intro exI [of _ "(fs @ [Inner e]) @ [LookAtPace]"] exI [of _ "q1\<lparr>pp_pace := Passed\<rparr>"]) simp
  next
    case False
    then show ?thesis using run1 q1 by blast
  qed
qed

theorem unpaced_is_run_bounded:
  assumes "min_interval \<le> 0"
  shows "(\<exists>fs q. run_paced max_concurrent min_interval n t fs = Some q \<and> pp_pool q = p) \<longleftrightarrow>
    (\<exists>es. run_bounded max_concurrent n es = Some p)"
  using paced_lift [OF assms, of max_concurrent n _ p t] paced_is_bounded by blast

subsection \<open>RunBoundedWithTimeout\<close>

text \<open>The zero value of the result type is an argument. The deadline of a call lies in the context the function gets; what
  it answers with is part of the event.\<close>

record ('r, 'e) bounded_result =
  br_value :: 'r
  br_err :: "'e option"
  br_done :: bool

record ('r, 'e) timed =
  tp_pool :: pool
  tp_results :: "('r, 'e) bounded_result list"

datatype ('r, 'e) timed_event = Other pool_event | Answer nat "'e + 'r"

definition no_answer :: "'r \<Rightarrow> ('r, 'e) bounded_result" where
  "no_answer zero = \<lparr> br_value = zero, br_err = None, br_done = False \<rparr>"

definition put_answer :: "'e + 'r \<Rightarrow> ('r, 'e) bounded_result \<Rightarrow> ('r, 'e) bounded_result" where
  "put_answer a b = (case a of Inl e \<Rightarrow> b\<lparr>br_err := Some e\<rparr> | Inr v \<Rightarrow> b\<lparr>br_value := v, br_done := True\<rparr>)"

fun timed_step :: "nat \<Rightarrow> nat \<Rightarrow> ('r, 'e) timed_event \<Rightarrow> ('r, 'e) timed \<Rightarrow> ('r, 'e) timed option" where
  "timed_step cap n (Other e) p =
     (case e of
        FnReturns k \<Rightarrow> None
      | _ \<Rightarrow> map_option (\<lambda>q. p\<lparr>tp_pool := q\<rparr>) (pool_step cap n e (tp_pool p)))"
| "timed_step cap n (Answer k a) p =
     map_option (\<lambda>q. p\<lparr>tp_pool := q, tp_results := (tp_results p)[k := put_answer a (tp_results p ! k)]\<rparr>)
       (pool_step cap n (FnReturns k) (tp_pool p))"

definition run_timed :: "'r \<Rightarrow> int \<Rightarrow> nat \<Rightarrow> ('r, 'e) timed_event list \<Rightarrow> ('r, 'e) timed option" where
  "run_timed zero max_concurrent n es =
     run_events (timed_step (slots max_concurrent) n) es \<lparr> tp_pool = pool_start False n, tp_results = replicate n (no_answer zero) \<rparr>"

definition erase_answer :: "('r, 'e) timed_event \<Rightarrow> pool_event option" where
  "erase_answer e = (case e of Other f \<Rightarrow> Some f | Answer k a \<Rightarrow> Some (FnReturns k))"

interpretation tp: event_refinement "timed_step cap n" "\<lambda>_. True" "pool_step cap n" tp_pool erase_answer for cap n
proof unfold_locales
  fix e :: "('a, 'b) timed_event" and p q
  assume "timed_step cap n e p = Some q"
  then show "case erase_answer e of None \<Rightarrow> tp_pool q = tp_pool p | Some f \<Rightarrow> pool_step cap n f (tp_pool p) = Some (tp_pool q)"
    by (cases e) (auto simp: erase_answer_def split: if_splits pool_event.splits)
qed simp

lemma timed_is_bounded:
  "run_timed zero max_concurrent n es = Some p \<Longrightarrow>
    run_bounded max_concurrent n (List.map_filter erase_answer es) = Some (tp_pool p)"
  unfolding run_timed_def run_bounded_def by (drule tp.run_refines [OF TrueI]) simp

text \<open>What item \<open>k\<close>'s call answered in an interleaving, and the entry this makes.\<close>

definition answer_to :: "nat \<Rightarrow> ('r, 'e) timed_event list \<Rightarrow> ('e + 'r) option" where
  "answer_to k es = map_of (List.map_filter (\<lambda>e. case e of Other f \<Rightarrow> None | Answer j a \<Rightarrow> Some (j, a)) es) k"

definition entry_for :: "'r \<Rightarrow> ('e + 'r) option \<Rightarrow> ('r, 'e) bounded_result" where
  "entry_for zero a = (case a of None \<Rightarrow> no_answer zero
     | Some (Inl e) \<Rightarrow> \<lparr> br_value = zero, br_err = Some e, br_done = False \<rparr>
     | Some (Inr v) \<Rightarrow> \<lparr> br_value = v, br_err = None, br_done = True \<rparr>)"

lemma answer_snoc:
  "answer_to k (es @ [Other f]) = answer_to k es"
  "answer_to k (es @ [Answer j a]) = (case answer_to k es of None \<Rightarrow> if j = k then Some a else None | Some b \<Rightarrow> Some b)"
  by (auto simp: answer_to_def List.map_filter_def map_add_def split: option.splits)

lemma stage_kept:
  assumes "pool_step cap n e p = Some q" "\<And>j. e \<noteq> FnReturns j"
  shows "k < length (pl_tasks q) \<and> pl_tasks q ! k \<noteq> InFn \<longleftrightarrow> k < length (pl_tasks p) \<and> pl_tasks p ! k \<noteq> InFn"
  using assms
  by (cases e) (auto simp: next_item_def in_stage_def move_to_def nth_list_update nth_append less_Suc_eq split: if_splits)

lemma timed_results:
  "run_timed zero max_concurrent n es = Some p \<Longrightarrow> length (tp_results p) = n \<and> length (pl_tasks (tp_pool p)) \<le> n \<and>
    (\<forall>k < n. tp_results p ! k = entry_for zero (answer_to k es) \<and>
      (answer_to k es \<noteq> None \<longleftrightarrow> k < length (pl_tasks (tp_pool p)) \<and> pl_tasks (tp_pool p) ! k \<noteq> InFn))"
proof (induction es arbitrary: p rule: rev_induct)
  case Nil
  then show ?case
    by (auto simp: run_timed_def answer_to_def entry_for_def pool_start_def List.map_filter_def)
next
  case (snoc e es)
  then obtain p0 where p0: "run_timed zero max_concurrent n es = Some p0" "timed_step (slots max_concurrent) n e p0 = Some p"
    by (auto simp: run_timed_def run_snoc split: Option.bind_splits)
  note IH = snoc.IH [OF p0(1)]
  have few: "length (pl_tasks (tp_pool p)) \<le> n"
    using run_bounded_inv [OF timed_is_bounded [OF snoc.prems]] by (simp add: pool_inv_def)
  show ?case
  proof (cases e)
    case (Other f)
    then obtain q where q: "pool_step (slots max_concurrent) n f (tp_pool p0) = Some q" "p = p0\<lparr>tp_pool := q\<rparr>" "\<And>j. f \<noteq> FnReturns j"
      using p0(2) by (cases f) (auto split: if_splits)
    show ?thesis using IH few stage_kept [OF q(1,3)] by (simp add: q(2) Other answer_snoc)
  next
    case (Answer j a)
    then obtain here: "in_stage InFn j (tp_pool p0)"
      and p: "p = p0\<lparr>tp_pool := move_to Back j (tp_pool p0), tp_results := (tp_results p0)[j := put_answer a (tp_results p0 ! j)]\<rparr>"
      using p0(2) by (auto split: if_splits)
    have "j < n" using here IH by (simp add: in_stage_def)
    moreover from this have "answer_to j es = None" using here IH unfolding in_stage_def by blast
    ultimately have j: "j < n" "answer_to j es = None" .
    then have "tp_results p0 ! j = no_answer zero" using IH by (auto simp: entry_for_def)
    then have "put_answer a (tp_results p0 ! j) = entry_for zero (Some a)"
      by (auto simp: put_answer_def no_answer_def entry_for_def split: sum.split)
    then show ?thesis
      using IH few j here by (auto simp: p Answer answer_snoc in_stage_def move_to_def nth_list_update split: option.splits)
  qed
qed

text \<open>The results stand in lock step with the items: entry \<open>k\<close> is what the call of item \<open>k\<close> answered and zero when it had
  none; when the run returns without a cancellation every item has its answer.\<close>

theorem timed_lock_step:
  assumes "run_timed zero max_concurrent n es = Some p"
  shows "length (tp_results p) = n \<and> (\<forall>k < n. tp_results p ! k = entry_for zero (answer_to k es)) \<and>
    (pl_caller (tp_pool p) = Finished \<longrightarrow> pl_cancelled (tp_pool p) \<or> list_all (\<lambda>k. answer_to k es \<noteq> None) [0..<n])"
proof -
  note R = timed_results [OF assms]
  have "answer_to k es \<noteq> None" if "pl_caller (tp_pool p) = Finished" "\<not> pl_cancelled (tp_pool p)" "k < n" for k
  proof -
    note caps = run_bounded_caps [OF timed_is_bounded [OF assms]]
    have "length (pl_tasks (tp_pool p)) = n" "set (pl_tasks (tp_pool p)) \<subseteq> {Exited}" using caps that by auto
    then have "pl_tasks (tp_pool p) ! k \<noteq> InFn" using that(3) nth_mem by fastforce
    then show ?thesis using R that(3) \<open>length (pl_tasks (tp_pool p)) = n\<close> by auto
  qed
  then show ?thesis using R by (auto simp: list_all_iff)
qed

definition answered_run :: "(int, string) timed_event list" where
  "answered_run = [Other Acquire, Other Spawn, Answer 0 (Inr 7), Other (FreeSlot 0), Other Acquire, Other Spawn, Other (SignOff 0),
     Answer 1 (Inl ''refused''), Other (FreeSlot 1), Other (SignOff 1), Other Joined]"

definition answered_pool :: "(int, string) timed" where
  "answered_pool = \<lparr> tp_pool = after_both, tp_results =
     [\<lparr> br_value = 7, br_err = None, br_done = True \<rparr>, \<lparr> br_value = 0, br_err = Some ''refused'', br_done = False \<rparr>] \<rparr>"

lemma timed_lock_step_witness:
  "tp_results answered_pool ! 1 = entry_for 0 (answer_to 1 answered_run) \<and> length (tp_results answered_pool) = 2"
proof -
  have "run_timed 0 1 2 answered_run = Some answered_pool" by code_simp
  from timed_lock_step [OF this] show ?thesis by simp
qed

text \<open>Two items paced by an hour, with one slot free all along.\<close>

definition hourly :: "paced_event list" where
  "hourly = [LookAtPace, Inner Acquire, Inner Spawn, LookAtPace, Tick hour, Wake, Inner Acquire]"

lemma paced_starts_apart_witness:
  "pp_last (the (run_paced 2 hour 2 0 (hourly @ [Inner Spawn]))) = Some hour \<and> 0 + hour \<le> hour"
proof -
  have run: "run_paced 2 hour 2 0 hourly \<noteq> None" "pp_last (the (run_paced 2 hour 2 0 hourly)) = Some 0"
    "run_paced 2 hour 2 0 (hourly @ [Inner Spawn]) \<noteq> None"
    "pp_last (the (run_paced 2 hour 2 0 (hourly @ [Inner Spawn]))) = Some hour" by code_simp+
  then obtain p q where "run_paced 2 hour 2 0 hourly = Some p" "run_paced 2 hour 2 0 (hourly @ [Inner Spawn]) = Some q"
    by auto
  then show ?thesis using paced_starts_apart [of 2 hour 2 0 hourly p 0 q] run by auto
qed

lemma unpaced_is_run_bounded_witness:
  "\<exists>fs q. run_paced 1 0 2 0 fs = Some q \<and> pp_pool q = after_both"
  using unpaced_is_run_bounded [of 0 1 2 0 after_both] two_in_turn_run by blast

end
