(* ===== verification/Client_Choice.thy ===== *)
theory Client_Choice
  imports Quality Go_Strings "HOL-Library.Product_Lexorder" "HOL-Library.Code_Target_Nat"
begin

text \<open>
  Which download client a grab goes to: \<open>internal/db/download_clients.go\<close> (the enabled clients of a protocol, their
  ranking, the media types they take) and \<open>internal/db/download_client_pin.go\<close> (an indexer pinned to a client).
\<close>

subsection \<open>Clients\<close>

record client_row =
  cl_id :: int
  cl_name :: string
  cl_type :: string
  cl_category :: string
  cl_category_audiobook :: string
  cl_priority :: int
  cl_enabled :: bool
  cl_for_books :: bool
  cl_for_audiobooks :: bool

definition torrent_types :: "string list" where
  "torrent_types = [''qbittorrent'', ''transmission'', ''deluge'', ''rtorrent'']"

definition usenet_types :: "string list" where
  "usenet_types = [''sabnzbd'', ''nzbget'']"

definition types_for_protocol :: "string \<Rightarrow> string list" where
  "types_for_protocol protocol = (if protocol = ''torrent'' then torrent_types else usenet_types)"

definition client_protocol :: "string \<Rightarrow> string" where
  "client_protocol client_type = (if client_type \<in> set torrent_types then ''torrent'' else ''usenet'')"

definition is_torrent_client :: "string \<Rightarrow> bool" where
  "is_torrent_client t \<longleftrightarrow> t = ''transmission'' \<or> t = ''qbittorrent'' \<or> t = ''deluge'' \<or> t = ''rtorrent''"

definition protocol_for_client :: "string \<Rightarrow> string" where
  "protocol_for_client t = (if is_torrent_client t then ''torrent'' else ''usenet'')"

text \<open>The queries order by priority alone; ties stay in the order of the table.\<close>

definition list_enabled_clients :: "client_row list \<Rightarrow> client_row list" where
  "list_enabled_clients cs = sort_key cl_priority (filter cl_enabled cs)"

definition enabled_by_protocol :: "string \<Rightarrow> client_row list \<Rightarrow> client_row list" where
  "enabled_by_protocol protocol cs =
     sort_key cl_priority (filter (\<lambda>c. cl_enabled c \<and> cl_type c \<in> set (types_for_protocol protocol)) cs)"

definition category_preference :: "unicode \<Rightarrow> string \<Rightarrow> client_row \<Rightarrow> nat" where
  "category_preference uc mt c =
     (if mt = media_audiobook \<and> trim_space (cl_category_audiobook c) \<noteq> [] then 0
      else
        (let audio = contains_str (to_lower uc (cl_category c)) ''audio'' in
         if mt = media_audiobook then (if audio then 1 else 2)
         else if \<not> audio then 1 else 2))"

definition rank_clients :: "unicode \<Rightarrow> string \<Rightarrow> client_row list \<Rightarrow> client_row list" where
  "rank_clients uc mt cs = sort_key (\<lambda>c. (cl_priority c, category_preference uc mt c)) cs"

definition takes_media :: "string \<Rightarrow> client_row \<Rightarrow> bool" where
  "takes_media mt c \<longleftrightarrow> (if mt = media_audiobook then cl_for_audiobooks c else cl_for_books c)"

definition eligible_clients :: "string \<Rightarrow> client_row list \<Rightarrow> client_row list" where
  "eligible_clients mt cs = filter (takes_media mt) cs"

definition pick_client :: "unicode \<Rightarrow> string \<Rightarrow> client_row list \<Rightarrow> client_row option" where
  "pick_client uc mt cs = (case rank_clients uc mt cs of [] \<Rightarrow> None | c # _ \<Rightarrow> Some c)"

subsection \<open>Pinned indexers\<close>

record search_indexer =
  ix_id :: int
  ix_name :: string
  ix_type :: string
  ix_client_id :: "int option"
  ix_freeleech_only :: bool

definition indexer_protocol :: "search_indexer \<Rightarrow> string" where
  "indexer_protocol ix = (if ix_type ix = ''torznab'' then ''torrent'' else ''usenet'')"

datatype pin_reason = PinMissing | PinDisabled | PinWrongProtocol

datatype pin_error = PinDb | PinUnavailable pin_reason

text \<open>\<open>ResolvePinnedClient\<close>; \<open>get\<close> is \<open>GetByID\<close> of the client repository, \<open>None\<close> a failed read.\<close>

definition resolve_pinned_client ::
    "(int \<Rightarrow> client_row option option) \<Rightarrow> search_indexer option \<Rightarrow> string \<Rightarrow> pin_error + client_row option" where
  "resolve_pinned_client get ix protocol =
     (case ix of
        None \<Rightarrow> Inr None
      | Some ix \<Rightarrow>
          (case ix_client_id ix of
             None \<Rightarrow> Inr None
           | Some cid \<Rightarrow>
               (case get cid of
                  None \<Rightarrow> Inl PinDb
                | Some None \<Rightarrow> Inl (PinUnavailable PinMissing)
                | Some (Some c) \<Rightarrow>
                    (let p = client_protocol (cl_type c) in
                     if \<not> cl_enabled c then Inl (PinUnavailable PinDisabled)
                     else if p \<noteq> indexer_protocol ix \<or> protocol \<noteq> [] \<and> p \<noteq> protocol then Inl (PinUnavailable PinWrongProtocol)
                     else Inr (Some c)))))"

text \<open>The scheduler's \<open>pinnedClient\<close>; \<open>find_ix\<close> is \<open>GetByID\<close> of the indexer repository.\<close>

definition pinned_client ::
    "(int \<Rightarrow> search_indexer option option) \<Rightarrow> (int \<Rightarrow> client_row option option) \<Rightarrow> int \<Rightarrow> string
      \<Rightarrow> pin_error + client_row option" where
  "pinned_client find_ix get indexer_id protocol =
     (if indexer_id = 0 then Inr None
      else (case find_ix indexer_id of
              None \<Rightarrow> Inl PinDb
            | Some ix \<Rightarrow> resolve_pinned_client get ix protocol))"

subsection \<open>What the choice promises\<close>

lemma protocols_agree: "client_protocol t = protocol_for_client t"
  by (auto simp: client_protocol_def protocol_for_client_def is_torrent_client_def torrent_types_def)

lemma enabled_by_protocol_ok:
  "c \<in> set (enabled_by_protocol p cs) \<Longrightarrow> p \<in> {''torrent'', ''usenet''} \<Longrightarrow> c \<in> set cs \<and> cl_enabled c \<and> client_protocol (cl_type c) = p"
  by (auto simp: enabled_by_protocol_def types_for_protocol_def client_protocol_def torrent_types_def usenet_types_def)

lemma pinned_client_ok:
  "pinned_client find_ix get i p = Inr (Some c) \<Longrightarrow>
    cl_enabled c \<and> (p \<noteq> [] \<longrightarrow> client_protocol (cl_type c) = p) \<and>
    (\<exists>ix cid. find_ix i = Some (Some ix) \<and> ix_client_id ix = Some cid \<and> get cid = Some (Some c))"
  by (auto simp: pinned_client_def resolve_pinned_client_def Let_def split: if_splits option.splits)

lemma set_rank [simp]: "set (rank_clients uc mt cs) = set cs"
  by (simp add: rank_clients_def)

text \<open>Priority decides; the category only between clients of equal priority.\<close>

lemma picked_first:
  assumes "pick_client uc mt cs = Some c" "c' \<in> set cs"
  shows "cl_priority c \<le> cl_priority c' \<and> (cl_priority c = cl_priority c' \<longrightarrow> category_preference uc mt c \<le> category_preference uc mt c')"
proof -
  obtain rest where r: "rank_clients uc mt cs = c # rest" using assms(1) by (auto simp: pick_client_def split: list.splits)
  have "sorted (map (\<lambda>c. (cl_priority c, category_preference uc mt c)) (c # rest))"
    unfolding r [symmetric] rank_clients_def by simp
  moreover have "c' = c \<or> c' \<in> set rest" using assms(2) r set_rank [of uc mt cs] by auto
  ultimately show ?thesis by (auto simp: less_eq_prod_def)
qed

end
