(* ===== verification/Pending_Releases.thy ===== *)
theory Pending_Releases
  imports Sql_Table Decision "HOL-Library.Product_Lexorder"
begin

text \<open>
  \<open>internal/db/pending_releases.go\<close> and \<open>internal/models/pending_release.go\<close>: the releases a search held back, keyed on
  guid and book; and the conversion of a search result to what the decision engine judges
  (\<open>internal/decision/decision.go\<close>).
\<close>

subsection \<open>Search results\<close>

record search_result =
  res_guid :: string
  res_indexer_id :: int
  res_indexer_name :: string
  res_title :: string
  res_size :: int
  res_pub_date :: string
  res_nzb_url :: string
  res_protocol :: string
  res_language :: string
  res_volume_factor :: "float64 option"
  res_media_type :: string

text \<open>\<open>mentions title token\<close> is the token regexp on the folded title; \<open>age\<close> reads a publication date off the clock.\<close>

definition release_formats :: "(string \<Rightarrow> string \<Rightarrow> bool) \<Rightarrow> string \<Rightarrow> string list" where
  "release_formats mentions title = filter (mentions title) format_tokens"

definition parsed_format :: "(string \<Rightarrow> string \<Rightarrow> bool) \<Rightarrow> string \<Rightarrow> string" where
  "parsed_format mentions title = (case find (mentions title) format_tokens of None \<Rightarrow> [] | Some f \<Rightarrow> f)"

definition release_of :: "(string \<Rightarrow> string \<Rightarrow> bool) \<Rightarrow> (string \<Rightarrow> int) \<Rightarrow> search_result \<Rightarrow> release" where
  "release_of mentions age r = \<lparr>
     rl_guid = res_guid r, rl_indexer_id = res_indexer_id r, rl_title = res_title r, rl_size = res_size r,
     rl_age_minutes = age (res_pub_date r), rl_protocol = res_protocol r, rl_language = res_language r,
     rl_format = parsed_format mentions (res_title r), rl_formats = release_formats mentions (res_title r),
     rl_media_type = res_media_type r, rl_volume_factor = res_volume_factor r \<rparr>"

subsection \<open>The table\<close>

text \<open>The stored JSON is the search result it decodes to, none when it does not decode.\<close>

record pending_row =
  pr_id :: int
  pr_book_id :: int
  pr_media_type :: string
  pr_title :: string
  pr_indexer_id :: "int option"
  pr_guid :: string
  pr_protocol :: string
  pr_size :: int
  pr_age_minutes :: int
  pr_quality :: string
  pr_custom_score :: int
  pr_reason :: string
  pr_first_seen :: time
  pr_release :: "search_result option"

type_synonym pending_db = "pending_row conn"

definition pending_key :: "pending_row \<Rightarrow> string \<times> int" where
  "pending_key r = (pr_guid r, pr_book_id r)"

text \<open>The id column has no AUTOINCREMENT: a new row comes after the largest id there is.\<close>

definition next_pending_id :: "pending_row list \<Rightarrow> int" where
  "next_pending_id t = fold max (map pr_id t) 0 + 1"

definition upsert_row :: "pending_row \<Rightarrow> time \<Rightarrow> pending_row list \<Rightarrow> pending_row list \<times> nat" where
  "upsert_row pr now t =
     (if list_ex (\<lambda>r. pending_key r = pending_key pr) t
      then sql_update (\<lambda>r. pending_key r = pending_key pr) (\<lambda>r. r\<lparr>pr_reason := pr_reason pr, pr_age_minutes := pr_age_minutes pr\<rparr>) t
      else (t @ [pr\<lparr>pr_id := next_pending_id t, pr_first_seen := now\<rparr>], 1))"

definition pr_upsert :: "pending_row \<Rightarrow> time \<Rightarrow> pending_db \<Rightarrow> (db_error + nat) \<times> pending_db" where
  "pr_upsert pr now c = db_exec (upsert_row pr now) c"

definition pr_list :: "pending_db \<Rightarrow> (db_error + pending_row list) \<times> pending_db" where
  "pr_list c = db_query (sort_key (\<lambda>r. - pr_first_seen r)) c"

definition list_by_book :: "int \<Rightarrow> pending_db \<Rightarrow> (db_error + pending_row list) \<times> pending_db" where
  "list_by_book b c = db_query (\<lambda>t. sort_key (\<lambda>r. - pr_first_seen r) (filter (\<lambda>r. pr_book_id r = b) t)) c"

definition list_by_book_and_media_type :: "int \<Rightarrow> string \<Rightarrow> pending_db \<Rightarrow> (db_error + pending_row list) \<times> pending_db" where
  "list_by_book_and_media_type b mt c =
     db_query (\<lambda>t. sort_key (\<lambda>r. (- pr_first_seen r, - pr_id r)) (filter (\<lambda>r. pr_book_id r = b \<and> pr_media_type r = mt) t)) c"

definition pending_by_id :: "int \<Rightarrow> pending_db \<Rightarrow> (db_error + pending_row option) \<times> pending_db" where
  "pending_by_id i c = db_query (\<lambda>t. row_of pr_id t i) c"

definition pr_delete_by_id :: "int \<Rightarrow> pending_db \<Rightarrow> (db_error + nat) \<times> pending_db" where
  "pr_delete_by_id i c = db_exec (sql_delete (\<lambda>r. pr_id r = i)) c"

definition delete_pending_of_book :: "int \<Rightarrow> pending_db \<Rightarrow> (db_error + nat) \<times> pending_db" where
  "delete_pending_of_book b c = db_exec (sql_delete (\<lambda>r. pr_book_id r = b)) c"

definition delete_by_book_and_media_type :: "int \<Rightarrow> string \<Rightarrow> pending_db \<Rightarrow> (db_error + nat) \<times> pending_db" where
  "delete_by_book_and_media_type b mt c = db_exec (sql_delete (\<lambda>r. pr_book_id r = b \<and> pr_media_type r = mt)) c"

subsection \<open>What every write keeps\<close>

definition pending_ok :: "pending_db \<Rightarrow> bool" where
  "pending_ok c \<longleftrightarrow> distinct (map pr_id (rows c)) \<and> distinct (map pending_key (rows c))"

lemma fold_max_start: "(m :: int) \<le> fold max xs m"
  by (induction xs arbitrary: m) (auto intro: order_trans [OF max.cobounded2])

lemma fold_max_ge: "(x :: int) \<in> set xs \<Longrightarrow> x \<le> fold max xs m"
proof (induction xs arbitrary: m)
  case (Cons y ys)
  then show ?case using fold_max_start [of "max x m" ys] by auto
qed simp

lemma next_id_fresh: "next_pending_id t \<notin> pr_id ` set t"
proof
  assume "next_pending_id t \<in> pr_id ` set t"
  then have "next_pending_id t \<le> fold max (map pr_id t) 0" by (intro fold_max_ge) simp
  then show False by (simp add: next_pending_id_def)
qed

lemma key_update [simp]:
  "pending_key (r\<lparr>pr_reason := s, pr_age_minutes := a\<rparr>) = pending_key r"
  "pending_key (r\<lparr>pr_id := i, pr_first_seen := t\<rparr>) = pending_key r"
  by (simp_all add: pending_key_def)

lemma upsert_ok:
  assumes "pending_ok c"
  shows "pending_ok (snd (pr_upsert pr now c))"
proof -
  have "map pr_id (map (\<lambda>r. if p r then r\<lparr>pr_reason := s, pr_age_minutes := a\<rparr> else r) t) = map pr_id t"
    "map pending_key (map (\<lambda>r. if p r then r\<lparr>pr_reason := s, pr_age_minutes := a\<rparr> else r) t) = map pending_key t" for p s a t
    by simp_all
  then show ?thesis
    using assms next_id_fresh [of "rows c"]
    by (auto simp: pending_ok_def pr_upsert_def db_exec_def upsert_row_def list_ex_iff simp del: map_map)
qed

lemma pending_delete_ok: "pending_ok c \<Longrightarrow> pending_ok (snd (db_exec (sql_delete p) c))"
  by (auto simp: pending_ok_def db_exec_def distinct_map_filter)

lemma pending_query_ok: "pending_ok c \<Longrightarrow> pending_ok (snd (db_query q c))"
  by (simp add: pending_ok_def db_query_rows)

text \<open>The key leaves the format out: a release a book's ebook search holds is not held for its audiobook search, and a
  grab of the ebook removes it.\<close>

definition held_row :: "string \<Rightarrow> pending_row" where
  "held_row mt = \<lparr> pr_id = 0, pr_book_id = 3, pr_media_type = mt, pr_title = ''T'', pr_indexer_id = None, pr_guid = ''g'',
     pr_protocol = ''torrent'', pr_size = 1, pr_age_minutes = 0, pr_quality = [], pr_custom_score = 0,
     pr_reason = ''torrent delay not met'', pr_first_seen = 0, pr_release = None \<rparr>"

definition no_pending :: pending_db where
  "no_pending = \<lparr> rows = [], last_id = 0, faults = [] \<rparr>"

theorem pending_key_ignores_format:
  "let c = snd (pr_upsert (held_row media_audiobook) 2 (snd (pr_upsert (held_row media_ebook) 1 no_pending))) in
    fst (list_by_book_and_media_type 3 media_audiobook c) = Inr [] \<and>
    rows (snd (delete_by_book_and_media_type 3 media_ebook c)) = []"
  by code_simp

end
