(* ===== verification/Auto_Grab.thy ===== *)
theory Auto_Grab
  imports Pending_Releases Client_Choice Download_Claims Download_Queries
begin

text \<open>
  The automatic grab: \<open>searchAndGrabFormat\<close> of \<open>internal/scheduler/scheduler.go\<close> from the search results on, with the
  gates of \<open>internal/scheduler/regrab.go\<close>. It composes the decision engine, the pending releases, the choice of the
  client and the claims on the downloads table; what other writers do between two of its statements on that table is
  part of its environment.
\<close>

subsection \<open>Regrab gates\<close>

definition regrab_live_work :: string where "regrab_live_work = ''already grabbed''"
definition regrab_too_recent :: string where "regrab_too_recent = ''failed too recently''"
definition regrab_import_blocked :: string where "regrab_import_blocked = ''import blocked, not retried automatically''"

definition blocking_regrab_reason :: "download option \<Rightarrow> time \<Rightarrow> string" where
  "blocking_regrab_reason existing now =
     (case existing of
        None \<Rightarrow> []
      | Some r \<Rightarrow>
          if dl_status r = StateImportBlocked then regrab_import_blocked
          else if blocks_auto_regrab existing then regrab_live_work
          else if is_dead_for_auto_regrab (dl_status r) \<and> dead_since existing > now - dead_regrab_cooldown
          then regrab_too_recent
          else [])"

definition held_for_another_book :: "download option \<Rightarrow> int \<Rightarrow> time \<Rightarrow> string" where
  "held_for_another_book existing book_id now =
     (case existing of
        None \<Rightarrow> []
      | Some r \<Rightarrow> if dl_book_id r = Some book_id then [] else blocking_regrab_reason existing now)"

definition stalled_release_spec :: "string \<Rightarrow> spec" where
  "stalled_release_spec guid r b =
     (if rl_guid r = guid then (False, ''release just stalled, trying another'') else (True, []))"

interpretation stalled_sp: release_spec "stalled_release_spec guid" for guid
  by unfold_locales (simp add: stalled_release_spec_def)

subsection \<open>The specifications of an automatic search\<close>

text \<open>What the search knows: the blocklist when it could be read, the release a stall re-search is for, the pack context,
  the profile, an upgrade baseline, the first delay profile, the freeleech-only indexers.\<close>

record search_policy =
  sp_blocklist :: "blocklist_entry list option"
  sp_stalled :: string
  sp_series_title :: string
  sp_author_titles :: "string list"
  sp_profile :: "quality_profile option"
  sp_title :: string
  sp_authors :: "string list"
  sp_upgrade :: "(quality_profile option \<times> string list) option"
  sp_delay :: "delay_profile option"
  sp_freeleech :: "(int \<times> bool) list"

definition auto_specs :: "library_fns \<Rightarrow> string \<Rightarrow> search_policy \<Rightarrow> spec list" where
  "auto_specs l mt p =
     (case sp_blocklist p of None \<Rightarrow> [] | Some es \<Rightarrow> [is_satisfied_by l (BlocklistedSpec es)])
     @ (if sp_stalled p \<noteq> [] then [stalled_release_spec (sp_stalled p)] else [])
     @ [is_satisfied_by l (MultiBookPackSpec (sp_series_title p) (sp_author_titles p))]
     @ (case sp_profile p of None \<Rightarrow> []
        | Some q \<Rightarrow> [is_satisfied_by l (QualityAllowed (Some q) mt),
                     is_satisfied_by l (EditionAllowed (Some q) mt (sp_title p) (sp_authors p))])
     @ (case sp_upgrade p of None \<Rightarrow> []
        | Some (q, paths) \<Rightarrow> if mt = media_ebook then [is_satisfied_by l (EbookUpgrade q paths)] else [])
     @ (case sp_delay p of None \<Rightarrow> [] | Some d \<Rightarrow> [is_satisfied_by l (DelayProfileSpec (Some d))])
     @ (if sp_freeleech p \<noteq> [] then [is_satisfied_by l (FreeleechOnlySpec (sp_freeleech p))] else [])"

subsection \<open>Environment and state\<close>

text \<open>Two reads of the clients, the answer of the download client, the clock of the scheduler and of the repository at
  its \<open>k\<close>-th statement on the downloads, and the writes of others before that statement. \<open>ge_age 0\<close> judges the results,
  \<open>ge_age (Suc i)\<close> the \<open>i\<close>-th pending row. \<open>gs_sends\<close> is the trace of the calls of \<open>SendDownload\<close>, each with the
  downloads before and after the write that took its row.\<close>

record grab_env =
  ge_fns :: library_fns
  ge_mentions :: "string \<Rightarrow> string \<Rightarrow> bool"
  ge_age :: "nat \<Rightarrow> string \<Rightarrow> int"
  ge_media :: string
  ge_book :: book
  ge_owner :: int
  ge_specs :: "spec list"
  ge_raw :: nat
  ge_results :: "search_result list"
  ge_clients_early :: "client_row list option"
  ge_clients_late :: "client_row list option"
  ge_find_indexer :: "int \<Rightarrow> search_indexer option option"
  ge_find_client :: "int \<Rightarrow> client_row option option"
  ge_now :: "nat \<Rightarrow> time"
  ge_stamp :: "nat \<Rightarrow> time"
  ge_others :: "nat \<Rightarrow> (time \<times> dl_op) list"
  ge_send :: "string + string \<times> bool"

record grab_state =
  gs_dl :: dl_db
  gs_count :: nat
  gs_pending :: pending_db
  gs_skipped :: "int list"
  gs_held :: string
  gs_sends :: "(client_row \<times> search_result \<times> dl_db \<times> dl_db) list"

definition meanwhile :: "grab_env \<Rightarrow> grab_state \<Rightarrow> dl_db" where
  "meanwhile e s = fold (apply_dl_op (fn_unicode (ge_fns e))) (ge_others e (gs_count s)) (gs_dl s)"

definition dl_do :: "grab_env \<Rightarrow> (nat \<Rightarrow> dl_db \<Rightarrow> 'a \<times> dl_db) \<Rightarrow> grab_state \<Rightarrow> 'a \<times> grab_state" where
  "dl_do e f s =
     (let k = gs_count s; (a, c) = f k (meanwhile e s) in (a, s\<lparr>gs_dl := c, gs_count := Suc k\<rparr>))"

definition pending_do :: "(pending_db \<Rightarrow> 'a \<times> pending_db) \<Rightarrow> grab_state \<Rightarrow> 'a \<times> grab_state" where
  "pending_do f s = (let (a, c) = f (gs_pending s) in (a, s\<lparr>gs_pending := c\<rparr>))"

subsection \<open>Choosing the release\<close>

datatype acceptance = Stop string | Pass | PassForGood | Take "client_row option" "download option"

definition accept :: "grab_env \<Rightarrow> search_result \<Rightarrow> grab_state \<Rightarrow> acceptance \<times> grab_state" where
  "accept e r s =
     (if res_indexer_id r \<in> set (gs_skipped s) then (Pass, s)
      else (case pinned_client (ge_find_indexer e) (ge_find_client e) (res_indexer_id r) (res_protocol r) of
          Inl PinDb \<Rightarrow> (Stop ''download client lookup failed'', s)
        | Inl (PinUnavailable _) \<Rightarrow> (Pass, s\<lparr>gs_skipped := res_indexer_id r # gs_skipped s\<rparr>)
        | Inr pin \<Rightarrow>
            (case dl_do e (\<lambda>_. get_by_guid (res_guid r)) s of
               (Inl _, s1) \<Rightarrow> (Stop ''duplicate check failed'', s1)
             | (Inr existing, s1) \<Rightarrow>
                 (let reason = held_for_another_book existing (bk_id (ge_book e)) (ge_now e (gs_count s)) in
                  case existing of
                    Some row \<Rightarrow>
                      if reason \<noteq> [] then
                        (if dl_status row = StateImported then PassForGood else Pass,
                         s1\<lparr>gs_held := (if gs_held s1 = [] then reason @ '' ('' @ state_string (dl_status row) @ '')'' else gs_held s1)\<rparr>)
                      else (Take pin existing, s1)
                  | None \<Rightarrow> (Take pin None, s1)))))"

definition stored_pending :: "grab_env \<Rightarrow> search_result \<Rightarrow> string \<Rightarrow> pending_row" where
  "stored_pending e r reason = \<lparr> pr_id = 0, pr_book_id = bk_id (ge_book e), pr_media_type = ge_media e, pr_title = res_title r,
     pr_indexer_id = (if res_indexer_id r \<noteq> 0 then Some (res_indexer_id r) else None), pr_guid = res_guid r,
     pr_protocol = res_protocol r, pr_size = res_size r, pr_age_minutes = ge_age e 0 (res_pub_date r),
     pr_quality = parsed_format (ge_mentions e) (res_title r), pr_custom_score = 0, pr_reason = reason, pr_first_seen = time_zero,
     pr_release = Some r \<rparr>"

definition store_pending :: "grab_env \<Rightarrow> search_result \<Rightarrow> string \<Rightarrow> grab_state \<Rightarrow> grab_state" where
  "store_pending e r reason s = snd (pending_do (pr_upsert (stored_pending e r reason) (ge_now e (gs_count s))) s)"

type_synonym chosen = "search_result \<times> client_row option \<times> download option"

fun pick_result :: "grab_env \<Rightarrow> (search_result \<times> decision) list \<Rightarrow> grab_state \<Rightarrow> (string + chosen option) \<times> grab_state" where
  "pick_result e [] s = (Inr None, s)"
| "pick_result e ((r, d) # rest) s =
     (if dc_approved d then
        (case accept e r s of
           (Stop why, s1) \<Rightarrow> (Inl why, s1)
         | (Take pin existing, s1) \<Rightarrow> (Inr (Some (r, pin, existing)), s1)
         | (_, s1) \<Rightarrow> pick_result e rest s1)
      else pick_result e rest
        (if contains_str (dc_rejection d) ''delay not met'' \<or> contains_str (dc_rejection d) freeleech_hold
         then store_pending e r (dc_rejection d) s else s))"

fun pick_pending :: "grab_env \<Rightarrow> nat \<Rightarrow> pending_row list \<Rightarrow> grab_state \<Rightarrow> (string + chosen option) \<times> grab_state" where
  "pick_pending e i [] s = (Inr None, s)"
| "pick_pending e i (row # rest) s =
     (case pr_release row of
        None \<Rightarrow> pick_pending e (Suc i) rest s
      | Some r \<Rightarrow>
          if \<not> list_ex dc_approved (evaluate (ge_specs e) [release_of (ge_mentions e) (ge_age e (Suc i)) r] (ge_book e))
          then pick_pending e (Suc i) rest s
          else (case accept e r s of
              (Stop why, s1) \<Rightarrow> (Inl why, s1)
            | (Pass, s1) \<Rightarrow> pick_pending e (Suc i) rest s1
            | (PassForGood, s1) \<Rightarrow> pick_pending e (Suc i) rest (snd (pending_do (pr_delete_by_id (pr_id row)) s1))
            | (Take pin existing, s1) \<Rightarrow> (Inr (Some (r, pin, existing)), snd (pending_do (pr_delete_by_id (pr_id row)) s1))))"

definition pending_approved :: "grab_env \<Rightarrow> grab_state \<Rightarrow> (string + chosen option) \<times> grab_state" where
  "pending_approved e s =
     (case pending_do (list_by_book_and_media_type (bk_id (ge_book e)) (ge_media e)) s of
        (Inl _, s1) \<Rightarrow> (Inr None, s1)
      | (Inr held, s1) \<Rightarrow> pick_pending e 0 held s1)"

text \<open>Protocols with an enabled client, and with one that takes the format.\<close>

definition protocols_of :: "client_row list \<Rightarrow> string list" where
  "protocols_of cs = map (\<lambda>c. protocol_for_client (cl_type c)) cs"

definition choose_release :: "grab_env \<Rightarrow> grab_state \<Rightarrow> (string + chosen) \<times> grab_state" where
  "choose_release e s =
     (case ge_clients_early e of
        None \<Rightarrow> (Inl ''download client lookup failed'', s)
      | Some cs \<Rightarrow>
          (let enabled = protocols_of (list_enabled_clients cs);
               eligible = protocols_of (eligible_clients (ge_media e) (list_enabled_clients cs));
               kept = filter (\<lambda>r. res_protocol r \<in> set eligible) (ge_results e)
           in if kept = [] \<and> ge_results e \<noteq> [] then
                (Inl (if list_ex (\<lambda>r. res_protocol r \<in> set enabled) (ge_results e)
                      then ''no eligible download client for media type'' else ''no download client for protocol''), s)
              else
                (case pick_result e (zip kept (evaluate (ge_specs e) (map (release_of (ge_mentions e) (ge_age e 0)) kept) (ge_book e))) s of
                   (Inl why, s1) \<Rightarrow> (Inl why, s1)
                 | (Inr (Some c), s1) \<Rightarrow> (Inr c, s1)
                 | (Inr None, s1) \<Rightarrow>
                     (case pending_approved e s1 of
                        (Inl why, s2) \<Rightarrow> (Inl why, s2)
                      | (Inr (Some c), s2) \<Rightarrow> (Inr c, s2)
                      | (Inr None, s2) \<Rightarrow>
                          (Inl (if gs_skipped s2 \<noteq> [] then ''pinned download client unavailable''
                                else if gs_held s2 \<noteq> [] then gs_held s2
                                else if ge_raw e = 0 then ''no results'' else ''nothing approved''), s2)))))"

subsection \<open>Taking the row and sending\<close>

definition choose_client :: "grab_env \<Rightarrow> search_result \<Rightarrow> client_row option \<Rightarrow> string + client_row" where
  "choose_client e r pin =
     (case (case pin of Some c \<Rightarrow> Some [c]
            | None \<Rightarrow> map_option (enabled_by_protocol (res_protocol r)) (ge_clients_late e)) of
        None \<Rightarrow> Inl ''download client lookup failed''
      | Some candidates \<Rightarrow>
          if candidates = [] then Inl ''no download client for protocol''
          else (case pick_client (fn_unicode (ge_fns e)) (ge_media e) (eligible_clients (ge_media e) candidates) of
                  None \<Rightarrow> Inl ''no eligible download client for media type''
                | Some c \<Rightarrow> Inr c))"

definition grab_row :: "grab_env \<Rightarrow> search_result \<Rightarrow> client_row \<Rightarrow> download" where
  "grab_row e r c = \<lparr>
     dl_id = 0, dl_guid = res_guid r, dl_owner_user_id = ge_owner e, dl_book_id = Some (bk_id (ge_book e)), dl_edition_id = None,
     dl_indexer_id = Some (res_indexer_id r), dl_download_client_id = Some (cl_id c), dl_title = res_title r,
     dl_nzb_url = res_nzb_url r, dl_size = res_size r, dl_nzo_id = None, dl_torrent_id = None, dl_status = StateGrabbed,
     dl_protocol = res_protocol r, dl_quality = parsed_format (ge_mentions e) (res_title r), dl_indexer_flags = [],
     dl_error_message = [], dl_added_at = time_zero, dl_grabbed_at = None, dl_completed_at = None, dl_imported_at = None,
     dl_dead_at = None, dl_import_retry_count = 0, dl_import_path = [] \<rparr>"

text \<open>The one write that decides: a claim of the row read before, or the insert of a new one.\<close>

definition take_release ::
    "download option \<Rightarrow> download \<Rightarrow> time \<Rightarrow> time \<Rightarrow> dl_db \<Rightarrow> (string + int) \<times> dl_db" where
  "take_release existing d now stamp c =
     (case existing of
        Some row \<Rightarrow>
          (case retry_dead_for_auto_grab (d\<lparr>dl_id := dl_id row\<rparr>) (now - dead_regrab_cooldown) stamp c of
             (Inl _, c1) \<Rightarrow> (Inl ''download record failed'', c1)
           | (Inr (took, _), c1) \<Rightarrow> (if took then Inr (dl_id row) else Inl ''claimed by another grab'', c1))
      | None \<Rightarrow>
          (case dl_create d stamp c of
             (Inl _, c1) \<Rightarrow> (Inl ''download record failed'', c1)
           | (Inr stored, c1) \<Rightarrow> (Inr (dl_id stored), c1)))"

definition after_send :: "grab_env \<Rightarrow> int \<Rightarrow> grab_state \<Rightarrow> string \<times> grab_state" where
  "after_send e i s =
     (case ge_send e of
        Inl msg \<Rightarrow> (''send to downloader failed'', snd (dl_do e (\<lambda>k. set_error i msg (ge_stamp e k)) s))
      | Inr (remote, torrent) \<Rightarrow>
          (let uc = fn_unicode (ge_fns e);
               s1 = (if remote = [] then s
                     else if torrent then snd (dl_do e (\<lambda>_. set_torrent_id uc i (to_lower uc remote)) s)
                     else snd (dl_do e (\<lambda>_. set_nzo_id i remote) s));
               s2 = snd (dl_do e (\<lambda>k. update_status i StateDownloading (ge_stamp e k)) s1)
           in (''grabbed'', snd (pending_do (delete_by_book_and_media_type (bk_id (ge_book e)) (ge_media e)) s2))))"

definition grab_chosen :: "grab_env \<Rightarrow> chosen \<Rightarrow> grab_state \<Rightarrow> string \<times> grab_state" where
  "grab_chosen e ch s =
     (case ch of (r, pin, existing) \<Rightarrow>
        (case choose_client e r pin of
           Inl why \<Rightarrow> (why, s)
         | Inr c \<Rightarrow>
             (let reason = blocking_regrab_reason existing (ge_now e (gs_count s)) in
              if reason \<noteq> [] then
                (reason @ (case existing of None \<Rightarrow> [] | Some row \<Rightarrow> '' ('' @ state_string (dl_status row) @ '')''), s)
              else
                (case dl_do e (\<lambda>k. take_release existing (grab_row e r c) (ge_now e k) (ge_stamp e k)) s of
                   (Inl why, s1) \<Rightarrow> (why, s1)
                 | (Inr i, s1) \<Rightarrow> after_send e i (s1\<lparr>gs_sends := gs_sends s1 @ [(c, r, meanwhile e s, gs_dl s1)]\<rparr>)))))"

definition search_and_grab :: "grab_env \<Rightarrow> grab_state \<Rightarrow> string \<times> grab_state" where
  "search_and_grab e s =
     (case choose_release e s of
        (Inl why, s1) \<Rightarrow> (why, s1)
      | (Inr ch, s1) \<Rightarrow> grab_chosen e ch s1)"

end
