(* ===== verification/Auto_Grab_Proofs.thy ===== *)
theory Auto_Grab_Proofs
  imports Auto_Grab
begin

text \<open>
  What the automatic grab promises, whatever other writers do to the downloads between its statements: what it sends, on
  which table, and what it leaves in the pending releases.
\<close>

subsection \<open>Ids keep their guid\<close>

text \<open>An id is never handed out again and no write changes the guid of a row.\<close>

definition ids_keep :: "dl_db \<Rightarrow> dl_db \<Rightarrow> bool" where
  "ids_keep c c' \<longleftrightarrow> last_id c \<le> last_id c' \<and>
     (\<forall>r' \<in> set (rows c'). dl_id r' \<le> last_id c \<longrightarrow> (\<exists>r \<in> set (rows c). dl_id r = dl_id r' \<and> dl_guid r = dl_guid r'))"

named_theorems keep \<open>a write of the downloads keeps ids and guids together\<close>

lemma keep_refl [keep]: "ids_keep c c"
  by (auto simp: ids_keep_def)

lemma keep_trans: "ids_keep c d \<Longrightarrow> ids_keep d e \<Longrightarrow> ids_keep c e"
  unfolding ids_keep_def by (metis order_trans)

lemma keep_query [keep]: "ids_keep c (snd (db_query q c))"
  by (auto simp: ids_keep_def db_query_def)

lemma keep_update [keep]:
  "(\<And>r. dl_id (f r) = dl_id r) \<Longrightarrow> (\<And>r. dl_guid (f r) = dl_guid r) \<Longrightarrow> ids_keep c (snd (db_exec (sql_update p f) c))"
  by (fastforce simp: ids_keep_def db_exec_def)

lemma keep_delete [keep]: "ids_keep c (snd (db_exec (sql_delete p) c))"
  by (auto simp: ids_keep_def db_exec_def)

lemma keep_insert [keep]: "(\<And>i. dl_id (mk i) = i) \<Longrightarrow> ids_keep c (snd (db_insert v mk c))"
  by (auto simp: ids_keep_def db_insert_def)

lemma keep_claim [keep]: "ids_keep c (snd (claim_for_regrab accepts d now c))"
  by (simp add: snd_claim keep_update)

lemma keep_read [keep]: "ids_keep c (snd (read_status i c))"
  by (simp add: snd_read_status keep_query)

lemma keep_writes [keep]:
  "ids_keep c (snd (write_status i cur next now c))" "ids_keep c (snd (write_error i cur next msg now c))"
  by (simp_all add: write_status_def write_error_def keep_update)

lemma keep_update_status [keep]: "ids_keep c (snd (update_status i next now c))"
proof -
  have "ids_keep c (snd (read_status i c))" by (rule keep)
  then show ?thesis by (auto simp: update_status_def split: sum.splits prod.splits intro: keep_trans keep)
qed

lemma keep_set_error_with_status [keep]: "ids_keep c (snd (set_error_with_status i st msg now c))"
proof -
  have "ids_keep c (snd (read_status i c))" by (rule keep)
  then show ?thesis by (auto simp: set_error_with_status_def split: sum.splits prod.splits intro: keep_trans keep)
qed

lemma keep_reset [keep]: "ids_keep c (snd (reset_import_retry i c))"
  unfolding snd_reset_import_retry Let_def
  by (auto split: sum.splits intro!: keep_trans [OF keep_update keep_query] keep_update)

lemma keep_recover_loop: "(\<And>r. dl_id (f r) = dl_id r) \<Longrightarrow> (\<And>r. dl_guid (f r) = dl_guid r) \<Longrightarrow>
    ids_keep c (snd (recover_loop g f acc ids c))"
proof (induction ids arbitrary: acc c)
  case (Cons i ids)
  obtain res c' where c': "db_exec (sql_update (\<lambda>d. dl_id d = i \<and> g d) f) c = (res, c')" by (rule prod.exhaust)
  then have "ids_keep c c'" using keep_update [of f c, OF Cons.prems] by (metis snd_conv)
  then show ?case using Cons.IH [OF Cons.prems] by (auto simp: c' split: sum.splits intro: keep_trans)
qed (simp add: keep)

lemma keep_recover [keep]:
  "ids_keep c (snd (recover_interrupted_imports c))" "ids_keep c (snd (recover_wedged_completed l k c))"
proof -
  have i: "ids_keep c (snd (interrupted_import_ids c))" "ids_keep c (snd (wedged_completed_ids l k c))"
    by (simp_all add: interrupted_import_ids_def wedged_completed_ids_def keep_query)
  show "ids_keep c (snd (recover_interrupted_imports c))" "ids_keep c (snd (recover_wedged_completed l k c))"
    using i by (auto simp: recover_interrupted_imports_def recover_wedged_completed_def split: sum.splits prod.splits
        intro!: keep_trans [OF _ keep_recover_loop])
qed

lemma keep_trim_loop: "ids_keep c (snd (trim_loop cutoff b done acc c))"
proof (induction cutoff b "done" acc c rule: trim_loop.induct)
  case (1 cutoff b "done" acc c)
  have "db_exec (trim_batch cutoff n) c = db_exec (sql_delete (\<lambda>d. dl_id d \<in> set (take n (map dl_id
      (filter (trimmable cutoff (rows c)) (rows c)))))) c" for n
    by (simp add: db_exec_def trim_batch_def Let_def)
  then have step: "ids_keep c (snd (db_exec (trim_batch cutoff (trim_batch_size b)) c))" by (simp only: keep_delete)
  from step "1.IH" show ?case
    by (subst trim_loop.simps) (auto split: sum.splits prod.splits intro: keep_trans)
qed

lemma keep_op: "ids_keep c (apply_dl_op uc a c)"
  by (cases "(uc, a, c)" rule: apply_dl_op.cases)
    (simp_all add: snd_dl_create keep retry_defs set_error_def upd_by_id_def set_grabbed_at_def set_nzo_id_def
      set_download_client_id_def set_torrent_id_def set_book_id_def set_import_path_def increment_import_retry_count_def
      dl_delete_def delete_by_book_def trim_terminal_def keep_trim_loop)

lemma keep_ops: "ids_keep c (fold (apply_dl_op uc) ops c)"
  by (induction ops arbitrary: c) (auto intro: keep keep_trans keep_op)

subsection \<open>Taking a release\<close>

text \<open>The gate and the claim agree: the reason is empty exactly when \<open>RetryDeadForAutoGrab\<close> would take the row.\<close>

lemma gate_open:
  "blocking_regrab_reason (Some r) now = [] \<longleftrightarrow>
    \<not> blocks_auto_regrab (Some r) \<and> (is_orphaned_import (Some r) \<or> dead_since (Some r) \<le> now - dead_regrab_cooldown)"
  by (auto simp: blocking_regrab_reason_def blocks_auto_regrab_def is_dead_for_auto_regrab_def is_orphaned_import_def
      regrab_live_work_def regrab_too_recent_def regrab_import_blocked_def)

lemma grabbed_blocks: "dl_status r = StateGrabbed \<Longrightarrow> blocking_regrab_reason (Some r) now \<noteq> []"
  by (simp add: gate_open blocks_auto_regrab_def is_dead_for_auto_regrab_def is_orphaned_import_def)

lemma claim_taken:
  assumes "claim_for_regrab accepts d now c = (Inr (True, d'), c')"
  shows "\<not> faulty c \<and> (\<exists>r \<in> set (rows c). dl_id r = dl_id d \<and> accepts r) \<and>
    rows c' = map (\<lambda>r. if dl_id r = dl_id d \<and> accepts r then claim_set (d, now) r else r) (rows c)"
  using assms by (auto simp: claim_for_regrab_def db_exec_def split: if_splits) (auto simp: filter_empty_conv)

lemma one_guid:
  assumes "distinct (map dl_guid t)" "r \<in> set t"
  shows "filter (\<lambda>x. dl_guid x = dl_guid r) t = [r]"
  using filter_key_singleton [OF assms] .

lemma filter_map_key: "(\<And>r. dl_guid (f r) = dl_guid r) \<Longrightarrow> filter (\<lambda>x. dl_guid x = g) (map f t) = map f (filter (\<lambda>x. dl_guid x = g) t)"
  by (induction t) auto

text \<open>However long ago the row was read, a release is taken only when at the moment of the write no row of its guid stands
  in the way, and then exactly one row has its guid: a fresh one for this book and client.\<close>

lemma take_release_sound:
  assumes inv: "table_inv c0" and read: "get_by_guid (dl_guid d) c0 = (Inr existing, c1)"
    and later: "ids_keep c1 c2" "table_inv c2" and d: "dl_status d = StateGrabbed"
    and take: "take_release existing d now stamp c2 = (Inr i, c3)"
  shows "list_all (\<lambda>r. dl_guid r = dl_guid d \<longrightarrow> blocking_regrab_reason (Some r) now = []) (rows c2) \<and>
    (\<exists>row. filter (\<lambda>r. dl_guid r = dl_guid d) (rows c3) = [row] \<and> dl_id row = i \<and> dl_status row = StateGrabbed \<and>
      dl_book_id row = dl_book_id d \<and> dl_download_client_id row = dl_download_client_id d)"
proof (cases existing)
  case None
  then have new: "\<not> faulty c2" "dl_guid d \<notin> dl_guid ` set (rows c2)"
    "i = last_id c2 + 1" "rows c3 = rows c2 @ [created_row d stamp i]"
    using take by (auto simp: take_release_def dl_create_def db_insert_def split: if_splits)
  have "filter (\<lambda>r. dl_guid r = dl_guid d) (rows c2) = []" using new(2) by (auto simp: filter_empty_conv image_iff)
  then show ?thesis
    using new d by (auto simp: list_all_iff image_iff) (simp_all add: created_row_def)
next
  case (Some row)
  have row: "row \<in> set (rows c0)" "dl_guid row = dl_guid d"
    using read Some by (auto simp: get_by_guid_def get_by_def db_query_def find_Some_iff split: if_splits)
  have c1: "rows c1 = rows c0" "last_id c1 = last_id c0" using read by (auto simp: get_by_guid_def get_by_def db_query_def split: if_splits)
  define accepts where "accepts = (\<lambda>r. dl_status r = StateFailed \<and> dead_at_sql r \<le> now - dead_regrab_cooldown
            \<or> dl_status r = StateImported \<and> dl_book_id r = None)"
  obtain d' where "claim_for_regrab accepts (d\<lparr>dl_id := dl_id row\<rparr>) stamp c2 = (Inr (True, d'), c3)" "i = dl_id row"
    using take Some by (auto simp: take_release_def retry_dead_for_auto_grab_def accepts_def split: sum.splits prod.splits if_splits)
  from claim_taken [OF this(1)] this(2) obtain r where r: "r \<in> set (rows c2)" "dl_id r = dl_id row" "accepts r"
    and rows3: "rows c3 = map (\<lambda>r. if dl_id r = dl_id row \<and> accepts r then claim_set (d\<lparr>dl_id := dl_id row\<rparr>, stamp) r else r) (rows c2)"
    and i: "i = dl_id row" by auto
  have "dl_id r \<le> last_id c1" using row(1) r(2) inv c1 by (auto simp: table_inv_def keyed_def)
  then obtain r0 where r0: "r0 \<in> set (rows c1)" "dl_id r0 = dl_id r" "dl_guid r0 = dl_guid r"
    using later(1) r(1) unfolding ids_keep_def by blast
  have "r0 = row" using r0 row(1) r(2) c1(1) table_invD(1) [OF inv] by (auto simp: distinct_map inj_on_def)
  then have guid: "dl_guid r = dl_guid d" using r0(3) row(2) by simp
  have only: "filter (\<lambda>x. dl_guid x = dl_guid d) (rows c2) = [r]"
    using one_guid [OF table_invD(2) [OF later(2)] r(1)] guid by simp
  have open_gate: "blocking_regrab_reason (Some r) now = []"
    using r(3) unfolding gate_open accepts_def
    by (auto simp: dead_since_sql blocks_auto_regrab_def is_dead_for_auto_regrab_def is_orphaned_import_def)
  have "x = r" if "x \<in> set (rows c2)" "dl_guid x = dl_guid d" for x
  proof -
    have "x \<in> set (filter (\<lambda>x. dl_guid x = dl_guid d) (rows c2))" using that by simp
    then show ?thesis unfolding only by simp
  qed
  then have "list_all (\<lambda>r. dl_guid r = dl_guid d \<longrightarrow> blocking_regrab_reason (Some r) now = []) (rows c2)"
    using open_gate by (auto simp: list_all_iff)
  moreover have "filter (\<lambda>x. dl_guid x = dl_guid d) (rows c3) = [claim_set (d\<lparr>dl_id := dl_id row\<rparr>, stamp) r]"
    unfolding rows3 by (subst filter_map_key) (simp_all add: only r(2,3))
  ultimately show ?thesis using i r(2) by (simp add: claim_set_def)
qed

subsection \<open>The search as a whole\<close>

definition others_ok :: "grab_env \<Rightarrow> bool" where
  "others_ok e \<longleftrightarrow> (\<forall>k. list_all dl_op_ok (ge_others e k))"

text \<open>What no statement of the search touches, and what it may do to the table.\<close>

definition goes_on :: "grab_state \<Rightarrow> grab_state \<Rightarrow> bool" where
  "goes_on s s' \<longleftrightarrow> gs_sends s' = gs_sends s \<and> (table_inv (gs_dl s) \<longrightarrow> table_inv (gs_dl s'))"

lemma goes_on_refl [simp]: "goes_on s s"
  by (simp add: goes_on_def)

lemma goes_on_trans: "goes_on s s' \<Longrightarrow> goes_on s' s'' \<Longrightarrow> goes_on s s''"
  by (auto simp: goes_on_def)

lemma goes_on_pending [simp]: "goes_on s (snd (pending_do f s))" "gs_dl (snd (pending_do f s)) = gs_dl s"
  by (simp_all add: goes_on_def pending_do_def split: prod.split)

lemma goes_on_update [simp]:
  "goes_on s (s'\<lparr>gs_skipped := is\<rparr>) = goes_on s s'" "goes_on s (s'\<lparr>gs_held := h\<rparr>) = goes_on s s'"
  by (simp_all add: goes_on_def)

lemma others_inv: "others_ok e \<Longrightarrow> table_inv (gs_dl s) \<Longrightarrow> table_inv (meanwhile e s)"
  unfolding meanwhile_def by (rule dlh.run_inv) (simp_all add: others_ok_def)

lemma dl_do_table:
  assumes "dl_do e f s = (a, s')"
  shows "f (gs_count s) (meanwhile e s) = (a, gs_dl s') \<and>
    gs_sends s' = gs_sends s"
  using assms by (auto simp: dl_do_def Let_def split: prod.splits)

lemma dl_do_goes_on:
  assumes "others_ok e" "\<And>k c. table_inv c \<Longrightarrow> table_inv (snd (f k c))"
  shows "goes_on s (snd (dl_do e f s))"
proof -
  obtain a s' where do: "dl_do e f s = (a, s')" by (rule prod.exhaust)
  note t = dl_do_table [OF do]
  then show ?thesis
    using assms(2) [OF others_inv [OF assms(1)], of s "gs_count s"]
    by (auto simp: goes_on_def do)
qed

text \<open>What is known of a release the search has chosen.\<close>

definition passes :: "grab_env \<Rightarrow> nat \<Rightarrow> search_result \<Rightarrow> bool" where
  "passes e k r \<longleftrightarrow> list_all (\<lambda>sp. fst (sp (release_of (ge_mentions e) (ge_age e k) r) (ge_book e))) (ge_specs e)"

definition just_read :: "search_result \<Rightarrow> download option \<Rightarrow> grab_state \<Rightarrow> bool" where
  "just_read r existing s \<longleftrightarrow> (\<exists>c0. table_inv c0 \<and> get_by_guid (res_guid r) c0 = (Inr existing, gs_dl s))"

definition pin_of :: "grab_env \<Rightarrow> search_result \<Rightarrow> pin_error + client_row option" where
  "pin_of e r = pinned_client (ge_find_indexer e) (ge_find_client e) (res_indexer_id r) (res_protocol r)"

lemma passes_iff: "dc_approved (decide (ge_specs e) (ge_book e) (release_of (ge_mentions e) (ge_age e k) r)) \<longleftrightarrow> passes e k r"
  unfolding passes_def list_all_iff first_rejection_None [symmetric] by (auto simp: decide_def split: option.split)

lemma accept_sound:
  assumes "others_ok e" "table_inv (gs_dl s)" "accept e r s = (a, s')"
  shows "goes_on s s' \<and> (\<forall>pin existing. a = Take pin existing \<longrightarrow> pin_of e r = Inr pin \<and> just_read r existing s')"
proof (cases "res_indexer_id r \<in> set (gs_skipped s) \<or> isl (pin_of e r)")
  case True
  then show ?thesis
    using assms(3) by (auto simp: accept_def pin_of_def split: sum.splits pin_error.splits if_splits)
next
  case False
  then obtain pin where pin: "pin_of e r = Inr pin" "res_indexer_id r \<notin> set (gs_skipped s)" by (cases "pin_of e r") auto
  obtain got s1 where do: "dl_do e (\<lambda>_. get_by_guid (res_guid r)) s = (got, s1)" by (rule prod.exhaust)
  have on: "goes_on s s1"
    using dl_do_goes_on [OF assms(1), of "\<lambda>_. get_by_guid (res_guid r)" s] do
    by (simp add: get_by_guid_def get_by_def table_inv_query)
  have read: "just_read r existing s1" if "got = Inr existing" for existing
    using dl_do_table [OF do] others_inv [OF assms(1,2)] that unfolding just_read_def by blast
  show ?thesis
    using assms(3) pin on read
    by (auto simp: accept_def pin_of_def do just_read_def Let_def split: sum.splits option.splits if_splits)
qed

definition pick_ok :: "grab_env \<Rightarrow> grab_state \<Rightarrow> (string + chosen option) \<times> grab_state \<Rightarrow> bool" where
  "pick_ok e s res \<longleftrightarrow> goes_on s (snd res) \<and> (\<forall>r pin existing. fst res = Inr (Some (r, pin, existing)) \<longrightarrow>
     (\<exists>k. passes e k r) \<and> pin_of e r = Inr pin \<and> just_read r existing (snd res))"

lemma pick_ok_trans: "goes_on s s1 \<Longrightarrow> pick_ok e s1 res \<Longrightarrow> pick_ok e s res"
  by (auto simp: pick_ok_def intro: goes_on_trans)

lemma goes_on_inv: "goes_on s s' \<Longrightarrow> table_inv (gs_dl s) \<Longrightarrow> table_inv (gs_dl s')"
  by (simp add: goes_on_def)

lemma store_pending_on [simp]: "goes_on s (store_pending e r why s)" "gs_dl (store_pending e r why s) = gs_dl s"
  by (simp_all add: store_pending_def)

lemma pick_result_sound:
  "others_ok e \<Longrightarrow> table_inv (gs_dl s) \<Longrightarrow> \<forall>(r, d) \<in> set zs. dc_approved d \<longrightarrow> passes e 0 r \<Longrightarrow>
    pick_ok e s (pick_result e zs s)"
proof (induction e zs s rule: pick_result.induct)
  case (1 e s)
  then show ?case by (simp add: pick_ok_def)
next
  case (2 e r d rest s)
  show ?case
  proof (cases "dc_approved d")
    case True
    obtain a s1 where acc: "accept e r s = (a, s1)" by (rule prod.exhaust)
    note ok = accept_sound [OF "2.prems"(1,2) acc]
    have rest: "pick_ok e s (pick_result e rest s1)" if "a \<in> {Pass, PassForGood}"
    proof (rule pick_ok_trans [OF conjunct1 [OF ok]])
      show "pick_ok e s1 (pick_result e rest s1)"
        using that "2.IH"(1,2) [OF True] "2.prems" ok acc by (auto intro: goes_on_inv)
    qed
    show ?thesis using True ok "2.prems"(3) rest by (cases a) (auto simp: acc pick_ok_def)
  next
    case False
    define s1 where "s1 = (if contains_str (dc_rejection d) ''delay not met'' \<or> contains_str (dc_rejection d) freeleech_hold
      then store_pending e r (dc_rejection d) s else s)"
    have "goes_on s s1" "table_inv (gs_dl s1)" using "2.prems"(2) by (simp_all add: s1_def)
    moreover have "pick_ok e s1 (pick_result e rest s1)"
      using "2.IH"(3) [OF False "2.prems"(1)] "2.prems"(2,3) by (simp add: s1_def)
    ultimately show ?thesis using False pick_ok_trans by (simp add: s1_def [symmetric])
  qed
qed

lemma pick_pending_sound:
  "others_ok e \<Longrightarrow> table_inv (gs_dl s) \<Longrightarrow> pick_ok e s (pick_pending e i held s)"
proof (induction e i held s rule: pick_pending.induct)
  case (1 e i s)
  then show ?case by (simp add: pick_ok_def)
next
  case (2 e i row rest s)
  show ?case
  proof (cases "pr_release row")
    case None
    then show ?thesis using "2.IH"(1) "2.prems" by simp
  next
    case (Some r)
    show ?thesis
    proof (cases "passes e (Suc i) r")
      case False
      then show ?thesis using "2.IH"(2) [OF Some] "2.prems" Some by (simp add: evaluate_def passes_iff)
    next
      case True
      obtain a s1 where acc: "accept e r s = (a, s1)" by (rule prod.exhaust)
      note ok = accept_sound [OF "2.prems" acc]
      define s2 where "s2 = snd (pending_do (pr_delete_by_id (pr_id row)) s1)"
      have s2: "goes_on s1 s2" "gs_dl s2 = gs_dl s1" by (simp_all add: s2_def)
      have inv: "table_inv (gs_dl s1)" using ok "2.prems"(2) by (auto intro: goes_on_inv)
      have pass: "pick_ok e s1 (pick_pending e (Suc i) rest s1)" if "a = Pass"
        using "2.IH"(3) [OF Some _ acc [symmetric]] that "2.prems"(1) inv True by (simp add: evaluate_def passes_iff)
      have good: "pick_ok e s2 (pick_pending e (Suc i) rest s2)" if "a = PassForGood"
        using "2.IH"(4) [OF Some _ acc [symmetric]] that "2.prems"(1) inv True s2 by (simp add: evaluate_def passes_iff s2_def)
      show ?thesis
        using Some True ok pass good s2 goes_on_trans pick_ok_trans
        by (cases a) (auto simp: acc evaluate_def passes_iff pick_ok_def just_read_def s2_def [symmetric])
    qed
  qed
qed

lemma pending_approved_sound:
  assumes "others_ok e" "table_inv (gs_dl s)"
  shows "pick_ok e s (pending_approved e s)"
proof -
  obtain got s1 where do: "pending_do (list_by_book_and_media_type (bk_id (ge_book e)) (ge_media e)) s = (got, s1)"
    by (rule prod.exhaust)
  have s1: "goes_on s s1" "gs_dl s1 = gs_dl s"
    using goes_on_pending [where s = s and f = "list_by_book_and_media_type (bk_id (ge_book e)) (ge_media e)"] do by simp_all
  then show ?thesis
    using pick_ok_trans [OF s1(1) pick_pending_sound [OF assms(1)]] assms(2)
    by (auto simp: pending_approved_def do pick_ok_def split: sum.splits)
qed

lemma choose_release_sound:
  assumes "others_ok e" "table_inv (gs_dl s)" "choose_release e s = (got, s')"
  shows "goes_on s s' \<and> (\<forall>r pin existing. got = Inr (r, pin, existing) \<longrightarrow>
    (\<exists>k. passes e k r) \<and> pin_of e r = Inr pin \<and> just_read r existing s')"
proof (cases "ge_clients_early e")
  case None
  then show ?thesis using assms(3) by (auto simp: choose_release_def)
next
  case (Some cs)
  define kept where "kept = filter (\<lambda>r. res_protocol r \<in> set (protocols_of (eligible_clients (ge_media e) (list_enabled_clients cs))))
    (ge_results e)"
  define zs where "zs = zip kept (evaluate (ge_specs e) (map (release_of (ge_mentions e) (ge_age e 0)) kept) (ge_book e))"
  have "\<forall>(r, d) \<in> set zs. dc_approved d \<longrightarrow> passes e 0 r"
    by (auto simp: zs_def evaluate_def set_zip passes_iff)
  then have picked: "pick_ok e s (pick_result e zs s)" by (rule pick_result_sound [OF assms(1,2)])
  obtain a s1 where r1: "pick_result e zs s = (a, s1)" by (rule prod.exhaust)
  have inv: "table_inv (gs_dl s1)" using picked assms(2) by (auto simp: pick_ok_def r1 intro: goes_on_inv)
  obtain b s2 where r2: "pending_approved e s1 = (b, s2)" by (rule prod.exhaust)
  have held: "pick_ok e s (b, s2)"
    using pick_ok_trans [of s s1 e "(b, s2)"] pending_approved_sound [OF assms(1) inv] picked by (simp add: r1 r2 pick_ok_def)
  show ?thesis
  proof (cases "kept = [] \<and> ge_results e \<noteq> []")
    case True
    then show ?thesis using assms(3) Some by (auto simp: choose_release_def Let_def kept_def)
  next
    case False
    then have "choose_release e s = (case (a, s1) of
        (Inl why, s1) \<Rightarrow> (Inl why, s1) | (Inr (Some c), s1) \<Rightarrow> (Inr c, s1)
      | (Inr None, s1) \<Rightarrow> (case (b, s2) of
          (Inl why, s2) \<Rightarrow> (Inl why, s2) | (Inr (Some c), s2) \<Rightarrow> (Inr c, s2)
        | (Inr None, s2) \<Rightarrow> (Inl (if gs_skipped s2 \<noteq> [] then ''pinned download client unavailable''
            else if gs_held s2 \<noteq> [] then gs_held s2 else if ge_raw e = 0 then ''no results'' else ''nothing approved''), s2)))"
      unfolding choose_release_def Some option.case Let_def kept_def [symmetric] zs_def [symmetric] r1 r2 [symmetric] by auto
    then show ?thesis
      using assms(3) picked held by (auto simp: pick_ok_def r1 split: sum.splits option.splits)
  qed
qed

lemma do_sends [simp]: "gs_sends (snd (dl_do e f s)) = gs_sends s" "gs_sends (snd (pending_do g s)) = gs_sends s"
  by (simp_all add: dl_do_def pending_do_def Let_def split: prod.split)

lemma after_send_keeps: "gs_sends (snd (after_send e i s)) = gs_sends s"
  by (simp add: after_send_def Let_def split: sum.split prod.split)

text \<open>The client a grab may go to: the one its indexer is pinned to, else an enabled one of the protocol's types; in both
  cases one that takes the format.\<close>

definition client_allowed :: "grab_env \<Rightarrow> search_result \<Rightarrow> client_row \<Rightarrow> bool" where
  "client_allowed e r c \<longleftrightarrow> takes_media (ge_media e) c \<and> cl_enabled c \<and>
     (case pin_of e r of
        Inl _ \<Rightarrow> False
      | Inr (Some pin) \<Rightarrow> c = pin
      | Inr None \<Rightarrow> cl_type c \<in> set (types_for_protocol (res_protocol r)) \<and> list_ex (\<lambda>x. x = c) (case ge_clients_late e of None \<Rightarrow> [] | Some cs \<Rightarrow> cs))"

lemma choose_client_sound:
  assumes "pin_of e r = Inr pin" "choose_client e r pin = Inr c"
  shows "client_allowed e r c"
proof -
  obtain candidates where cand: "(case pin of Some c \<Rightarrow> Some [c]
      | None \<Rightarrow> map_option (enabled_by_protocol (res_protocol r)) (ge_clients_late e)) = Some candidates"
    and "pick_client (fn_unicode (ge_fns e)) (ge_media e) (eligible_clients (ge_media e) candidates) = Some c"
    using assms(2) by (auto simp: choose_client_def split: option.splits if_splits)
  then have c: "c \<in> set (eligible_clients (ge_media e) candidates)"
    using set_rank [of "fn_unicode (ge_fns e)" "ge_media e" "eligible_clients (ge_media e) candidates"]
    by (auto simp: pick_client_def simp del: set_rank split: list.splits)
  show ?thesis
  proof (cases pin)
    case None
    then show ?thesis using c cand assms(1)
      by (auto simp: client_allowed_def eligible_clients_def enabled_by_protocol_def list_ex_iff split: option.splits)
  next
    case (Some p)
    then have "c = p" "takes_media (ge_media e) c" using c cand by (auto simp: eligible_clients_def)
    moreover have "cl_enabled p" using pinned_client_ok assms(1) Some by (auto simp: pin_of_def)
    ultimately show ?thesis using Some assms(1) by (simp add: client_allowed_def)
  qed
qed

text \<open>The write before a send: no row of the guid stood in the way before it, and after it the only one is this book's,
  just grabbed.\<close>

definition row_taken :: "grab_env \<Rightarrow> search_result \<Rightarrow> client_row \<Rightarrow> time \<Rightarrow> dl_db \<Rightarrow> dl_db \<Rightarrow> bool" where
  "row_taken e r c now before after \<longleftrightarrow>
     list_all (\<lambda>d. dl_guid d = res_guid r \<longrightarrow> blocking_regrab_reason (Some d) now = []) (rows before) \<and>
     (case filter (\<lambda>d. dl_guid d = res_guid r) (rows after) of
        [d] \<Rightarrow> dl_status d = StateGrabbed \<and> dl_book_id d = Some (bk_id (ge_book e)) \<and> dl_download_client_id d = Some (cl_id c)
      | _ \<Rightarrow> False)"

lemma auto_grab_result:
  assumes "others_ok e" "table_inv (gs_dl s)" "search_and_grab e s = (outcome, s')"
  shows "gs_sends s' = gs_sends s \<or> (\<exists>r c before after j k. gs_sends s' = gs_sends s @ [(c, r, before, after)] \<and>
    passes e j r \<and> client_allowed e r c \<and> row_taken e r c (ge_now e k) before after)"
proof -
  obtain got s1 where choice: "choose_release e s = (got, s1)" by (rule prod.exhaust)
  note ch = choose_release_sound [OF assms(1,2) choice]
  show ?thesis
  proof (cases got)
    case (Inl why)
    then show ?thesis using assms(3) ch by (auto simp: search_and_grab_def choice goes_on_def)
  next
    case (Inr picked)
    obtain r pin existing where picked: "picked = (r, pin, existing)" by (cases picked)
    note known = ch [unfolded Inr picked]
    have result: "(outcome, s') = grab_chosen e (r, pin, existing) s1"
      using assms(3) by (simp add: search_and_grab_def choice Inr picked)
    show ?thesis
    proof (cases "gs_sends s' = gs_sends s1")
      case True
      then show ?thesis using known by (simp add: goes_on_def)
    next
      case False
      then obtain c where c: "choose_client e r pin = Inr c"
        using result by (auto simp: grab_chosen_def split: sum.splits)
      let ?f = "\<lambda>k. take_release existing (grab_row e r c) (ge_now e k) (ge_stamp e k)"
      obtain took s2 where take: "dl_do e ?f s1 = (took, s2)" by (rule prod.exhaust)
      note t = dl_do_table [OF take]
      let ?after = "s2\<lparr>gs_sends := gs_sends s2 @ [(c, r, meanwhile e s1, gs_dl s2)]\<rparr>"
      obtain i where i: "took = Inr i" "(outcome, s') = after_send e i ?after"
        using result False t by (auto simp: grab_chosen_def c take Let_def split: if_splits sum.splits)
      have sends: "gs_sends s' = gs_sends s @ [(c, r, meanwhile e s1, gs_dl s2)]"
        using after_send_keeps [of e i ?after] i(2) [symmetric] t known by (simp add: goes_on_def)
      have inv1: "table_inv (gs_dl s1)" using known assms(2) by (auto intro: goes_on_inv)
      obtain c0 where c0: "table_inv c0" "get_by_guid (res_guid r) c0 = (Inr existing, gs_dl s1)"
        using known by (auto simp: just_read_def)
      have "ids_keep (gs_dl s1) (meanwhile e s1)" unfolding meanwhile_def by (rule keep_ops)
      then have "row_taken e r c (ge_now e (gs_count s1)) (meanwhile e s1) (gs_dl s2)"
        using take_release_sound [OF c0(1), of "grab_row e r c" existing "gs_dl s1" "meanwhile e s1" "ge_now e (gs_count s1)"
            "ge_stamp e (gs_count s1)" i "gs_dl s2"]
          c0(2) others_inv [OF assms(1) inv1] t i(1) by (auto simp: grab_row_def row_taken_def)
      then show ?thesis using sends choose_client_sound [OF _ c] known by blast
    qed
  qed
qed

text \<open>C2: whatever other writers do to the downloads between its statements, an automatic search sends at most one release. It
  passes every specification, goes to a client allowed for it, and is sent only after its row was taken: at the moment of
  that write no row of its guid was live or failed too recently, and afterwards the only one is this book's.\<close>

theorem auto_grab_sound:
  assumes "others_ok e" "table_inv (gs_dl s)" "search_and_grab e s = (outcome, s')"
  shows "gs_sends s' = gs_sends s \<or> (\<exists>r c before after j k. gs_sends s' = gs_sends s @ [(c, r, before, after)] \<and>
    passes e j r \<and> client_allowed e r c \<and> row_taken e r c (ge_now e k) before after)"
  by (rule auto_grab_result [OF assms])

lemma passes_spec: "passes e k r \<Longrightarrow> sp \<in> set (ge_specs e) \<Longrightarrow> fst (sp (release_of (ge_mentions e) (ge_age e k) r) (ge_book e))"
  by (simp add: passes_def list_all_iff)

text \<open>C26: what the policy of the search keeps it from sending, its pending releases included: when the blocklist was read, a
  release blocked for every book or for this one; the release whose stall started the search; from an indexer whose grabs
  must be free, a torrent that is not reported free.\<close>

theorem auto_grab_obeys_policy:
  assumes "others_ok e" "table_inv (gs_dl s)" "ge_specs e = auto_specs (ge_fns e) (ge_media e) p"
    and "search_and_grab e s = (outcome, s')" "gs_sends s' = gs_sends s @ [(c, r, before, after)]"
  shows "(\<forall>entries. sp_blocklist p = Some entries \<longrightarrow> list_all (\<lambda>b. bl_guid b = res_guid r \<longrightarrow>
        effective_scope b \<noteq> ''release'' \<and> bl_book_id b \<noteq> Some (bk_id (ge_book e))) entries) \<and>
    (sp_stalled p \<noteq> [] \<longrightarrow> res_guid r \<noteq> sp_stalled p) \<and>
    (map_of (sp_freeleech p) (res_indexer_id r) = Some True \<and> res_protocol r = ''torrent'' \<longrightarrow>
      res_volume_factor r = Some (Finite 0))"
proof -
  obtain k where k: "passes e k r"
    using auto_grab_result [OF assms(1,2,4)] assms(5) by auto
  let ?r = "release_of (ge_mentions e) (ge_age e k) r"
  have fields: "rl_guid ?r = res_guid r" "rl_indexer_id ?r = res_indexer_id r" "rl_protocol ?r = res_protocol r"
    "rl_volume_factor ?r = res_volume_factor r" by (simp_all add: release_of_def)
  have "list_all (\<lambda>b. bl_guid b = res_guid r \<longrightarrow> effective_scope b \<noteq> ''release'' \<and> bl_book_id b \<noteq> Some (bk_id (ge_book e))) entries"
    if "sp_blocklist p = Some entries" for entries
    using passes_spec [OF k, of "is_satisfied_by (ge_fns e) (BlocklistedSpec entries)"] that
    by (auto simp: assms(3) auto_specs_def blocklisted_spec_def new_blocklisted_filter fields list_ex_iff list_all_iff
        blocks_book_def split: if_splits)
  moreover have "res_guid r \<noteq> sp_stalled p" if "sp_stalled p \<noteq> []"
    using passes_spec [OF k, of "stalled_release_spec (sp_stalled p)"] that
    by (auto simp: assms(3) auto_specs_def stalled_release_spec_def fields)
  moreover have "res_volume_factor r = Some (Finite 0)"
    if "map_of (sp_freeleech p) (res_indexer_id r) = Some True" "res_protocol r = ''torrent''"
  proof -
    have "sp_freeleech p \<noteq> []" using that(1) by auto
    then show ?thesis
      using passes_spec [OF k, of "is_satisfied_by (ge_fns e) (FreeleechOnlySpec (sp_freeleech p))"] that
      by (auto simp: assms(3) auto_specs_def freeleech_only_spec_def fields split: if_splits option.splits)
  qed
  ultimately show ?thesis by blast
qed

subsection \<open>A grab in a small library\<close>

definition plain_fns :: library_fns where
  "plain_fns = \<lparr> fn_unicode = ascii_uc, fn_narration = (\<lambda>_ _ _. []), fn_show_g = (\<lambda>_. []), fn_pack = (\<lambda>_ _ _ _. []) \<rparr>"

definition one_result :: search_result where
  "one_result = \<lparr> res_guid = ''g1'', res_indexer_id = 4, res_indexer_name = ''ix'', res_title = ''A Title epub'', res_size = 5,
     res_pub_date = [], res_nzb_url = ''u'', res_protocol = ''torrent'', res_language = [], res_volume_factor = None,
     res_media_type = [] \<rparr>"

definition one_client :: client_row where
  "one_client = \<lparr> cl_id = 2, cl_name = ''t'', cl_type = ''transmission'', cl_category = [], cl_category_audiobook = [],
     cl_priority = 0, cl_enabled = True, cl_for_books = True, cl_for_audiobooks = True \<rparr>"

definition wanted_book :: book where
  "wanted_book = \<lparr> bk_id = 3, bk_title = ''A Title'', bk_file_path = [], bk_ebook_path = [], bk_audiobook_path = [] \<rparr>"

definition bare_policy :: search_policy where
  "bare_policy = \<lparr> sp_blocklist = Some [], sp_stalled = [], sp_series_title = [], sp_author_titles = [], sp_profile = None,
     sp_title = [], sp_authors = [], sp_upgrade = None, sp_delay = None, sp_freeleech = [] \<rparr>"

text \<open>Between the look at the row and the insert another writer creates a row of another release.\<close>

definition one_search :: grab_env where
  "one_search = \<lparr> ge_fns = plain_fns, ge_mentions = (\<lambda>_ f. f = ''epub''), ge_age = (\<lambda>_ _. 0), ge_media = media_ebook,
     ge_book = wanted_book, ge_owner = 7, ge_specs = auto_specs plain_fns media_ebook bare_policy, ge_raw = 1,
     ge_results = [one_result], ge_clients_early = Some [one_client], ge_clients_late = Some [one_client],
     ge_find_indexer = (\<lambda>_. Some None), ge_find_client = (\<lambda>_. Some None), ge_now = (\<lambda>k. int k), ge_stamp = (\<lambda>k. int k),
     ge_others = (\<lambda>k. if k = 1 then [(1, OpCreate (sample_download 0 ''g2'' StateGrabbed))] else []),
     ge_send = Inr (''AB'', True) \<rparr>"

definition idle :: "dl_db \<Rightarrow> pending_db \<Rightarrow> grab_state" where
  "idle c p = \<lparr> gs_dl = c, gs_count = 0, gs_pending = p, gs_skipped = [], gs_held = [], gs_sends = [] \<rparr>"

lemma auto_grab_sound_witness:
  "map (\<lambda>(c, r, b, a). (cl_id c, res_guid r, map dl_guid (rows b), map dl_guid (rows a)))
      (gs_sends (snd (search_and_grab one_search (idle (sample_db []) no_pending)))) = [(2, ''g1'', [''g2''], [''g2'', ''g1''])] \<and>
   (\<exists>r c before after j k. gs_sends (snd (search_and_grab one_search (idle (sample_db []) no_pending))) = [(c, r, before, after)] \<and>
     passes one_search j r \<and> client_allowed one_search r c \<and> row_taken one_search r c (ge_now one_search k) before after)"
proof
  show sent: "map (\<lambda>(c, r, b, a). (cl_id c, res_guid r, map dl_guid (rows b), map dl_guid (rows a)))
      (gs_sends (snd (search_and_grab one_search (idle (sample_db []) no_pending)))) = [(2, ''g1'', [''g2''], [''g2'', ''g1''])]"
    by code_simp
  have "table_inv (gs_dl (idle (sample_db []) no_pending))"
    by (simp add: idle_def sample_db_def table_inv_def keyed_def unique_by_def all_rows_def)
  moreover have "others_ok one_search" by (simp add: others_ok_def one_search_def sample_download_def)
  ultimately show "\<exists>r c before after j k. gs_sends (snd (search_and_grab one_search (idle (sample_db []) no_pending))) = [(c, r, before, after)] \<and>
     passes one_search j r \<and> client_allowed one_search r c \<and> row_taken one_search r c (ge_now one_search k) before after"
    using auto_grab_sound [of one_search "idle (sample_db []) no_pending" "fst (search_and_grab one_search (idle (sample_db []) no_pending))"
        "snd (search_and_grab one_search (idle (sample_db []) no_pending))"] sent
    by (auto simp: idle_def)
qed

text \<open>The same search, after a stall of another release, with a blocklist and an indexer whose grabs must be free.\<close>

definition strict_policy :: search_policy where
  "strict_policy = bare_policy\<lparr>sp_blocklist := Some [\<lparr>bl_book_id = Some 9, bl_guid = ''g1'', bl_scope = ''book''\<rparr>],
     sp_stalled := ''g0'', sp_freeleech := [(4, True)]\<rparr>"

definition strict_search :: grab_env where
  "strict_search = one_search\<lparr>ge_specs := auto_specs plain_fns media_ebook strict_policy,
     ge_results := [one_result\<lparr>res_guid := ''g0''\<rparr>, one_result, one_result\<lparr>res_guid := ''g3'', res_volume_factor := Some (Finite 0)\<rparr>]\<rparr>"

lemma auto_grab_obeys_policy_witness:
  "\<exists>c r before after. gs_sends (snd (search_and_grab strict_search (idle (sample_db []) no_pending))) = [(c, r, before, after)] \<and>
     res_guid r \<noteq> ''g0'' \<and> res_volume_factor r = Some (Finite 0)"
proof -
  let ?run = "search_and_grab strict_search (idle (sample_db []) no_pending)"
  have "map (\<lambda>(c, r, b, a). (res_guid r, res_indexer_id r, res_protocol r)) (gs_sends (snd ?run)) = [(''g3'', 4, ''torrent'')]"
    by code_simp
  then obtain c r before after where sent: "gs_sends (snd ?run) = [(c, r, before, after)]" "res_indexer_id r = 4" "res_protocol r = ''torrent''"
    by auto
  have "table_inv (gs_dl (idle (sample_db []) no_pending))"
    by (simp add: idle_def sample_db_def table_inv_def keyed_def unique_by_def all_rows_def)
  moreover have "others_ok strict_search" by (simp add: others_ok_def strict_search_def one_search_def sample_download_def)
  moreover have "ge_specs strict_search = auto_specs (ge_fns strict_search) (ge_media strict_search) strict_policy"
    by (simp add: strict_search_def one_search_def)
  moreover have "gs_sends (snd ?run) = gs_sends (idle (sample_db []) no_pending) @ [(c, r, before, after)]"
    unfolding sent(1) by (simp add: idle_def)
  ultimately have "(sp_stalled strict_policy \<noteq> [] \<longrightarrow> res_guid r \<noteq> sp_stalled strict_policy) \<and>
    (map_of (sp_freeleech strict_policy) (res_indexer_id r) = Some True \<and> res_protocol r = ''torrent'' \<longrightarrow>
      res_volume_factor r = Some (Finite 0))"
    using auto_grab_obeys_policy [of strict_search "idle (sample_db []) no_pending" strict_policy "fst ?run" "snd ?run" c r before after]
    by simp
  then have "res_guid r \<noteq> ''g0'' \<and> res_volume_factor r = Some (Finite 0)"
    using sent by (simp add: strict_policy_def)
  then show ?thesis using sent(1) by blast
qed

subsection \<open>What a search leaves in the pending releases\<close>

definition spares :: "int \<Rightarrow> string \<Rightarrow> pending_db \<Rightarrow> pending_db \<Rightarrow> bool" where
  "spares b mt p p' \<longleftrightarrow> (\<forall>r \<in> set (rows p). pr_book_id r \<noteq> b \<or> pr_media_type r \<noteq> mt \<longrightarrow>
     (\<exists>r' \<in> set (rows p'). pr_id r' = pr_id r \<and> pending_key r' = pending_key r \<and> pr_media_type r' = pr_media_type r \<and>
        pr_release r' = pr_release r))"

lemma spares_refl [simp]: "spares b mt p p"
  by (auto simp: spares_def)

lemma spares_trans: "spares b mt p q \<Longrightarrow> spares b mt q r \<Longrightarrow> spares b mt p r"
  unfolding spares_def pending_key_def by (metis Pair_inject)

lemma spares_upsert [simp]: "spares b mt p (snd (pr_upsert pr now p))"
proof -
  have "\<exists>r' \<in> set (rows (snd (pr_upsert pr now p))). pr_id r' = pr_id r \<and> pending_key r' = pending_key r \<and>
      pr_media_type r' = pr_media_type r \<and> pr_release r' = pr_release r" if "r \<in> set (rows p)" for r
    using that unfolding pr_upsert_def db_exec_def upsert_row_def
    by (intro bexI [of _ "if \<not> faulty p \<and> pending_key r = pending_key pr
        then r\<lparr>pr_reason := pr_reason pr, pr_age_minutes := pr_age_minutes pr\<rparr> else r"])
      (auto simp: pending_key_def list_ex_iff)
  then show ?thesis by (simp add: spares_def)
qed

lemma spares_delete_format [simp]: "spares b mt p (snd (delete_by_book_and_media_type b mt p))"
  by (auto simp: spares_def delete_by_book_and_media_type_def db_exec_def)

text \<open>A deletion by id spares them when the id belongs to this book and format.\<close>

definition own_id :: "int \<Rightarrow> string \<Rightarrow> pending_db \<Rightarrow> int \<Rightarrow> bool" where
  "own_id b mt p i \<longleftrightarrow> (\<forall>r \<in> set (rows p). pr_id r = i \<longrightarrow> pr_book_id r = b \<and> pr_media_type r = mt)"

lemma spares_delete_id: "own_id b mt p i \<Longrightarrow> spares b mt p (snd (pr_delete_by_id i p))"
  by (auto simp: spares_def own_id_def pr_delete_by_id_def db_exec_def)

lemma own_after_delete: "own_id b mt p j \<Longrightarrow> own_id b mt (snd (pr_delete_by_id i p)) j"
  by (auto simp: own_id_def pr_delete_by_id_def db_exec_def)

lemma do_pending [simp]: "gs_pending (snd (dl_do e f s)) = gs_pending s" "gs_pending (snd (pending_do g s)) = snd (g (gs_pending s))"
  by (simp_all add: dl_do_def pending_do_def Let_def split: prod.split)

lemma accept_pending: "gs_pending (snd (accept e r s)) = gs_pending s"
proof -
  have "gs_pending s1 = gs_pending s" if "dl_do e f s = (x, s1)" for f :: "nat \<Rightarrow> dl_db \<Rightarrow> (db_error + download option) \<times> dl_db" and x s1
    using do_pending(1) [of e f s] that by simp
  then show ?thesis
    by (auto simp: accept_def Let_def split: sum.splits pin_error.splits option.splits prod.splits if_splits)
qed

lemma pick_result_spares: "spares b mt (gs_pending s) (gs_pending (snd (pick_result e zs s)))"
proof (induction e zs s rule: pick_result.induct)
  case (2 e r d rest s)
  obtain a s1 where acc: "accept e r s = (a, s1)" by (rule prod.exhaust)
  have s1: "gs_pending s1 = gs_pending s" using accept_pending [of e r s] acc by simp
  show ?case
  proof (cases "dc_approved d")
    case True
    then show ?thesis using "2.IH"(1,2) [OF True acc [symmetric]] s1 by (cases a) (auto simp: acc)
  next
    case False
    have "spares b mt (gs_pending s) (gs_pending (store_pending e r (dc_rejection d) s))" by (simp add: store_pending_def)
    then show ?thesis using False "2.IH"(3) [OF False] by (auto intro: spares_trans)
  qed
qed simp

lemma pick_pending_spares:
  "list_all (\<lambda>row. own_id b mt (gs_pending s) (pr_id row)) held \<Longrightarrow>
    spares b mt (gs_pending s) (gs_pending (snd (pick_pending e i held s)))"
proof (induction e i held s rule: pick_pending.induct)
  case (2 e i row rest s)
  show ?case
  proof (cases "\<exists>r. pr_release row = Some r \<and>
      list_ex dc_approved (evaluate (ge_specs e) [release_of (ge_mentions e) (ge_age e (Suc i)) r] (ge_book e))")
    case False
    then show ?thesis using "2.IH"(1,2) "2.prems" by (auto split: option.split)
  next
    case True
    then obtain r where r: "pr_release row = Some r"
      "list_ex dc_approved (evaluate (ge_specs e) [release_of (ge_mentions e) (ge_age e (Suc i)) r] (ge_book e))" by blast
    obtain a s1 where acc: "accept e r s = (a, s1)" by (rule prod.exhaust)
    have s1: "gs_pending s1 = gs_pending s" using accept_pending [of e r s] acc by simp
    define s2 where "s2 = snd (pending_do (pr_delete_by_id (pr_id row)) s1)"
    have s2: "spares b mt (gs_pending s) (gs_pending s2)" "list_all (\<lambda>row. own_id b mt (gs_pending s2) (pr_id row)) rest"
      using "2.prems" by (auto simp: s2_def s1 spares_delete_id list_all_iff own_after_delete)
    have "spares b mt (gs_pending s) (gs_pending (snd (pick_pending e (Suc i) rest s1)))" if "a = Pass"
      using "2.IH"(3) [OF r(1) _ acc [symmetric] that] r(2) "2.prems" s1 by simp
    moreover have "spares b mt (gs_pending s) (gs_pending (snd (pick_pending e (Suc i) rest s2)))" if "a = PassForGood"
      using "2.IH"(4) [OF r(1) _ acc [symmetric] that] r(2) s2 by (auto simp: s2_def intro: spares_trans)
    ultimately show ?thesis using r s1 s2(1) by (cases a) (simp_all add: acc s2_def [symmetric])
  qed
qed simp

lemma pick_result_ok: "pending_ok (gs_pending s) \<Longrightarrow> pending_ok (gs_pending (snd (pick_result e zs s)))"
proof (induction e zs s rule: pick_result.induct)
  case (2 e r d rest s)
  obtain a s1 where acc: "accept e r s = (a, s1)" by (rule prod.exhaust)
  have s1: "gs_pending s1 = gs_pending s" using accept_pending [of e r s] acc by simp
  show ?case
  proof (cases "dc_approved d")
    case True
    then show ?thesis using "2.IH"(1,2) [OF True acc [symmetric]] "2.prems" s1 by (cases a) (auto simp: acc)
  next
    case False
    have "pending_ok (gs_pending (store_pending e r (dc_rejection d) s))" using "2.prems" by (simp add: store_pending_def upsert_ok)
    then show ?thesis using False "2.IH"(3) [OF False] "2.prems" by auto
  qed
qed simp

lemma own_listed:
  assumes "pending_ok p" "fst (list_by_book_and_media_type b mt p) = Inr held"
  shows "list_all (\<lambda>row. own_id b mt p (pr_id row)) held"
proof -
  have "set held = {r \<in> set (rows p). pr_book_id r = b \<and> pr_media_type r = mt}"
    using assms(2) by (auto simp: list_by_book_and_media_type_def db_query_def split: if_splits)
  then show ?thesis using assms(1) by (auto simp: list_all_iff own_id_def pending_ok_def distinct_map inj_on_def)
qed

lemma pending_approved_spares:
  assumes "pending_ok (gs_pending s)"
  shows "spares (bk_id (ge_book e)) (ge_media e) (gs_pending s) (gs_pending (snd (pending_approved e s)))"
proof -
  let ?q = "list_by_book_and_media_type (bk_id (ge_book e)) (ge_media e)"
  obtain got s1 where do: "pending_do ?q s = (got, s1)" by (rule prod.exhaust)
  have got: "got = fst (?q (gs_pending s))" "gs_pending s1 = snd (?q (gs_pending s))"
    using do by (auto simp: pending_do_def split: prod.splits)
  have rows: "rows (gs_pending s1) = rows (gs_pending s)" by (simp add: got(2) list_by_book_and_media_type_def db_query_rows)
  then have same: "spares b mt (gs_pending s) q \<longleftrightarrow> spares b mt (gs_pending s1) q" "own_id b mt (gs_pending s) i \<longleftrightarrow> own_id b mt (gs_pending s1) i"
    for b mt q i by (simp_all add: spares_def own_id_def)
  show ?thesis
  proof (cases got)
    case (Inl x)
    then show ?thesis by (simp add: pending_approved_def do same(1))
  next
    case (Inr held)
    then have "list_all (\<lambda>row. own_id (bk_id (ge_book e)) (ge_media e) (gs_pending s1) (pr_id row)) held"
      using own_listed [OF assms, of "bk_id (ge_book e)" "ge_media e" held] got(1) same(2) by simp
    then show ?thesis using Inr pick_pending_spares by (simp add: pending_approved_def do same(1))
  qed
qed

lemma choose_release_spares:
  assumes "pending_ok (gs_pending s)"
  shows "spares (bk_id (ge_book e)) (ge_media e) (gs_pending s) (gs_pending (snd (choose_release e s)))"
proof -
  have picked: "spares (bk_id (ge_book e)) (ge_media e) (gs_pending s) (gs_pending s1) \<and>
      spares (bk_id (ge_book e)) (ge_media e) (gs_pending s) (gs_pending (snd (pending_approved e s1)))"
    if "pick_result e zs s = (a, s1)" for zs a s1
  proof -
    have "spares (bk_id (ge_book e)) (ge_media e) (gs_pending s) (gs_pending s1)" "pending_ok (gs_pending s1)"
      using pick_result_spares [of _ _ s e zs] pick_result_ok [OF assms, of e zs] that by simp_all
    then show ?thesis using pending_approved_spares spares_trans by blast
  qed
  show ?thesis
    unfolding choose_release_def Let_def
    by (auto split: option.split sum.split prod.split dest!: picked)
qed

text \<open>A search never removes a pending release held for another book or for the other format of its book.\<close>

theorem grab_spares_other_pending:
  assumes "pending_ok (gs_pending s)"
  shows "spares (bk_id (ge_book e)) (ge_media e) (gs_pending s) (gs_pending (snd (search_and_grab e s)))"
proof -
  let ?b = "bk_id (ge_book e)" and ?mt = "ge_media e"
  have after: "spares ?b ?mt (gs_pending t) (gs_pending (snd (after_send e i t)))" for i t
    by (simp add: after_send_def Let_def split: sum.split prod.split)
  have grab: "spares ?b ?mt (gs_pending t) (gs_pending (snd (grab_chosen e ch t)))" for ch t
  proof -
    obtain r pin existing where ch: "ch = (r, pin, existing)" by (cases ch)
    have step: "spares ?b ?mt (gs_pending t) (gs_pending (snd (case dl_do e f t of (Inl why, s1) \<Rightarrow> (why, s1)
        | (Inr i, s1) \<Rightarrow> after_send e i (s1\<lparr>gs_sends := x s1\<rparr>))))"
      for f :: "nat \<Rightarrow> dl_db \<Rightarrow> (string + int) \<times> dl_db" and x
    proof -
      obtain a t1 where do: "dl_do e f t = (a, t1)" by (rule prod.exhaust)
      have "gs_pending t1 = gs_pending t" using do_pending(1) [of e f t] do by simp
      then show ?thesis using after [where t = "t1\<lparr>gs_sends := x t1\<rparr>"] by (cases a) (simp_all add: do)
    qed
    show ?thesis
    proof (cases "choose_client e r pin")
      case (Inr c)
      then show ?thesis
        using step [where f = "\<lambda>k. take_release existing (grab_row e r c) (ge_now e k) (ge_stamp e k)"
            and x = "\<lambda>s1. gs_sends s1 @ [(c, r, meanwhile e t, gs_dl s1)]"]
        by (simp add: grab_chosen_def ch Let_def)
    qed (simp add: grab_chosen_def ch)
  qed
  show ?thesis
    using choose_release_spares [OF assms, of e] grab
    by (auto simp: search_and_grab_def split: sum.splits prod.splits intro: spares_trans)
qed

definition held_for :: "string \<Rightarrow> int \<Rightarrow> string \<Rightarrow> search_result option \<Rightarrow> pending_row" where
  "held_for guid b mt r = (held_row mt)\<lparr>pr_guid := guid, pr_book_id := b, pr_release := r\<rparr>"

definition some_pending :: pending_db where
  "some_pending = snd (pr_upsert (held_for ''h1'' 3 media_ebook None) 1 (snd (pr_upsert (held_for ''h2'' 3 media_audiobook None) 2
     (snd (pr_upsert (held_for ''h3'' 8 media_ebook None) 3 no_pending)))))"

lemma grab_spares_other_pending_witness:
  "map pr_guid (rows (gs_pending (snd (search_and_grab one_search (idle (sample_db []) some_pending))))) = [''h3'', ''h2''] \<and>
   spares 3 media_ebook some_pending (gs_pending (snd (search_and_grab one_search (idle (sample_db []) some_pending))))"
proof
  show "map pr_guid (rows (gs_pending (snd (search_and_grab one_search (idle (sample_db []) some_pending))))) = [''h3'', ''h2'']"
    by code_simp
  have "pending_ok some_pending" unfolding some_pending_def by (intro upsert_ok) (simp add: pending_ok_def no_pending_def)
  then have "pending_ok (gs_pending (idle (sample_db []) some_pending))" by (simp add: idle_def)
  from grab_spares_other_pending [OF this, of one_search]
  show "spares 3 media_ebook some_pending (gs_pending (snd (search_and_grab one_search (idle (sample_db []) some_pending))))"
    by (simp add: idle_def one_search_def wanted_book_def)
qed

subsection \<open>A pending release that is lost\<close>

text \<open>The row of an approved pending release is deleted before the client is chosen. When the clients cannot be read any
  more, nothing is sent and nothing holds the release.\<close>

definition nothing_new :: grab_env where
  "nothing_new = one_search\<lparr>ge_results := [], ge_raw := 0, ge_others := (\<lambda>_. [])\<rparr>"

theorem pending_release_lost:
  "let held = snd (pr_upsert (held_for ''g1'' 3 media_ebook (Some one_result)) 1 no_pending);
       taken = search_and_grab nothing_new (idle (sample_db []) held);
       lost = search_and_grab (nothing_new\<lparr>ge_clients_late := None\<rparr>) (idle (sample_db []) held)
   in fst taken = ''grabbed'' \<and>
      fst lost = ''download client lookup failed'' \<and> gs_sends (snd lost) = [] \<and> rows (gs_dl (snd lost)) = [] \<and>
      rows (gs_pending (snd lost)) = []"
  by code_simp

end
