(* ===== verification/Spec2Isabelle.thy ===== *)
theory Spec2Isabelle
  imports
    Go_Prelude Sql_Table
    Download_State Download_Repo Download_Invariants Download_Claims Download_Status
    Download_Sweeps Download_Queries Download_Manual
    Requests Request_Claims
    Quality Decision
    Cooldown Quota
    Login_Limiter Login_Keys
    Go_Strconv Go_Utf8 Go_Base64 Go_Path Go_Net
    Session_Token Session_Revocations Client_Addr Real_Ip Host_Check Auth_Gate Auth_Proofs
    Log_Ring Isbn Infohash Path_Map Outbound_Guard
    Go_Strings Author_Name Naming Naming_Proofs Blocklist Content_Breaker Client_Health Content_Verdict
    Series_Db Series_Merge Series_Links Series_Proofs Series_History Series_Exclusions Series_Claims
    Check_Queue Discovery Series_Monitor
    Event_System Worker_Pool Client_Choice Pending_Releases Auto_Grab Auto_Grab_Proofs
begin

text \<open>
  \<^bold>\<open>Bindery: the verified core\<close>

  Bindery automates a library of ebooks and audiobooks: it searches indexers for wanted books,
  judges the releases found, hands an accepted one to a download client, follows the download
  through its states and imports the files. This development models the parts of that program
  that decide and that keep state, as Isabelle functions written after the Go code, and proves
  what makes them correct.

  \<^bold>\<open>The parts and how they interact.\<close>
  A search asks the indexers that are neither held by a cooldown nor out of their daily quota
  (\<open>Cooldown\<close>, \<open>Quota\<close>). The releases they return pass the decision engine (\<open>Decision\<close>), whose
  quality specification and whose ranking both read the profile lists of \<open>Quality\<close> and whose
  blocklist specification reads \<open>Blocklist\<close>. The automatic search (\<open>Auto_Grab\<close>) takes the first
  approved release that a download client may have (\<open>Client_Choice\<close>), else one held back earlier
  (\<open>Pending_Releases\<close>), and writes or claims its row of the downloads table before it sends it; the
  pollers, the importer, the start-up sweeps and the user then move the row through the state
  machine (\<open>Download_State\<close> to \<open>Download_Manual\<close>). A failed job is judged by the evidence of its
  client (\<open>Content_Breaker\<close>, \<open>Content_Verdict\<close>, \<open>Client_Health\<close>) and may end on the blocklist; a
  finished one is renamed into the library (\<open>Naming\<close>, \<open>Author_Name\<close>, \<open>Path_Map\<close>). Books belong to
  series (\<open>Series_Db\<close> to \<open>Series_Claims\<close>), and two hourly jobs look for new books of authors and
  series (\<open>Check_Queue\<close>, \<open>Discovery\<close>, \<open>Series_Monitor\<close>). Requests of household members wait in a queue of
  their own until an administrator or the daily quota approves them (\<open>Requests\<close>,
  \<open>Request_Claims\<close>). Every HTTP request passes the proxy and authentication stack (\<open>Real_Ip\<close>,
  \<open>Client_Addr\<close>, \<open>Host_Check\<close>, \<open>Session_Token\<close>, \<open>Session_Revocations\<close>, \<open>Auth_Gate\<close>), password checks the
  limiter (\<open>Login_Limiter\<close>, \<open>Login_Keys\<close>), and every outgoing connection \<open>Outbound_Guard\<close>.

  \<^bold>\<open>Theories and code.\<close>
  \<^item> \<open>Go_Prelude\<close>: time, durations, 64-bit wrap-around, the functions of the strings and
    path/filepath packages that the code calls, shared list lemmas, and the locale
    \<open>invariant_system\<close> (every operation keeps an invariant, hence every history does).
    \<open>Go_Strings\<close>, \<open>Go_Strconv\<close>, \<open>Go_Utf8\<close>, \<open>Go_Base64\<close>, \<open>Go_Path\<close>, \<open>Go_Net\<close>: what the source uses of Go's
    strings, strconv and hex, unicode/utf8, base64, path and net packages.
  \<^item> \<open>Sql_Table\<close>: one SQLite table as database/sql shows it, a list of rows with a sequence
    and a list of outcomes for the next statements, so that every statement of the model may
    fail; the locale \<open>cas_statement\<close> is the contract of a guarded UPDATE of one row.
    \<open>Event_System\<close>: goroutines as events of a partial step function; the locales give invariants,
    bounds and simulations of whole interleavings from their single steps.
  \<^item> \<open>Download_State\<close>: internal/models/download_state.go and download.go, the states, their
    transition table and the predicates that decide whether a row blocks a new grab.
  \<^item> \<open>Download_Repo\<close>: the writes of internal/db/downloads.go. \<open>Download_Invariants\<close> shows what
    every one of them keeps (interpretation \<open>dlh\<close>); \<open>Download_Claims\<close> that the claims in SQL
    accept exactly the rows the Go predicates let through; \<open>Download_Status\<close> the outcome of
    status writes alone and interleaved with any other writer (the step relation \<open>dl_step\<close>);
    \<open>Download_Sweeps\<close> the start-up recoveries and the retention trim; \<open>Download_Queries\<close> the
    reads; \<open>Download_Manual\<close> the row a manual import creates (internal/api/manual_import.go).
  \<^item> \<open>Requests\<close>: internal/db/requests.go over internal/models/library_request.go.
    \<open>Request_Claims\<close>: the invariant of the queue (interpretation \<open>rqh\<close>), what a claim excludes,
    and what the quota of automatic approvals bounds.
  \<^item> \<open>Quality\<close>: internal/indexer/quality_order.go, the format tokens of searcher.go, and
    internal/models/settings.go. \<open>Decision\<close>: internal/decision; its interface Specification is
    the locale \<open>release_spec\<close>, interpreted on every specification of the package.
  \<^item> \<open>Cooldown\<close>: internal/indexer/cooldown.go. \<open>Quota\<close>: internal/indexer/quota.go with the
    store internal/db/indexer_query_counts.go: how many requests a window admits, before and after
    the stored counts are read.
  \<^item> \<open>Client_Choice\<close>: internal/db/download_clients.go and download_client_pin.go, the ranking of
    clients and the indexers pinned to one. \<open>Pending_Releases\<close>: internal/db/pending_releases.go and
    the conversion of a search result. \<open>Auto_Grab\<close>: searchAndGrabFormat of
    internal/scheduler/scheduler.go from the search results on, with regrab.go; its environment
    holds what it reads and what other writers do to the downloads between its statements.
    \<open>Auto_Grab_Proofs\<close>: what it may send, after which write, and which held releases it leaves.
  \<^item> \<open>Login_Limiter\<close>, \<open>Login_Keys\<close>: internal/auth/ratelimit.go, single calls and histories of login
    attempts.
  \<^item> \<open>Session_Token\<close>: internal/auth/session.go. \<open>Session_Revocations\<close>: the denylist of
    internal/db/session_revocations.go. \<open>Client_Addr\<close>: internal/auth/localip.go and localonly.go.
    \<open>Real_Ip\<close>: internal/httpsec/realip and cmd/bindery/proxy.go. \<open>Host_Check\<close>: internal/auth/hostcheck.go.
    \<open>Auth_Gate\<close>: middleware.go, requester.go, csrf.go and roles.go of internal/auth, composed as
    useAPIAuth of cmd/bindery does, and the Logout handler; \<open>Auth_Proofs\<close>: which credential stands behind
    what is served, and what a logout ends.
  \<^item> \<open>Outbound_Guard\<close>: internal/httpsec/ssrf.go and the bypass rules of proxy.go.
  \<^item> \<open>Log_Ring\<close>: internal/logbuf/ring.go, a circular buffer under the locale \<open>bounded_log\<close>.
    \<open>Isbn\<close>: internal/isbnutil. \<open>Infohash\<close>: internal/downloader/infohash. \<open>Path_Map\<close>: internal/pathmap.
  \<^item> \<open>Author_Name\<close>: internal/textutil/authorquery.go. \<open>Naming\<close>: internal/importer/renamer.go and
    pathkey.go; \<open>Naming_Proofs\<close>: a destination stays in the library and metadata adds no folder.
  \<^item> \<open>Blocklist\<close>: internal/db/blocklist.go, and that its SQL and the search specification agree.
    \<open>Content_Breaker\<close>: the log classifier of internal/downloader/nzbget and
    internal/importer/content_failure_breaker.go. \<open>Client_Health\<close>: internal/downloader/health.go and
    unpackers.go. \<open>Content_Verdict\<close>: the handler of scanner.go that ties the three.
  \<^item> \<open>Series_Db\<close>, \<open>Series_Links\<close>: internal/db/series.go and series_monitoring.go. \<open>Series_Merge\<close>:
    internal/db/series_merge.go. \<open>Series_Proofs\<close>: a merge is a fold of its sources.
    \<open>Series_History\<close>: every writing call keeps the constraints. \<open>Series_Exclusions\<close>, \<open>Series_Claims\<close>:
    how long an exclusion binds, and the promises of the repository.
  \<^item> \<open>Check_Queue\<close>, \<open>Discovery\<close>, \<open>Series_Monitor\<close>: internal/scheduler/discovery.go and
    series_monitor.go with internal/db/author_discovery.go; the locale \<open>check_queue\<close> is the cursor
    both jobs share.
  \<^item> \<open>Worker_Pool\<close>: internal/concurrency/pool.go as event systems.

  \<^bold>\<open>How state corresponds.\<close>
  A Go struct is a record whose fields carry a short prefix (\<open>dl_\<close>, \<open>rq_\<close>, \<open>ll_\<close>); a nullable
  column or a pointer is an option; a Go map that the code ranges over is an association list,
  any other map a function; time.Time is the number of nanoseconds since Go's zero time. Every
  method is one definition that takes the state and, where the code reads the clock, the reading
  \<open>now\<close>, and returns the result with the new state; an error is a value of a sum or option type.
  A method that holds a mutex for its whole body, or issues one statement, is atomic; methods that
  read, then write, are also given as two halves, so that other callers may run in between; the
  automatic grab runs other callers before each of its statements on the downloads, and the
  worker pool interleaves single events of its goroutines.

  \<^bold>\<open>Bounds and fuel.\<close>
  No definition uses fuel. The loop of \<open>TrimTerminal\<close> recurses on a table that gets shorter with
  every full batch, the parsers on the text that is left, the byte cap of a file name on the range
  still to search. Integers are unbounded except where the code can overflow: durations of retry
  hints and the positions of the bencode walk wrap at 64 bits, and \<open>Time.Sub\<close> saturates.

  \<^bold>\<open>Parameters.\<close>
  The Unicode tables of the strings package (\<open>unicode\<close>), regular expressions of the decision
  engine and of the format tokens, the pack detector and the narration parser (\<open>library_fns\<close>),
  HMAC and hashes, random claim tokens and guids, clock readings, outcomes of statements, chi's
  route lookup, URL parsing, DNS and connection outcomes, the answers of download clients and of
  metadata providers, and the address group of a client (\<open>grp\<close>).

  \<^bold>\<open>Not modelled.\<close>
  Network clients (download clients, catalogues, notifiers), the search itself with its relevance
  filters, the file-system work of the importer, HTTP encoding, logging and metrics, the SQL text
  itself (a WHERE clause is a predicate, a SET clause a function on rows), the Go memory model
  below the mutexes, and the web interface. Columns joined in from other tables for display are
  left out of the rows.
\<close>

end
